(* ===== verification/Prelude.thy ===== *)
theory Prelude
  imports Main "HOL-Library.Word" "HOL-Library.List_Lexorder" "HOL-Library.Char_ord"
begin

text \<open>
  Shared vocabulary of the development: the machine types of the Rust sources, results
  that carry an error value, the decoding monad over a byte buffer, big-endian integer
  layouts and checked integer arithmetic. Everything here models the Rust language and its
  standard library; the components of the program are in the other theories.
\<close>

section \<open>Machine types\<close>

type_synonym u8 = "8 word"
type_synonym u16 = "16 word"
type_synonym u32 = "32 word"
type_synonym u64 = "64 word"
type_synonym bytes = "8 word list"

text \<open>
  A signed 64-bit integer is an \<^typ>\<open>int\<close> that satisfies \<open>in_i64\<close>; the overflowing
  operations the sources call are written out against that range.
\<close>

definition i64_min :: int where
  "i64_min = - (2 ^ 63)"

definition i64_max :: int where
  "i64_max = 2 ^ 63 - 1"

definition in_i64 :: "int \<Rightarrow> bool" where
  "in_i64 x \<longleftrightarrow> i64_min \<le> x \<and> x \<le> i64_max"

definition i64_checked_add :: "int \<Rightarrow> int \<Rightarrow> int option" where
  "i64_checked_add a b = (if in_i64 (a + b) then Some (a + b) else None)"

definition i64_checked_sub :: "int \<Rightarrow> int \<Rightarrow> int option" where
  "i64_checked_sub a b = (if in_i64 (a - b) then Some (a - b) else None)"

definition i64_saturating_add :: "int \<Rightarrow> int \<Rightarrow> int" where
  "i64_saturating_add a b = max i64_min (min i64_max (a + b))"

definition u64_checked_add :: "u64 \<Rightarrow> u64 \<Rightarrow> u64 option" where
  "u64_checked_add a b = (if unat a + unat b < 2 ^ 64 then Some (a + b) else None)"

lemmas i64_defs = in_i64_def i64_min_def i64_max_def

lemma i64_checked_add_Some [simp]:
  "i64_checked_add a b = Some c \<longleftrightarrow> in_i64 (a + b) \<and> c = a + b"
  by (auto simp: i64_checked_add_def)

lemma i64_checked_sub_Some [simp]:
  "i64_checked_sub a b = Some c \<longleftrightarrow> in_i64 (a - b) \<and> c = a - b"
  by (auto simp: i64_checked_sub_def)

lemma i64_checked_add_None [simp]: "i64_checked_add a b = None \<longleftrightarrow> \<not> in_i64 (a + b)"
  by (auto simp: i64_checked_add_def)

lemma i64_checked_sub_None [simp]: "i64_checked_sub a b = None \<longleftrightarrow> \<not> in_i64 (a - b)"
  by (auto simp: i64_checked_sub_def)

lemma u64_checked_add_1_Some:
  assumes "u64_checked_add a 1 = Some c"
  shows "unat c = Suc (unat a)" and "a < c"
proof -
  from assms have lt: "unat a + 1 < 2 ^ 64" and c: "c = a + 1"
    by (auto simp: u64_checked_add_def split: if_splits)
  from lt c show "unat c = Suc (unat a)"
    by (simp add: unat_word_ariths)
  then show "a < c"
    by (simp add: word_less_nat_alt)
qed

section \<open>Results\<close>

text \<open>
  \<open>bindR\<close> is the \<open>?\<close> operator: an error leaves the function, a value continues it.
  \<open>foldE\<close> is a \<open>for\<close> loop over a vector whose body may return early with an error.
\<close>

named_theorems result_simps

definition bindR :: "'e + 'a \<Rightarrow> ('a \<Rightarrow> 'e + 'b) \<Rightarrow> 'e + 'b" where
  "bindR m f = (case m of Inl e \<Rightarrow> Inl e | Inr x \<Rightarrow> f x)"

definition ensure :: "bool \<Rightarrow> 'e \<Rightarrow> 'e + unit" where
  "ensure c e = (if c then Inr () else Inl e)"

definition ok_or :: "'a option \<Rightarrow> 'e \<Rightarrow> 'e + 'a" where
  "ok_or x e = (case x of None \<Rightarrow> Inl e | Some v \<Rightarrow> Inr v)"

fun foldE :: "('s \<Rightarrow> 'a \<Rightarrow> 'e + 's) \<Rightarrow> 's \<Rightarrow> 'a list \<Rightarrow> 'e + 's" where
  "foldE f s [] = Inr s"
| "foldE f s (x # xs) = bindR (f s x) (\<lambda>s'. foldE f s' xs)"

lemma bindR_simps [simp]:
  "bindR (Inl e) f = Inl e"
  "bindR (Inr x) f = f x"
  by (simp_all add: bindR_def)

lemma bindR_eq_Inr [result_simps]:
  "bindR m f = Inr y \<longleftrightarrow> (\<exists>x. m = Inr x \<and> f x = Inr y)"
  by (cases m) auto

lemma bindR_eq_Inl [result_simps]:
  "bindR m f = Inl e \<longleftrightarrow> m = Inl e \<or> (\<exists>x. m = Inr x \<and> f x = Inl e)"
  by (cases m) auto

lemma ensure_eq_Inr [simp]: "ensure c e = Inr u \<longleftrightarrow> c"
  by (simp add: ensure_def)

lemma ensure_eq_Inl [simp]: "ensure c e = Inl e' \<longleftrightarrow> \<not> c \<and> e' = e"
  by (auto simp: ensure_def)

lemma ensure_simps [simp]: "ensure True e = Inr ()" "ensure False e = Inl e"
  by (simp_all add: ensure_def)

lemma ok_or_eq_Inr [simp]: "ok_or x e = Inr v \<longleftrightarrow> x = Some v"
  by (cases x) (auto simp: ok_or_def)

lemma ok_or_eq_Inl [simp]: "ok_or x e = Inl e' \<longleftrightarrow> x = None \<and> e' = e"
  by (cases x) (auto simp: ok_or_def)

lemma ok_or_simps [simp]: "ok_or None e = Inl e" "ok_or (Some v) e = Inr v"
  by (simp_all add: ok_or_def)

lemma foldE_append:
  "foldE f s (xs @ ys) = bindR (foldE f s xs) (\<lambda>s'. foldE f s' ys)"
proof (induction xs arbitrary: s)
  case (Cons x xs)
  then show ?case by (cases "f s x") simp_all
qed simp

text \<open>A loop with no state: it returns when every element passes its check.\<close>

lemma foldE_unit_iff:
  "foldE (\<lambda>_ x. f x) () xs = Inr () \<longleftrightarrow> (\<forall>x \<in> set xs. f x = Inr ())"
  by (induction xs) (auto simp: result_simps)

lemma foldE_unit_Inl:
  assumes "foldE (\<lambda>_ x. f x) () xs = Inl e"
  shows "\<exists>x \<in> set xs. f x = Inl e"
  using assms by (induction xs) (auto simp: result_simps)

section \<open>Decoders\<close>

text \<open>
  A decoder consumes a prefix of its buffer and returns the rest, so that the position of
  the Rust decoder is the length of what was consumed. \<open>repeatP n p\<close> is the loop that
  pushes \<open>n\<close> decoded elements onto a vector.
\<close>

type_synonym ('e, 'a) parser = "bytes \<Rightarrow> 'e + ('a \<times> bytes)"

named_theorems codec_simps

definition returnP :: "'a \<Rightarrow> ('e, 'a) parser" where
  "returnP x = (\<lambda>bs. Inr (x, bs))"

definition bindP :: "('e, 'a) parser \<Rightarrow> ('a \<Rightarrow> ('e, 'b) parser) \<Rightarrow> ('e, 'b) parser" where
  "bindP p f = (\<lambda>bs. case p bs of Inl e \<Rightarrow> Inl e | Inr (x, r) \<Rightarrow> f x r)"

definition liftP :: "'e + 'a \<Rightarrow> ('e, 'a) parser" where
  "liftP m = (\<lambda>bs. case m of Inl e \<Rightarrow> Inl e | Inr x \<Rightarrow> Inr (x, bs))"

fun repeatP :: "nat \<Rightarrow> ('e, 'a) parser \<Rightarrow> ('e, 'a list) parser" where
  "repeatP 0 p = returnP []"
| "repeatP (Suc n) p = bindP p (\<lambda>x. bindP (repeatP n p) (\<lambda>xs. returnP (x # xs)))"

lemma returnP_run [simp]: "returnP x bs = Inr (x, bs)"
  by (simp add: returnP_def)

lemma bindP_run: "p bs = Inr (x, r) \<Longrightarrow> bindP p f bs = f x r"
  by (simp add: bindP_def)

lemma bindP_fail: "p bs = Inl e \<Longrightarrow> bindP p f bs = Inl e"
  by (simp add: bindP_def)

lemma bindP_eq_Inr [codec_simps]:
  "bindP p f bs = Inr (y, t) \<longleftrightarrow> (\<exists>x r. p bs = Inr (x, r) \<and> f x r = Inr (y, t))"
  by (auto simp: bindP_def split: sum.splits)

lemma liftP_run [simp]: "liftP (Inr x) bs = Inr (x, bs)" "liftP (Inl e) bs = Inl e"
  by (simp_all add: liftP_def)

lemma liftP_eq_Inr [codec_simps]: "liftP m bs = Inr (x, r) \<longleftrightarrow> m = Inr x \<and> r = bs"
  by (cases m) (auto simp: liftP_def)

lemma returnP_eq_Inr [codec_simps]: "returnP x bs = Inr (y, r) \<longleftrightarrow> y = x \<and> r = bs"
  by (auto simp: returnP_def)

lemma repeatP_encoded:
  assumes "\<And>x r. x \<in> set xs \<Longrightarrow> p (e x @ r) = Inr (x, r)"
  shows "repeatP (length xs) p (concat (map e xs) @ r) = Inr (xs, r)"
  using assms
proof (induction xs arbitrary: r)
  case (Cons x xs)
  have "repeatP (length xs) p (concat (map e xs) @ r) = Inr (xs, r)"
    by (rule Cons.IH) (simp add: Cons.prems)
  moreover have "p (e x @ (concat (map e xs) @ r)) = Inr (x, concat (map e xs) @ r)"
    by (rule Cons.prems) simp
  ultimately show ?case
    by (simp add: bindP_run)
qed simp

lemma repeatP_length: "repeatP n p bs = Inr (xs, r) \<Longrightarrow> length xs = n"
  by (induction n arbitrary: bs xs r) (auto simp: codec_simps)

lemma repeatP_all:
  assumes "\<And>bs x r. p bs = Inr (x, r) \<Longrightarrow> P x"
  shows "repeatP n p bs = Inr (xs, r) \<Longrightarrow> \<forall>x \<in> set xs. P x"
  using assms
proof (induction n arbitrary: bs xs r)
  case (Suc n)
  from Suc.prems(1) obtain x r1 xs' where
    hd: "p bs = Inr (x, r1)" and tl: "repeatP n p r1 = Inr (xs', r)" and xs: "xs = x # xs'"
    by (auto simp: codec_simps)
  from Suc.IH [OF tl Suc.prems(2)] have "\<forall>x \<in> set xs'. P x" .
  with Suc.prems(2) [OF hd] xs show ?case by simp
qed simp

section \<open>Big-endian integers\<close>

text \<open>
  \<open>be_bytes k n\<close> is \<open>to_be_bytes\<close> of a \<open>k\<close>-byte unsigned integer and \<open>be_val\<close> is
  \<open>from_be_bytes\<close>.
\<close>

primrec be_bytes :: "nat \<Rightarrow> nat \<Rightarrow> bytes" where
  "be_bytes 0 n = []"
| "be_bytes (Suc k) n = word_of_nat (n div 256 ^ k) # be_bytes k n"

definition be_val :: "bytes \<Rightarrow> nat" where
  "be_val bs = foldl (\<lambda>a b. 256 * a + unat b) 0 bs"

lemma length_be_bytes [simp]: "length (be_bytes k n) = k"
  by (induction k) simp_all

lemma unat_word_of_nat_8: "unat (word_of_nat n :: u8) = n mod 256"
  by (simp add: unat_of_nat)

lemma foldl_be_bytes:
  "foldl (\<lambda>a b. 256 * a + unat b) a (be_bytes k n) = 256 ^ k * a + n mod 256 ^ k"
proof (induction k arbitrary: a)
  case (Suc k)
  have "n mod 256 ^ Suc k = 256 ^ k * (n div 256 ^ k mod 256) + n mod 256 ^ k"
    by (simp add: mult.commute [of 256] mod_mult2_eq)
  with Suc show ?case
    by (simp add: unat_word_of_nat_8 algebra_simps)
qed simp

lemma be_val_be_bytes: "n < 256 ^ k \<Longrightarrow> be_val (be_bytes k n) = n"
  by (simp add: be_val_def foldl_be_bytes)

lemma foldl_be_bound:
  "foldl (\<lambda>a b. 256 * a + unat b) a (bs :: bytes) < 256 ^ length bs * (a + 1)"
proof (induction bs arbitrary: a)
  case (Cons b bs)
  have "unat b < 2 ^ LENGTH(8)"
    by (rule unsigned_less)
  then have "unat b < 256"
    by simp
  then have le: "256 * a + unat b + 1 \<le> 256 * (a + 1)"
    by simp
  have "foldl (\<lambda>a b. 256 * a + unat b) (256 * a + unat b) bs
      < 256 ^ length bs * (256 * a + unat b + 1)"
    by (rule Cons.IH)
  also have "\<dots> \<le> 256 ^ length bs * (256 * (a + 1))"
    using le by (rule mult_le_mono2)
  also have "\<dots> = 256 ^ length (b # bs) * (a + 1)"
    by (simp only: length_Cons power_Suc mult_ac)
  finally show ?case
    by (simp only: foldl_Cons)
qed simp

lemma be_val_bound: "be_val bs < 256 ^ length bs"
  using foldl_be_bound [of 0 bs] by (simp add: be_val_def)

lemma be_val_Cons: "be_val (b # bs) = 256 ^ length bs * unat b + be_val bs"
proof -
  have "foldl (\<lambda>a b. 256 * a + unat b) a bs = 256 ^ length bs * a + foldl (\<lambda>a b. 256 * a + unat b) 0 bs"
    for a and bs :: bytes
  proof (induction bs arbitrary: a)
    case (Cons x xs)
    show ?case
      using Cons.IH [of "256 * a + unat x"] Cons.IH [of "unat x"] by (simp add: algebra_simps)
  qed simp
  from this [of "unat b"] show ?thesis
    by (simp add: be_val_def)
qed

lemma be_bytes_shift: "be_bytes k (256 ^ k * a + n) = be_bytes k n"
proof (induction k arbitrary: a)
  case (Suc k)
  have "256 ^ Suc k * a + n = 256 ^ k * (256 * a) + n"
    by simp
  moreover have "word_of_nat ((256 ^ k * (256 * a) + n) div 256 ^ k) = (word_of_nat (n div 256 ^ k) :: u8)"
    by (rule word_unat_eq_iff [THEN iffD2])
      (simp only: unat_word_of_nat_8, simp)
  ultimately show ?case
    unfolding be_bytes.simps(2) by (simp only: Suc.IH)
qed simp

lemma be_bytes_be_val: "length b = k \<Longrightarrow> be_bytes k (be_val b) = b"
proof (induction b arbitrary: k)
  case (Cons x xs)
  have "(256 ^ length xs * unat x + be_val xs) div 256 ^ length xs = unat x"
    using be_val_bound [of xs] by simp
  with Cons show ?case
    by (auto simp: be_val_Cons be_bytes_shift)
qed simp

lemma be_bytes_iff: "length b = k \<Longrightarrow> n < 256 ^ k \<Longrightarrow> be_val b = n \<longleftrightarrow> b = be_bytes k n"
  using be_bytes_be_val be_val_be_bytes by metis

section \<open>Lists\<close>

text \<open>\<open>split_on c\<close> is \<open>str::split\<close> on a single character.\<close>

fun split_on :: "'a \<Rightarrow> 'a list \<Rightarrow> 'a list list" where
  "split_on c [] = [[]]"
| "split_on c (x # xs) =
     (if x = c then [] # split_on c xs
      else case split_on c xs of [] \<Rightarrow> [[x]] | y # ys \<Rightarrow> (x # y) # ys)"

lemma split_on_nonempty [simp]: "split_on c xs \<noteq> []"
  by (induction xs) (auto split: list.splits)

lemma find_Some_mem: "List.find P xs = Some x \<Longrightarrow> x \<in> set xs \<and> P x"
  by (induction xs) (auto split: if_splits)

lemma find_None_all: "List.find P xs = None \<longleftrightarrow> (\<forall>x \<in> set xs. \<not> P x)"
  by (induction xs) auto

lemma find_unique:
  assumes "distinct (map f xs)" and "x \<in> set xs" and "f x = k"
  shows "List.find (\<lambda>y. f y = k) xs = Some x"
  using assms by (induction xs) (auto simp: rev_image_eqI)

end
