(* ===== verification/Minicbor.thy ===== *)
theory Minicbor
  imports Prelude
begin

text \<open>
  The interface of the third-party CBOR codec (the \<open>minicbor\<close> crate) that the policy and
  COSE layers call. The codec is a parameter of the model: a record of the encoder and
  decoder methods the sources use. The locale \<open>cbor_codec\<close> states the documented behaviour
  the sources rely on, and \<open>rfc8949\<close> is a codec that follows RFC 8949, on which the locale
  is interpreted.
\<close>

section \<open>UTF-8\<close>

text \<open>
  A Rust \<open>String\<close> holds well-formed UTF-8. A model string is the list of its bytes.
\<close>

definition char_code :: "char \<Rightarrow> nat" where
  "char_code c = of_char c"

definition is_continuation :: "nat \<Rightarrow> bool" where
  "is_continuation b \<longleftrightarrow> 128 \<le> b \<and> b \<le> 191"

fun utf8_codes :: "nat list \<Rightarrow> bool" where
  "utf8_codes [] = True"
| "utf8_codes (a # xs) =
     (if a < 128 then utf8_codes xs
      else case xs of
        [] \<Rightarrow> False
      | b # ys \<Rightarrow>
          if 194 \<le> a \<and> a \<le> 223 then is_continuation b \<and> utf8_codes ys
          else case ys of
            [] \<Rightarrow> False
          | c # zs \<Rightarrow>
              if 224 \<le> a \<and> a \<le> 239 then
                is_continuation b \<and> is_continuation c
                \<and> (a = 224 \<longrightarrow> 160 \<le> b) \<and> (a = 237 \<longrightarrow> b \<le> 159) \<and> utf8_codes zs
              else case zs of
                [] \<Rightarrow> False
              | d # us \<Rightarrow>
                  240 \<le> a \<and> a \<le> 244
                  \<and> is_continuation b \<and> is_continuation c \<and> is_continuation d
                  \<and> (a = 240 \<longrightarrow> 144 \<le> b) \<and> (a = 244 \<longrightarrow> b \<le> 143) \<and> utf8_codes us)"

definition utf8_valid :: "string \<Rightarrow> bool" where
  "utf8_valid s \<longleftrightarrow> utf8_codes (map char_code s)"

lemma utf8_codes_ascii: "\<forall>x \<in> set xs. x < 128 \<Longrightarrow> utf8_codes xs"
  by (induction xs) auto

lemma utf8_valid_ascii: "\<forall>c \<in> set s. char_code c < 128 \<Longrightarrow> utf8_valid s"
  by (simp add: utf8_valid_def utf8_codes_ascii)

section \<open>The codec as a parameter\<close>

datatype cbor_type = TypeNull | TypeBytes | TypeOther

record minicbor =
  enc_u8 :: "u8 \<Rightarrow> bytes"
  enc_u16 :: "u16 \<Rightarrow> bytes"
  enc_u64 :: "u64 \<Rightarrow> bytes"
  enc_i8 :: "int \<Rightarrow> bytes"
  enc_i64 :: "int \<Rightarrow> bytes"
  enc_bytes :: "bytes \<Rightarrow> bytes"
  enc_str :: "string \<Rightarrow> bytes"
  enc_null :: bytes
  enc_map :: "u64 \<Rightarrow> bytes"
  enc_array :: "u64 \<Rightarrow> bytes"
  dec_u16 :: "bytes \<Rightarrow> (u16 \<times> bytes) option"
  dec_u64 :: "bytes \<Rightarrow> (u64 \<times> bytes) option"
  dec_i64 :: "bytes \<Rightarrow> (int \<times> bytes) option"
  dec_bytes :: "bytes \<Rightarrow> (bytes \<times> bytes) option"
  dec_str :: "bytes \<Rightarrow> (string \<times> bytes) option"
  dec_null :: "bytes \<Rightarrow> (unit \<times> bytes) option"
  dec_map :: "bytes \<Rightarrow> (u64 option \<times> bytes) option"
  dec_array :: "bytes \<Rightarrow> (u64 option \<times> bytes) option"
  dec_datatype :: "bytes \<Rightarrow> cbor_type option"

text \<open>
  The laws: what an encoder method writes, the decoder method for the same CBOR type reads
  back and leaves what follows; a decoded integer or string is a value of its Rust type.
  Nothing is assumed of inputs no encoder wrote.
\<close>

locale cbor_codec =
  fixes M :: minicbor
  assumes u64_of_u8: "dec_u64 M (enc_u8 M a @ r) = Some (ucast a, r)"
    and u64_of_u16: "dec_u64 M (enc_u16 M b @ r) = Some (ucast b, r)"
    and u64_of_u64: "dec_u64 M (enc_u64 M c @ r) = Some (c, r)"
    and u16_of_u16: "dec_u16 M (enc_u16 M b @ r) = Some (b, r)"
    and i64_of_i8: "- 128 \<le> x \<Longrightarrow> x < 128 \<Longrightarrow> dec_i64 M (enc_i8 M x @ r) = Some (x, r)"
    and i64_of_i64: "in_i64 x \<Longrightarrow> dec_i64 M (enc_i64 M x @ r) = Some (x, r)"
    and bytes_of_bytes:
      "length v < 2 ^ 64 \<Longrightarrow> dec_bytes M (enc_bytes M v @ r) = Some (v, r)"
    and str_of_str:
      "utf8_valid s \<Longrightarrow> length s < 2 ^ 64 \<Longrightarrow> dec_str M (enc_str M s @ r) = Some (s, r)"
    and null_of_null: "dec_null M (enc_null M @ r) = Some ((), r)"
    and map_of_map: "dec_map M (enc_map M c @ r) = Some (Some c, r)"
    and array_of_array: "dec_array M (enc_array M c @ r) = Some (Some c, r)"
    and datatype_null: "dec_datatype M (enc_null M @ r) = Some TypeNull"
    and datatype_bytes:
      "length v < 2 ^ 64 \<Longrightarrow> dec_datatype M (enc_bytes M v @ r) = Some TypeBytes"
    and i64_in_range: "dec_i64 M bs = Some (x, r) \<Longrightarrow> in_i64 x"
    and str_utf8: "dec_str M bs = Some (s, r) \<Longrightarrow> utf8_valid s"

section \<open>A codec that follows RFC 8949\<close>

definition initial_byte :: "nat \<Rightarrow> nat \<Rightarrow> u8" where
  "initial_byte major info = word_of_nat (32 * major + info)"

definition cbor_head :: "nat \<Rightarrow> nat \<Rightarrow> bytes" where
  "cbor_head major n =
     (if n < 24 then [initial_byte major n]
      else if n < 256 then initial_byte major 24 # be_bytes 1 n
      else if n < 65536 then initial_byte major 25 # be_bytes 2 n
      else if n < 4294967296 then initial_byte major 26 # be_bytes 4 n
      else initial_byte major 27 # be_bytes 8 n)"

definition take_be :: "nat \<Rightarrow> bytes \<Rightarrow> (nat \<times> bytes) option" where
  "take_be k bs = (if length bs < k then None else Some (be_val (take k bs), drop k bs))"

text \<open>\<open>read_head\<close> returns the major type, the argument (\<open>None\<close> for an indefinite length)
  and the rest of the buffer.\<close>

definition read_head :: "bytes \<Rightarrow> (nat \<times> nat option \<times> bytes) option" where
  "read_head bs =
     (case bs of
        [] \<Rightarrow> None
      | b # r \<Rightarrow>
          let major = unat b div 32; info = unat b mod 32 in
          if info < 24 then Some (major, Some info, r)
          else if info = 31 then Some (major, None, r)
          else if info < 28 then
            map_option (\<lambda>(n, r'). (major, Some n, r')) (take_be (2 ^ (info - 24)) r)
          else None)"

definition read_arg :: "nat \<Rightarrow> bytes \<Rightarrow> (nat \<times> bytes) option" where
  "read_arg major bs =
     (case read_head bs of
        Some (m, Some n, r) \<Rightarrow> if m = major then Some (n, r) else None
      | _ \<Rightarrow> None)"

definition read_len :: "nat \<Rightarrow> bytes \<Rightarrow> (u64 option \<times> bytes) option" where
  "read_len major bs =
     (case read_head bs of
        Some (m, n, r) \<Rightarrow> if m = major then Some (map_option word_of_nat n, r) else None
      | None \<Rightarrow> None)"

definition read_chunk :: "nat \<Rightarrow> bytes \<Rightarrow> (bytes \<times> bytes) option" where
  "read_chunk major bs =
     (case read_arg major bs of
        None \<Rightarrow> None
      | Some (n, r) \<Rightarrow> if length r < n then None else Some (take n r, drop n r))"

definition enc_int :: "int \<Rightarrow> bytes" where
  "enc_int x = (if 0 \<le> x then cbor_head 0 (nat x) else cbor_head 1 (nat (- 1 - x)))"

definition char_byte :: "char \<Rightarrow> u8" where
  "char_byte c = word_of_nat (char_code c)"

definition byte_char :: "u8 \<Rightarrow> char" where
  "byte_char b = char_of (unat b)"

definition rfc8949 :: minicbor where
  "rfc8949 = \<lparr>
     enc_u8 = (\<lambda>x. cbor_head 0 (unat x)),
     enc_u16 = (\<lambda>x. cbor_head 0 (unat x)),
     enc_u64 = (\<lambda>x. cbor_head 0 (unat x)),
     enc_i8 = enc_int,
     enc_i64 = enc_int,
     enc_bytes = (\<lambda>v. cbor_head 2 (length v) @ v),
     enc_str = (\<lambda>s. cbor_head 3 (length s) @ map char_byte s),
     enc_null = [246],
     enc_map = (\<lambda>x. cbor_head 5 (unat x)),
     enc_array = (\<lambda>x. cbor_head 4 (unat x)),
     dec_u16 = (\<lambda>bs. case read_arg 0 bs of
        Some (n, r) \<Rightarrow> if n < 65536 then Some (word_of_nat n, r) else None | None \<Rightarrow> None),
     dec_u64 = (\<lambda>bs. map_option (\<lambda>(n, r). (word_of_nat n, r)) (read_arg 0 bs)),
     dec_i64 = (\<lambda>bs. case read_head bs of
        Some (m, Some n, r) \<Rightarrow>
          if m = 0 \<and> int n \<le> i64_max then Some (int n, r)
          else if m = 1 \<and> int n \<le> i64_max then Some (- 1 - int n, r) else None
      | _ \<Rightarrow> None),
     dec_bytes = read_chunk 2,
     dec_str = (\<lambda>bs. case read_chunk 3 bs of
        Some (v, r) \<Rightarrow>
          if utf8_valid (map byte_char v) then Some (map byte_char v, r) else None
      | None \<Rightarrow> None),
     dec_null = (\<lambda>bs. case bs of b # r \<Rightarrow> if b = 246 then Some ((), r) else None | [] \<Rightarrow> None),
     dec_map = read_len 5,
     dec_array = read_len 4,
     dec_datatype = (\<lambda>bs. case bs of
        [] \<Rightarrow> None
      | b # r \<Rightarrow>
          if b = 246 then Some TypeNull
          else if unat b div 32 = 2 \<and> unat b mod 32 < 28 then Some TypeBytes
          else Some TypeOther) \<rparr>"

lemma char_byte_char [simp]: "byte_char (char_byte c) = c"
proof -
  have "char_code c < 256"
    by (simp add: char_code_def)
  then show ?thesis
    by (simp add: byte_char_def char_byte_def unat_word_of_nat_8)
       (simp add: char_code_def)
qed

lemma take_be_be_bytes: "n < 256 ^ k \<Longrightarrow> take_be k (be_bytes k n @ r) = Some (n, r)"
  by (simp add: take_be_def be_val_be_bytes)

lemma unat_initial_byte:
  assumes "major < 8" and "info < 32"
  shows "unat (initial_byte major info) = 32 * major + info"
  unfolding initial_byte_def using assms by (subst unat_word_of_nat_8) simp

lemma read_head_head:
  assumes "major < 8" and "n < 2 ^ 64"
  shows "read_head (cbor_head major n @ r) = Some (major, Some n, r)"
  using assms take_be_be_bytes [of n 1] take_be_be_bytes [of n 2] take_be_be_bytes [of n 4]
    take_be_be_bytes [of n 8]
  by (simp add: cbor_head_def read_head_def Let_def unat_initial_byte del: be_bytes.simps)

lemma read_arg_head:
  "major < 8 \<Longrightarrow> n < 2 ^ 64 \<Longrightarrow> read_arg major (cbor_head major n @ r) = Some (n, r)"
  by (simp add: read_arg_def read_head_head)

lemma read_chunk_head:
  assumes "major < 8" and "length v < 2 ^ 64"
  shows "read_chunk major (cbor_head major (length v) @ v @ r) = Some (v, r)"
  unfolding read_chunk_def read_arg_head [OF assms] by simp

lemma cbor_head_first:
  assumes "major < 8"
  shows "\<exists>b t. cbor_head major n = b # t \<and> unat b div 32 = major \<and> unat b mod 32 < 28"
  using assms by (auto simp: cbor_head_def unat_initial_byte simp del: be_bytes.simps)

lemma unat_bounds:
  "unat (x :: u64) < 18446744073709551616"
  "unat (y :: u8) < 18446744073709551616"
  "unat (z :: u16) < 18446744073709551616"
  "unat (z :: u16) < 65536"
proof -
  have "unat x < 2 ^ LENGTH(64)" "unat y < 2 ^ LENGTH(8)" "unat z < 2 ^ LENGTH(16)"
    by (rule unsigned_less)+
  then show "unat x < 18446744073709551616" "unat y < 18446744073709551616"
      "unat z < 18446744073709551616" "unat z < 65536"
    by simp_all
qed

interpretation rfc: cbor_codec rfc8949
proof unfold_locales
  fix a :: u8 and b :: u16 and c :: u64 and x :: int and v r bs :: bytes and s :: string
  show "dec_u64 rfc8949 (enc_u8 rfc8949 a @ r) = Some (ucast a, r)"
    by (simp add: rfc8949_def read_arg_head unat_bounds)
  show "dec_u64 rfc8949 (enc_u16 rfc8949 b @ r) = Some (ucast b, r)"
    by (simp add: rfc8949_def read_arg_head unat_bounds)
  show "dec_u64 rfc8949 (enc_u64 rfc8949 c @ r) = Some (c, r)"
    by (simp add: rfc8949_def read_arg_head unat_bounds)
  show "dec_u16 rfc8949 (enc_u16 rfc8949 b @ r) = Some (b, r)"
    by (simp add: rfc8949_def read_arg_head unat_bounds)
  show "dec_i64 rfc8949 (enc_i64 rfc8949 x @ r) = Some (x, r)" if "in_i64 x"
    using that by (auto simp: rfc8949_def enc_int_def read_head_head i64_defs)
  show "dec_i64 rfc8949 (enc_i8 rfc8949 x @ r) = Some (x, r)" if "- 128 \<le> x" "x < 128"
    using that by (auto simp: rfc8949_def enc_int_def read_head_head i64_defs)
  show "dec_bytes rfc8949 (enc_bytes rfc8949 v @ r) = Some (v, r)" if "length v < 2 ^ 64"
    using that by (simp add: rfc8949_def read_chunk_head)
  show "dec_str rfc8949 (enc_str rfc8949 s @ r) = Some (s, r)"
    if "utf8_valid s" and "length s < 2 ^ 64"
    using that read_chunk_head [of 3 "map char_byte s" r]
    by (simp add: rfc8949_def comp_def)
  show "dec_null rfc8949 (enc_null rfc8949 @ r) = Some ((), r)"
    by (simp add: rfc8949_def)
  show "dec_map rfc8949 (enc_map rfc8949 c @ r) = Some (Some c, r)"
    by (simp add: rfc8949_def read_len_def read_head_head unat_bounds)
  show "dec_array rfc8949 (enc_array rfc8949 c @ r) = Some (Some c, r)"
    by (simp add: rfc8949_def read_len_def read_head_head unat_bounds)
  show "dec_datatype rfc8949 (enc_null rfc8949 @ r) = Some TypeNull"
    by (simp add: rfc8949_def)
  show "dec_datatype rfc8949 (enc_bytes rfc8949 v @ r) = Some TypeBytes"
    using cbor_head_first [of 2 "length v"] by (auto simp: rfc8949_def)
  show "in_i64 x" if "dec_i64 rfc8949 bs = Some (x, r)"
    using that by (auto simp: rfc8949_def i64_defs split: option.splits if_splits)
  show "utf8_valid s" if "dec_str rfc8949 bs = Some (s, r)"
    using that by (auto simp: rfc8949_def split: option.splits if_splits)
qed

end
