(* ===== verification/Policy_Schema.thy ===== *)
theory Policy_Schema
  imports Prelude Minicbor
begin

text \<open>
  The data model of the signed endpoint policy (\<open>signed_policy/schema.rs\<close>) and its error
  type (\<open>signed_policy/error.rs\<close>). A struct is a record whose fields carry a short prefix, a
  fixed-size array is a byte list, a timestamp an \<^typ>\<open>int\<close>. The predicates \<open>*_typed\<close> say
  what the Rust types already guarantee: array lengths, the range of an \<open>i64\<close> and the
  UTF-8 encoding of a \<open>String\<close>.
\<close>

section \<open>Limits\<close>

definition MAX_BUNDLE_BYTES :: nat where "MAX_BUNDLE_BYTES = 64 * 1024"
definition MAX_SIGN1_BYTES :: nat where "MAX_SIGN1_BYTES = 60 * 1024"
definition MAX_KEYSET_KEYS :: nat where "MAX_KEYSET_KEYS = 16"
definition MAX_SERVICES :: nat where "MAX_SERVICES = 16"
definition MAX_ENDPOINTS_PER_SERVICE :: nat where "MAX_ENDPOINTS_PER_SERVICE = 16"
definition MAX_TOTAL_ENDPOINTS :: nat where "MAX_TOTAL_ENDPOINTS = 32"
definition MAX_PINS_PER_SERVICE :: nat where "MAX_PINS_PER_SERVICE = 3"
definition MAX_EVIDENCE_REFS :: nat where "MAX_EVIDENCE_REFS = 16"
definition MAX_SNI_BYTES :: nat where "MAX_SNI_BYTES = 253"
definition MAX_LOCATOR_NAME_BYTES :: nat where "MAX_LOCATOR_NAME_BYTES = 253"
definition MAX_SHORT_ID_BYTES :: nat where "MAX_SHORT_ID_BYTES = 8"
definition MAX_CLOCK_SKEW_SECS :: int where "MAX_CLOCK_SKEW_SECS = 5 * 60"
definition POLICY_MAX_TTL_SECS :: int where "POLICY_MAX_TTL_SECS = 7 * 24 * 60 * 60"
definition KEYSET_MAX_TTL_SECS :: int where "KEYSET_MAX_TTL_SECS = 90 * 24 * 60 * 60"
definition MIN_ROTATION_OVERLAP_SECS :: int where "MIN_ROTATION_OVERLAP_SECS = 24 * 60 * 60"
definition KEYSET_SCHEMA_VERSION :: u64 where "KEYSET_SCHEMA_VERSION = 1"
definition POLICY_SCHEMA_VERSION :: u64 where "POLICY_SCHEMA_VERSION = 2"
definition KEYSET_OBJECT_KIND :: u64 where "KEYSET_OBJECT_KIND = 1"
definition POLICY_OBJECT_KIND :: u64 where "POLICY_OBJECT_KIND = 2"

lemmas limit_defs =
  MAX_BUNDLE_BYTES_def MAX_SIGN1_BYTES_def MAX_KEYSET_KEYS_def MAX_SERVICES_def
  MAX_ENDPOINTS_PER_SERVICE_def MAX_TOTAL_ENDPOINTS_def MAX_PINS_PER_SERVICE_def
  MAX_EVIDENCE_REFS_def MAX_SNI_BYTES_def MAX_LOCATOR_NAME_BYTES_def MAX_SHORT_ID_BYTES_def
  MAX_CLOCK_SKEW_SECS_def POLICY_MAX_TTL_SECS_def KEYSET_MAX_TTL_SECS_def
  MIN_ROTATION_OVERLAP_SECS_def KEYSET_SCHEMA_VERSION_def POLICY_SCHEMA_VERSION_def
  KEYSET_OBJECT_KIND_def POLICY_OBJECT_KIND_def

section \<open>Enumerations\<close>

datatype key_status = KeyActive | KeyRetiring | KeyRevoked

datatype pin_status = PinActive | PinRetiring

datatype transport = RealityTcp

datatype rule_action = ProtectedOnly

fun key_status_u8 :: "key_status \<Rightarrow> u8" where
  "key_status_u8 KeyActive = 1"
| "key_status_u8 KeyRetiring = 2"
| "key_status_u8 KeyRevoked = 3"

definition key_status_try_from :: "u64 \<Rightarrow> key_status option" where
  "key_status_try_from v =
     (if v = 1 then Some KeyActive else if v = 2 then Some KeyRetiring
      else if v = 3 then Some KeyRevoked else None)"

fun pin_status_u8 :: "pin_status \<Rightarrow> u8" where
  "pin_status_u8 PinActive = 1"
| "pin_status_u8 PinRetiring = 2"

definition pin_status_try_from :: "u64 \<Rightarrow> pin_status option" where
  "pin_status_try_from v =
     (if v = 1 then Some PinActive else if v = 2 then Some PinRetiring else None)"

fun transport_u8 :: "transport \<Rightarrow> u8" where
  "transport_u8 RealityTcp = 1"

definition transport_try_from :: "u64 \<Rightarrow> transport option" where
  "transport_try_from v = (if v = 1 then Some RealityTcp else None)"

fun rule_action_u8 :: "rule_action \<Rightarrow> u8" where
  "rule_action_u8 ProtectedOnly = 1"

definition rule_action_try_from :: "u64 \<Rightarrow> rule_action option" where
  "rule_action_try_from v = (if v = 1 then Some ProtectedOnly else None)"

lemma try_from_u8 [simp]:
  "key_status_try_from (ucast (key_status_u8 k)) = Some k"
  "pin_status_try_from (ucast (pin_status_u8 p)) = Some p"
  "transport_try_from (ucast (transport_u8 t)) = Some t"
  "rule_action_try_from (ucast (rule_action_u8 a)) = Some a"
  by (cases k; cases p; cases t; cases a;
      simp add: key_status_try_from_def pin_status_try_from_def transport_try_from_def
        rule_action_try_from_def)+

section \<open>Signed objects\<close>

record trusted_root =
  root_kid :: bytes
  root_ed25519_public_key :: bytes

record online_key =
  key_kid :: bytes
  key_ed25519_public_key :: bytes
  key_not_before :: int
  key_expires_at :: int
  key_status :: key_status
  key_status_since :: int

record keyset =
  ks_keyset_epoch :: u64
  ks_issued_at :: int
  ks_not_before :: int
  ks_expires_at :: int
  ks_previous_payload_hash :: "bytes option"
  ks_keys :: "online_key list"

record server_pin =
  pin_fingerprint :: bytes
  pin_not_before :: int
  pin_expires_at :: int
  pin_status :: pin_status
  pin_status_since :: int

record reality_endpoint =
  ep_endpoint_id :: bytes
  ep_transport :: transport
  ep_ipv4 :: bytes
  ep_port :: u16
  ep_locator_name :: string
  ep_sni :: string
  ep_reality_x25519_public_key :: bytes
  ep_reality_short_id :: bytes

record service =
  svc_service_id :: bytes
  svc_pins :: "server_pin list"
  svc_endpoints :: "reality_endpoint list"

record policy_rule =
  rule_action :: rule_action
  rule_service_ids :: "bytes list"

record endpoint_policy =
  pol_keyset_epoch :: u64
  pol_keyset_payload_hash :: bytes
  pol_policy_epoch :: u64
  pol_sequence :: u64
  pol_issued_at :: int
  pol_not_before :: int
  pol_expires_at :: int
  pol_previous_payload_hash :: "bytes option"
  pol_services :: "service list"
  pol_rules :: "policy_rule list"
  pol_experiment_evidence :: "bytes list"

section \<open>What the Rust types guarantee\<close>

definition hash_opt_typed :: "bytes option \<Rightarrow> bool" where
  "hash_opt_typed h \<longleftrightarrow> (case h of None \<Rightarrow> True | Some v \<Rightarrow> length v = 32)"

definition online_key_typed :: "online_key \<Rightarrow> bool" where
  "online_key_typed k \<longleftrightarrow>
     length (key_kid k) = 16 \<and> length (key_ed25519_public_key k) = 32
     \<and> in_i64 (key_not_before k) \<and> in_i64 (key_expires_at k) \<and> in_i64 (key_status_since k)"

definition keyset_typed :: "keyset \<Rightarrow> bool" where
  "keyset_typed ks \<longleftrightarrow>
     in_i64 (ks_issued_at ks) \<and> in_i64 (ks_not_before ks) \<and> in_i64 (ks_expires_at ks)
     \<and> hash_opt_typed (ks_previous_payload_hash ks) \<and> (\<forall>k \<in> set (ks_keys ks). online_key_typed k)"

definition pin_typed :: "server_pin \<Rightarrow> bool" where
  "pin_typed p \<longleftrightarrow>
     length (pin_fingerprint p) = 32 \<and> in_i64 (pin_not_before p)
     \<and> in_i64 (pin_expires_at p) \<and> in_i64 (pin_status_since p)"

definition endpoint_typed :: "reality_endpoint \<Rightarrow> bool" where
  "endpoint_typed e \<longleftrightarrow>
     length (ep_endpoint_id e) = 16 \<and> length (ep_ipv4 e) = 4
     \<and> utf8_valid (ep_locator_name e) \<and> utf8_valid (ep_sni e)
     \<and> length (ep_reality_x25519_public_key e) = 32"

definition service_typed :: "service \<Rightarrow> bool" where
  "service_typed s \<longleftrightarrow>
     length (svc_service_id s) = 16 \<and> (\<forall>p \<in> set (svc_pins s). pin_typed p)
     \<and> (\<forall>e \<in> set (svc_endpoints s). endpoint_typed e)"

definition rule_typed :: "policy_rule \<Rightarrow> bool" where
  "rule_typed r \<longleftrightarrow> (\<forall>i \<in> set (rule_service_ids r). length i = 16)"

definition policy_typed :: "endpoint_policy \<Rightarrow> bool" where
  "policy_typed p \<longleftrightarrow>
     length (pol_keyset_payload_hash p) = 32
     \<and> in_i64 (pol_issued_at p) \<and> in_i64 (pol_not_before p) \<and> in_i64 (pol_expires_at p)
     \<and> hash_opt_typed (pol_previous_payload_hash p)
     \<and> (\<forall>s \<in> set (pol_services p). service_typed s)
     \<and> (\<forall>r \<in> set (pol_rules p). rule_typed r)
     \<and> (\<forall>h \<in> set (pol_experiment_evidence p). length h = 32)"

lemmas typed_defs =
  hash_opt_typed_def online_key_typed_def keyset_typed_def pin_typed_def endpoint_typed_def
  service_typed_def rule_typed_def policy_typed_def

section \<open>Errors\<close>

text \<open>
  \<open>PolicyError\<close>. A message string is represented by one constructor per message; the
  values interpolated into it are kept where the message has them. The text of a codec
  error is third-party and is not represented. \<open>Panicked\<close> is not a variant of the source:
  it stands for a Rust panic, so that a slice out of range is a branch of the model.
\<close>

datatype cbor_reason =
    FieldCount string u64 u64
  | IndefiniteMap string
  | EntryCount string nat nat
  | IndefiniteArray string
  | FieldOrder string u64 u64
  | ByteLength string nat nat
  | NullOrBstr32 string
  | TrailingBytes string nat
  | UnknownKeyStatus u64
  | UnknownPinStatus u64
  | UnsupportedTransport u64
  | UnsupportedRuleAction u64
  | UnsupportedSchema string u64
  | ObjectKind string u64
  | StringTooLong string nat nat
  | TooManyEndpoints
  | EndpointCountOverflow

datatype cose_reason =
    HeaderLabel u64 u64
  | HeaderFields u64
  | Algorithm int
  | CritEntries u64
  | CritLabel u64
  | LegacyPolicyContentType
  | UnsupportedContentType string
  | KidLength nat
  | HeaderSchema u64
  | IndefiniteLength string
  | LengthOverflow string
  | NotTagged18
  | Sign1Fields u64
  | UnprotectedNotEmpty
  | SignatureLength nat
  | CoseTrailingBytes string nat
  | ContentTypeMismatch
  | KidMismatch

datatype verify_reason =
    NegativeTimestamp string
  | IssuedOutsideWindow string
  | WindowOverflow string
  | TtlOutOfRange string int int
  | IssuedInFuture string
  | NegativeApplyTime
  | ApplySkew
  | KeysetEmpty
  | KeysNotSorted
  | DuplicatePublicKey
  | ZeroPublicKey
  | KeyLifetimeOutsideKeyset
  | KeyWindowEmpty
  | KeyStatusSinceOutside
  | NoUsableActiveKey
  | ZeroRootKey
  | DnsNotAscii string
  | DnsNotCanonical string
  | DnsTooFewLabels string
  | DnsBadLabel string string
  | NoServices
  | ServicesNotSorted
  | NoPins
  | PinsNotSorted
  | ZeroPin
  | PinLifetimeTooShort
  | PinTimestamps
  | NoActivePin
  | NoEndpoints
  | EndpointsNotSorted
  | DuplicateEndpointId
  | EndpointBound
  | ZeroPort
  | SpecialIpv4
  | LowOrderPublicKey
  | ShortIdLength
  | DuplicateEndpointTuple

datatype bundle_reason =
    RuleCount
  | RuleServices
  | EvidenceNotSorted
  | PolicyContentType
  | SignerAbsent
  | SignerNotActive
  | SignerDisappeared
  | ApplyTimeNegative
  | ApplyClockSkew
  | KeysetEpochMismatch
  | KeysetHashMismatch
  | PolicyOutsideKeyset
  | PolicyOutsideSigner
  | PlanPinCount

datatype reason =
    Cbor cbor_reason
  | Cose cose_reason
  | Verify verify_reason
  | Bundle bundle_reason

datatype policy_error =
    TooLarge string nat nat
  | Decode
  | NonCanonical string
  | Invalid reason
  | Signature
  | NotYetValid string
  | Expired string
  | Rollback string
  | Gap string
  | Fork string
  | Chain string
  | Rotation string
  | Panicked

type_synonym 'a policy_result = "policy_error + 'a"
type_synonym 'a decoder = "(policy_error, 'a) parser"

abbreviation invalid_cbor :: "cbor_reason \<Rightarrow> policy_error" where
  "invalid_cbor r \<equiv> Invalid (Cbor r)"

abbreviation invalid_cose :: "cose_reason \<Rightarrow> policy_error" where
  "invalid_cose r \<equiv> Invalid (Cose r)"

abbreviation invalid_verify :: "verify_reason \<Rightarrow> policy_error" where
  "invalid_verify r \<equiv> Invalid (Verify r)"

abbreviation invalid_bundle :: "bundle_reason \<Rightarrow> policy_error" where
  "invalid_bundle r \<equiv> Invalid (Bundle r)"

end
