(* ===== verification/Policy_Cbor.thy ===== *)
theory Policy_Cbor
  imports Policy_Schema
begin

text \<open>
  The deterministic-CBOR layer of the signed policy (\<open>signed_policy/cbor.rs\<close>): the
  encoders and the strict decoders of online keys, server pins, endpoints, services, rules,
  the two signed payloads and the bundle. Each decoder takes the codec \<open>M\<close> and a buffer.
  The lemmas show that decoding inverts encoding, that a decoder accepts one byte string
  per value only, and that what it returns satisfies the type and size limits.
\<close>

section \<open>Bundle bytes and decoding helpers\<close>

record bundle_bytes =
  keyset_sign1 :: bytes
  policy_sign1 :: bytes

definition usize_checked_add :: "nat \<Rightarrow> nat \<Rightarrow> nat option" where
  "usize_checked_add a b = (if a + b < 2 ^ 64 then Some (a + b) else None)"

definition dec :: "(bytes \<Rightarrow> ('a \<times> bytes) option) \<Rightarrow> 'a decoder" where
  "dec f = (\<lambda>bs. ok_or (f bs) Decode)"

definition expect_map :: "minicbor \<Rightarrow> u64 \<Rightarrow> string \<Rightarrow> unit decoder" where
  "expect_map M expected what =
     bindP (dec (dec_map M)) (\<lambda>n. liftP
       (case n of
          Some actual \<Rightarrow>
            if actual = expected then Inr ()
            else Inl (invalid_cbor (FieldCount what actual expected))
        | None \<Rightarrow> Inl (invalid_cbor (IndefiniteMap what))))"

definition expect_array :: "minicbor \<Rightarrow> nat \<Rightarrow> string \<Rightarrow> nat decoder" where
  "expect_array M maximum what =
     bindP (dec (dec_array M)) (\<lambda>n. liftP
       (case n of
          Some actual \<Rightarrow>
            if unat actual \<le> maximum then Inr (unat actual)
            else Inl (invalid_cbor (EntryCount what (unat actual) maximum))
        | None \<Rightarrow> Inl (invalid_cbor (IndefiniteArray what))))"

definition expect_key :: "minicbor \<Rightarrow> u64 \<Rightarrow> string \<Rightarrow> unit decoder" where
  "expect_key M expected what =
     bindP (dec (dec_u64 M)) (\<lambda>actual. liftP
       (if actual \<noteq> expected then Inl (invalid_cbor (FieldOrder what expected actual))
        else Inr ()))"

definition fixed_bytes :: "minicbor \<Rightarrow> nat \<Rightarrow> string \<Rightarrow> bytes decoder" where
  "fixed_bytes M n what =
     bindP (dec (dec_bytes M)) (\<lambda>v. liftP
       (if length v = n then Inr v
        else Inl (invalid_cbor (ByteLength what (length v) n))))"

definition optional_hash :: "minicbor \<Rightarrow> string \<Rightarrow> bytes option decoder" where
  "optional_hash M what = (\<lambda>bs.
     case dec_datatype M bs of
       None \<Rightarrow> Inl Decode
     | Some TypeNull \<Rightarrow> bindP (dec (dec_null M)) (\<lambda>_. returnP None) bs
     | Some TypeBytes \<Rightarrow> bindP (fixed_bytes M 32 what) (\<lambda>v. returnP (Some v)) bs
     | Some TypeOther \<Rightarrow> Inl (invalid_cbor (NullOrBstr32 what)))"

definition finish :: "bytes \<Rightarrow> string \<Rightarrow> unit policy_result" where
  "finish rest what = ensure (rest = []) (invalid_cbor (TrailingBytes what (length rest)))"

definition ensure_canonical :: "bytes \<Rightarrow> bytes \<Rightarrow> string \<Rightarrow> unit policy_result" where
  "ensure_canonical actual canonical what = ensure (actual = canonical) (NonCanonical what)"

definition enc_hash :: "minicbor \<Rightarrow> bytes option \<Rightarrow> bytes" where
  "enc_hash M h = (case h of Some v \<Rightarrow> enc_bytes M v | None \<Rightarrow> enc_null M)"

section \<open>Keysets\<close>

definition encode_online_key :: "minicbor \<Rightarrow> online_key \<Rightarrow> bytes" where
  "encode_online_key M key =
     enc_map M 6
     @ enc_u8 M 1 @ enc_bytes M (key_kid key)
     @ enc_u8 M 2 @ enc_bytes M (key_ed25519_public_key key)
     @ enc_u8 M 3 @ enc_i64 M (key_not_before key)
     @ enc_u8 M 4 @ enc_i64 M (key_expires_at key)
     @ enc_u8 M 5 @ enc_u8 M (key_status_u8 (key_status key))
     @ enc_u8 M 6 @ enc_i64 M (key_status_since key)"

definition decode_online_key :: "minicbor \<Rightarrow> online_key decoder" where
  "decode_online_key M =
     bindP (expect_map M 6 ''online key'') (\<lambda>_.
     bindP (expect_key M 1 ''online key'') (\<lambda>_.
     bindP (fixed_bytes M 16 ''online key kid'') (\<lambda>kid.
     bindP (expect_key M 2 ''online key'') (\<lambda>_.
     bindP (fixed_bytes M 32 ''online Ed25519 public key'') (\<lambda>ed25519_public_key.
     bindP (expect_key M 3 ''online key'') (\<lambda>_.
     bindP (dec (dec_i64 M)) (\<lambda>not_before.
     bindP (expect_key M 4 ''online key'') (\<lambda>_.
     bindP (dec (dec_i64 M)) (\<lambda>expires_at.
     bindP (expect_key M 5 ''online key'') (\<lambda>_.
     bindP (dec (dec_u64 M)) (\<lambda>raw_status.
     bindP (liftP (ok_or (key_status_try_from raw_status)
              (invalid_cbor (UnknownKeyStatus raw_status)))) (\<lambda>status.
     bindP (expect_key M 6 ''online key'') (\<lambda>_.
     bindP (dec (dec_i64 M)) (\<lambda>status_since.
     returnP \<lparr> key_kid = kid, key_ed25519_public_key = ed25519_public_key,
       key_not_before = not_before, key_expires_at = expires_at, key_status = status,
       key_status_since = status_since \<rparr>))))))))))))))"

definition encode_keyset_fields :: "minicbor \<Rightarrow> keyset \<Rightarrow> bytes" where
  "encode_keyset_fields M ks =
     enc_map M 8
     @ enc_u8 M 1 @ enc_u8 M (ucast KEYSET_SCHEMA_VERSION)
     @ enc_u8 M 2 @ enc_u8 M (ucast KEYSET_OBJECT_KIND)
     @ enc_u8 M 3 @ enc_u64 M (ks_keyset_epoch ks)
     @ enc_u8 M 4 @ enc_i64 M (ks_issued_at ks)
     @ enc_u8 M 5 @ enc_i64 M (ks_not_before ks)
     @ enc_u8 M 6 @ enc_i64 M (ks_expires_at ks)
     @ enc_u8 M 7 @ enc_hash M (ks_previous_payload_hash ks)
     @ enc_u8 M 8 @ enc_array M (word_of_nat (length (ks_keys ks)))
     @ concat (map (encode_online_key M) (ks_keys ks))"

definition encode_keyset_payload :: "minicbor \<Rightarrow> keyset \<Rightarrow> bytes policy_result" where
  "encode_keyset_payload M ks =
     bindR (ensure (length (ks_keys ks) \<le> MAX_KEYSET_KEYS)
        (invalid_cbor (EntryCount ''online key array'' (length (ks_keys ks)) MAX_KEYSET_KEYS)))
     (\<lambda>_.
     let encoded = encode_keyset_fields M ks
     in bindR (ensure (length encoded \<le> MAX_SIGN1_BYTES)
          (TooLarge ''keyset payload'' (length encoded) MAX_SIGN1_BYTES)) (\<lambda>_.
        Inr encoded))"

definition decode_keyset_fields :: "minicbor \<Rightarrow> keyset decoder" where
  "decode_keyset_fields M =
     bindP (expect_map M 8 ''keyset'') (\<lambda>_.
     bindP (expect_key M 1 ''keyset'') (\<lambda>_.
     bindP (dec (dec_u64 M)) (\<lambda>schema.
     bindP (liftP (ensure (schema = KEYSET_SCHEMA_VERSION)
              (invalid_cbor (UnsupportedSchema ''keyset'' schema)))) (\<lambda>_.
     bindP (expect_key M 2 ''keyset'') (\<lambda>_.
     bindP (dec (dec_u64 M)) (\<lambda>kind.
     bindP (liftP (ensure (kind = KEYSET_OBJECT_KIND)
              (invalid_cbor (ObjectKind ''keyset'' kind)))) (\<lambda>_.
     bindP (expect_key M 3 ''keyset'') (\<lambda>_.
     bindP (dec (dec_u64 M)) (\<lambda>keyset_epoch.
     bindP (expect_key M 4 ''keyset'') (\<lambda>_.
     bindP (dec (dec_i64 M)) (\<lambda>issued_at.
     bindP (expect_key M 5 ''keyset'') (\<lambda>_.
     bindP (dec (dec_i64 M)) (\<lambda>not_before.
     bindP (expect_key M 6 ''keyset'') (\<lambda>_.
     bindP (dec (dec_i64 M)) (\<lambda>expires_at.
     bindP (expect_key M 7 ''keyset'') (\<lambda>_.
     bindP (optional_hash M ''previous keyset payload hash'') (\<lambda>previous_payload_hash.
     bindP (expect_key M 8 ''keyset'') (\<lambda>_.
     bindP (expect_array M MAX_KEYSET_KEYS ''online key array'') (\<lambda>count.
     bindP (repeatP count (decode_online_key M)) (\<lambda>keys.
     returnP \<lparr> ks_keyset_epoch = keyset_epoch, ks_issued_at = issued_at,
       ks_not_before = not_before, ks_expires_at = expires_at,
       ks_previous_payload_hash = previous_payload_hash, ks_keys = keys \<rparr>))))))))))))))))))))"

definition decode_keyset_payload :: "minicbor \<Rightarrow> bytes \<Rightarrow> keyset policy_result" where
  "decode_keyset_payload M input =
     bindR (ensure (length input \<le> MAX_SIGN1_BYTES)
        (TooLarge ''keyset payload'' (length input) MAX_SIGN1_BYTES)) (\<lambda>_.
     bindR (decode_keyset_fields M input) (\<lambda>(value, rest).
     bindR (finish rest ''keyset payload'') (\<lambda>_.
     bindR (encode_keyset_payload M value) (\<lambda>canonical.
     bindR (ensure_canonical input canonical ''keyset payload'') (\<lambda>_.
     Inr value)))))"

section \<open>Endpoint policies\<close>

definition encode_pin :: "minicbor \<Rightarrow> server_pin \<Rightarrow> bytes" where
  "encode_pin M pin =
     enc_map M 5
     @ enc_u8 M 1 @ enc_bytes M (pin_fingerprint pin)
     @ enc_u8 M 2 @ enc_i64 M (pin_not_before pin)
     @ enc_u8 M 3 @ enc_i64 M (pin_expires_at pin)
     @ enc_u8 M 4 @ enc_u8 M (pin_status_u8 (pin_status pin))
     @ enc_u8 M 5 @ enc_i64 M (pin_status_since pin)"

definition decode_pin :: "minicbor \<Rightarrow> server_pin decoder" where
  "decode_pin M =
     bindP (expect_map M 5 ''server pin'') (\<lambda>_.
     bindP (expect_key M 1 ''server pin'') (\<lambda>_.
     bindP (fixed_bytes M 32 ''ML-KEM fingerprint'') (\<lambda>fingerprint.
     bindP (expect_key M 2 ''server pin'') (\<lambda>_.
     bindP (dec (dec_i64 M)) (\<lambda>not_before.
     bindP (expect_key M 3 ''server pin'') (\<lambda>_.
     bindP (dec (dec_i64 M)) (\<lambda>expires_at.
     bindP (expect_key M 4 ''server pin'') (\<lambda>_.
     bindP (dec (dec_u64 M)) (\<lambda>raw_status.
     bindP (liftP (ok_or (pin_status_try_from raw_status)
              (invalid_cbor (UnknownPinStatus raw_status)))) (\<lambda>status.
     bindP (expect_key M 5 ''server pin'') (\<lambda>_.
     bindP (dec (dec_i64 M)) (\<lambda>status_since.
     returnP \<lparr> pin_fingerprint = fingerprint, pin_not_before = not_before,
       pin_expires_at = expires_at, pin_status = status,
       pin_status_since = status_since \<rparr>))))))))))))"

definition encode_endpoint :: "minicbor \<Rightarrow> reality_endpoint \<Rightarrow> bytes" where
  "encode_endpoint M e =
     enc_map M 8
     @ enc_u8 M 1 @ enc_bytes M (ep_endpoint_id e)
     @ enc_u8 M 2 @ enc_u8 M (transport_u8 (ep_transport e))
     @ enc_u8 M 3 @ enc_bytes M (ep_ipv4 e)
     @ enc_u8 M 4 @ enc_u16 M (ep_port e)
     @ enc_u8 M 5 @ enc_str M (ep_locator_name e)
     @ enc_u8 M 6 @ enc_str M (ep_sni e)
     @ enc_u8 M 7 @ enc_bytes M (ep_reality_x25519_public_key e)
     @ enc_u8 M 8 @ enc_bytes M (ep_reality_short_id e)"

definition decode_endpoint :: "minicbor \<Rightarrow> reality_endpoint decoder" where
  "decode_endpoint M =
     bindP (expect_map M 8 ''REALITY endpoint'') (\<lambda>_.
     bindP (expect_key M 1 ''REALITY endpoint'') (\<lambda>_.
     bindP (fixed_bytes M 16 ''endpoint id'') (\<lambda>endpoint_id.
     bindP (expect_key M 2 ''REALITY endpoint'') (\<lambda>_.
     bindP (dec (dec_u64 M)) (\<lambda>raw_transport.
     bindP (liftP (ok_or (transport_try_from raw_transport)
              (invalid_cbor (UnsupportedTransport raw_transport)))) (\<lambda>transport.
     bindP (expect_key M 3 ''REALITY endpoint'') (\<lambda>_.
     bindP (fixed_bytes M 4 ''endpoint IPv4'') (\<lambda>ipv4.
     bindP (expect_key M 4 ''REALITY endpoint'') (\<lambda>_.
     bindP (dec (dec_u16 M)) (\<lambda>port.
     bindP (expect_key M 5 ''REALITY endpoint'') (\<lambda>_.
     bindP (dec (dec_str M)) (\<lambda>locator_name.
     bindP (liftP (ensure (length locator_name \<le> MAX_LOCATOR_NAME_BYTES)
              (invalid_cbor (StringTooLong ''locator name'' (length locator_name)
                MAX_LOCATOR_NAME_BYTES)))) (\<lambda>_.
     bindP (expect_key M 6 ''REALITY endpoint'') (\<lambda>_.
     bindP (dec (dec_str M)) (\<lambda>sni.
     bindP (liftP (ensure (length sni \<le> MAX_SNI_BYTES)
              (invalid_cbor (StringTooLong ''SNI'' (length sni) MAX_SNI_BYTES)))) (\<lambda>_.
     bindP (expect_key M 7 ''REALITY endpoint'') (\<lambda>_.
     bindP (fixed_bytes M 32 ''REALITY X25519 public key'') (\<lambda>reality_x25519_public_key.
     bindP (expect_key M 8 ''REALITY endpoint'') (\<lambda>_.
     bindP (dec (dec_bytes M)) (\<lambda>reality_short_id.
     bindP (liftP (ensure (length reality_short_id \<le> MAX_SHORT_ID_BYTES)
              (invalid_cbor (StringTooLong ''REALITY short id'' (length reality_short_id)
                MAX_SHORT_ID_BYTES)))) (\<lambda>_.
     returnP \<lparr> ep_endpoint_id = endpoint_id, ep_transport = transport, ep_ipv4 = ipv4,
       ep_port = port, ep_locator_name = locator_name, ep_sni = sni,
       ep_reality_x25519_public_key = reality_x25519_public_key,
       ep_reality_short_id = reality_short_id \<rparr>)))))))))))))))))))))"

definition encode_service :: "minicbor \<Rightarrow> service \<Rightarrow> bytes" where
  "encode_service M s =
     enc_map M 3
     @ enc_u8 M 1 @ enc_bytes M (svc_service_id s)
     @ enc_u8 M 2 @ enc_array M (word_of_nat (length (svc_pins s)))
     @ concat (map (encode_pin M) (svc_pins s))
     @ enc_u8 M 3 @ enc_array M (word_of_nat (length (svc_endpoints s)))
     @ concat (map (encode_endpoint M) (svc_endpoints s))"

definition decode_service :: "minicbor \<Rightarrow> service decoder" where
  "decode_service M =
     bindP (expect_map M 3 ''service'') (\<lambda>_.
     bindP (expect_key M 1 ''service'') (\<lambda>_.
     bindP (fixed_bytes M 16 ''service id'') (\<lambda>service_id.
     bindP (expect_key M 2 ''service'') (\<lambda>_.
     bindP (expect_array M MAX_PINS_PER_SERVICE ''server pin array'') (\<lambda>pin_count.
     bindP (repeatP pin_count (decode_pin M)) (\<lambda>pins.
     bindP (expect_key M 3 ''service'') (\<lambda>_.
     bindP (expect_array M MAX_ENDPOINTS_PER_SERVICE ''REALITY endpoint array'')
       (\<lambda>endpoint_count.
     bindP (repeatP endpoint_count (decode_endpoint M)) (\<lambda>endpoints.
     returnP \<lparr> svc_service_id = service_id, svc_pins = pins,
       svc_endpoints = endpoints \<rparr>)))))))))"

definition encode_rule :: "minicbor \<Rightarrow> policy_rule \<Rightarrow> bytes" where
  "encode_rule M r =
     enc_map M 2
     @ enc_u8 M 1 @ enc_u8 M (rule_action_u8 (rule_action r))
     @ enc_u8 M 2 @ enc_array M (word_of_nat (length (rule_service_ids r)))
     @ concat (map (enc_bytes M) (rule_service_ids r))"

definition decode_rule :: "minicbor \<Rightarrow> policy_rule decoder" where
  "decode_rule M =
     bindP (expect_map M 2 ''policy rule'') (\<lambda>_.
     bindP (expect_key M 1 ''policy rule'') (\<lambda>_.
     bindP (dec (dec_u64 M)) (\<lambda>raw_action.
     bindP (liftP (ok_or (rule_action_try_from raw_action)
              (invalid_cbor (UnsupportedRuleAction raw_action)))) (\<lambda>action.
     bindP (expect_key M 2 ''policy rule'') (\<lambda>_.
     bindP (expect_array M MAX_SERVICES ''rule service-id array'') (\<lambda>count.
     bindP (repeatP count (fixed_bytes M 16 ''rule service id'')) (\<lambda>service_ids.
     returnP \<lparr> rule_action = action, rule_service_ids = service_ids \<rparr>)))))))"

definition check_endpoint_sizes :: "reality_endpoint \<Rightarrow> unit policy_result" where
  "check_endpoint_sizes e =
     bindR (ensure (length (ep_locator_name e) \<le> MAX_LOCATOR_NAME_BYTES)
        (invalid_cbor (StringTooLong ''locator name'' (length (ep_locator_name e))
          MAX_LOCATOR_NAME_BYTES))) (\<lambda>_.
     bindR (ensure (length (ep_sni e) \<le> MAX_SNI_BYTES)
        (invalid_cbor (StringTooLong ''SNI'' (length (ep_sni e)) MAX_SNI_BYTES))) (\<lambda>_.
     ensure (length (ep_reality_short_id e) \<le> MAX_SHORT_ID_BYTES)
        (invalid_cbor (StringTooLong ''REALITY short id'' (length (ep_reality_short_id e))
          MAX_SHORT_ID_BYTES))))"

definition check_service_sizes :: "nat \<Rightarrow> service \<Rightarrow> nat policy_result" where
  "check_service_sizes total_endpoints s =
     bindR (ensure (length (svc_pins s) \<le> MAX_PINS_PER_SERVICE)
        (invalid_cbor (EntryCount ''server pin array'' (length (svc_pins s))
          MAX_PINS_PER_SERVICE))) (\<lambda>_.
     bindR (ensure (length (svc_endpoints s) \<le> MAX_ENDPOINTS_PER_SERVICE)
        (invalid_cbor (EntryCount ''REALITY endpoint array'' (length (svc_endpoints s))
          MAX_ENDPOINTS_PER_SERVICE))) (\<lambda>_.
     bindR (ok_or (usize_checked_add total_endpoints (length (svc_endpoints s)))
        (invalid_cbor EndpointCountOverflow)) (\<lambda>total.
     bindR (ensure (total \<le> MAX_TOTAL_ENDPOINTS) (invalid_cbor TooManyEndpoints)) (\<lambda>_.
     bindR (foldE (\<lambda>_ e. check_endpoint_sizes e) () (svc_endpoints s)) (\<lambda>_.
     Inr total)))))"

definition encode_policy_fields :: "minicbor \<Rightarrow> endpoint_policy \<Rightarrow> bytes" where
  "encode_policy_fields M p =
     enc_map M 13
     @ enc_u8 M 1 @ enc_u8 M (ucast POLICY_SCHEMA_VERSION)
     @ enc_u8 M 2 @ enc_u8 M (ucast POLICY_OBJECT_KIND)
     @ enc_u8 M 3 @ enc_u64 M (pol_keyset_epoch p)
     @ enc_u8 M 4 @ enc_bytes M (pol_keyset_payload_hash p)
     @ enc_u8 M 5 @ enc_u64 M (pol_policy_epoch p)
     @ enc_u8 M 6 @ enc_u64 M (pol_sequence p)
     @ enc_u8 M 7 @ enc_i64 M (pol_issued_at p)
     @ enc_u8 M 8 @ enc_i64 M (pol_not_before p)
     @ enc_u8 M 9 @ enc_i64 M (pol_expires_at p)
     @ enc_u8 M 10 @ enc_hash M (pol_previous_payload_hash p)
     @ enc_u8 M 11 @ enc_array M (word_of_nat (length (pol_services p)))
     @ concat (map (encode_service M) (pol_services p))
     @ enc_u8 M 12 @ enc_array M (word_of_nat (length (pol_rules p)))
     @ concat (map (encode_rule M) (pol_rules p))
     @ enc_u8 M 13 @ enc_array M (word_of_nat (length (pol_experiment_evidence p)))
     @ concat (map (enc_bytes M) (pol_experiment_evidence p))"

definition encode_policy_payload :: "minicbor \<Rightarrow> endpoint_policy \<Rightarrow> bytes policy_result" where
  "encode_policy_payload M p =
     bindR (ensure (length (pol_services p) \<le> MAX_SERVICES)
        (invalid_cbor (EntryCount ''service array'' (length (pol_services p)) MAX_SERVICES)))
     (\<lambda>_.
     bindR (ensure (length (pol_rules p) \<le> 1)
        (invalid_cbor (EntryCount ''policy rule array'' (length (pol_rules p)) 1))) (\<lambda>_.
     bindR (ensure (length (pol_experiment_evidence p) \<le> MAX_EVIDENCE_REFS)
        (invalid_cbor (EntryCount ''experiment evidence array''
          (length (pol_experiment_evidence p)) MAX_EVIDENCE_REFS))) (\<lambda>_.
     bindR (foldE check_service_sizes 0 (pol_services p)) (\<lambda>_.
     let encoded = encode_policy_fields M p
     in bindR (ensure (length encoded \<le> MAX_SIGN1_BYTES)
          (TooLarge ''policy payload'' (length encoded) MAX_SIGN1_BYTES)) (\<lambda>_.
        Inr encoded)))))"

definition decode_policy_fields :: "minicbor \<Rightarrow> endpoint_policy decoder" where
  "decode_policy_fields M =
     bindP (expect_map M 13 ''endpoint policy'') (\<lambda>_.
     bindP (expect_key M 1 ''endpoint policy'') (\<lambda>_.
     bindP (dec (dec_u64 M)) (\<lambda>schema.
     bindP (liftP (ensure (schema = POLICY_SCHEMA_VERSION)
              (invalid_cbor (UnsupportedSchema ''endpoint policy'' schema)))) (\<lambda>_.
     bindP (expect_key M 2 ''endpoint policy'') (\<lambda>_.
     bindP (dec (dec_u64 M)) (\<lambda>kind.
     bindP (liftP (ensure (kind = POLICY_OBJECT_KIND)
              (invalid_cbor (ObjectKind ''endpoint policy'' kind)))) (\<lambda>_.
     bindP (expect_key M 3 ''endpoint policy'') (\<lambda>_.
     bindP (dec (dec_u64 M)) (\<lambda>keyset_epoch.
     bindP (expect_key M 4 ''endpoint policy'') (\<lambda>_.
     bindP (fixed_bytes M 32 ''keyset payload hash'') (\<lambda>keyset_payload_hash.
     bindP (expect_key M 5 ''endpoint policy'') (\<lambda>_.
     bindP (dec (dec_u64 M)) (\<lambda>policy_epoch.
     bindP (expect_key M 6 ''endpoint policy'') (\<lambda>_.
     bindP (dec (dec_u64 M)) (\<lambda>sequence.
     bindP (expect_key M 7 ''endpoint policy'') (\<lambda>_.
     bindP (dec (dec_i64 M)) (\<lambda>issued_at.
     bindP (expect_key M 8 ''endpoint policy'') (\<lambda>_.
     bindP (dec (dec_i64 M)) (\<lambda>not_before.
     bindP (expect_key M 9 ''endpoint policy'') (\<lambda>_.
     bindP (dec (dec_i64 M)) (\<lambda>expires_at.
     bindP (expect_key M 10 ''endpoint policy'') (\<lambda>_.
     bindP (optional_hash M ''previous policy payload hash'') (\<lambda>previous_payload_hash.
     bindP (expect_key M 11 ''endpoint policy'') (\<lambda>_.
     bindP (expect_array M MAX_SERVICES ''service array'') (\<lambda>service_count.
     bindP (repeatP service_count (decode_service M)) (\<lambda>services.
     bindP (expect_key M 12 ''endpoint policy'') (\<lambda>_.
     bindP (expect_array M 1 ''policy rule array'') (\<lambda>rule_count.
     bindP (repeatP rule_count (decode_rule M)) (\<lambda>rules.
     bindP (expect_key M 13 ''endpoint policy'') (\<lambda>_.
     bindP (expect_array M MAX_EVIDENCE_REFS ''experiment evidence array'')
       (\<lambda>evidence_count.
     bindP (repeatP evidence_count (fixed_bytes M 32 ''experiment evidence hash''))
       (\<lambda>experiment_evidence.
     returnP \<lparr> pol_keyset_epoch = keyset_epoch,
       pol_keyset_payload_hash = keyset_payload_hash, pol_policy_epoch = policy_epoch,
       pol_sequence = sequence, pol_issued_at = issued_at, pol_not_before = not_before,
       pol_expires_at = expires_at, pol_previous_payload_hash = previous_payload_hash,
       pol_services = services, pol_rules = rules,
       pol_experiment_evidence = experiment_evidence
     \<rparr>))))))))))))))))))))))))))))))))"

definition decode_policy_payload :: "minicbor \<Rightarrow> bytes \<Rightarrow> endpoint_policy policy_result" where
  "decode_policy_payload M input =
     bindR (ensure (length input \<le> MAX_SIGN1_BYTES)
        (TooLarge ''policy payload'' (length input) MAX_SIGN1_BYTES)) (\<lambda>_.
     bindR (decode_policy_fields M input) (\<lambda>(value, rest).
     bindR (finish rest ''endpoint policy payload'') (\<lambda>_.
     bindR (encode_policy_payload M value) (\<lambda>canonical.
     bindR (ensure_canonical input canonical ''endpoint policy payload'') (\<lambda>_.
     Inr value)))))"

section \<open>Bundles\<close>

definition encode_bundle_fields :: "minicbor \<Rightarrow> bundle_bytes \<Rightarrow> bytes" where
  "encode_bundle_fields M b =
     enc_map M 3
     @ enc_u8 M 1 @ enc_u8 M 1
     @ enc_u8 M 2 @ enc_bytes M (keyset_sign1 b)
     @ enc_u8 M 3 @ enc_bytes M (policy_sign1 b)"

definition encode_bundle :: "minicbor \<Rightarrow> bundle_bytes \<Rightarrow> bytes policy_result" where
  "encode_bundle M b =
     bindR (ensure (length (keyset_sign1 b) \<le> MAX_SIGN1_BYTES)
        (TooLarge ''keyset COSE_Sign1'' (length (keyset_sign1 b)) MAX_SIGN1_BYTES)) (\<lambda>_.
     bindR (ensure (length (policy_sign1 b) \<le> MAX_SIGN1_BYTES)
        (TooLarge ''policy COSE_Sign1'' (length (policy_sign1 b)) MAX_SIGN1_BYTES)) (\<lambda>_.
     let encoded = encode_bundle_fields M b
     in bindR (ensure (length encoded \<le> MAX_BUNDLE_BYTES)
          (TooLarge ''policy bundle'' (length encoded) MAX_BUNDLE_BYTES)) (\<lambda>_.
        Inr encoded)))"

definition decode_bundle_fields :: "minicbor \<Rightarrow> bundle_bytes decoder" where
  "decode_bundle_fields M =
     bindP (expect_map M 3 ''policy bundle'') (\<lambda>_.
     bindP (expect_key M 1 ''policy bundle'') (\<lambda>_.
     bindP (dec (dec_u64 M)) (\<lambda>schema.
     bindP (liftP (ensure (schema = 1)
              (invalid_cbor (UnsupportedSchema ''policy bundle'' schema)))) (\<lambda>_.
     bindP (expect_key M 2 ''policy bundle'') (\<lambda>_.
     bindP (dec (dec_bytes M)) (\<lambda>keyset_sign1.
     bindP (liftP (ensure (length keyset_sign1 \<le> MAX_SIGN1_BYTES)
              (TooLarge ''keyset COSE_Sign1'' (length keyset_sign1) MAX_SIGN1_BYTES))) (\<lambda>_.
     bindP (expect_key M 3 ''policy bundle'') (\<lambda>_.
     bindP (dec (dec_bytes M)) (\<lambda>policy_sign1.
     bindP (liftP (ensure (length policy_sign1 \<le> MAX_SIGN1_BYTES)
              (TooLarge ''policy COSE_Sign1'' (length policy_sign1) MAX_SIGN1_BYTES))) (\<lambda>_.
     returnP \<lparr> keyset_sign1 = keyset_sign1, policy_sign1 = policy_sign1 \<rparr>))))))))))"

definition decode_bundle :: "minicbor \<Rightarrow> bytes \<Rightarrow> bundle_bytes policy_result" where
  "decode_bundle M input =
     bindR (ensure (length input \<le> MAX_BUNDLE_BYTES)
        (TooLarge ''policy bundle'' (length input) MAX_BUNDLE_BYTES)) (\<lambda>_.
     bindR (decode_bundle_fields M input) (\<lambda>(value, rest).
     bindR (finish rest ''policy bundle'') (\<lambda>_.
     bindR (encode_bundle M value) (\<lambda>canonical.
     bindR (ensure_canonical input canonical ''policy bundle'') (\<lambda>_.
     Inr value)))))"

section \<open>Decoding inverts encoding\<close>

lemma bindP_apply:
  "bindP p f bs = (case p bs of Inl e \<Rightarrow> Inl e | Inr (x, r) \<Rightarrow> f x r)"
  by (simp add: bindP_def)

lemma unat_word_of_nat_u64: "n < 2 ^ 64 \<Longrightarrow> unat (word_of_nat n :: u64) = n"
  by (simp add: unat_of_nat)

context cbor_codec
begin

text \<open>Each reading helper consumes exactly what the matching encoder wrote.\<close>

lemma dec_encoded [simp]:
  "dec (dec_u64 M) (enc_u8 M a @ r) = Inr (ucast a, r)"
  "dec (dec_u64 M) (enc_u64 M c @ r) = Inr (c, r)"
  "dec (dec_u16 M) (enc_u16 M b @ r) = Inr (b, r)"
  by (simp_all add: dec_def u64_of_u8 u64_of_u64 u16_of_u16)

lemma dec_i64_encoded [simp]:
  "in_i64 x \<Longrightarrow> dec (dec_i64 M) (enc_i64 M x @ r) = Inr (x, r)"
  by (simp add: dec_def i64_of_i64)

lemma dec_str_encoded [simp]:
  "utf8_valid s \<Longrightarrow> length s \<le> 65536 \<Longrightarrow> dec (dec_str M) (enc_str M s @ r) = Inr (s, r)"
  by (simp add: dec_def str_of_str)

lemma dec_bytes_encoded [simp]:
  "length v \<le> 65536 \<Longrightarrow> dec (dec_bytes M) (enc_bytes M v @ r) = Inr (v, r)"
  by (simp add: dec_def bytes_of_bytes)

lemma expect_map_encoded [simp]: "expect_map M n what (enc_map M n @ r) = Inr ((), r)"
  by (simp add: expect_map_def bindP_apply dec_def map_of_map)

lemma expect_key_encoded [simp]:
  "ucast a = k \<Longrightarrow> expect_key M k what (enc_u8 M a @ r) = Inr ((), r)"
  by (simp add: expect_key_def bindP_apply)

lemma expect_array_encoded [simp]:
  assumes "n \<le> maximum" and "n \<le> 65536"
  shows "expect_array M maximum what (enc_array M (word_of_nat n) @ r) = Inr (n, r)"
proof -
  have "unat (word_of_nat n :: u64) = n"
    using assms(2) by (simp add: unat_word_of_nat_u64)
  then show ?thesis
    using assms(1) by (simp add: expect_array_def bindP_apply dec_def array_of_array)
qed

lemma fixed_bytes_encoded [simp]:
  "length v = n \<Longrightarrow> n \<le> 65536 \<Longrightarrow> fixed_bytes M n what (enc_bytes M v @ r) = Inr (v, r)"
  by (simp add: fixed_bytes_def bindP_apply)

lemma optional_hash_encoded [simp]:
  "hash_opt_typed h \<Longrightarrow> optional_hash M what (enc_hash M h @ r) = Inr (h, r)"
  by (cases h)
     (simp_all add: optional_hash_def enc_hash_def hash_opt_typed_def datatype_null
        datatype_bytes bindP_apply dec_def null_of_null)

lemma decode_online_key_encoded:
  "online_key_typed k \<Longrightarrow> decode_online_key M (encode_online_key M k @ r) = Inr (k, r)"
  by (simp add: decode_online_key_def encode_online_key_def online_key_typed_def bindP_apply)

lemma decode_pin_encoded:
  "pin_typed p \<Longrightarrow> decode_pin M (encode_pin M p @ r) = Inr (p, r)"
  by (simp add: decode_pin_def encode_pin_def pin_typed_def bindP_apply)

end

section \<open>The size limits the encoders enforce\<close>

definition endpoint_sized :: "reality_endpoint \<Rightarrow> bool" where
  "endpoint_sized e \<longleftrightarrow>
     length (ep_locator_name e) \<le> MAX_LOCATOR_NAME_BYTES
     \<and> length (ep_sni e) \<le> MAX_SNI_BYTES
     \<and> length (ep_reality_short_id e) \<le> MAX_SHORT_ID_BYTES"

definition service_sized :: "service \<Rightarrow> bool" where
  "service_sized s \<longleftrightarrow>
     length (svc_pins s) \<le> MAX_PINS_PER_SERVICE
     \<and> length (svc_endpoints s) \<le> MAX_ENDPOINTS_PER_SERVICE
     \<and> (\<forall>e \<in> set (svc_endpoints s). endpoint_sized e)"

definition total_endpoints :: "service list \<Rightarrow> nat" where
  "total_endpoints ss = sum_list (map (\<lambda>s. length (svc_endpoints s)) ss)"

definition policy_sized :: "endpoint_policy \<Rightarrow> bool" where
  "policy_sized p \<longleftrightarrow>
     length (pol_services p) \<le> MAX_SERVICES
     \<and> length (pol_rules p) \<le> 1
     \<and> length (pol_experiment_evidence p) \<le> MAX_EVIDENCE_REFS
     \<and> (\<forall>s \<in> set (pol_services p). service_sized s)
     \<and> total_endpoints (pol_services p) \<le> MAX_TOTAL_ENDPOINTS"

lemma check_endpoint_sizes_iff:
  "check_endpoint_sizes e = Inr () \<longleftrightarrow> endpoint_sized e"
  by (auto simp: check_endpoint_sizes_def endpoint_sized_def result_simps)

lemma check_service_sizes_iff:
  assumes "n \<le> MAX_TOTAL_ENDPOINTS"
  shows "check_service_sizes n s = Inr t \<longleftrightarrow>
    service_sized s \<and> t = n + length (svc_endpoints s) \<and> t \<le> MAX_TOTAL_ENDPOINTS"
  using assms
  by (auto simp: check_service_sizes_def service_sized_def usize_checked_add_def result_simps
        foldE_unit_iff check_endpoint_sizes_iff limit_defs)

lemma check_all_sizes_iff:
  assumes "n \<le> MAX_TOTAL_ENDPOINTS"
  shows "foldE check_service_sizes n ss = Inr t \<longleftrightarrow>
    (\<forall>s \<in> set ss. service_sized s) \<and> t = n + total_endpoints ss \<and> t \<le> MAX_TOTAL_ENDPOINTS"
  using assms
proof (induction ss arbitrary: n)
  case Nil
  then show ?case by (auto simp: total_endpoints_def)
next
  case (Cons s ss)
  show ?case
  proof (cases "n + length (svc_endpoints s) \<le> MAX_TOTAL_ENDPOINTS")
    case True
    with Cons.IH [OF True] show ?thesis
      by (auto simp: result_simps check_service_sizes_iff [OF Cons.prems] total_endpoints_def)
  next
    case False
    then show ?thesis
      by (auto simp: result_simps check_service_sizes_iff [OF Cons.prems] total_endpoints_def)
  qed
qed

lemma encode_policy_payload_iff:
  "encode_policy_payload M p = Inr b \<longleftrightarrow>
     policy_sized p \<and> b = encode_policy_fields M p \<and> length b \<le> MAX_SIGN1_BYTES"
  by (auto simp: encode_policy_payload_def policy_sized_def Let_def result_simps
        check_all_sizes_iff)

lemma encode_keyset_payload_iff:
  "encode_keyset_payload M ks = Inr b \<longleftrightarrow>
     length (ks_keys ks) \<le> MAX_KEYSET_KEYS \<and> b = encode_keyset_fields M ks
     \<and> length b \<le> MAX_SIGN1_BYTES"
  by (auto simp: encode_keyset_payload_def Let_def result_simps)

lemma encode_bundle_iff:
  "encode_bundle M b = Inr out \<longleftrightarrow>
     length (keyset_sign1 b) \<le> MAX_SIGN1_BYTES \<and> length (policy_sign1 b) \<le> MAX_SIGN1_BYTES
     \<and> out = encode_bundle_fields M b \<and> length out \<le> MAX_BUNDLE_BYTES"
  by (auto simp: encode_bundle_def Let_def result_simps)

context cbor_codec
begin

lemma decode_endpoint_encoded:
  assumes "endpoint_typed e" and "endpoint_sized e"
  shows "decode_endpoint M (encode_endpoint M e @ r) = Inr (e, r)"
  using assms
  by (simp add: decode_endpoint_def encode_endpoint_def endpoint_typed_def endpoint_sized_def
        bindP_apply limit_defs)

lemma decode_service_encoded:
  assumes typed: "service_typed s" and sized: "service_sized s"
  shows "decode_service M (encode_service M s @ r) = Inr (s, r)"
proof -
  have pins: "repeatP (length (svc_pins s)) (decode_pin M)
      (concat (map (encode_pin M) (svc_pins s)) @ t) = Inr (svc_pins s, t)" for t
    using typed by (intro repeatP_encoded decode_pin_encoded) (simp add: service_typed_def)
  have eps: "repeatP (length (svc_endpoints s)) (decode_endpoint M)
      (concat (map (encode_endpoint M) (svc_endpoints s)) @ t) = Inr (svc_endpoints s, t)" for t
    using typed sized
    by (intro repeatP_encoded decode_endpoint_encoded)
       (simp_all add: service_typed_def service_sized_def)
  from typed sized show ?thesis
    by (simp add: decode_service_def encode_service_def service_typed_def service_sized_def
          bindP_apply pins eps limit_defs)
qed

lemma decode_rule_encoded:
  assumes "rule_typed u" and "length (rule_service_ids u) \<le> MAX_SERVICES"
  shows "decode_rule M (encode_rule M u @ r) = Inr (u, r)"
proof -
  have "repeatP (length (rule_service_ids u)) (fixed_bytes M 16 w)
      (concat (map (enc_bytes M) (rule_service_ids u)) @ t) = Inr (rule_service_ids u, t)" for t w
    using assms(1) by (intro repeatP_encoded fixed_bytes_encoded) (auto simp: rule_typed_def)
  with assms(2) show ?thesis
    by (simp add: decode_rule_def encode_rule_def bindP_apply limit_defs)
qed

lemma decode_policy_fields_encoded:
  assumes typed: "policy_typed p" and sized: "policy_sized p"
    and rules: "\<forall>u \<in> set (pol_rules p). length (rule_service_ids u) \<le> MAX_SERVICES"
  shows "decode_policy_fields M (encode_policy_fields M p @ r) = Inr (p, r)"
proof -
  have svcs: "repeatP (length (pol_services p)) (decode_service M)
      (concat (map (encode_service M) (pol_services p)) @ t) = Inr (pol_services p, t)" for t
    using typed sized
    by (intro repeatP_encoded decode_service_encoded)
       (simp_all add: policy_typed_def policy_sized_def)
  have ruls: "repeatP (length (pol_rules p)) (decode_rule M)
      (concat (map (encode_rule M) (pol_rules p)) @ t) = Inr (pol_rules p, t)" for t
    using typed rules
    by (intro repeatP_encoded decode_rule_encoded) (simp_all add: policy_typed_def)
  have evs: "repeatP (length (pol_experiment_evidence p)) (fixed_bytes M 32 w)
      (concat (map (enc_bytes M) (pol_experiment_evidence p)) @ t)
      = Inr (pol_experiment_evidence p, t)" for t w
    using typed by (intro repeatP_encoded fixed_bytes_encoded) (simp_all add: policy_typed_def)
  from typed sized show ?thesis
    by (simp add: decode_policy_fields_def encode_policy_fields_def policy_typed_def
          policy_sized_def bindP_apply svcs ruls evs limit_defs)
qed

lemma decode_keyset_fields_encoded:
  assumes typed: "keyset_typed ks" and sized: "length (ks_keys ks) \<le> MAX_KEYSET_KEYS"
  shows "decode_keyset_fields M (encode_keyset_fields M ks @ r) = Inr (ks, r)"
proof -
  have keys: "repeatP (length (ks_keys ks)) (decode_online_key M)
      (concat (map (encode_online_key M) (ks_keys ks)) @ t) = Inr (ks_keys ks, t)" for t
    using typed by (intro repeatP_encoded decode_online_key_encoded) (simp add: keyset_typed_def)
  from typed sized show ?thesis
    by (simp add: decode_keyset_fields_def encode_keyset_fields_def keyset_typed_def bindP_apply
          keys limit_defs)
qed

text \<open>Decoding what an encoder wrote gives the value back.\<close>

lemma decode_keyset_payload_encoded:
  assumes "keyset_typed ks" and "encode_keyset_payload M ks = Inr b"
  shows "decode_keyset_payload M b = Inr ks"
proof -
  from assms(2) have sized: "length (ks_keys ks) \<le> MAX_KEYSET_KEYS"
    and b: "b = encode_keyset_fields M ks" and len: "length b \<le> MAX_SIGN1_BYTES"
    by (auto simp: encode_keyset_payload_iff)
  have "decode_keyset_fields M b = Inr (ks, [])"
    using decode_keyset_fields_encoded [OF assms(1) sized, of "[]"] b by simp
  with assms(2) len show ?thesis
    by (simp add: decode_keyset_payload_def finish_def ensure_canonical_def)
qed

lemma decode_policy_payload_encoded:
  assumes "policy_typed p"
    and "\<forall>u \<in> set (pol_rules p). length (rule_service_ids u) \<le> MAX_SERVICES"
    and "encode_policy_payload M p = Inr b"
  shows "decode_policy_payload M b = Inr p"
proof -
  from assms(3) have sized: "policy_sized p"
    and b: "b = encode_policy_fields M p" and len: "length b \<le> MAX_SIGN1_BYTES"
    by (auto simp: encode_policy_payload_iff)
  have "decode_policy_fields M b = Inr (p, [])"
    using decode_policy_fields_encoded [OF assms(1) sized assms(2), of "[]"] b by simp
  with assms(3) len show ?thesis
    by (simp add: decode_policy_payload_def finish_def ensure_canonical_def)
qed

lemma decode_bundle_encoded:
  assumes enc: "encode_bundle M b = Inr out"
  shows "decode_bundle M out = Inr b"
proof -
  from enc have sizes: "length (keyset_sign1 b) \<le> MAX_SIGN1_BYTES"
      "length (policy_sign1 b) \<le> MAX_SIGN1_BYTES" "length out \<le> MAX_BUNDLE_BYTES"
    and out: "out = encode_bundle_fields M b"
    by (auto simp: encode_bundle_iff)
  have "decode_bundle_fields M (encode_bundle_fields M b @ r) = Inr (b, r)" for r
    using sizes(1,2)
    by (simp add: decode_bundle_fields_def encode_bundle_fields_def bindP_apply limit_defs)
  from this [of "[]"] out have "decode_bundle_fields M out = Inr (b, [])"
    by simp
  with enc sizes(3) show ?thesis
    by (simp add: decode_bundle_def finish_def ensure_canonical_def)
qed

end

section \<open>What a decoder returns\<close>

text \<open>
  A payload decoder accepts a byte string only if it is the encoding of the value it
  returns.
\<close>

lemma decode_keyset_payload_canonical:
  "decode_keyset_payload M b = Inr ks \<Longrightarrow> encode_keyset_payload M ks = Inr b"
  by (auto simp: decode_keyset_payload_def ensure_canonical_def result_simps)

lemma decode_policy_payload_canonical:
  "decode_policy_payload M b = Inr p \<Longrightarrow> encode_policy_payload M p = Inr b"
  by (auto simp: decode_policy_payload_def ensure_canonical_def result_simps)

lemma decode_bundle_canonical:
  "decode_bundle M b = Inr v \<Longrightarrow> encode_bundle M v = Inr b"
  by (auto simp: decode_bundle_def ensure_canonical_def result_simps)

lemma decode_policy_payload_sized:
  "decode_policy_payload M b = Inr p \<Longrightarrow> policy_sized p \<and> length b \<le> MAX_SIGN1_BYTES"
  using decode_policy_payload_canonical encode_policy_payload_iff by blast

lemma dec_eq_Inr [codec_simps]: "dec f bs = Inr (x, r) \<longleftrightarrow> f bs = Some (x, r)"
  by (auto simp: dec_def)

lemma fixed_bytes_length: "fixed_bytes M n what bs = Inr (v, r) \<Longrightarrow> length v = n"
  by (auto simp: fixed_bytes_def codec_simps split: if_splits)

lemma optional_hash_typed: "optional_hash M what bs = Inr (h, r) \<Longrightarrow> hash_opt_typed h"
  by (auto simp: optional_hash_def codec_simps hash_opt_typed_def fixed_bytes_length
        split: option.splits cbor_type.splits)

lemma expect_array_bound:
  "expect_array M maximum what bs = Inr (n, r) \<Longrightarrow> n \<le> maximum"
  by (auto simp: expect_array_def codec_simps split: option.splits if_splits)

lemma decode_rule_bound:
  "decode_rule M bs = Inr (u, r) \<Longrightarrow> length (rule_service_ids u) \<le> MAX_SERVICES"
  by (auto simp: decode_rule_def codec_simps dest!: expect_array_bound repeatP_length)

lemma repeatP_fixed_bytes:
  "repeatP n (fixed_bytes M k what) bs = Inr (vs, r) \<Longrightarrow> \<forall>v \<in> set vs. length v = k"
  by (erule repeatP_all [rotated]) (rule fixed_bytes_length)

lemma repeatP_rule_bound:
  "repeatP n (decode_rule M) bs = Inr (us, r) \<Longrightarrow>
    \<forall>u \<in> set us. length (rule_service_ids u) \<le> MAX_SERVICES"
  by (erule repeatP_all [rotated]) (rule decode_rule_bound)

lemma decode_rule_typed: "decode_rule M bs = Inr (u, r) \<Longrightarrow> rule_typed u"
  by (auto simp: decode_rule_def codec_simps rule_typed_def dest!: repeatP_fixed_bytes)

lemma repeatP_rule_typed:
  "repeatP n (decode_rule M) bs = Inr (us, r) \<Longrightarrow> \<forall>u \<in> set us. rule_typed u"
  by (erule repeatP_all [rotated]) (rule decode_rule_typed)

context cbor_codec
begin

lemma decode_online_key_typed: "decode_online_key M bs = Inr (k, r) \<Longrightarrow> online_key_typed k"
  by (auto simp: decode_online_key_def codec_simps online_key_typed_def
        dest: i64_in_range fixed_bytes_length)

lemma decode_pin_typed: "decode_pin M bs = Inr (p, r) \<Longrightarrow> pin_typed p"
  by (auto simp: decode_pin_def codec_simps pin_typed_def dest: i64_in_range fixed_bytes_length)

lemma decode_endpoint_typed: "decode_endpoint M bs = Inr (e, r) \<Longrightarrow> endpoint_typed e"
  by (auto simp: decode_endpoint_def codec_simps endpoint_typed_def
        dest: str_utf8 fixed_bytes_length)

lemma repeatP_typed:
  "repeatP n (decode_online_key M) bs = Inr (ks, r) \<Longrightarrow> \<forall>k \<in> set ks. online_key_typed k"
  "repeatP n (decode_pin M) bs = Inr (ps, r) \<Longrightarrow> \<forall>p \<in> set ps. pin_typed p"
  "repeatP n (decode_endpoint M) bs = Inr (es, r) \<Longrightarrow> \<forall>e \<in> set es. endpoint_typed e"
  by (erule repeatP_all [rotated], erule decode_online_key_typed)
     (erule repeatP_all [rotated], erule decode_pin_typed,
      erule repeatP_all [rotated], erule decode_endpoint_typed)

lemma decode_service_typed: "decode_service M bs = Inr (s, r) \<Longrightarrow> service_typed s"
  by (auto simp: decode_service_def codec_simps service_typed_def dest: fixed_bytes_length
        dest!: repeatP_typed)

lemma repeatP_service_typed:
  "repeatP n (decode_service M) bs = Inr (ss, r) \<Longrightarrow> \<forall>s \<in> set ss. service_typed s"
  by (erule repeatP_all [rotated]) (rule decode_service_typed)

lemma decode_keyset_payload_typed:
  assumes "decode_keyset_payload M b = Inr ks"
  shows "keyset_typed ks"
proof -
  from assms obtain r where "decode_keyset_fields M b = Inr (ks, r)"
    by (auto simp: decode_keyset_payload_def result_simps)
  then show ?thesis
    by (auto simp: decode_keyset_fields_def codec_simps keyset_typed_def
          dest: i64_in_range optional_hash_typed
          dest!: repeatP_typed)
qed

lemma decode_policy_payload_typed:
  assumes "decode_policy_payload M b = Inr p"
  shows "policy_typed p" and "\<forall>u \<in> set (pol_rules p). length (rule_service_ids u) \<le> MAX_SERVICES"
proof -
  from assms obtain r where fields: "decode_policy_fields M b = Inr (p, r)"
    by (auto simp: decode_policy_payload_def result_simps)
  from fields show "policy_typed p"
    by (auto simp: decode_policy_fields_def codec_simps policy_typed_def
          dest: i64_in_range optional_hash_typed fixed_bytes_length
          dest!: repeatP_service_typed repeatP_rule_typed repeatP_fixed_bytes)
  from fields show "\<forall>u \<in> set (pol_rules p). length (rule_service_ids u) \<le> MAX_SERVICES"
    by (auto simp: decode_policy_fields_def codec_simps dest!: repeatP_rule_bound)
qed

end

end
