(* ===== verification/Policy_Cose.thy ===== *)
theory Policy_Cose
  imports Policy_Cbor
begin

text \<open>
  The COSE_Sign1 envelope of the signed policy (\<open>signed_policy/cose.rs\<close>): the fixed
  protected header, the signature input, the envelope and its verification. SHA-256,
  Ed25519 verification and X25519 are third-party primitives and are fields of the
  parameter \<open>crypto\<close>. The lemmas show that headers and envelopes are read back exactly as
  they are written, that the bytes under a signature determine the header and the payload,
  and what a verified envelope guarantees.
\<close>

section \<open>Primitives\<close>

record crypto =
  sha256 :: "bytes \<Rightarrow> bytes"
  ed25519_verify :: "bytes \<Rightarrow> bytes \<Rightarrow> bytes \<Rightarrow> bool"
  x25519 :: "bytes \<Rightarrow> bytes \<Rightarrow> bytes"

text \<open>A Rust byte-string literal.\<close>

definition ascii_bytes :: "string \<Rightarrow> bytes" where
  "ascii_bytes s = map char_byte s"

section \<open>Header\<close>

definition COSE_SIGN1_TAG :: u8 where "COSE_SIGN1_TAG = 210"
definition COSE_EDDSA :: int where "COSE_EDDSA = - 8"
definition PRIVATE_SCHEMA_LABEL :: u64 where "PRIVATE_SCHEMA_LABEL = 1001"
definition PRIVATE_SCHEMA_VERSION :: u64 where "PRIVATE_SCHEMA_VERSION = 1"
definition SIGNATURE_LEN :: nat where "SIGNATURE_LEN = 64"

definition KEYSET_CONTENT_TYPE :: string where
  "KEYSET_CONTENT_TYPE = ''application/shadowpipe-keyset+cbor;v=1''"

definition POLICY_CONTENT_TYPE :: string where
  "POLICY_CONTENT_TYPE = ''application/shadowpipe-endpoint-policy+cbor;v=2''"

definition LEGACY_POLICY_CONTENT_TYPE_V1 :: string where
  "LEGACY_POLICY_CONTENT_TYPE_V1 = ''application/shadowpipe-endpoint-policy+cbor;v=1''"

datatype content_type = CtKeyset | CtEndpointPolicy

fun content_type_as_str :: "content_type \<Rightarrow> string" where
  "content_type_as_str CtKeyset = KEYSET_CONTENT_TYPE"
| "content_type_as_str CtEndpointPolicy = POLICY_CONTENT_TYPE"

definition content_type_from_str :: "string \<Rightarrow> content_type policy_result" where
  "content_type_from_str value =
     (if value = KEYSET_CONTENT_TYPE then Inr CtKeyset
      else if value = POLICY_CONTENT_TYPE then Inr CtEndpointPolicy
      else if value = LEGACY_POLICY_CONTENT_TYPE_V1 then
        Inl (invalid_cose LegacyPolicyContentType)
      else Inl (invalid_cose (UnsupportedContentType value)))"

record protected_header =
  hdr_content_type :: content_type
  hdr_kid :: bytes

record parsed_sign1 =
  ps_protected :: bytes
  ps_header :: protected_header
  ps_payload :: bytes
  ps_signature :: bytes

definition cose_finish :: "bytes \<Rightarrow> string \<Rightarrow> unit policy_result" where
  "cose_finish rest what = ensure (rest = []) (invalid_cose (CoseTrailingBytes what (length rest)))"

definition encode_protected_header :: "minicbor \<Rightarrow> protected_header \<Rightarrow> bytes" where
  "encode_protected_header M h =
     enc_map M 5
     @ enc_u8 M 1 @ enc_i8 M COSE_EDDSA
     @ enc_u8 M 2 @ enc_array M 1 @ enc_u16 M (ucast PRIVATE_SCHEMA_LABEL)
     @ enc_u8 M 3 @ enc_str M (content_type_as_str (hdr_content_type h))
     @ enc_u8 M 4 @ enc_bytes M (hdr_kid h)
     @ enc_u16 M (ucast PRIVATE_SCHEMA_LABEL) @ enc_u8 M (ucast PRIVATE_SCHEMA_VERSION)"

definition definite :: "string \<Rightarrow> u64 option \<Rightarrow> u64 policy_result" where
  "definite what n = ok_or n (invalid_cose (IndefiniteLength what))"

definition expect_label :: "minicbor \<Rightarrow> u64 \<Rightarrow> unit decoder" where
  "expect_label M expected =
     bindP (dec (dec_u64 M)) (\<lambda>label.
     liftP (ensure (label = expected) (invalid_cose (HeaderLabel expected label))))"

definition decode_header_fields :: "minicbor \<Rightarrow> protected_header decoder" where
  "decode_header_fields M =
     bindP (dec (dec_map M)) (\<lambda>n.
     bindP (liftP (definite ''COSE protected header'' n)) (\<lambda>fields.
     bindP (liftP (ensure (fields = 5) (invalid_cose (HeaderFields fields)))) (\<lambda>_.
     bindP (expect_label M 1) (\<lambda>_.
     bindP (dec (dec_i64 M)) (\<lambda>alg.
     bindP (liftP (ensure (alg = COSE_EDDSA) (invalid_cose (Algorithm alg)))) (\<lambda>_.
     bindP (expect_label M 2) (\<lambda>_.
     bindP (dec (dec_array M)) (\<lambda>crit.
     bindP (liftP (definite ''COSE crit'' crit)) (\<lambda>crit_len.
     bindP (liftP (ensure (crit_len = 1) (invalid_cose (CritEntries crit_len)))) (\<lambda>_.
     bindP (dec (dec_u64 M)) (\<lambda>critical_label.
     bindP (liftP (ensure (critical_label = PRIVATE_SCHEMA_LABEL)
              (invalid_cose (CritLabel critical_label)))) (\<lambda>_.
     bindP (expect_label M 3) (\<lambda>_.
     bindP (dec (dec_str M)) (\<lambda>value.
     bindP (liftP (content_type_from_str value)) (\<lambda>content_type.
     bindP (expect_label M 4) (\<lambda>_.
     bindP (dec (dec_bytes M)) (\<lambda>kid.
     bindP (liftP (ensure (length kid = 16) (invalid_cose (KidLength (length kid))))) (\<lambda>_.
     bindP (expect_label M PRIVATE_SCHEMA_LABEL) (\<lambda>_.
     bindP (dec (dec_u64 M)) (\<lambda>schema.
     bindP (liftP (ensure (schema = PRIVATE_SCHEMA_VERSION)
              (invalid_cose (HeaderSchema schema)))) (\<lambda>_.
     returnP \<lparr> hdr_content_type = content_type, hdr_kid = kid \<rparr>)))))))))))))))))))))"

definition decode_protected_header :: "minicbor \<Rightarrow> bytes \<Rightarrow> protected_header policy_result" where
  "decode_protected_header M input =
     bindR (decode_header_fields M input) (\<lambda>(header, rest).
     bindR (cose_finish rest ''COSE protected header'') (\<lambda>_.
     bindR (ensure (input = encode_protected_header M header)
        (NonCanonical ''COSE protected header'')) (\<lambda>_.
     Inr header)))"

section \<open>Envelope\<close>

definition signature_structure :: "minicbor \<Rightarrow> bytes \<Rightarrow> bytes \<Rightarrow> bytes policy_result" where
  "signature_structure M protected payload =
     bindR (ok_or (usize_checked_add (length protected) (length payload))
        (invalid_cose (LengthOverflow ''COSE signature input''))) (\<lambda>parts_len.
     bindR (ensure (parts_len \<le> MAX_SIGN1_BYTES)
        (TooLarge ''COSE signature input'' parts_len MAX_SIGN1_BYTES)) (\<lambda>_.
     Inr (enc_array M 4 @ enc_str M ''Signature1'' @ enc_bytes M protected @ enc_bytes M []
          @ enc_bytes M payload)))"

definition encode_sign1 :: "minicbor \<Rightarrow> bytes \<Rightarrow> bytes \<Rightarrow> bytes \<Rightarrow> bytes policy_result" where
  "encode_sign1 M protected payload signature =
     bindR (ok_or (usize_checked_add (length protected) (length payload))
        (invalid_cose (LengthOverflow ''COSE_Sign1 input''))) (\<lambda>parts_len.
     bindR (ensure (parts_len \<le> MAX_SIGN1_BYTES)
        (TooLarge ''COSE_Sign1 input'' parts_len MAX_SIGN1_BYTES)) (\<lambda>_.
     bindR (decode_protected_header M protected) (\<lambda>_.
     let output = COSE_SIGN1_TAG # enc_array M 4 @ enc_bytes M protected @ enc_map M 0
           @ enc_bytes M payload @ enc_bytes M signature
     in bindR (ensure (length output \<le> MAX_SIGN1_BYTES)
          (TooLarge ''COSE_Sign1'' (length output) MAX_SIGN1_BYTES)) (\<lambda>_.
        Inr output))))"

definition inspect_fields :: "minicbor \<Rightarrow> parsed_sign1 decoder" where
  "inspect_fields M =
     bindP (dec (dec_array M)) (\<lambda>n.
     bindP (liftP (definite ''COSE_Sign1'' n)) (\<lambda>fields.
     bindP (liftP (ensure (fields = 4) (invalid_cose (Sign1Fields fields)))) (\<lambda>_.
     bindP (dec (dec_bytes M)) (\<lambda>protected.
     bindP (liftP (decode_protected_header M protected)) (\<lambda>header.
     bindP (dec (dec_map M)) (\<lambda>m.
     bindP (liftP (definite ''COSE unprotected header'' m)) (\<lambda>unprotected.
     bindP (liftP (ensure (unprotected = 0) (invalid_cose UnprotectedNotEmpty))) (\<lambda>_.
     bindP (dec (dec_bytes M)) (\<lambda>payload.
     bindP (dec (dec_bytes M)) (\<lambda>signature.
     bindP (liftP (ensure (length signature = SIGNATURE_LEN)
              (invalid_cose (SignatureLength (length signature))))) (\<lambda>_.
     returnP \<lparr> ps_protected = protected, ps_header = header, ps_payload = payload,
       ps_signature = signature \<rparr>)))))))))))"

definition inspect_sign1 :: "minicbor \<Rightarrow> bytes \<Rightarrow> parsed_sign1 policy_result" where
  "inspect_sign1 M input =
     bindR (ensure (length input \<le> MAX_SIGN1_BYTES)
        (TooLarge ''COSE_Sign1'' (length input) MAX_SIGN1_BYTES)) (\<lambda>_.
     case input of
       [] \<Rightarrow> Inl (invalid_cose NotTagged18)
     | tag # body \<Rightarrow>
         bindR (ensure (tag = COSE_SIGN1_TAG) (invalid_cose NotTagged18)) (\<lambda>_.
         bindR (inspect_fields M body) (\<lambda>(parsed, rest).
         bindR (cose_finish rest ''COSE_Sign1'') (\<lambda>_.
         bindR (encode_sign1 M (ps_protected parsed) (ps_payload parsed) (ps_signature parsed))
           (\<lambda>canonical.
         bindR (ensure (input = canonical) (NonCanonical ''COSE_Sign1'')) (\<lambda>_.
         Inr parsed))))))"

definition verify_sign1 ::
  "minicbor \<Rightarrow> crypto \<Rightarrow> bytes \<Rightarrow> content_type \<Rightarrow> bytes \<Rightarrow> bytes \<Rightarrow> bytes policy_result" where
  "verify_sign1 M C input expected_content_type expected_kid public_key =
     bindR (inspect_sign1 M input) (\<lambda>parsed.
     bindR (ensure (hdr_content_type (ps_header parsed) = expected_content_type)
        (invalid_cose ContentTypeMismatch)) (\<lambda>_.
     bindR (ensure (hdr_kid (ps_header parsed) = expected_kid) (invalid_cose KidMismatch)) (\<lambda>_.
     bindR (signature_structure M (ps_protected parsed) (ps_payload parsed)) (\<lambda>to_verify.
     bindR (ensure (ed25519_verify C public_key to_verify (ps_signature parsed)) Signature) (\<lambda>_.
     Inr (ps_payload parsed))))))"

lemmas cose_consts =
  COSE_SIGN1_TAG_def COSE_EDDSA_def PRIVATE_SCHEMA_LABEL_def PRIVATE_SCHEMA_VERSION_def
  SIGNATURE_LEN_def

section \<open>Reading back what was written\<close>

lemma content_type_strings:
  "KEYSET_CONTENT_TYPE \<noteq> POLICY_CONTENT_TYPE"
  "KEYSET_CONTENT_TYPE \<noteq> LEGACY_POLICY_CONTENT_TYPE_V1"
  "POLICY_CONTENT_TYPE \<noteq> LEGACY_POLICY_CONTENT_TYPE_V1"
  by (simp_all add: KEYSET_CONTENT_TYPE_def POLICY_CONTENT_TYPE_def
        LEGACY_POLICY_CONTENT_TYPE_V1_def)

lemma content_type_from_as_str [simp]: "content_type_from_str (content_type_as_str c) = Inr c"
  using content_type_strings by (cases c) (auto simp: content_type_from_str_def)

lemma content_type_from_str_iff:
  "content_type_from_str s = Inr c \<longleftrightarrow> s = content_type_as_str c"
  using content_type_strings
  by (cases c) (auto simp: content_type_from_str_def split: if_splits)

lemma content_type_str_ok:
  "utf8_valid (content_type_as_str c)" "length (content_type_as_str c) \<le> 65536"
proof -
  have "\<forall>x \<in> set (content_type_as_str c). char_code x < 128"
    by (cases c)
       (simp_all add: KEYSET_CONTENT_TYPE_def POLICY_CONTENT_TYPE_def char_code_def)
  then show "utf8_valid (content_type_as_str c)"
    by (rule utf8_valid_ascii)
  show "length (content_type_as_str c) \<le> 65536"
    by (cases c) (simp_all add: KEYSET_CONTENT_TYPE_def POLICY_CONTENT_TYPE_def)
qed

lemma signature_structure_iff:
  "signature_structure M protected payload = Inr out \<longleftrightarrow>
     length protected + length payload \<le> MAX_SIGN1_BYTES
     \<and> out = enc_array M 4 @ enc_str M ''Signature1'' @ enc_bytes M protected @ enc_bytes M []
         @ enc_bytes M payload"
  by (auto simp: signature_structure_def usize_checked_add_def limit_defs result_simps)

lemma encode_sign1_iff:
  "encode_sign1 M protected payload sig = Inr out \<longleftrightarrow>
     length protected + length payload \<le> MAX_SIGN1_BYTES
     \<and> (\<exists>h. decode_protected_header M protected = Inr h)
     \<and> out = COSE_SIGN1_TAG # enc_array M 4 @ enc_bytes M protected @ enc_map M 0
         @ enc_bytes M payload @ enc_bytes M sig
     \<and> length out \<le> MAX_SIGN1_BYTES"
  by (auto simp: encode_sign1_def usize_checked_add_def limit_defs Let_def result_simps)

lemma decode_protected_header_canonical:
  "decode_protected_header M b = Inr h \<Longrightarrow>
     b = encode_protected_header M h \<and> length (hdr_kid h) = 16"
  by (auto simp: decode_protected_header_def decode_header_fields_def result_simps codec_simps)

lemma inspect_sign1_canonical:
  assumes "inspect_sign1 M input = Inr ps"
  shows "encode_sign1 M (ps_protected ps) (ps_payload ps) (ps_signature ps) = Inr input"
    and "decode_protected_header M (ps_protected ps) = Inr (ps_header ps)"
    and "length (ps_signature ps) = SIGNATURE_LEN"
  using assms
  by (auto simp: inspect_sign1_def inspect_fields_def result_simps codec_simps
        split: list.splits)

context cbor_codec
begin

lemma expect_label_encoded [simp]:
  "ucast a = k \<Longrightarrow> expect_label M k (enc_u8 M a @ r) = Inr ((), r)"
  "ucast b = k \<Longrightarrow> expect_label M k (enc_u16 M b @ r) = Inr ((), r)"
  by (simp_all add: expect_label_def bindP_apply dec_def u64_of_u8 u64_of_u16)

lemma decode_header_fields_encoded:
  assumes "length (hdr_kid h) = 16"
  shows "decode_header_fields M (encode_protected_header M h @ r) = Inr (h, r)"
proof -
  have str: "dec (dec_str M) (enc_str M (content_type_as_str c) @ t)
      = Inr (content_type_as_str c, t)" for c t
    using content_type_str_ok by simp
  have u16: "dec (dec_u64 M) (enc_u16 M b @ t) = Inr (ucast b, t)" for b t
    by (simp add: dec_def u64_of_u16)
  have heads: "dec (dec_map M) (enc_map M n @ t) = Inr (Some n, t)"
      "dec (dec_array M) (enc_array M n @ t) = Inr (Some n, t)" for n t
    by (simp_all add: dec_def map_of_map array_of_array)
  have alg: "dec (dec_i64 M) (enc_i8 M (- 8) @ t) = Inr (- 8, t)" for t
    by (simp add: dec_def i64_of_i8)
  from assms show ?thesis
    by (simp add: decode_header_fields_def encode_protected_header_def bindP_apply
          definite_def str u16 heads alg cose_consts)
qed

lemma decode_protected_header_encoded:
  assumes "length (hdr_kid h) = 16"
  shows "decode_protected_header M (encode_protected_header M h) = Inr h"
  using decode_header_fields_encoded [OF assms, of "[]"]
  by (simp add: decode_protected_header_def cose_finish_def)

lemma inspect_sign1_encoded:
  assumes enc: "encode_sign1 M protected payload sig = Inr out"
    and hdr: "decode_protected_header M protected = Inr h" and sig: "length sig = SIGNATURE_LEN"
  shows "inspect_sign1 M out = Inr \<lparr> ps_protected = protected, ps_header = h,
    ps_payload = payload, ps_signature = sig \<rparr>"
proof -
  from enc have len: "length protected \<le> 65536" "length payload \<le> 65536"
    and out: "out = COSE_SIGN1_TAG # enc_array M 4 @ enc_bytes M protected @ enc_map M 0
         @ enc_bytes M payload @ enc_bytes M sig"
    and small: "length out \<le> MAX_SIGN1_BYTES"
    by (auto simp: encode_sign1_iff limit_defs)
  have heads: "dec (dec_map M) (enc_map M n @ t) = Inr (Some n, t)"
      "dec (dec_array M) (enc_array M n @ t) = Inr (Some n, t)" for n t
    by (simp_all add: dec_def map_of_map array_of_array)
  have "inspect_fields M (enc_array M 4 @ enc_bytes M protected @ enc_map M 0
      @ enc_bytes M payload @ enc_bytes M sig @ r)
    = Inr (\<lparr> ps_protected = protected, ps_header = h, ps_payload = payload,
        ps_signature = sig \<rparr>, r)" for r
    using len hdr sig
    by (simp add: inspect_fields_def bindP_apply definite_def heads SIGNATURE_LEN_def)
  from this [of "[]"] enc small show ?thesis
    by (simp add: inspect_sign1_def out cose_finish_def)
qed

text \<open>The signed bytes determine the protected header and the payload.\<close>

lemma signature_structure_inj:
  assumes "signature_structure M p1 m1 = Inr b" and "signature_structure M p2 m2 = Inr b"
  shows "p1 = p2 \<and> m1 = m2"
proof -
  define body where "body p m = enc_array M 4 @ enc_str M ''Signature1'' @ enc_bytes M p
    @ enc_bytes M [] @ enc_bytes M m" for p m
  define read where "read =
    bindP (dec (dec_array M)) (\<lambda>_. bindP (dec (dec_str M)) (\<lambda>_.
    bindP (dec (dec_bytes M)) (\<lambda>p. bindP (dec (dec_bytes M)) (\<lambda>_.
    bindP (dec (dec_bytes M)) (\<lambda>m. returnP (p, m))))))"
  have utf: "utf8_valid ''Signature1''"
    by (rule utf8_valid_ascii) (simp add: char_code_def)
  have arr: "dec (dec_array M) (enc_array M n @ t) = Inr (Some n, t)" for n t
    by (simp add: dec_def array_of_array)
  have rd: "read (body p m) = Inr ((p, m), [])"
    if "length p \<le> 65536" "length m \<le> 65536" for p m
    using that dec_bytes_encoded [of m "[]"] by (simp add: read_def body_def bindP_apply arr utf)
  have b: "b = body p1 m1" "b = body p2 m2"
    and len: "length p1 \<le> 65536" "length m1 \<le> 65536" "length p2 \<le> 65536" "length m2 \<le> 65536"
    using assms by (auto simp: signature_structure_iff body_def limit_defs)
  have "read b = Inr ((p1, m1), [])"
    using rd [OF len(1,2)] b(1) by simp
  moreover have "read b = Inr ((p2, m2), [])"
    using rd [OF len(3,4)] b(2) by simp
  ultimately show ?thesis by simp
qed

end

text \<open>What a verified envelope guarantees.\<close>

lemma verify_sign1_sound:
  assumes "verify_sign1 M C input ct kid pk = Inr payload"
  obtains protected sig signed where
    "protected = encode_protected_header M \<lparr> hdr_content_type = ct, hdr_kid = kid \<rparr>"
    "length kid = 16" "length sig = SIGNATURE_LEN"
    "encode_sign1 M protected payload sig = Inr input"
    "signature_structure M protected payload = Inr signed"
    "ed25519_verify C pk signed sig"
proof -
  from assms obtain ps signed where ins: "inspect_sign1 M input = Inr ps"
    and hd: "hdr_content_type (ps_header ps) = ct" "hdr_kid (ps_header ps) = kid"
    and str: "signature_structure M (ps_protected ps) (ps_payload ps) = Inr signed"
    and ok: "ed25519_verify C pk signed (ps_signature ps)" and pay: "payload = ps_payload ps"
    by (auto simp: verify_sign1_def result_simps)
  have hdr: "ps_header ps = \<lparr> hdr_content_type = ct, hdr_kid = kid \<rparr>"
    using hd by simp
  from decode_protected_header_canonical [OF inspect_sign1_canonical(2) [OF ins]] hdr
  have prot: "ps_protected ps = encode_protected_header M \<lparr> hdr_content_type = ct, hdr_kid = kid \<rparr>"
    and kid: "length kid = 16"
    by simp_all
  show ?thesis
    using inspect_sign1_canonical(1) [OF ins] str ok pay
    by (intro that [OF prot kid inspect_sign1_canonical(3) [OF ins]]) simp_all
qed

text \<open>An envelope under a key: the canonical encoding of the expected header, the payload and a
signature of them that the key verifies.\<close>

definition signed_envelope ::
  "minicbor \<Rightarrow> crypto \<Rightarrow> content_type \<Rightarrow> bytes \<Rightarrow> bytes \<Rightarrow> bytes \<Rightarrow> bytes \<Rightarrow> bool" where
  "signed_envelope M C ct kid pk payload out \<longleftrightarrow>
     length kid = 16 \<and>
     (\<exists>sig signed. length sig = SIGNATURE_LEN
        \<and> encode_sign1 M (encode_protected_header M \<lparr> hdr_content_type = ct, hdr_kid = kid \<rparr>)
            payload sig = Inr out
        \<and> signature_structure M
            (encode_protected_header M \<lparr> hdr_content_type = ct, hdr_kid = kid \<rparr>) payload
            = Inr signed
        \<and> ed25519_verify C pk signed sig)"

context cbor_codec
begin

lemma verify_sign1_iff:
  "verify_sign1 M C out ct kid pk = Inr payload \<longleftrightarrow> signed_envelope M C ct kid pk payload out"
proof
  assume "verify_sign1 M C out ct kid pk = Inr payload"
  then show "signed_envelope M C ct kid pk payload out"
    by (rule verify_sign1_sound) (auto simp: signed_envelope_def)
next
  assume "signed_envelope M C ct kid pk payload out"
  then obtain sig signed where "length kid = 16" and sig: "length sig = SIGNATURE_LEN"
    and enc: "encode_sign1 M (encode_protected_header M \<lparr> hdr_content_type = ct, hdr_kid = kid \<rparr>)
            payload sig = Inr out"
    and "signature_structure M
            (encode_protected_header M \<lparr> hdr_content_type = ct, hdr_kid = kid \<rparr>) payload
            = Inr signed"
    and "ed25519_verify C pk signed sig"
    by (auto simp: signed_envelope_def)
  then show "verify_sign1 M C out ct kid pk = Inr payload"
    by (simp add: verify_sign1_def inspect_sign1_encoded [OF enc decode_protected_header_encoded sig])
qed

end

end
