(* ===== verification/Policy_Plan.thy ===== *)
theory Policy_Plan
  imports Policy_Cose
begin

unbundle bit_operations_syntax

text \<open>
  The connection plan built from a verified policy (\<open>signed_policy/plan.rs\<close>), with the
  constant-time comparison it uses (\<open>crypto/mod.rs\<close>). The lemmas show that the plan lists
  exactly the policy's endpoints with their service's pins, that building it cannot panic
  on a policy within the size limits, and that the branch-free pin test is membership.
\<close>

section \<open>Constant-time comparison\<close>

definition ct_eq :: "bytes \<Rightarrow> bytes \<Rightarrow> bool" where
  "ct_eq a b =
     (if length a \<noteq> length b then False
      else fold (\<lambda>(x, y) diff. diff OR (x XOR y)) (zip a b) 0 = (0 :: u8))"

section \<open>Server pins\<close>

record server_pins =
  vp_fingerprints :: "bytes list"
  vp_len :: u8

definition server_pins_new :: "bytes list \<Rightarrow> server_pins policy_result" where
  "server_pins_new pins =
     (if pins = [] \<or> length pins > MAX_PINS_PER_SERVICE then Inl (invalid_bundle PlanPinCount)
      else Inr \<lparr> vp_fingerprints =
                   pins @ replicate (MAX_PINS_PER_SERVICE - length pins) (replicate 32 0),
                 vp_len = word_of_nat (length pins) \<rparr>)"

definition server_pins_len :: "server_pins \<Rightarrow> nat" where
  "server_pins_len p = unat (vp_len p)"

definition server_pins_as_slice :: "server_pins \<Rightarrow> bytes list" where
  "server_pins_as_slice p = take (server_pins_len p) (vp_fingerprints p)"

definition server_pins_matches :: "server_pins \<Rightarrow> bytes \<Rightarrow> bool" where
  "server_pins_matches p candidate =
     (fold (\<lambda>fp matched. matched OR (if ct_eq fp candidate then 1 else 0))
        (server_pins_as_slice p) (0 :: u8) \<noteq> 0)"

section \<open>Plan\<close>

record plan_endpoint =
  pe_service_id :: bytes
  pe_endpoint_id :: bytes
  pe_socket_addr :: "bytes \<times> u16"
  pe_locator_name :: string
  pe_sni :: string
  pe_reality_x25519_public_key :: bytes
  pe_reality_short_id_array :: bytes
  pe_reality_short_id_len :: u8
  pe_server_pins :: server_pins

definition pe_reality_short_id :: "plan_endpoint \<Rightarrow> bytes" where
  "pe_reality_short_id e = take (unat (pe_reality_short_id_len e)) (pe_reality_short_id_array e)"

record reality_plan =
  plan_policy_epoch :: u64
  plan_sequence :: u64
  plan_expires_at :: int
  plan_endpoints :: "plan_endpoint list"

definition plan_endpoint_of ::
  "service \<Rightarrow> server_pins \<Rightarrow> reality_endpoint \<Rightarrow> plan_endpoint policy_result" where
  "plan_endpoint_of s pins e =
     (let id = ep_reality_short_id e in
      if length id > MAX_SHORT_ID_BYTES then Inl Panicked
      else Inr \<lparr> pe_service_id = svc_service_id s, pe_endpoint_id = ep_endpoint_id e,
        pe_socket_addr = (ep_ipv4 e, ep_port e), pe_locator_name = ep_locator_name e,
        pe_sni = ep_sni e, pe_reality_x25519_public_key = ep_reality_x25519_public_key e,
        pe_reality_short_id_array = id @ replicate (MAX_SHORT_ID_BYTES - length id) 0,
        pe_reality_short_id_len = word_of_nat (length id), pe_server_pins = pins \<rparr>)"

definition plan_service ::
  "plan_endpoint list \<Rightarrow> service \<Rightarrow> plan_endpoint list policy_result" where
  "plan_service endpoints s =
     bindR (server_pins_new (map pin_fingerprint (svc_pins s))) (\<lambda>pins.
     foldE (\<lambda>acc e. bindR (plan_endpoint_of s pins e) (\<lambda>pe. Inr (acc @ [pe])))
       endpoints (svc_endpoints s))"

definition build_verified_plan :: "endpoint_policy \<Rightarrow> reality_plan policy_result" where
  "build_verified_plan p =
     bindR (foldE plan_service [] (pol_services p)) (\<lambda>endpoints.
     Inr \<lparr> plan_policy_epoch = pol_policy_epoch p, plan_sequence = pol_sequence p,
       plan_expires_at = pol_expires_at p, plan_endpoints = endpoints \<rparr>)"

section \<open>The branch-free tests\<close>

lemma or_eq_zero: "(a :: u8) OR b = 0 \<longleftrightarrow> a = 0 \<and> b = 0"
  by (auto simp: bit_eq_iff bit_simps)

lemma ct_fold_zero:
  "fold (\<lambda>(x, y) diff. diff OR (x XOR y)) ps (d :: u8) = 0 \<longleftrightarrow> d = 0 \<and> (\<forall>(x, y) \<in> set ps. x = y)"
proof (induction ps arbitrary: d)
  case (Cons p ps)
  have "x XOR y = 0 \<longleftrightarrow> x = y" for x y :: u8
    by (metis xor_self_eq xor.right_neutral xor.left_commute)
  with Cons show ?case
    by (cases p) (auto simp: or_eq_zero)
qed simp

lemma ct_eq_iff: "ct_eq a b \<longleftrightarrow> a = b"
proof -
  have "(\<forall>(x, y) \<in> set (zip a b). x = y) \<longleftrightarrow> a = b" if "length a = length b"
    using that by (induction a b rule: list_induct2) auto
  then show ?thesis
    by (auto simp: ct_eq_def ct_fold_zero)
qed

lemma matched_fold:
  "fold (\<lambda>fp matched. matched OR (if ct_eq fp c then 1 else 0)) fps (m :: u8) \<noteq> 0
     \<longleftrightarrow> m \<noteq> 0 \<or> c \<in> set fps"
  by (induction fps arbitrary: m) (auto simp: or_eq_zero ct_eq_iff)

lemma server_pins_new_slice:
  assumes "server_pins_new pins = Inr vp"
  shows "server_pins_as_slice vp = pins"
proof -
  from assms have len: "length pins \<le> 3" and
    vp: "vp = \<lparr> vp_fingerprints = pins @ replicate (MAX_PINS_PER_SERVICE - length pins) (replicate 32 0),
                 vp_len = word_of_nat (length pins) \<rparr>"
    by (auto simp: server_pins_new_def limit_defs split: if_splits)
  have "unat (word_of_nat (length pins) :: u8) = length pins"
    using len by (simp add: unat_word_of_nat_8)
  with vp show ?thesis
    by (simp add: server_pins_as_slice_def server_pins_len_def)
qed

lemma server_pins_matches_iff:
  "server_pins_new pins = Inr vp \<Longrightarrow> server_pins_matches vp c \<longleftrightarrow> c \<in> set pins"
  using matched_fold [of c "server_pins_as_slice vp" 0]
  by (simp add: server_pins_matches_def server_pins_new_slice)

section \<open>The plan lists the policy's endpoints\<close>

text \<open>What one plan entry says about the endpoint it was made from.\<close>

definition plan_entry :: "service \<Rightarrow> reality_endpoint \<Rightarrow> plan_endpoint \<Rightarrow> bool" where
  "plan_entry s e pe \<longleftrightarrow>
     pe_service_id pe = svc_service_id s \<and> pe_endpoint_id pe = ep_endpoint_id e
     \<and> pe_socket_addr pe = (ep_ipv4 e, ep_port e) \<and> pe_locator_name pe = ep_locator_name e
     \<and> pe_sni pe = ep_sni e
     \<and> pe_reality_x25519_public_key pe = ep_reality_x25519_public_key e
     \<and> pe_reality_short_id pe = ep_reality_short_id e
     \<and> (\<forall>fp. server_pins_matches (pe_server_pins pe) fp \<longleftrightarrow>
          fp \<in> pin_fingerprint ` set (svc_pins s))"

lemma plan_endpoint_of_entry:
  assumes pins: "server_pins_new (map pin_fingerprint (svc_pins s)) = Inr vp"
    and small: "length (ep_reality_short_id e) \<le> MAX_SHORT_ID_BYTES"
  shows "\<exists>pe. plan_endpoint_of s vp e = Inr pe \<and> plan_entry s e pe"
proof -
  have "unat (word_of_nat (length (ep_reality_short_id e)) :: u8) = length (ep_reality_short_id e)"
    using small by (simp add: unat_word_of_nat_8 limit_defs)
  with small show ?thesis
    using server_pins_matches_iff [OF pins]
    by (simp add: plan_endpoint_of_def plan_entry_def pe_reality_short_id_def Let_def)
qed

lemma plan_endpoints_loop:
  assumes pins: "server_pins_new (map pin_fingerprint (svc_pins s)) = Inr vp"
    and small: "\<forall>e \<in> set es. length (ep_reality_short_id e) \<le> MAX_SHORT_ID_BYTES"
  shows "\<exists>pes. foldE (\<lambda>acc e. bindR (plan_endpoint_of s vp e) (\<lambda>pe. Inr (acc @ [pe]))) acc es
      = Inr (acc @ pes) \<and> list_all2 (plan_entry s) es pes"
  using small
proof (induction es arbitrary: acc)
  case (Cons e es)
  from plan_endpoint_of_entry [OF pins, of e] Cons.prems obtain pe where
    pe: "plan_endpoint_of s vp e = Inr pe" "plan_entry s e pe"
    by auto
  from Cons.IH [of "acc @ [pe]"] Cons.prems obtain pes where
    "foldE (\<lambda>acc e. bindR (plan_endpoint_of s vp e) (\<lambda>pe. Inr (acc @ [pe]))) (acc @ [pe]) es
      = Inr ((acc @ [pe]) @ pes)" "list_all2 (plan_entry s) es pes"
    by auto
  with pe show ?case
    by (intro exI [of _ "pe # pes"]) simp
qed simp

definition plan_source :: "service list \<Rightarrow> (service \<times> reality_endpoint) list" where
  "plan_source ss = concat (map (\<lambda>s. map (Pair s) (svc_endpoints s)) ss)"

definition plan_ready :: "service \<Rightarrow> bool" where
  "plan_ready s \<longleftrightarrow>
     svc_pins s \<noteq> [] \<and> length (svc_pins s) \<le> MAX_PINS_PER_SERVICE
     \<and> (\<forall>e \<in> set (svc_endpoints s). length (ep_reality_short_id e) \<le> MAX_SHORT_ID_BYTES)"

lemma plan_service_ready:
  assumes "plan_ready s"
  shows "\<exists>pes. plan_service acc s = Inr (acc @ pes)
    \<and> list_all2 (\<lambda>(t, e). plan_entry t e) (map (Pair s) (svc_endpoints s)) pes"
proof -
  from assms obtain vp where vp: "server_pins_new (map pin_fingerprint (svc_pins s)) = Inr vp"
    by (auto simp: plan_ready_def server_pins_new_def)
  from plan_endpoints_loop [OF vp, of "svc_endpoints s" acc] assms vp show ?thesis
    by (auto simp: plan_ready_def plan_service_def list_all2_map1)
qed

lemma plan_services_ready:
  assumes "\<forall>s \<in> set ss. plan_ready s"
  shows "\<exists>pes. foldE plan_service acc ss = Inr (acc @ pes)
    \<and> list_all2 (\<lambda>(s, e). plan_entry s e) (plan_source ss) pes"
  using assms
proof (induction ss arbitrary: acc)
  case Nil
  then show ?case by (simp add: plan_source_def)
next
  case (Cons s ss)
  from plan_service_ready [of s acc] Cons.prems obtain pes where
    hd: "plan_service acc s = Inr (acc @ pes)"
      "list_all2 (\<lambda>(t, e). plan_entry t e) (map (Pair s) (svc_endpoints s)) pes"
    by auto
  from Cons.IH [of "acc @ pes"] Cons.prems obtain qes where
    "foldE plan_service (acc @ pes) ss = Inr ((acc @ pes) @ qes)"
    "list_all2 (\<lambda>(s, e). plan_entry s e) (plan_source ss) qes"
    by auto
  with hd show ?case
    by (intro exI [of _ "pes @ qes"]) (simp add: plan_source_def list_all2_appendI)
qed

lemma build_verified_plan_ready:
  assumes "\<forall>s \<in> set (pol_services p). plan_ready s"
  shows "\<exists>plan. build_verified_plan p = Inr plan
    \<and> plan_policy_epoch plan = pol_policy_epoch p \<and> plan_sequence plan = pol_sequence p
    \<and> plan_expires_at plan = pol_expires_at p
    \<and> list_all2 (\<lambda>(s, e). plan_entry s e) (plan_source (pol_services p)) (plan_endpoints plan)"
  using plan_services_ready [OF assms, of "[]"] by (auto simp: build_verified_plan_def)

end
