(* ===== verification/Policy_Verify.thy ===== *)
theory Policy_Verify
  imports Policy_Plan
begin

text \<open>
  Verification of a policy bundle (\<open>signed_policy/verify.rs\<close>): validity windows, the rules
  for keysets and policies, canonical DNS names and the whole \<open>verify_bundle\<close>. For each
  validation loop there is a declarative predicate, and a lemma that the loop accepts
  exactly the values that satisfy it.
\<close>

section \<open>Verified values\<close>

record verified_bundle =
  vb_root_id :: bytes
  vb_keyset :: keyset
  vb_policy :: endpoint_policy
  vb_keyset_hash :: bytes
  vb_policy_hash :: bytes
  vb_signer_kid :: bytes
  vb_plan :: reality_plan

record verified_keyset =
  vk_root_id :: bytes
  vk_keyset :: keyset
  vk_payload_hash :: bytes

section \<open>Hashes\<close>

definition KEYSET_HASH_DOMAIN :: bytes where
  "KEYSET_HASH_DOMAIN = ascii_bytes ''shadowpipe-keyset-v1'' @ [0]"

definition POLICY_HASH_DOMAIN :: bytes where
  "POLICY_HASH_DOMAIN = ascii_bytes ''shadowpipe-policy-v2'' @ [0]"

definition ROOT_ID_DOMAIN :: bytes where
  "ROOT_ID_DOMAIN = ascii_bytes ''shadowpipe-policy-root-v1'' @ [0]"

definition domain_hash :: "crypto \<Rightarrow> bytes \<Rightarrow> bytes \<Rightarrow> bytes" where
  "domain_hash C domain payload = sha256 C (domain @ payload)"

definition keyset_payload_hash :: "crypto \<Rightarrow> bytes \<Rightarrow> bytes" where
  "keyset_payload_hash C payload = domain_hash C KEYSET_HASH_DOMAIN payload"

definition policy_payload_hash :: "crypto \<Rightarrow> bytes \<Rightarrow> bytes" where
  "policy_payload_hash C payload = domain_hash C POLICY_HASH_DOMAIN payload"

definition trusted_root_id :: "crypto \<Rightarrow> trusted_root \<Rightarrow> bytes" where
  "trusted_root_id C root =
     sha256 C (ROOT_ID_DOMAIN @ root_kid root @ root_ed25519_public_key root)"

section \<open>Windows and keysets\<close>

definition validate_window ::
  "string \<Rightarrow> int \<Rightarrow> int \<Rightarrow> int \<Rightarrow> int \<Rightarrow> int \<Rightarrow> unit policy_result" where
  "validate_window what issued_at not_before expires_at now maximum_ttl =
     (if issued_at < 0 \<or> not_before < 0 \<or> expires_at < 0 then
        Inl (invalid_verify (NegativeTimestamp what))
      else if issued_at < not_before \<or> issued_at \<ge> expires_at then
        Inl (invalid_verify (IssuedOutsideWindow what))
      else bindR (ok_or (i64_checked_sub expires_at not_before)
             (invalid_verify (WindowOverflow what))) (\<lambda>ttl.
        if ttl \<le> 0 \<or> ttl > maximum_ttl then
          Inl (invalid_verify (TtlOutOfRange what ttl maximum_ttl))
        else if issued_at > i64_saturating_add now MAX_CLOCK_SKEW_SECS then
          Inl (invalid_verify (IssuedInFuture what))
        else if now < not_before then Inl (NotYetValid what)
        else if now \<ge> expires_at then Inl (Expired what)
        else Inr ()))"

definition validate_key ::
  "keyset \<Rightarrow> int \<Rightarrow> bytes option \<times> bytes set \<times> bool \<Rightarrow> online_key
     \<Rightarrow> (bytes option \<times> bytes set \<times> bool) policy_result" where
  "validate_key ks now = (\<lambda>(previous_kid, public_keys, usable_active_key) key.
     if (case previous_kid of None \<Rightarrow> False | Some previous \<Rightarrow> key_kid key \<le> previous) then
       Inl (invalid_verify KeysNotSorted)
     else if key_ed25519_public_key key \<in> public_keys then
       Inl (invalid_verify DuplicatePublicKey)
     else if key_ed25519_public_key key = replicate 32 0 then
       Inl (invalid_verify ZeroPublicKey)
     else if key_not_before key < ks_not_before ks \<or> key_expires_at key > ks_expires_at ks then
       Inl (invalid_verify KeyLifetimeOutsideKeyset)
     else if key_not_before key \<ge> key_expires_at key then
       Inl (invalid_verify KeyWindowEmpty)
     else if key_status_since key < key_not_before key
           \<or> key_status_since key > ks_issued_at ks then
       Inl (invalid_verify KeyStatusSinceOutside)
     else Inr (Some (key_kid key), insert (key_ed25519_public_key key) public_keys,
       usable_active_key \<or>
       (key_status key = KeyActive \<and> now \<ge> key_not_before key \<and> now < key_expires_at key)))"

definition validate_keyset :: "keyset \<Rightarrow> int \<Rightarrow> unit policy_result" where
  "validate_keyset ks now =
     bindR (validate_window ''online-key set'' (ks_issued_at ks) (ks_not_before ks)
              (ks_expires_at ks) now KEYSET_MAX_TTL_SECS) (\<lambda>_.
     bindR (ensure (ks_keys ks \<noteq> []) (invalid_verify KeysetEmpty)) (\<lambda>_.
     bindR (foldE (validate_key ks now) (None, {}, False) (ks_keys ks))
       (\<lambda>(_, _, usable_active_key).
     ensure usable_active_key (invalid_verify NoUsableActiveKey))))"

definition verify_keyset_artifact ::
  "minicbor \<Rightarrow> crypto \<Rightarrow> bytes \<Rightarrow> trusted_root \<Rightarrow> int \<Rightarrow> verified_keyset policy_result" where
  "verify_keyset_artifact M C sign1 root now =
     bindR (ensure (root_ed25519_public_key root \<noteq> replicate 32 0)
        (invalid_verify ZeroRootKey)) (\<lambda>_.
     bindR (verify_sign1 M C sign1 CtKeyset (root_kid root) (root_ed25519_public_key root))
       (\<lambda>payload.
     bindR (decode_keyset_payload M payload) (\<lambda>keyset.
     bindR (validate_keyset keyset now) (\<lambda>_.
     Inr \<lparr> vk_root_id = trusted_root_id C root, vk_keyset = keyset,
       vk_payload_hash = keyset_payload_hash C payload \<rparr>))))"

section \<open>DNS names and addresses\<close>

definition is_ascii :: "char \<Rightarrow> bool" where
  "is_ascii c \<longleftrightarrow> char_code c < 128"

definition is_ascii_uppercase :: "char \<Rightarrow> bool" where
  "is_ascii_uppercase c \<longleftrightarrow> 65 \<le> char_code c \<and> char_code c \<le> 90"

definition is_ascii_lowercase :: "char \<Rightarrow> bool" where
  "is_ascii_lowercase c \<longleftrightarrow> 97 \<le> char_code c \<and> char_code c \<le> 122"

definition is_ascii_digit :: "char \<Rightarrow> bool" where
  "is_ascii_digit c \<longleftrightarrow> 48 \<le> char_code c \<and> char_code c \<le> 57"

definition is_ascii_alphanumeric :: "char \<Rightarrow> bool" where
  "is_ascii_alphanumeric c \<longleftrightarrow>
     is_ascii_uppercase c \<or> is_ascii_lowercase c \<or> is_ascii_digit c"

definition check_dns_label :: "string \<Rightarrow> string \<Rightarrow> unit policy_result" where
  "check_dns_label what label =
     ensure (\<not> (label = [] \<or> length label > 63
                 \<or> \<not> is_ascii_alphanumeric (label ! 0)
                 \<or> \<not> is_ascii_alphanumeric (label ! (length label - 1))
                 \<or> list_ex (\<lambda>b. \<not> is_ascii_lowercase b \<and> \<not> is_ascii_digit b \<and> b \<noteq> CHR ''-'') label))
       (invalid_verify (DnsBadLabel what label))"

definition validate_canonical_dns_name :: "string \<Rightarrow> string \<Rightarrow> unit policy_result" where
  "validate_canonical_dns_name value what =
     bindR (ensure (\<not> (value = [] \<or> length value > 253 \<or> \<not> list_all is_ascii value))
        (invalid_verify (DnsNotAscii what))) (\<lambda>_.
     bindR (ensure (\<not> (list_ex is_ascii_uppercase value \<or> last value = CHR ''.''))
        (invalid_verify (DnsNotCanonical what))) (\<lambda>_.
     let labels = split_on (CHR ''.'') value in
     bindR (ensure (\<not> length labels < 2) (invalid_verify (DnsTooFewLabels what))) (\<lambda>_.
     foldE (\<lambda>_ label. check_dns_label what label) () labels)))"

definition special_ipv4 :: "bytes \<Rightarrow> bool" where
  "special_ipv4 ip \<longleftrightarrow>
     ip = [0, 0, 0, 0] \<or> ip ! 0 = 127 \<or> (ip ! 0 = 169 \<and> ip ! 1 = 254)
     \<or> (224 \<le> ip ! 0 \<and> ip ! 0 \<le> 239) \<or> ip = [255, 255, 255, 255]"

definition reality_public_key_is_contributory :: "crypto \<Rightarrow> bytes \<Rightarrow> bool" where
  "reality_public_key_is_contributory C pk \<longleftrightarrow> x25519 C (replicate 32 165) pk \<noteq> replicate 32 0"

section \<open>Policies\<close>

definition validate_pin ::
  "endpoint_policy \<Rightarrow> bytes option \<times> bool \<Rightarrow> server_pin \<Rightarrow> (bytes option \<times> bool) policy_result"
where
  "validate_pin p = (\<lambda>(previous_fingerprint, has_active_pin) pin.
     if (case previous_fingerprint of None \<Rightarrow> False
         | Some previous \<Rightarrow> pin_fingerprint pin \<le> previous) then
       Inl (invalid_verify PinsNotSorted)
     else if pin_fingerprint pin = replicate 32 0 then Inl (invalid_verify ZeroPin)
     else if pin_not_before pin > pol_not_before p \<or> pin_expires_at pin < pol_expires_at p then
       Inl (invalid_verify PinLifetimeTooShort)
     else if pin_not_before pin \<ge> pin_expires_at pin
           \<or> pin_status_since pin < pin_not_before pin
           \<or> pin_status_since pin > pol_issued_at p then
       Inl (invalid_verify PinTimestamps)
     else Inr (Some (pin_fingerprint pin), has_active_pin \<or> pin_status pin = PinActive))"

type_synonym endpoint_tuple = "string \<times> bytes \<times> u16 \<times> string"

definition endpoint_tuple_of :: "reality_endpoint \<Rightarrow> endpoint_tuple" where
  "endpoint_tuple_of e = (ep_locator_name e, ep_ipv4 e, ep_port e, ep_sni e)"

definition validate_endpoint ::
  "crypto \<Rightarrow> bytes option \<times> bytes set \<times> endpoint_tuple set \<times> nat \<Rightarrow> reality_endpoint
     \<Rightarrow> (bytes option \<times> bytes set \<times> endpoint_tuple set \<times> nat) policy_result" where
  "validate_endpoint C = (\<lambda>(previous_endpoint_id, endpoint_ids, endpoint_tuples, total) e.
     if (case previous_endpoint_id of None \<Rightarrow> False
         | Some previous \<Rightarrow> ep_endpoint_id e \<le> previous) then
       Inl (invalid_verify EndpointsNotSorted)
     else if ep_endpoint_id e \<in> endpoint_ids then Inl (invalid_verify DuplicateEndpointId)
     else if total + 1 > MAX_TOTAL_ENDPOINTS then Inl (invalid_verify EndpointBound)
     else if ep_port e = 0 then Inl (invalid_verify ZeroPort)
     else if special_ipv4 (ep_ipv4 e) then Inl (invalid_verify SpecialIpv4)
     else
       bindR (validate_canonical_dns_name (ep_locator_name e) ''locator_name'') (\<lambda>_.
       bindR (validate_canonical_dns_name (ep_sni e) ''SNI'') (\<lambda>_.
       if \<not> reality_public_key_is_contributory C (ep_reality_x25519_public_key e) then
         Inl (invalid_verify LowOrderPublicKey)
       else if length (ep_reality_short_id e) \<noteq> MAX_SHORT_ID_BYTES then
         Inl (invalid_verify ShortIdLength)
       else if endpoint_tuple_of e \<in> endpoint_tuples then
         Inl (invalid_verify DuplicateEndpointTuple)
       else Inr (Some (ep_endpoint_id e), insert (ep_endpoint_id e) endpoint_ids,
         insert (endpoint_tuple_of e) endpoint_tuples, total + 1))))"

type_synonym service_loop =
  "bytes option \<times> bytes list \<times> bytes set \<times> endpoint_tuple set \<times> nat"

definition validate_service ::
  "crypto \<Rightarrow> endpoint_policy \<Rightarrow> service_loop \<Rightarrow> service \<Rightarrow> service_loop policy_result" where
  "validate_service C p =
     (\<lambda>(previous_service_id, service_ids, endpoint_ids, endpoint_tuples, total) s.
     if (case previous_service_id of None \<Rightarrow> False
         | Some previous \<Rightarrow> svc_service_id s \<le> previous) then
       Inl (invalid_verify ServicesNotSorted)
     else if svc_pins s = [] then Inl (invalid_verify NoPins)
     else
       bindR (foldE (validate_pin p) (None, False) (svc_pins s)) (\<lambda>(_, has_active_pin).
       if \<not> has_active_pin then Inl (invalid_verify NoActivePin)
       else if svc_endpoints s = [] then Inl (invalid_verify NoEndpoints)
       else
         bindR (foldE (validate_endpoint C) (None, endpoint_ids, endpoint_tuples, total)
                  (svc_endpoints s)) (\<lambda>(_, endpoint_ids, endpoint_tuples, total).
         Inr (Some (svc_service_id s), service_ids @ [svc_service_id s], endpoint_ids,
           endpoint_tuples, total))))"

fun strictly_increasing :: "bytes list \<Rightarrow> bool" where
  "strictly_increasing (a # b # xs) = (\<not> a \<ge> b \<and> strictly_increasing (b # xs))"
| "strictly_increasing _ = True"

definition validate_policy :: "crypto \<Rightarrow> endpoint_policy \<Rightarrow> int \<Rightarrow> unit policy_result" where
  "validate_policy C p now =
     bindR (validate_window ''endpoint policy'' (pol_issued_at p) (pol_not_before p)
              (pol_expires_at p) now POLICY_MAX_TTL_SECS) (\<lambda>_.
     bindR (ensure (pol_services p \<noteq> []) (invalid_verify NoServices)) (\<lambda>_.
     bindR (foldE (validate_service C p) (None, [], {}, {}, 0) (pol_services p))
       (\<lambda>(_, service_ids, _, _, _).
     case pol_rules p of
       [rule] \<Rightarrow>
         bindR (ensure (rule_service_ids rule = service_ids) (invalid_bundle RuleServices)) (\<lambda>_.
         ensure (strictly_increasing (pol_experiment_evidence p))
           (invalid_bundle EvidenceNotSorted))
     | _ \<Rightarrow> Inl (invalid_bundle RuleCount))))"

section \<open>Bundles\<close>

definition verify_bundle ::
  "minicbor \<Rightarrow> crypto \<Rightarrow> bytes \<Rightarrow> trusted_root \<Rightarrow> int \<Rightarrow> verified_bundle policy_result" where
  "verify_bundle M C input root now =
     bindR (decode_bundle M input) (\<lambda>bundle.
     bindR (verify_keyset_artifact M C (keyset_sign1 bundle) root now) (\<lambda>verified_keyset.
     let keyset = vk_keyset verified_keyset; keyset_hash = vk_payload_hash verified_keyset in
     bindR (inspect_sign1 M (policy_sign1 bundle)) (\<lambda>policy_envelope.
     bindR (ensure (hdr_content_type (ps_header policy_envelope) = CtEndpointPolicy)
        (invalid_bundle PolicyContentType)) (\<lambda>_.
     let signer_kid = hdr_kid (ps_header policy_envelope) in
     bindR (ok_or (List.find (\<lambda>key. key_kid key = signer_kid) (ks_keys keyset))
        (invalid_bundle SignerAbsent)) (\<lambda>signer.
     bindR (ensure (key_status signer = KeyActive) (invalid_bundle SignerNotActive)) (\<lambda>_.
     bindR (ensure (\<not> now < key_not_before signer) (NotYetValid ''policy signer key'')) (\<lambda>_.
     bindR (ensure (\<not> now \<ge> key_expires_at signer) (Expired ''policy signer key'')) (\<lambda>_.
     bindR (verify_sign1 M C (policy_sign1 bundle) CtEndpointPolicy signer_kid
              (key_ed25519_public_key signer)) (\<lambda>policy_payload.
     bindR (decode_policy_payload M policy_payload) (\<lambda>policy.
     bindR (validate_policy C policy now) (\<lambda>_.
     bindR (ensure (pol_keyset_epoch policy = ks_keyset_epoch keyset)
        (invalid_bundle KeysetEpochMismatch)) (\<lambda>_.
     bindR (ensure (pol_keyset_payload_hash policy = keyset_hash)
        (invalid_bundle KeysetHashMismatch)) (\<lambda>_.
     bindR (ensure (\<not> (pol_issued_at policy < ks_issued_at keyset
                       \<or> pol_not_before policy < ks_not_before keyset
                       \<or> pol_expires_at policy > ks_expires_at keyset))
        (invalid_bundle PolicyOutsideKeyset)) (\<lambda>_.
     bindR (ensure (\<not> (pol_not_before policy < key_not_before signer
                       \<or> pol_expires_at policy > key_expires_at signer))
        (invalid_bundle PolicyOutsideSigner)) (\<lambda>_.
     let policy_hash = policy_payload_hash C policy_payload in
     bindR (build_verified_plan policy) (\<lambda>plan.
     Inr \<lparr> vb_root_id = vk_root_id verified_keyset, vb_keyset = keyset, vb_policy = policy,
       vb_keyset_hash = keyset_hash, vb_policy_hash = policy_hash,
       vb_signer_kid = signer_kid, vb_plan = plan \<rparr>))))))))))))))))"

section \<open>Windows and keysets, declaratively\<close>

definition window_ok :: "int \<Rightarrow> int \<Rightarrow> int \<Rightarrow> int \<Rightarrow> int \<Rightarrow> bool" where
  "window_ok issued_at not_before expires_at now maximum_ttl \<longleftrightarrow>
     0 \<le> not_before \<and> not_before \<le> issued_at \<and> issued_at < expires_at
     \<and> expires_at - not_before \<le> maximum_ttl
     \<and> issued_at \<le> now + MAX_CLOCK_SKEW_SECS \<and> not_before \<le> now \<and> now < expires_at"

lemma validate_window_iff:
  assumes "in_i64 issued_at" "in_i64 not_before" "in_i64 expires_at" "in_i64 now"
  shows "validate_window what issued_at not_before expires_at now ttl = Inr () \<longleftrightarrow>
    window_ok issued_at not_before expires_at now ttl"
  using assms
  by (auto simp: validate_window_def window_ok_def result_simps i64_saturating_add_def i64_defs
        MAX_CLOCK_SKEW_SECS_def split: if_splits)

definition key_ok :: "keyset \<Rightarrow> online_key \<Rightarrow> bool" where
  "key_ok ks k \<longleftrightarrow>
     key_ed25519_public_key k \<noteq> replicate 32 0
     \<and> ks_not_before ks \<le> key_not_before k \<and> key_expires_at k \<le> ks_expires_at ks
     \<and> key_not_before k < key_expires_at k
     \<and> key_not_before k \<le> key_status_since k \<and> key_status_since k \<le> ks_issued_at ks"

definition key_usable :: "int \<Rightarrow> online_key \<Rightarrow> bool" where
  "key_usable now k \<longleftrightarrow>
     key_status k = KeyActive \<and> key_not_before k \<le> now \<and> now < key_expires_at k"

definition keyset_valid :: "keyset \<Rightarrow> int \<Rightarrow> bool" where
  "keyset_valid ks now \<longleftrightarrow>
     window_ok (ks_issued_at ks) (ks_not_before ks) (ks_expires_at ks) now KEYSET_MAX_TTL_SECS
     \<and> sorted_wrt (<) (map key_kid (ks_keys ks))
     \<and> distinct (map key_ed25519_public_key (ks_keys ks))
     \<and> (\<forall>k \<in> set (ks_keys ks). key_ok ks k)
     \<and> (\<exists>k \<in> set (ks_keys ks). key_usable now k)"

definition above :: "bytes option \<Rightarrow> bytes list \<Rightarrow> bool" where
  "above previous xs \<longleftrightarrow> (case previous of None \<Rightarrow> True | Some p \<Rightarrow> \<forall>x \<in> set xs. p < x)"

lemma above_Cons:
  "above previous (x # xs) \<and> sorted_wrt (<) (x # xs) \<longleftrightarrow>
     \<not> (case previous of None \<Rightarrow> False | Some p \<Rightarrow> x \<le> p) \<and> above (Some x) xs \<and> sorted_wrt (<) xs"
  by (auto simp: above_def not_le split: option.splits)

lemma above_None [simp]: "above None xs" "above p []"
  by (auto simp: above_def split: option.splits)

lemma validate_key_step:
  "validate_key ks now (prev, pks, u) k = Inr s \<longleftrightarrow>
     \<not> (case prev of None \<Rightarrow> False | Some p \<Rightarrow> key_kid k \<le> p)
     \<and> key_ed25519_public_key k \<notin> pks \<and> key_ok ks k
     \<and> s = (Some (key_kid k), insert (key_ed25519_public_key k) pks, u \<or> key_usable now k)"
  by (auto simp: validate_key_def key_ok_def key_usable_def)

lemma validate_keys_iff:
  "(\<exists>prev' pks' u'. foldE (validate_key ks now) (prev, pks, u) keys = Inr (prev', pks', u') \<and> u') \<longleftrightarrow>
     above prev (map key_kid keys) \<and> sorted_wrt (<) (map key_kid keys)
     \<and> distinct (map key_ed25519_public_key keys)
     \<and> pks \<inter> key_ed25519_public_key ` set keys = {}
     \<and> (\<forall>k \<in> set keys. key_ok ks k) \<and> (u \<or> (\<exists>k \<in> set keys. key_usable now k))"
proof (induction keys arbitrary: prev pks u)
  case (Cons k keys)
  have "(\<exists>prev' pks' u'.
      foldE (validate_key ks now) (prev, pks, u) (k # keys) = Inr (prev', pks', u') \<and> u') \<longleftrightarrow>
    \<not> (case prev of None \<Rightarrow> False | Some p \<Rightarrow> key_kid k \<le> p)
    \<and> key_ed25519_public_key k \<notin> pks \<and> key_ok ks k
    \<and> (\<exists>prev' pks' u'. foldE (validate_key ks now)
         (Some (key_kid k), insert (key_ed25519_public_key k) pks, u \<or> key_usable now k) keys
         = Inr (prev', pks', u') \<and> u')"
    by (auto simp: result_simps validate_key_step)
  then show ?case
    using above_Cons [of prev "key_kid k" "map key_kid keys"]
    by (simp only: Cons.IH) auto
qed auto

lemma validate_keyset_iff:
  assumes "keyset_typed ks" and "in_i64 now"
  shows "validate_keyset ks now = Inr () \<longleftrightarrow> keyset_valid ks now"
proof -
  have "validate_keyset ks now = Inr () \<longleftrightarrow>
    window_ok (ks_issued_at ks) (ks_not_before ks) (ks_expires_at ks) now KEYSET_MAX_TTL_SECS
    \<and> ks_keys ks \<noteq> []
    \<and> (\<exists>prev' pks' u'. foldE (validate_key ks now) (None, {}, False) (ks_keys ks)
         = Inr (prev', pks', u') \<and> u')"
    using assms by (auto simp: validate_keyset_def result_simps validate_window_iff keyset_typed_def)
  then show ?thesis
    by (auto simp: keyset_valid_def validate_keys_iff)
qed

section \<open>DNS names, declaratively\<close>

definition label_char :: "char \<Rightarrow> bool" where
  "label_char c \<longleftrightarrow> is_ascii_lowercase c \<or> is_ascii_digit c \<or> c = CHR ''-''"

definition dns_label :: "string \<Rightarrow> bool" where
  "dns_label l \<longleftrightarrow>
     l \<noteq> [] \<and> length l \<le> 63 \<and> (\<forall>c \<in> set l. label_char c) \<and> hd l \<noteq> CHR ''-'' \<and> last l \<noteq> CHR ''-''"

fun join_on :: "'a \<Rightarrow> 'a list list \<Rightarrow> 'a list" where
  "join_on c [] = []"
| "join_on c [x] = x"
| "join_on c (x # y # ys) = x @ c # join_on c (y # ys)"

definition dns_name :: "string \<Rightarrow> bool" where
  "dns_name s \<longleftrightarrow> length s \<le> 253 \<and>
     (\<exists>labels. 2 \<le> length labels \<and> (\<forall>l \<in> set labels. dns_label l) \<and> s = join_on (CHR ''.'') labels)"

lemma join_on_Cons: "ys \<noteq> [] \<Longrightarrow> join_on c (x # ys) = x @ c # join_on c ys"
  by (cases ys) simp_all

lemma join_split_on: "join_on c (split_on c xs) = xs"
proof (induction xs)
  case (Cons x xs)
  show ?case
  proof (cases "x = c")
    case True
    with Cons show ?thesis by (simp add: join_on_Cons)
  next
    case False
    obtain y ys where s: "split_on c xs = y # ys"
      using split_on_nonempty [of c xs] by (cases "split_on c xs") auto
    with Cons have "join_on c (y # ys) = xs"
      by simp
    with False s show ?thesis
      by (cases ys) simp_all
  qed
qed simp

lemma split_on_append:
  "c \<notin> set x \<Longrightarrow> split_on c (x @ c # r) = x # split_on c r"
  by (induction x) auto

lemma split_on_no_sep: "c \<notin> set x \<Longrightarrow> split_on c x = [x]"
  by (induction x) auto

lemma split_join_on:
  assumes "labels \<noteq> []" and "\<forall>l \<in> set labels. c \<notin> set l"
  shows "split_on c (join_on c labels) = labels"
  using assms
proof (induction labels)
  case (Cons l ls)
  show ?case
  proof (cases "ls = []")
    case True
    with Cons.prems show ?thesis by (simp add: split_on_no_sep)
  next
    case False
    with Cons show ?thesis by (simp add: join_on_Cons split_on_append)
  qed
qed simp

lemma set_join_on: "set (join_on c ls) \<subseteq> insert c (\<Union> (set ` set ls))"
  by (induction c ls rule: join_on.induct) auto

lemma char_code_literals: "char_code CHR ''-'' = 45" "char_code CHR ''.'' = 46"
  by (simp_all add: char_code_def)

lemma label_char_props:
  assumes "label_char c"
  shows "is_ascii c" "\<not> is_ascii_uppercase c" "c \<noteq> CHR ''.''"
    "is_ascii_alphanumeric c \<longleftrightarrow> c \<noteq> CHR ''-''"
proof -
  show "is_ascii c" "\<not> is_ascii_uppercase c"
    using assms
    by (auto simp: label_char_def is_ascii_def is_ascii_uppercase_def is_ascii_lowercase_def
          is_ascii_digit_def char_code_literals)
  show "c \<noteq> CHR ''.''"
    using assms
    by (auto simp: label_char_def is_ascii_lowercase_def is_ascii_digit_def char_code_literals)
  show "is_ascii_alphanumeric c \<longleftrightarrow> c \<noteq> CHR ''-''"
    using assms
    by (auto simp: label_char_def is_ascii_alphanumeric_def is_ascii_uppercase_def
          is_ascii_lowercase_def is_ascii_digit_def char_code_literals)
qed

lemma check_dns_label_iff: "check_dns_label what l = Inr () \<longleftrightarrow> dns_label l"
proof (cases "l = [] \<or> \<not> (\<forall>c \<in> set l. label_char c)")
  case True
  then show ?thesis
    by (auto simp: check_dns_label_def dns_label_def label_char_def list_ex_iff)
next
  case False
  then have "l \<noteq> []" and all: "\<forall>c \<in> set l. label_char c"
    by simp_all
  then have first: "is_ascii_alphanumeric (l ! 0) \<longleftrightarrow> hd l \<noteq> CHR ''-''"
    and final: "is_ascii_alphanumeric (l ! (length l - 1)) \<longleftrightarrow> last l \<noteq> CHR ''-''"
    using label_char_props(4) [of "hd l"] label_char_props(4) [of "last l"]
    by (simp_all add: hd_conv_nth last_conv_nth)
  have "\<not> list_ex (\<lambda>b. \<not> is_ascii_lowercase b \<and> \<not> is_ascii_digit b \<and> b \<noteq> CHR ''-'') l"
    using all by (simp add: list_ex_iff label_char_def)
  with \<open>l \<noteq> []\<close> all first final show ?thesis
    unfolding check_dns_label_def dns_label_def ensure_eq_Inr by (simp add: not_less)
qed

lemma join_on_last:
  assumes "labels \<noteq> []" and "\<forall>l \<in> set labels. dns_label l"
  shows "last (join_on (CHR ''.'') labels) \<noteq> CHR ''.''"
  using assms
proof (induction labels)
  case (Cons l ls)
  have l: "l \<noteq> []" "label_char (last l)"
    using Cons.prems by (auto simp: dns_label_def)
  show ?case
  proof (cases "ls = []")
    case True
    with l show ?thesis by (simp add: label_char_props(3))
  next
    case False
    have ne: "join_on (CHR ''.'') ls \<noteq> []"
    proof (cases ls)
      case (Cons m ms)
      then have "m \<noteq> []" using Cons.prems by (simp add: dns_label_def)
      with Cons show ?thesis by (cases ms) simp_all
    qed (use False in simp)
    with False Cons show ?thesis by (simp add: join_on_Cons)
  qed
qed simp

lemma validate_canonical_dns_name_iff:
  "validate_canonical_dns_name s what = Inr () \<longleftrightarrow> dns_name s"
proof
  assume ok: "validate_canonical_dns_name s what = Inr ()"
  then have "length s \<le> 253" "2 \<le> length (split_on (CHR ''.'') s)"
      "\<forall>l \<in> set (split_on (CHR ''.'') s). dns_label l"
    by (auto simp: validate_canonical_dns_name_def result_simps Let_def foldE_unit_iff
          check_dns_label_iff)
  then show "dns_name s"
    by (auto simp: dns_name_def join_split_on intro: exI [of _ "split_on (CHR ''.'') s"])
next
  assume "dns_name s"
  then obtain labels where len: "length s \<le> 253" "2 \<le> length labels"
    and lab: "\<forall>l \<in> set labels. dns_label l" and s: "s = join_on (CHR ''.'') labels"
    by (auto simp: dns_name_def)
  have chars: "\<forall>l \<in> set labels. \<forall>c \<in> set l. label_char c" and ne: "labels \<noteq> []"
    using lab len by (auto simp: dns_label_def)
  have split: "split_on (CHR ''.'') s = labels"
    unfolding s using chars ne label_char_props(3) by (intro split_join_on) blast+
  have sub: "c = CHR ''.'' \<or> label_char c" if "c \<in> set s" for c
    using that set_join_on [of "CHR ''.''" labels] chars s by auto
  have ascii: "list_all is_ascii s" and upper: "\<not> list_ex is_ascii_uppercase s"
    using sub label_char_props(1,2)
    by (force simp: list_all_iff is_ascii_def char_code_literals)
       (force simp: list_ex_iff is_ascii_uppercase_def char_code_literals
          dest: sub label_char_props(2))
  have "s \<noteq> []" and lst: "last s \<noteq> CHR ''.''"
  proof -
    show "s \<noteq> []"
      using split len(2) by auto
    show "last s \<noteq> CHR ''.''"
      using join_on_last [OF ne lab] s by simp
  qed
  then show "validate_canonical_dns_name s what = Inr ()"
    using len ascii upper split lab
    by (simp add: validate_canonical_dns_name_def Let_def foldE_unit_iff check_dns_label_iff)
qed

section \<open>Policies, declaratively\<close>

definition pin_ok :: "endpoint_policy \<Rightarrow> server_pin \<Rightarrow> bool" where
  "pin_ok p pin \<longleftrightarrow>
     pin_fingerprint pin \<noteq> replicate 32 0
     \<and> pin_not_before pin \<le> pol_not_before p \<and> pol_expires_at p \<le> pin_expires_at pin
     \<and> pin_not_before pin < pin_expires_at pin
     \<and> pin_not_before pin \<le> pin_status_since pin \<and> pin_status_since pin \<le> pol_issued_at p"

definition endpoint_ok :: "crypto \<Rightarrow> reality_endpoint \<Rightarrow> bool" where
  "endpoint_ok C e \<longleftrightarrow>
     ep_port e \<noteq> 0 \<and> \<not> special_ipv4 (ep_ipv4 e)
     \<and> dns_name (ep_locator_name e) \<and> dns_name (ep_sni e)
     \<and> reality_public_key_is_contributory C (ep_reality_x25519_public_key e)
     \<and> length (ep_reality_short_id e) = MAX_SHORT_ID_BYTES"

definition service_ok :: "crypto \<Rightarrow> endpoint_policy \<Rightarrow> service \<Rightarrow> bool" where
  "service_ok C p s \<longleftrightarrow>
     sorted_wrt (<) (map pin_fingerprint (svc_pins s)) \<and> (\<forall>pin \<in> set (svc_pins s). pin_ok p pin)
     \<and> (\<exists>pin \<in> set (svc_pins s). pin_status pin = PinActive)
     \<and> svc_endpoints s \<noteq> []
     \<and> sorted_wrt (<) (map ep_endpoint_id (svc_endpoints s))
     \<and> (\<forall>e \<in> set (svc_endpoints s). endpoint_ok C e)"

definition all_endpoints :: "service list \<Rightarrow> reality_endpoint list" where
  "all_endpoints ss = concat (map svc_endpoints ss)"

definition policy_valid :: "crypto \<Rightarrow> endpoint_policy \<Rightarrow> int \<Rightarrow> bool" where
  "policy_valid C p now \<longleftrightarrow>
     window_ok (pol_issued_at p) (pol_not_before p) (pol_expires_at p) now POLICY_MAX_TTL_SECS
     \<and> pol_services p \<noteq> []
     \<and> sorted_wrt (<) (map svc_service_id (pol_services p))
     \<and> (\<forall>s \<in> set (pol_services p). service_ok C p s)
     \<and> distinct (map ep_endpoint_id (all_endpoints (pol_services p)))
     \<and> distinct (map endpoint_tuple_of (all_endpoints (pol_services p)))
     \<and> length (all_endpoints (pol_services p)) \<le> MAX_TOTAL_ENDPOINTS
     \<and> map rule_service_ids (pol_rules p) = [map svc_service_id (pol_services p)]
     \<and> sorted_wrt (<) (pol_experiment_evidence p)"

lemma validate_pin_step:
  "validate_pin p (prev, act) pin = Inr s \<longleftrightarrow>
     \<not> (case prev of None \<Rightarrow> False | Some q \<Rightarrow> pin_fingerprint pin \<le> q) \<and> pin_ok p pin
     \<and> s = (Some (pin_fingerprint pin), act \<or> pin_status pin = PinActive)"
  by (auto simp: validate_pin_def pin_ok_def)

lemma validate_pins_iff:
  "(\<exists>prev'. foldE (validate_pin p) (prev, act) pins = Inr (prev', True)) \<longleftrightarrow>
     above prev (map pin_fingerprint pins) \<and> sorted_wrt (<) (map pin_fingerprint pins)
     \<and> (\<forall>pin \<in> set pins. pin_ok p pin) \<and> (act \<or> (\<exists>pin \<in> set pins. pin_status pin = PinActive))"
proof (induction pins arbitrary: prev act)
  case (Cons pin pins)
  have "(\<exists>prev'. foldE (validate_pin p) (prev, act) (pin # pins) = Inr (prev', True)) \<longleftrightarrow>
    \<not> (case prev of None \<Rightarrow> False | Some q \<Rightarrow> pin_fingerprint pin \<le> q) \<and> pin_ok p pin
    \<and> (\<exists>prev'. foldE (validate_pin p)
         (Some (pin_fingerprint pin), act \<or> pin_status pin = PinActive) pins
         = Inr (prev', True))"
    by (auto simp: result_simps validate_pin_step)
  then show ?case
    using above_Cons [of prev "pin_fingerprint pin" "map pin_fingerprint pins"]
    by (simp only: Cons.IH) auto
qed auto

lemma validate_endpoint_step:
  assumes "n \<le> MAX_TOTAL_ENDPOINTS"
  shows "validate_endpoint C (prev, ids, tups, n) e = Inr s \<longleftrightarrow>
     \<not> (case prev of None \<Rightarrow> False | Some q \<Rightarrow> ep_endpoint_id e \<le> q)
     \<and> ep_endpoint_id e \<notin> ids \<and> endpoint_tuple_of e \<notin> tups
     \<and> Suc n \<le> MAX_TOTAL_ENDPOINTS \<and> endpoint_ok C e
     \<and> s = (Some (ep_endpoint_id e), insert (ep_endpoint_id e) ids,
           insert (endpoint_tuple_of e) tups, Suc n)"
  by (auto simp: validate_endpoint_def endpoint_ok_def result_simps
        validate_canonical_dns_name_iff)

lemma validate_endpoints_iff:
  assumes "n \<le> MAX_TOTAL_ENDPOINTS"
  shows "(\<exists>prev'. foldE (validate_endpoint C) (prev, ids, tups, n) es = Inr (prev', ids', tups', n')) \<longleftrightarrow>
     above prev (map ep_endpoint_id es) \<and> sorted_wrt (<) (map ep_endpoint_id es)
     \<and> ids \<inter> ep_endpoint_id ` set es = {}
     \<and> distinct (map endpoint_tuple_of es) \<and> tups \<inter> endpoint_tuple_of ` set es = {}
     \<and> n + length es \<le> MAX_TOTAL_ENDPOINTS \<and> (\<forall>e \<in> set es. endpoint_ok C e)
     \<and> ids' = ids \<union> ep_endpoint_id ` set es \<and> tups' = tups \<union> endpoint_tuple_of ` set es
     \<and> n' = n + length es"
  using assms
proof (induction es arbitrary: prev ids tups n)
  case Nil
  then show ?case by auto
next
  case (Cons e es)
  have step: "(\<exists>prev'. foldE (validate_endpoint C) (prev, ids, tups, n) (e # es)
      = Inr (prev', ids', tups', n')) \<longleftrightarrow>
    \<not> (case prev of None \<Rightarrow> False | Some q \<Rightarrow> ep_endpoint_id e \<le> q)
    \<and> ep_endpoint_id e \<notin> ids \<and> endpoint_tuple_of e \<notin> tups
    \<and> Suc n \<le> MAX_TOTAL_ENDPOINTS \<and> endpoint_ok C e
    \<and> (\<exists>prev'. foldE (validate_endpoint C) (Some (ep_endpoint_id e), insert (ep_endpoint_id e) ids,
         insert (endpoint_tuple_of e) tups, Suc n) es = Inr (prev', ids', tups', n'))"
    by (auto simp: result_simps validate_endpoint_step [OF Cons.prems])
  show ?case
  proof (cases "Suc n \<le> MAX_TOTAL_ENDPOINTS")
    case True
    have ab: "above (Some (ep_endpoint_id e)) (map ep_endpoint_id es) \<Longrightarrow>
        ep_endpoint_id e \<notin> ep_endpoint_id ` set es"
      by (auto simp: above_def)
    show ?thesis
      unfolding step Cons.IH [OF True]
      using above_Cons [of prev "ep_endpoint_id e" "map ep_endpoint_id es"] True ab
      by (auto simp: image_iff)
  next
    case False
    then show ?thesis
      unfolding step by auto
  qed
qed

lemma strictly_increasing_iff: "strictly_increasing xs \<longleftrightarrow> sorted_wrt (<) xs"
proof (induction xs rule: strictly_increasing.induct)
  case (1 a b xs)
  have "a < x" if "a < b" "b < x" for x
    using that by (rule less_trans)
  with 1 show ?case
    by (auto simp: not_le)
qed auto

lemma sorted_wrt_less_distinct: "sorted_wrt (<) (xs :: bytes list) \<Longrightarrow> distinct xs"
  by (induction xs) auto

lemma validate_service_step:
  assumes "n \<le> MAX_TOTAL_ENDPOINTS"
  shows "validate_service C p (prev, sids, ids, tups, n) s = Inr st \<longleftrightarrow>
     \<not> (case prev of None \<Rightarrow> False | Some q \<Rightarrow> svc_service_id s \<le> q) \<and> service_ok C p s
     \<and> ids \<inter> ep_endpoint_id ` set (svc_endpoints s) = {}
     \<and> distinct (map endpoint_tuple_of (svc_endpoints s))
     \<and> tups \<inter> endpoint_tuple_of ` set (svc_endpoints s) = {}
     \<and> n + length (svc_endpoints s) \<le> MAX_TOTAL_ENDPOINTS
     \<and> st = (Some (svc_service_id s), sids @ [svc_service_id s],
         ids \<union> ep_endpoint_id ` set (svc_endpoints s),
         tups \<union> endpoint_tuple_of ` set (svc_endpoints s), n + length (svc_endpoints s))"
    (is "?lhs = ?rhs")
proof -
  have "?lhs \<longleftrightarrow> \<not> (case prev of None \<Rightarrow> False | Some q \<Rightarrow> svc_service_id s \<le> q) \<and> svc_pins s \<noteq> []
    \<and> (\<exists>prev'. foldE (validate_pin p) (None, False) (svc_pins s) = Inr (prev', True))
    \<and> svc_endpoints s \<noteq> []
    \<and> (\<exists>ids' tups' n'. (\<exists>prev'. foldE (validate_endpoint C) (None, ids, tups, n) (svc_endpoints s)
           = Inr (prev', ids', tups', n'))
         \<and> st = (Some (svc_service_id s), sids @ [svc_service_id s], ids', tups', n'))"
    by (cases "foldE (validate_pin p) (None, False) (svc_pins s)")
      (auto simp: validate_service_def result_simps split: prod.splits if_splits)
  also have "\<dots> \<longleftrightarrow> ?rhs"
    unfolding validate_pins_iff validate_endpoints_iff [OF assms] service_ok_def
    by auto
  finally show ?thesis .
qed

lemma validate_services_iff:
  assumes "n \<le> MAX_TOTAL_ENDPOINTS"
  shows "(\<exists>prev' ids' tups' n'. foldE (validate_service C p) (prev, sids, ids, tups, n) ss
        = Inr (prev', sids', ids', tups', n')) \<longleftrightarrow>
     above prev (map svc_service_id ss) \<and> sorted_wrt (<) (map svc_service_id ss)
     \<and> (\<forall>s \<in> set ss. service_ok C p s)
     \<and> distinct (map ep_endpoint_id (all_endpoints ss))
     \<and> ids \<inter> ep_endpoint_id ` set (all_endpoints ss) = {}
     \<and> distinct (map endpoint_tuple_of (all_endpoints ss))
     \<and> tups \<inter> endpoint_tuple_of ` set (all_endpoints ss) = {}
     \<and> n + length (all_endpoints ss) \<le> MAX_TOTAL_ENDPOINTS
     \<and> sids' = sids @ map svc_service_id ss"
  using assms
proof (induction ss arbitrary: prev sids ids tups n)
  case Nil
  then show ?case by (auto simp: all_endpoints_def)
next
  case (Cons s ss)
  let ?es = "svc_endpoints s"
  have step: "(\<exists>prev' ids' tups' n'. foldE (validate_service C p) (prev, sids, ids, tups, n) (s # ss)
      = Inr (prev', sids', ids', tups', n')) \<longleftrightarrow>
    \<not> (case prev of None \<Rightarrow> False | Some q \<Rightarrow> svc_service_id s \<le> q) \<and> service_ok C p s
    \<and> ids \<inter> ep_endpoint_id ` set ?es = {} \<and> distinct (map endpoint_tuple_of ?es)
    \<and> tups \<inter> endpoint_tuple_of ` set ?es = {} \<and> n + length ?es \<le> MAX_TOTAL_ENDPOINTS
    \<and> (\<exists>prev' ids' tups' n'. foldE (validate_service C p) (Some (svc_service_id s),
         sids @ [svc_service_id s], ids \<union> ep_endpoint_id ` set ?es,
         tups \<union> endpoint_tuple_of ` set ?es, n + length ?es) ss
         = Inr (prev', sids', ids', tups', n'))"
    by (auto simp: result_simps validate_service_step [OF Cons.prems])
  have cat: "all_endpoints (s # ss) = ?es @ all_endpoints ss"
    by (simp add: all_endpoints_def)
  have own: "service_ok C p s \<Longrightarrow> distinct (map ep_endpoint_id ?es)"
    using sorted_wrt_less_distinct by (auto simp: service_ok_def)
  show ?case
  proof (cases "n + length ?es \<le> MAX_TOTAL_ENDPOINTS")
    case True
    show ?thesis
      unfolding step Cons.IH [OF True] cat
      using above_Cons [of prev "svc_service_id s" "map svc_service_id ss"] True own
      by (auto simp: Int_Un_distrib Int_Un_distrib2)
  next
    case False
    then show ?thesis
      unfolding step cat by simp
  qed
qed

lemma validate_policy_iff:
  assumes "policy_typed p" and "in_i64 now"
  shows "validate_policy C p now = Inr () \<longleftrightarrow> policy_valid C p now"
proof -
  have win: "validate_window ''endpoint policy'' (pol_issued_at p) (pol_not_before p)
      (pol_expires_at p) now POLICY_MAX_TTL_SECS = Inr () \<longleftrightarrow>
    window_ok (pol_issued_at p) (pol_not_before p) (pol_expires_at p) now POLICY_MAX_TTL_SECS"
    using assms by (intro validate_window_iff) (auto simp: typed_defs)
  have "validate_policy C p now = Inr () \<longleftrightarrow>
    window_ok (pol_issued_at p) (pol_not_before p) (pol_expires_at p) now POLICY_MAX_TTL_SECS
    \<and> pol_services p \<noteq> []
    \<and> (\<exists>sids. (\<exists>prev' ids' tups' n'. foldE (validate_service C p) (None, [], {}, {}, 0)
          (pol_services p) = Inr (prev', sids, ids', tups', n'))
        \<and> map rule_service_ids (pol_rules p) = [sids])
    \<and> sorted_wrt (<) (pol_experiment_evidence p)"
    unfolding win [symmetric] strictly_increasing_iff [symmetric]
    by (cases "pol_rules p" rule: remdups_adj.cases)
      (auto simp: validate_policy_def result_simps)
  also have "\<dots> \<longleftrightarrow> policy_valid C p now"
    by (subst validate_services_iff) (auto simp: policy_valid_def)
  finally show ?thesis .
qed

section \<open>What an accepted bundle is\<close>

text \<open>The keyset artifact: a root-signed envelope around the canonical encoding of a valid
keyset.\<close>

definition keyset_authentic ::
  "minicbor \<Rightarrow> crypto \<Rightarrow> bytes \<Rightarrow> trusted_root \<Rightarrow> int \<Rightarrow> verified_keyset \<Rightarrow> bool" where
  "keyset_authentic M C sign1 root now vk \<longleftrightarrow>
     root_ed25519_public_key root \<noteq> replicate 32 0 \<and>
     (\<exists>payload.
        signed_envelope M C CtKeyset (root_kid root) (root_ed25519_public_key root) payload sign1
        \<and> keyset_typed (vk_keyset vk) \<and> encode_keyset_payload M (vk_keyset vk) = Inr payload
        \<and> keyset_valid (vk_keyset vk) now
        \<and> vk_root_id vk = trusted_root_id C root
        \<and> vk_payload_hash vk = keyset_payload_hash C payload)"

text \<open>The policy envelope, signed by an active key of the keyset whose lifetime contains it.\<close>

definition policy_authentic ::
  "minicbor \<Rightarrow> crypto \<Rightarrow> bytes \<Rightarrow> int \<Rightarrow> keyset \<Rightarrow> bytes \<Rightarrow> verified_bundle \<Rightarrow> bool" where
  "policy_authentic M C sign1 now ks kh vb \<longleftrightarrow>
     (\<exists>signer \<in> set (ks_keys ks). \<exists>payload.
        key_kid signer = vb_signer_kid vb \<and> key_status signer = KeyActive
        \<and> key_not_before signer \<le> now \<and> now < key_expires_at signer
        \<and> signed_envelope M C CtEndpointPolicy (vb_signer_kid vb)
            (key_ed25519_public_key signer) payload sign1
        \<and> policy_typed (vb_policy vb) \<and> encode_policy_payload M (vb_policy vb) = Inr payload
        \<and> policy_valid C (vb_policy vb) now
        \<and> pol_keyset_epoch (vb_policy vb) = ks_keyset_epoch ks
        \<and> pol_keyset_payload_hash (vb_policy vb) = kh
        \<and> ks_issued_at ks \<le> pol_issued_at (vb_policy vb)
        \<and> ks_not_before ks \<le> pol_not_before (vb_policy vb)
        \<and> pol_expires_at (vb_policy vb) \<le> ks_expires_at ks
        \<and> key_not_before signer \<le> pol_not_before (vb_policy vb)
        \<and> pol_expires_at (vb_policy vb) \<le> key_expires_at signer
        \<and> vb_policy_hash vb = policy_payload_hash C payload)"

definition bundle_authentic ::
  "minicbor \<Rightarrow> crypto \<Rightarrow> bytes \<Rightarrow> trusted_root \<Rightarrow> int \<Rightarrow> verified_bundle \<Rightarrow> bool" where
  "bundle_authentic M C input root now vb \<longleftrightarrow>
     (\<exists>bundle. encode_bundle M bundle = Inr input
        \<and> keyset_authentic M C (keyset_sign1 bundle) root now
            \<lparr> vk_root_id = vb_root_id vb, vk_keyset = vb_keyset vb,
              vk_payload_hash = vb_keyset_hash vb \<rparr>
        \<and> policy_authentic M C (policy_sign1 bundle) now (vb_keyset vb) (vb_keyset_hash vb) vb
        \<and> build_verified_plan (vb_policy vb) = Inr (vb_plan vb))"

text \<open>A valid policy of encodable size has a plan: its only rule names its services, so the
decoder's bound on rule entries follows from the bound on services.\<close>

lemma policy_valid_rules:
  assumes "policy_valid C p now" and "policy_sized p"
  shows "\<forall>u \<in> set (pol_rules p). length (rule_service_ids u) \<le> MAX_SERVICES"
proof
  fix u
  assume "u \<in> set (pol_rules p)"
  moreover from assms(1) have "map rule_service_ids (pol_rules p) = [map svc_service_id (pol_services p)]"
    by (simp add: policy_valid_def)
  ultimately have "rule_service_ids u = map svc_service_id (pol_services p)"
    by (auto simp: map_eq_Cons_conv)
  with assms(2) show "length (rule_service_ids u) \<le> MAX_SERVICES"
    by (simp add: policy_sized_def)
qed

lemma policy_valid_plan_ready:
  assumes "policy_valid C p now" and "policy_sized p"
  shows "\<forall>s \<in> set (pol_services p). plan_ready s"
  using assms
  by (auto simp: policy_valid_def policy_sized_def service_ok_def endpoint_ok_def
        service_sized_def plan_ready_def)

context cbor_codec
begin

lemma decode_keyset_payload_iff:
  "decode_keyset_payload M b = Inr ks \<longleftrightarrow> keyset_typed ks \<and> encode_keyset_payload M ks = Inr b"
  using decode_keyset_payload_encoded decode_keyset_payload_canonical decode_keyset_payload_typed
  by blast

lemma decode_bundle_iff: "decode_bundle M b = Inr v \<longleftrightarrow> encode_bundle M v = Inr b"
  using decode_bundle_encoded decode_bundle_canonical by blast

lemma decode_valid_policy_iff:
  "decode_policy_payload M b = Inr p \<and> policy_valid C p now \<longleftrightarrow>
     policy_typed p \<and> encode_policy_payload M p = Inr b \<and> policy_valid C p now"
  using decode_policy_payload_typed(1) decode_policy_payload_canonical
    decode_policy_payload_encoded policy_valid_rules encode_policy_payload_iff
  by metis

lemma verify_keyset_artifact_iff:
  assumes "in_i64 now"
  shows "verify_keyset_artifact M C sign1 root now = Inr vk \<longleftrightarrow>
    keyset_authentic M C sign1 root now vk"
proof -
  have val: "keyset_typed ks \<Longrightarrow> validate_keyset ks now = Inr () \<longleftrightarrow> keyset_valid ks now" for ks
    using assms by (rule validate_keyset_iff [rotated])
  show ?thesis
    by (cases vk)
      (auto simp: verify_keyset_artifact_def keyset_authentic_def result_simps verify_sign1_iff
        decode_keyset_payload_iff val)
qed

end

lemma signer_found:
  assumes "keyset_valid ks now"
  shows "List.find (\<lambda>key. key_kid key = kid) (ks_keys ks) = Some signer \<longleftrightarrow>
    signer \<in> set (ks_keys ks) \<and> key_kid signer = kid"
proof -
  from assms have "distinct (map key_kid (ks_keys ks))"
    using sorted_wrt_less_distinct by (auto simp: keyset_valid_def)
  then show ?thesis
    using find_unique [of key_kid "ks_keys ks" signer] find_Some_mem by fastforce
qed

lemma verify_sign1_inspect:
  "verify_sign1 M C sign1 ct kid pk = Inr payload \<Longrightarrow>
     \<exists>ps. inspect_sign1 M sign1 = Inr ps \<and> hdr_content_type (ps_header ps) = ct
       \<and> hdr_kid (ps_header ps) = kid"
  by (auto simp: verify_sign1_def result_simps)

lemma verify_bundle_eq_Inr:
  "verify_bundle M C input root now = Inr vb \<longleftrightarrow>
     (\<exists>bundle vk signer payload.
        decode_bundle M input = Inr bundle
        \<and> verify_keyset_artifact M C (keyset_sign1 bundle) root now = Inr vk
        \<and> List.find (\<lambda>key. key_kid key = vb_signer_kid vb) (ks_keys (vk_keyset vk)) = Some signer
        \<and> key_status signer = KeyActive
        \<and> key_not_before signer \<le> now \<and> now < key_expires_at signer
        \<and> verify_sign1 M C (policy_sign1 bundle) CtEndpointPolicy (vb_signer_kid vb)
            (key_ed25519_public_key signer) = Inr payload
        \<and> decode_policy_payload M payload = Inr (vb_policy vb)
        \<and> validate_policy C (vb_policy vb) now = Inr ()
        \<and> pol_keyset_epoch (vb_policy vb) = ks_keyset_epoch (vk_keyset vk)
        \<and> pol_keyset_payload_hash (vb_policy vb) = vk_payload_hash vk
        \<and> ks_issued_at (vk_keyset vk) \<le> pol_issued_at (vb_policy vb)
        \<and> ks_not_before (vk_keyset vk) \<le> pol_not_before (vb_policy vb)
        \<and> pol_expires_at (vb_policy vb) \<le> ks_expires_at (vk_keyset vk)
        \<and> key_not_before signer \<le> pol_not_before (vb_policy vb)
        \<and> pol_expires_at (vb_policy vb) \<le> key_expires_at signer
        \<and> build_verified_plan (vb_policy vb) = Inr (vb_plan vb)
        \<and> vb_policy_hash vb = policy_payload_hash C payload
        \<and> vk = \<lparr> vk_root_id = vb_root_id vb, vk_keyset = vb_keyset vb,
              vk_payload_hash = vb_keyset_hash vb \<rparr>)"
    (is "?lhs = ?rhs")
proof
  assume ?lhs
  then show ?rhs
    by (auto simp: verify_bundle_def Let_def result_simps ok_or_def not_less not_le
          split: option.splits)
next
  assume ?rhs
  then obtain bd vk signer payload where
    sig: "verify_sign1 M C (policy_sign1 bd) CtEndpointPolicy (vb_signer_kid vb)
            (key_ed25519_public_key signer) = Inr payload" and
    rest: "decode_bundle M input = Inr bd"
      "verify_keyset_artifact M C (keyset_sign1 bd) root now = Inr vk"
      "List.find (\<lambda>key. key_kid key = vb_signer_kid vb) (ks_keys (vk_keyset vk)) = Some signer"
      "key_status signer = KeyActive" "key_not_before signer \<le> now" "now < key_expires_at signer"
      "decode_policy_payload M payload = Inr (vb_policy vb)"
      "validate_policy C (vb_policy vb) now = Inr ()"
      "pol_keyset_epoch (vb_policy vb) = ks_keyset_epoch (vk_keyset vk)"
      "pol_keyset_payload_hash (vb_policy vb) = vk_payload_hash vk"
      "ks_issued_at (vk_keyset vk) \<le> pol_issued_at (vb_policy vb)"
      "ks_not_before (vk_keyset vk) \<le> pol_not_before (vb_policy vb)"
      "pol_expires_at (vb_policy vb) \<le> ks_expires_at (vk_keyset vk)"
      "key_not_before signer \<le> pol_not_before (vb_policy vb)"
      "pol_expires_at (vb_policy vb) \<le> key_expires_at signer"
      "build_verified_plan (vb_policy vb) = Inr (vb_plan vb)"
      "vb_policy_hash vb = policy_payload_hash C payload"
      "vk = \<lparr> vk_root_id = vb_root_id vb, vk_keyset = vb_keyset vb,
              vk_payload_hash = vb_keyset_hash vb \<rparr>"
    by blast
  from verify_sign1_inspect [OF sig] obtain ps where "inspect_sign1 M (policy_sign1 bd) = Inr ps"
      "hdr_content_type (ps_header ps) = CtEndpointPolicy" "hdr_kid (ps_header ps) = vb_signer_kid vb"
    by blast
  with sig rest show ?lhs
    by (cases vb) (simp add: verify_bundle_def Let_def ok_or_def not_less not_le)
qed

context cbor_codec
begin

lemma decode_validate_policy_iff:
  assumes "in_i64 now"
  shows "decode_policy_payload M b = Inr p \<and> validate_policy C p now = Inr () \<longleftrightarrow>
     policy_typed p \<and> encode_policy_payload M p = Inr b \<and> policy_valid C p now"
  using decode_valid_policy_iff [of b p C now] decode_policy_payload_typed(1)
    validate_policy_iff [OF _ assms] by blast

lemma policy_authentic_checked:
  assumes now: "in_i64 now" and ks: "keyset_valid ks now"
  shows "policy_authentic M C sign1 now ks kh vb \<longleftrightarrow>
    (\<exists>signer payload.
        List.find (\<lambda>key. key_kid key = vb_signer_kid vb) (ks_keys ks) = Some signer
        \<and> key_status signer = KeyActive
        \<and> key_not_before signer \<le> now \<and> now < key_expires_at signer
        \<and> verify_sign1 M C sign1 CtEndpointPolicy (vb_signer_kid vb)
            (key_ed25519_public_key signer) = Inr payload
        \<and> decode_policy_payload M payload = Inr (vb_policy vb)
        \<and> validate_policy C (vb_policy vb) now = Inr ()
        \<and> pol_keyset_epoch (vb_policy vb) = ks_keyset_epoch ks
        \<and> pol_keyset_payload_hash (vb_policy vb) = kh
        \<and> ks_issued_at ks \<le> pol_issued_at (vb_policy vb)
        \<and> ks_not_before ks \<le> pol_not_before (vb_policy vb)
        \<and> pol_expires_at (vb_policy vb) \<le> ks_expires_at ks
        \<and> key_not_before signer \<le> pol_not_before (vb_policy vb)
        \<and> pol_expires_at (vb_policy vb) \<le> key_expires_at signer
        \<and> vb_policy_hash vb = policy_payload_hash C payload)"
  unfolding policy_authentic_def Bex_def ex_simps(2) [symmetric] verify_sign1_iff
    signer_found [OF ks]
  using decode_validate_policy_iff [OF now, of _ "vb_policy vb" C]
  by (intro arg_cong [of _ _ Ex] ext) blast

lemma verify_bundle_iff:
  assumes now: "in_i64 now"
  shows "verify_bundle M C input root now = Inr vb \<longleftrightarrow> bundle_authentic M C input root now vb"
    (is "?lhs = ?rhs")
proof -
  let ?vk = "\<lparr> vk_root_id = vb_root_id vb, vk_keyset = vb_keyset vb,
              vk_payload_hash = vb_keyset_hash vb \<rparr>"
  have valid: "keyset_authentic M C ks1 root now ?vk \<Longrightarrow> keyset_valid (vb_keyset vb) now" for ks1
    by (auto simp: keyset_authentic_def)
  note checked = policy_authentic_checked [OF now valid, of _ C _ _ vb]
  show ?thesis
  proof
    assume ?lhs
    then obtain bd where bd: "encode_bundle M bd = Inr input"
        "keyset_authentic M C (keyset_sign1 bd) root now ?vk"
        "build_verified_plan (vb_policy vb) = Inr (vb_plan vb)"
      and "policy_authentic M C (policy_sign1 bd) now (vb_keyset vb) (vb_keyset_hash vb) vb"
      unfolding verify_bundle_eq_Inr verify_keyset_artifact_iff [OF now] decode_bundle_iff
      by (elim exE conjE) (simp add: checked)
    then show ?rhs
      unfolding bundle_authentic_def by blast
  next
    assume ?rhs
    then obtain bd where bd: "encode_bundle M bd = Inr input"
        "keyset_authentic M C (keyset_sign1 bd) root now ?vk"
        "policy_authentic M C (policy_sign1 bd) now (vb_keyset vb) (vb_keyset_hash vb) vb"
        "build_verified_plan (vb_policy vb) = Inr (vb_plan vb)"
      unfolding bundle_authentic_def by blast
    from bd(3) [unfolded checked [OF bd(2)]] bd(1,2,4) show ?lhs
      unfolding verify_bundle_eq_Inr verify_keyset_artifact_iff [OF now] decode_bundle_iff
      apply (elim exE)
      subgoal for signer payload
        by (intro exI [of _ bd] exI [of _ ?vk] exI [of _ signer] exI [of _ payload]) simp
      done
  qed
qed

end

end
