(* ===== verification/Policy_Update.thy ===== *)
theory Policy_Update
  imports Policy_Verify
begin

text \<open>
  The update rules of an accepted policy (\<open>signed_policy/state.rs\<close>): liveness at application,
  rotation of online keys and server pins, the keyset and policy coordinates with their hash
  chains, and the transition \<open>apply_verified_update\<close> with its floors. The lemmas give the
  rotation loops a declarative meaning and follow a client through any sequence of accepted
  bundles: what may never move backwards, and how long a key or pin outlives its retirement.
\<close>

section \<open>State\<close>

record accepted_state =
  st_accepted :: verified_bundle
  st_max_issued_at :: int
  st_max_wall_clock_seen :: int

datatype transition = Applied accepted_state | Idempotent accepted_state

fun transition_state :: "transition \<Rightarrow> accepted_state" where
  "transition_state (Applied s) = s"
| "transition_state (Idempotent s) = s"

definition elapsed_at_least :: "int \<Rightarrow> int \<Rightarrow> int \<Rightarrow> bool" where
  "elapsed_at_least later earlier minimum =
     (case i64_checked_sub later earlier of None \<Rightarrow> False | Some elapsed \<Rightarrow> elapsed \<ge> minimum)"

definition required_overlap_end :: "int \<Rightarrow> int policy_result" where
  "required_overlap_end issued_at =
     ok_or (i64_checked_add issued_at MIN_ROTATION_OVERLAP_SECS)
       (Rotation ''rotation overlap deadline overflowed'')"

section \<open>Liveness at application\<close>

definition ensure_live_at_apply :: "verified_bundle \<Rightarrow> int \<Rightarrow> unit policy_result" where
  "ensure_live_at_apply candidate now =
     (let ks = vb_keyset candidate; p = vb_policy candidate in
     bindR (ensure (\<not> now < 0) (invalid_bundle ApplyTimeNegative)) (\<lambda>_.
     bindR (ensure (\<not> (ks_issued_at ks > i64_saturating_add now MAX_CLOCK_SKEW_SECS
                       \<or> pol_issued_at p > i64_saturating_add now MAX_CLOCK_SKEW_SECS))
        (invalid_bundle ApplyClockSkew)) (\<lambda>_.
     bindR (ensure (\<not> now < ks_not_before ks) (NotYetValid ''online-key set'')) (\<lambda>_.
     bindR (ensure (\<not> now \<ge> ks_expires_at ks) (Expired ''online-key set'')) (\<lambda>_.
     bindR (ensure (\<not> now < pol_not_before p) (NotYetValid ''endpoint policy'')) (\<lambda>_.
     bindR (ensure (\<not> now \<ge> pol_expires_at p) (Expired ''endpoint policy'')) (\<lambda>_.
     bindR (ok_or (List.find (\<lambda>key. key_kid key = vb_signer_kid candidate) (ks_keys ks))
        (invalid_bundle SignerDisappeared)) (\<lambda>signer.
     bindR (ensure (\<not> now < key_not_before signer) (NotYetValid ''policy signer key'')) (\<lambda>_.
     ensure (\<not> now \<ge> key_expires_at signer) (Expired ''policy signer key''))))))))))"

section \<open>Rotation of online keys\<close>

definition key_live_status :: "key_status \<Rightarrow> bool" where
  "key_live_status s \<longleftrightarrow> s = KeyActive \<or> s = KeyRetiring"

definition check_key_status ::
  "keyset \<Rightarrow> int \<Rightarrow> online_key \<Rightarrow> online_key \<Rightarrow> unit policy_result" where
  "check_key_status candidate overlap_end old new =
     (if key_status old = key_status new then
        ensure (key_status_since new = key_status_since old)
          (Rotation ''online key changed status_since without a status change'')
      else if key_status old = KeyActive \<and> key_status new = KeyRetiring then
        ensure (\<not> (key_status_since new \<noteq> ks_issued_at candidate
                   \<or> key_expires_at old < overlap_end \<or> ks_expires_at candidate < overlap_end))
          (Rotation ''retiring online key must remain usable for the complete overlap'')
      else if key_status old = KeyRetiring \<and> key_status new = KeyRevoked then
        ensure (\<not> (key_status_since new \<noteq> ks_issued_at candidate
                   \<or> \<not> elapsed_at_least (ks_issued_at candidate) (key_status_since old)
                        MIN_ROTATION_OVERLAP_SECS))
          (Rotation ''online key was revoked before the required overlap elapsed'')
      else Inl (Rotation ''online key made a forbidden status transition''))"

definition rotate_key ::
  "keyset \<Rightarrow> int \<Rightarrow> bool \<Rightarrow> online_key \<Rightarrow> bool policy_result" where
  "rotate_key candidate overlap_end has_live_overlap old =
     (case List.find (\<lambda>new. key_kid new = key_kid old) (ks_keys candidate) of
        Some new \<Rightarrow>
          bindR (ensure (\<not> (key_ed25519_public_key new \<noteq> key_ed25519_public_key old
                           \<or> key_not_before new \<noteq> key_not_before old
                           \<or> key_expires_at new \<noteq> key_expires_at old))
            (Rotation ''online key changed immutable key material or lifetime'')) (\<lambda>_.
          bindR (check_key_status candidate overlap_end old new) (\<lambda>_.
          Inr (has_live_overlap
               \<or> key_live_status (key_status old) \<and> key_live_status (key_status new)
                 \<and> key_expires_at old \<ge> overlap_end \<and> ks_expires_at candidate \<ge> overlap_end)))
      | None \<Rightarrow>
          (case key_status old of
             KeyRevoked \<Rightarrow> Inr has_live_overlap
           | KeyRetiring \<Rightarrow>
               if elapsed_at_least (ks_issued_at candidate) (key_status_since old)
                    MIN_ROTATION_OVERLAP_SECS
               then Inr has_live_overlap
               else Inl (Rotation ''online key was removed without a completed overlap'')
           | KeyActive \<Rightarrow>
               Inl (Rotation ''online key was removed without a completed overlap'')))"

definition check_new_key :: "keyset \<Rightarrow> keyset \<Rightarrow> unit \<Rightarrow> online_key \<Rightarrow> unit policy_result" where
  "check_new_key previous candidate _ new =
     ensure (\<not> (list_all (\<lambda>old. key_kid old \<noteq> key_kid new) (ks_keys previous)
                \<and> (key_status new \<noteq> KeyActive
                   \<or> key_status_since new \<noteq> ks_issued_at candidate)))
       (Rotation ''new online key must enter as active at keyset issued_at'')"

definition validate_key_rotation :: "keyset \<Rightarrow> keyset \<Rightarrow> unit policy_result" where
  "validate_key_rotation previous candidate =
     bindR (required_overlap_end (ks_issued_at candidate)) (\<lambda>overlap_end.
     bindR (foldE (rotate_key candidate overlap_end) False (ks_keys previous))
       (\<lambda>has_live_overlap.
     bindR (foldE (check_new_key previous candidate) () (ks_keys candidate)) (\<lambda>_.
     ensure has_live_overlap
       (Rotation ''successive keysets have no common non-revoked verification key''))))"

section \<open>Rotation of server pins\<close>

definition check_pin_status ::
  "int \<Rightarrow> int \<Rightarrow> int \<Rightarrow> server_pin \<Rightarrow> server_pin \<Rightarrow> unit policy_result" where
  "check_pin_status candidate_issued_at candidate_expires_at overlap_end old new =
     (if pin_status old = pin_status new then
        ensure (pin_status_since new = pin_status_since old)
          (Rotation ''server pin changed status_since without a status change'')
      else if pin_status old = PinActive \<and> pin_status new = PinRetiring then
        ensure (\<not> (pin_status_since new \<noteq> candidate_issued_at
                   \<or> pin_expires_at old < overlap_end \<or> candidate_expires_at < overlap_end))
          (Rotation ''retiring server pin must remain usable for the complete overlap'')
      else Inl (Rotation ''server pin made a forbidden status transition''))"

definition rotate_pin ::
  "service \<Rightarrow> int \<Rightarrow> int \<Rightarrow> int \<Rightarrow> bool \<Rightarrow> server_pin \<Rightarrow> bool policy_result" where
  "rotate_pin candidate candidate_issued_at candidate_expires_at overlap_end has_overlap old =
     (case List.find (\<lambda>new. pin_fingerprint new = pin_fingerprint old) (svc_pins candidate) of
        Some new \<Rightarrow>
          bindR (ensure (\<not> (pin_not_before new \<noteq> pin_not_before old
                           \<or> pin_expires_at new \<noteq> pin_expires_at old))
            (Rotation ''server pin changed its immutable lifetime'')) (\<lambda>_.
          bindR (check_pin_status candidate_issued_at candidate_expires_at overlap_end old new)
            (\<lambda>_. Inr True))
      | None \<Rightarrow>
          if pin_status old \<noteq> PinRetiring
             \<or> \<not> elapsed_at_least candidate_issued_at (pin_status_since old)
                  MIN_ROTATION_OVERLAP_SECS
          then Inl (Rotation ''server pin was removed without a completed retiring overlap'')
          else Inr has_overlap)"

definition check_new_pin ::
  "service \<Rightarrow> int \<Rightarrow> int \<Rightarrow> int \<Rightarrow> unit \<Rightarrow> server_pin \<Rightarrow> unit policy_result" where
  "check_new_pin previous candidate_issued_at candidate_expires_at overlap_end _ new =
     (if list_all (\<lambda>old. pin_fingerprint old \<noteq> pin_fingerprint new) (svc_pins previous) then
        bindR (ensure (\<not> (pin_status new \<noteq> PinActive \<or> pin_status_since new \<noteq> candidate_issued_at))
          (Rotation ''new server pin must enter as active at policy issued_at'')) (\<lambda>_.
        ensure (\<not> candidate_expires_at < overlap_end)
          (Rotation ''policy adding a server pin expires before the overlap completes''))
      else Inr ())"

definition validate_pin_rotation ::
  "service \<Rightarrow> service \<Rightarrow> int \<Rightarrow> int \<Rightarrow> unit policy_result" where
  "validate_pin_rotation previous candidate candidate_issued_at candidate_expires_at =
     bindR (required_overlap_end candidate_issued_at) (\<lambda>overlap_end.
     bindR (foldE (rotate_pin candidate candidate_issued_at candidate_expires_at overlap_end)
              False (svc_pins previous)) (\<lambda>has_overlap.
     bindR (foldE (check_new_pin previous candidate_issued_at candidate_expires_at overlap_end)
              () (svc_pins candidate)) (\<lambda>_.
     ensure has_overlap
       (Rotation ''successive policies directly swapped every server pin''))))"

section \<open>Coordinates\<close>

definition check_keyset_coordinate_parts ::
  "keyset \<Rightarrow> bytes \<Rightarrow> keyset \<Rightarrow> bytes \<Rightarrow> bool policy_result" where
  "check_keyset_coordinate_parts previous previous_hash candidate candidate_hash =
     (let old_epoch = ks_keyset_epoch previous; new_epoch = ks_keyset_epoch candidate in
     if new_epoch < old_epoch then Inl (Rollback ''keyset epoch is below accepted floor'')
     else if new_epoch = old_epoch then
       if candidate_hash \<noteq> previous_hash then
         Inl (Fork ''two keyset payloads occupy one epoch'')
       else if candidate \<noteq> previous then
         Inl (Fork ''equal keyset hashes decoded to different payloads'')
       else Inr False
     else
       bindR (ok_or (u64_checked_add old_epoch 1)
          (Gap ''accepted keyset epoch cannot advance'')) (\<lambda>expected.
       bindR (ensure (new_epoch = expected) (Gap ''keyset epoch jumped'')) (\<lambda>_.
       bindR (ensure (ks_previous_payload_hash candidate = Some previous_hash)
          (Chain ''successor keyset does not name the accepted keyset payload hash'')) (\<lambda>_.
       bindR (ensure (\<not> ks_issued_at candidate < ks_issued_at previous)
          (Rollback ''successor keyset issued_at moved backwards'')) (\<lambda>_.
       bindR (validate_key_rotation previous candidate) (\<lambda>_. Inr True))))))"

definition check_keyset_coordinate ::
  "verified_bundle \<Rightarrow> verified_bundle \<Rightarrow> bool policy_result" where
  "check_keyset_coordinate previous candidate =
     check_keyset_coordinate_parts (vb_keyset previous) (vb_keyset_hash previous)
       (vb_keyset candidate) (vb_keyset_hash candidate)"

definition validate_keyset_successor ::
  "verified_bundle \<Rightarrow> verified_keyset \<Rightarrow> unit policy_result" where
  "validate_keyset_successor previous candidate =
     bindR (ensure (vk_root_id candidate = vb_root_id previous)
        (Rotation ''offline-root identity changed'')) (\<lambda>_.
     bindR (check_keyset_coordinate_parts (vb_keyset previous) (vb_keyset_hash previous)
              (vk_keyset candidate) (vk_payload_hash candidate)) (\<lambda>advanced.
     ensure advanced (Fork ''successor keyset command must advance the keyset epoch'')))"

definition check_policy_advance :: "u64 \<Rightarrow> u64 \<Rightarrow> u64 \<Rightarrow> u64 \<Rightarrow> unit policy_result" where
  "check_policy_advance old_epoch old_sequence new_epoch new_sequence =
     (if new_epoch = old_epoch then
        bindR (ok_or (u64_checked_add old_sequence 1) (Gap ''policy sequence cannot advance''))
          (\<lambda>expected. ensure (new_sequence = expected) (Gap ''policy sequence jumped''))
      else
        bindR (ok_or (u64_checked_add old_epoch 1) (Gap ''policy epoch cannot advance''))
          (\<lambda>expected_epoch. ensure (\<not> (new_epoch \<noteq> expected_epoch \<or> new_sequence \<noteq> 0))
             (Gap ''policy epoch transition is not the next epoch at sequence zero'')))"

definition check_policy_coordinate ::
  "verified_bundle \<Rightarrow> verified_bundle \<Rightarrow> bool policy_result" where
  "check_policy_coordinate previous candidate =
     (let old = vb_policy previous; new = vb_policy candidate;
          old_epoch = pol_policy_epoch old; old_sequence = pol_sequence old;
          new_epoch = pol_policy_epoch new; new_sequence = pol_sequence new in
     if new_epoch < old_epoch \<or> new_epoch = old_epoch \<and> new_sequence < old_sequence then
       Inl (Rollback ''policy coordinate is below accepted floor'')
     else if new_epoch = old_epoch \<and> new_sequence = old_sequence then
       if vb_policy_hash candidate \<noteq> vb_policy_hash previous then
         Inl (Fork ''two policy payloads occupy one coordinate'')
       else if new \<noteq> old then Inl (Fork ''equal policy hashes decoded to different payloads'')
       else Inr False
     else
       bindR (check_policy_advance old_epoch old_sequence new_epoch new_sequence) (\<lambda>_.
       bindR (ensure (pol_previous_payload_hash new = Some (vb_policy_hash previous))
          (Chain ''successor policy does not name the accepted policy payload hash'')) (\<lambda>_.
       bindR (ensure (\<not> pol_issued_at new < pol_issued_at old)
          (Rollback ''successor policy issued_at moved backwards'')) (\<lambda>_.
       bindR (ensure (map svc_service_id (pol_services new) = map svc_service_id (pol_services old))
          (Rotation ''endpoint-policy v2 keeps the enrolled service_id set immutable'')) (\<lambda>_.
       bindR (foldE (\<lambda>_ (old_service, new_service).
                validate_pin_rotation old_service new_service (pol_issued_at new)
                  (pol_expires_at new))
              () (zip (pol_services old) (pol_services new))) (\<lambda>_.
       Inr True))))))"

section \<open>Transitions\<close>

definition apply_verified_update ::
  "accepted_state option \<Rightarrow> verified_bundle \<Rightarrow> int \<Rightarrow> transition policy_result" where
  "apply_verified_update previous candidate now =
     (let ks = vb_keyset candidate; p = vb_policy candidate;
          candidate_max_issued = max (ks_issued_at ks) (pol_issued_at p) in
     case previous of
       None \<Rightarrow>
         bindR (ensure_live_at_apply candidate now) (\<lambda>_.
         bindR (ensure (\<not> (ks_keyset_epoch ks \<noteq> 0 \<or> pol_policy_epoch p \<noteq> 0 \<or> pol_sequence p \<noteq> 0))
            (Gap ''genesis must be keyset epoch 0 and policy coordinate (0,0)'')) (\<lambda>_.
         bindR (ensure (\<not> (ks_previous_payload_hash ks \<noteq> None \<or> pol_previous_payload_hash p \<noteq> None))
            (Chain ''genesis keyset and policy must not have predecessor hashes'')) (\<lambda>_.
         Inr (Applied \<lparr> st_accepted = candidate, st_max_issued_at = candidate_max_issued,
           st_max_wall_clock_seen = now \<rparr>))))
     | Some previous \<Rightarrow>
         bindR (ensure (\<not> i64_saturating_add now MAX_CLOCK_SKEW_SECS
                         < st_max_wall_clock_seen previous)
            (Rollback ''wall clock is behind observed floor'')) (\<lambda>_.
         bindR (ensure_live_at_apply candidate now) (\<lambda>_.
         bindR (ensure (vb_root_id candidate = vb_root_id (st_accepted previous))
            (Rotation ''offline-root identity changed'')) (\<lambda>_.
         bindR (ensure (\<not> candidate_max_issued < st_max_issued_at previous)
            (Rollback ''candidate issued_at floor is below accepted floor'')) (\<lambda>_.
         bindR (check_keyset_coordinate (st_accepted previous) candidate) (\<lambda>keyset_changed.
         bindR (check_policy_coordinate (st_accepted previous) candidate) (\<lambda>policy_changed.
         bindR (ensure (\<not> (keyset_changed \<and> \<not> policy_changed))
            (Fork ''a new keyset cannot reuse an already occupied policy coordinate'')) (\<lambda>_.
         let state = \<lparr> st_accepted = candidate,
               st_max_issued_at = max (st_max_issued_at previous) candidate_max_issued,
               st_max_wall_clock_seen = max (st_max_wall_clock_seen previous) now \<rparr> in
         if keyset_changed \<or> policy_changed then Inr (Applied state)
         else Inr (Idempotent state)))))))))"

definition apply_verified_successor ::
  "verified_bundle \<Rightarrow> verified_bundle \<Rightarrow> int \<Rightarrow> transition policy_result" where
  "apply_verified_successor previous candidate now =
     bindR (ensure_live_at_apply previous now) (\<lambda>_.
     let previous_state = \<lparr> st_accepted = previous,
           st_max_issued_at =
             max (ks_issued_at (vb_keyset previous)) (pol_issued_at (vb_policy previous)),
           st_max_wall_clock_seen = now \<rparr> in
     apply_verified_update (Some previous_state) candidate now)"

section \<open>Rotation, declaratively\<close>

lemma foldE_flag:
  assumes "\<And>h x h'. x \<in> set xs \<Longrightarrow> f h x = Inr h' \<longleftrightarrow> P x \<and> h' = (h \<or> Q x)"
  shows "foldE f h xs = Inr h' \<longleftrightarrow> (\<forall>x \<in> set xs. P x) \<and> h' = (h \<or> (\<exists>x \<in> set xs. Q x))"
  using assms by (induction xs arbitrary: h) (auto simp: result_simps)

lemma foldE_unit_all: "foldE f () xs = Inr () \<longleftrightarrow> (\<forall>x \<in> set xs. f () x = Inr ())"
  by (induction xs) (auto simp: result_simps)

lemma list_all_neq_image: "list_all (\<lambda>x. f x \<noteq> y) xs \<longleftrightarrow> y \<notin> f ` set xs"
  by (auto simp: list_all_iff)

lemma elapsed_at_least_iff:
  assumes "0 \<le> later" "in_i64 later" "0 \<le> earlier" "in_i64 earlier"
  shows "elapsed_at_least later earlier m \<longleftrightarrow> m \<le> later - earlier"
  using assms by (auto simp: elapsed_at_least_def i64_checked_sub_def i64_defs)

lemma required_overlap_end_iff:
  "required_overlap_end i = Inr e \<longleftrightarrow>
     in_i64 (i + MIN_ROTATION_OVERLAP_SECS) \<and> e = i + MIN_ROTATION_OVERLAP_SECS"
  by (auto simp: required_overlap_end_def ok_or_def split: option.splits)

text \<open>How an online key may appear in the next keyset, and when it may be left out.\<close>

definition key_rotates :: "keyset \<Rightarrow> online_key \<Rightarrow> online_key \<Rightarrow> bool" where
  "key_rotates ks old new \<longleftrightarrow>
     key_ed25519_public_key new = key_ed25519_public_key old
     \<and> key_not_before new = key_not_before old \<and> key_expires_at new = key_expires_at old
     \<and> (key_status new = key_status old \<and> key_status_since new = key_status_since old
        \<or> key_status old = KeyActive \<and> key_status new = KeyRetiring
          \<and> key_status_since new = ks_issued_at ks
          \<and> ks_issued_at ks + MIN_ROTATION_OVERLAP_SECS \<le> key_expires_at old
          \<and> ks_issued_at ks + MIN_ROTATION_OVERLAP_SECS \<le> ks_expires_at ks
        \<or> key_status old = KeyRetiring \<and> key_status new = KeyRevoked
          \<and> key_status_since new = ks_issued_at ks
          \<and> key_status_since old + MIN_ROTATION_OVERLAP_SECS \<le> ks_issued_at ks)"

definition key_removable :: "keyset \<Rightarrow> online_key \<Rightarrow> bool" where
  "key_removable ks old \<longleftrightarrow>
     key_status old = KeyRevoked
     \<or> key_status old = KeyRetiring
       \<and> key_status_since old + MIN_ROTATION_OVERLAP_SECS \<le> ks_issued_at ks"

definition keys_rotate :: "keyset \<Rightarrow> keyset \<Rightarrow> bool" where
  "keys_rotate previous candidate \<longleftrightarrow>
     in_i64 (ks_issued_at candidate + MIN_ROTATION_OVERLAP_SECS)
     \<and> (\<forall>old \<in> set (ks_keys previous).
        if key_kid old \<in> key_kid ` set (ks_keys candidate)
        then \<exists>new \<in> set (ks_keys candidate). key_kid new = key_kid old \<and> key_rotates candidate old new
        else key_removable candidate old)
     \<and> (\<forall>new \<in> set (ks_keys candidate). key_kid new \<notin> key_kid ` set (ks_keys previous) \<longrightarrow>
          key_status new = KeyActive \<and> key_status_since new = ks_issued_at candidate)
     \<and> (\<exists>old \<in> set (ks_keys previous). \<exists>new \<in> set (ks_keys candidate).
          key_kid new = key_kid old
          \<and> key_live_status (key_status old) \<and> key_live_status (key_status new)
          \<and> ks_issued_at candidate + MIN_ROTATION_OVERLAP_SECS
              \<le> min (key_expires_at old) (ks_expires_at candidate))"

text \<open>The timestamps of a validated keyset are non-negative.\<close>

lemma keyset_valid_since:
  assumes "keyset_valid ks now" and "k \<in> set (ks_keys ks)"
  shows "0 \<le> key_status_since k" and "key_status_since k \<le> ks_issued_at ks"
  using assms by (auto simp: keyset_valid_def window_ok_def key_ok_def)

lemma keyset_valid_kids: "keyset_valid ks now \<Longrightarrow> distinct (map key_kid (ks_keys ks))"
  using sorted_wrt_less_distinct by (auto simp: keyset_valid_def)

lemma check_key_status_iff:
  assumes "0 \<le> ks_issued_at ks" "in_i64 (ks_issued_at ks)"
    and "0 \<le> key_status_since old" "in_i64 (key_status_since old)"
    and "key_ed25519_public_key new = key_ed25519_public_key old"
    and "key_not_before new = key_not_before old" "key_expires_at new = key_expires_at old"
  shows "check_key_status ks (ks_issued_at ks + MIN_ROTATION_OVERLAP_SECS) old new = Inr () \<longleftrightarrow>
    key_rotates ks old new"
  using elapsed_at_least_iff [OF assms(1-4), of MIN_ROTATION_OVERLAP_SECS] assms(5-7)
  by (cases "key_status old"; cases "key_status new")
    (auto simp: check_key_status_def key_rotates_def)

lemma rotate_key_iff:
  assumes "0 \<le> ks_issued_at ks" "in_i64 (ks_issued_at ks)"
    and "0 \<le> key_status_since old" "in_i64 (key_status_since old)"
    and distinct: "distinct (map key_kid (ks_keys ks))"
  shows "rotate_key ks (ks_issued_at ks + MIN_ROTATION_OVERLAP_SECS) h old = Inr h' \<longleftrightarrow>
    (if key_kid old \<in> key_kid ` set (ks_keys ks)
     then \<exists>new \<in> set (ks_keys ks). key_kid new = key_kid old \<and> key_rotates ks old new
     else key_removable ks old)
    \<and> h' = (h \<or> (\<exists>new \<in> set (ks_keys ks). key_kid new = key_kid old
          \<and> key_live_status (key_status old) \<and> key_live_status (key_status new)
          \<and> ks_issued_at ks + MIN_ROTATION_OVERLAP_SECS
              \<le> min (key_expires_at old) (ks_expires_at ks)))"
proof (cases "List.find (\<lambda>new. key_kid new = key_kid old) (ks_keys ks)")
  case None
  then have absent: "\<And>new. new \<in> set (ks_keys ks) \<Longrightarrow> key_kid new \<noteq> key_kid old"
    by (auto simp: find_None_all)
  then have "key_kid old \<notin> key_kid ` set (ks_keys ks)"
    by force
  with None show ?thesis
    using elapsed_at_least_iff [OF assms(1-4)]
    by (cases "key_status old") (auto simp: rotate_key_def key_removable_def dest: absent)
next
  case (Some new)
  from find_Some_mem [OF Some] have new: "new \<in> set (ks_keys ks)" "key_kid new = key_kid old"
    by auto
  have the_new: "(\<exists>n \<in> set (ks_keys ks). key_kid n = key_kid old \<and> P n) \<longleftrightarrow> P new" for P
    using new distinct by (auto simp: distinct_map inj_on_def)
  have mem: "key_kid old \<in> key_kid ` set (ks_keys ks)"
    using imageI [OF new(1), of key_kid] new(2) by simp
  have "rotate_key ks (ks_issued_at ks + MIN_ROTATION_OVERLAP_SECS) h old = Inr h' \<longleftrightarrow>
    key_rotates ks old new
    \<and> h' = (h \<or> key_live_status (key_status old) \<and> key_live_status (key_status new)
          \<and> ks_issued_at ks + MIN_ROTATION_OVERLAP_SECS
              \<le> min (key_expires_at old) (ks_expires_at ks))"
  proof (cases "key_ed25519_public_key new = key_ed25519_public_key old
      \<and> key_not_before new = key_not_before old \<and> key_expires_at new = key_expires_at old")
    case True
    then show ?thesis
      using check_key_status_iff [OF assms(1-4)] Some
      by (auto simp: rotate_key_def result_simps)
  next
    case False
    then show ?thesis
      using Some by (auto simp: rotate_key_def key_rotates_def result_simps)
  qed
  with mem show ?thesis
    unfolding the_new by simp
qed

lemma validate_key_rotation_iff:
  assumes "keyset_valid previous earlier" "keyset_typed previous"
    and "keyset_valid candidate now" "keyset_typed candidate"
  shows "validate_key_rotation previous candidate = Inr () \<longleftrightarrow> keys_rotate previous candidate"
proof -
  have issued: "0 \<le> ks_issued_at candidate" "in_i64 (ks_issued_at candidate)"
    using assms(3,4) by (auto simp: keyset_typed_def keyset_valid_def window_ok_def)
  have since: "0 \<le> key_status_since k" "in_i64 (key_status_since k)"
    if "k \<in> set (ks_keys previous)" for k
    using that assms(1,2) keyset_valid_since by (auto simp: keyset_typed_def online_key_typed_def)
  have "foldE (rotate_key candidate (ks_issued_at candidate + MIN_ROTATION_OVERLAP_SECS)) False
      (ks_keys previous) = Inr True \<longleftrightarrow>
    (\<forall>old \<in> set (ks_keys previous).
        if key_kid old \<in> key_kid ` set (ks_keys candidate)
        then \<exists>new \<in> set (ks_keys candidate). key_kid new = key_kid old \<and> key_rotates candidate old new
        else key_removable candidate old)
    \<and> (\<exists>old \<in> set (ks_keys previous). \<exists>new \<in> set (ks_keys candidate).
          key_kid new = key_kid old
          \<and> key_live_status (key_status old) \<and> key_live_status (key_status new)
          \<and> ks_issued_at candidate + MIN_ROTATION_OVERLAP_SECS
              \<le> min (key_expires_at old) (ks_expires_at candidate))"
    by (subst foldE_flag [OF rotate_key_iff [OF issued _ _ keyset_valid_kids [OF assms(3)]]])
      (use since in simp_all)
  moreover have "foldE (check_new_key previous candidate) () (ks_keys candidate) = Inr () \<longleftrightarrow>
    (\<forall>new \<in> set (ks_keys candidate). key_kid new \<notin> key_kid ` set (ks_keys previous) \<longrightarrow>
          key_status new = KeyActive \<and> key_status_since new = ks_issued_at candidate)"
    by (auto simp: foldE_unit_all check_new_key_def list_all_neq_image)
  moreover have "validate_key_rotation previous candidate = Inr () \<longleftrightarrow>
    in_i64 (ks_issued_at candidate + MIN_ROTATION_OVERLAP_SECS)
    \<and> foldE (rotate_key candidate (ks_issued_at candidate + MIN_ROTATION_OVERLAP_SECS)) False
      (ks_keys previous) = Inr True
    \<and> foldE (check_new_key previous candidate) () (ks_keys candidate) = Inr ()"
    by (auto simp: validate_key_rotation_def result_simps required_overlap_end_iff)
  ultimately show ?thesis
    unfolding keys_rotate_def by blast
qed

text \<open>The same for the pins of a service.\<close>

definition pin_rotates :: "int \<Rightarrow> int \<Rightarrow> server_pin \<Rightarrow> server_pin \<Rightarrow> bool" where
  "pin_rotates issued expires old new \<longleftrightarrow>
     pin_not_before new = pin_not_before old \<and> pin_expires_at new = pin_expires_at old
     \<and> (pin_status new = pin_status old \<and> pin_status_since new = pin_status_since old
        \<or> pin_status old = PinActive \<and> pin_status new = PinRetiring
          \<and> pin_status_since new = issued
          \<and> issued + MIN_ROTATION_OVERLAP_SECS \<le> min (pin_expires_at old) expires)"

definition pin_removable :: "int \<Rightarrow> server_pin \<Rightarrow> bool" where
  "pin_removable issued old \<longleftrightarrow>
     pin_status old = PinRetiring \<and> pin_status_since old + MIN_ROTATION_OVERLAP_SECS \<le> issued
     \<and> in_i64 (issued - pin_status_since old)"

definition pins_rotate :: "server_pin list \<Rightarrow> server_pin list \<Rightarrow> int \<Rightarrow> int \<Rightarrow> bool" where
  "pins_rotate previous candidate issued expires \<longleftrightarrow>
     in_i64 (issued + MIN_ROTATION_OVERLAP_SECS)
     \<and> (\<forall>old \<in> set previous.
        if pin_fingerprint old \<in> pin_fingerprint ` set candidate
        then \<exists>new \<in> set candidate. pin_fingerprint new = pin_fingerprint old
               \<and> pin_rotates issued expires old new
        else pin_removable issued old)
     \<and> (\<forall>new \<in> set candidate. pin_fingerprint new \<notin> pin_fingerprint ` set previous \<longrightarrow>
          pin_status new = PinActive \<and> pin_status_since new = issued
          \<and> issued + MIN_ROTATION_OVERLAP_SECS \<le> expires)
     \<and> pin_fingerprint ` set previous \<inter> pin_fingerprint ` set candidate \<noteq> {}"

lemma check_pin_status_iff:
  assumes "pin_not_before new = pin_not_before old" "pin_expires_at new = pin_expires_at old"
  shows "check_pin_status issued expires (issued + MIN_ROTATION_OVERLAP_SECS) old new = Inr () \<longleftrightarrow>
    pin_rotates issued expires old new"
  using assms
  by (cases "pin_status old"; cases "pin_status new")
    (auto simp: check_pin_status_def pin_rotates_def)

lemma rotate_pin_iff:
  assumes distinct: "distinct (map pin_fingerprint (svc_pins s))"
  shows "rotate_pin s issued expires (issued + MIN_ROTATION_OVERLAP_SECS) h old = Inr h' \<longleftrightarrow>
    (if pin_fingerprint old \<in> pin_fingerprint ` set (svc_pins s)
     then \<exists>new \<in> set (svc_pins s). pin_fingerprint new = pin_fingerprint old
            \<and> pin_rotates issued expires old new
     else pin_removable issued old)
    \<and> h' = (h \<or> pin_fingerprint old \<in> pin_fingerprint ` set (svc_pins s))"
proof (cases "List.find (\<lambda>new. pin_fingerprint new = pin_fingerprint old) (svc_pins s)")
  case None
  then have "pin_fingerprint old \<notin> pin_fingerprint ` set (svc_pins s)"
    by (auto simp: find_None_all)
  with None show ?thesis
    by (auto simp: rotate_pin_def pin_removable_def elapsed_at_least_def split: option.splits)
next
  case (Some new)
  from find_Some_mem [OF Some]
  have new: "new \<in> set (svc_pins s)" "pin_fingerprint new = pin_fingerprint old"
    by auto
  have the_new: "(\<exists>n \<in> set (svc_pins s). pin_fingerprint n = pin_fingerprint old \<and> P n) \<longleftrightarrow> P new"
    for P
    using new distinct by (auto simp: distinct_map inj_on_def)
  have mem: "pin_fingerprint old \<in> pin_fingerprint ` set (svc_pins s)"
    using imageI [OF new(1), of pin_fingerprint] new(2) by simp
  have "rotate_pin s issued expires (issued + MIN_ROTATION_OVERLAP_SECS) h old = Inr h' \<longleftrightarrow>
    pin_rotates issued expires old new \<and> h'"
  proof (cases "pin_not_before new = pin_not_before old \<and> pin_expires_at new = pin_expires_at old")
    case True
    then show ?thesis
      using check_pin_status_iff [of new old issued expires] Some
      by (auto simp: rotate_pin_def result_simps)
  next
    case False
    then show ?thesis
      using Some by (auto simp: rotate_pin_def pin_rotates_def result_simps)
  qed
  with mem show ?thesis
    unfolding the_new by simp
qed

lemma validate_pin_rotation_iff:
  assumes distinct: "distinct (map pin_fingerprint (svc_pins candidate))"
  shows "validate_pin_rotation previous candidate issued expires = Inr () \<longleftrightarrow>
    pins_rotate (svc_pins previous) (svc_pins candidate) issued expires"
proof -
  have "foldE (rotate_pin candidate issued expires (issued + MIN_ROTATION_OVERLAP_SECS)) False
      (svc_pins previous) = Inr True \<longleftrightarrow>
    (\<forall>old \<in> set (svc_pins previous).
       if pin_fingerprint old \<in> pin_fingerprint ` set (svc_pins candidate)
       then \<exists>new \<in> set (svc_pins candidate). pin_fingerprint new = pin_fingerprint old
              \<and> pin_rotates issued expires old new
       else pin_removable issued old)
    \<and> (\<exists>old \<in> set (svc_pins previous). pin_fingerprint old \<in> pin_fingerprint ` set (svc_pins candidate))"
    by (subst foldE_flag [OF rotate_pin_iff [OF distinct]]) simp_all
  moreover have "foldE (check_new_pin previous issued expires (issued + MIN_ROTATION_OVERLAP_SECS)) ()
      (svc_pins candidate) = Inr () \<longleftrightarrow>
    (\<forall>new \<in> set (svc_pins candidate).
       pin_fingerprint new \<notin> pin_fingerprint ` set (svc_pins previous) \<longrightarrow>
         pin_status new = PinActive \<and> pin_status_since new = issued
         \<and> issued + MIN_ROTATION_OVERLAP_SECS \<le> expires)"
    by (auto simp: foldE_unit_all check_new_pin_def list_all_neq_image result_simps)
  moreover have "validate_pin_rotation previous candidate issued expires = Inr () \<longleftrightarrow>
    in_i64 (issued + MIN_ROTATION_OVERLAP_SECS)
    \<and> foldE (rotate_pin candidate issued expires (issued + MIN_ROTATION_OVERLAP_SECS)) False
      (svc_pins previous) = Inr True
    \<and> foldE (check_new_pin previous issued expires (issued + MIN_ROTATION_OVERLAP_SECS)) ()
      (svc_pins candidate) = Inr ()"
    by (auto simp: validate_pin_rotation_def result_simps required_overlap_end_iff)
  ultimately show ?thesis
    unfolding pins_rotate_def by blast
qed

section \<open>One transition\<close>

lemma u64_next_iff: "u64_checked_add a 1 = Some b \<longleftrightarrow> unat b = Suc (unat a)"
proof
  assume b: "unat b = Suc (unat a)"
  have "unat b < 2 ^ LENGTH(64)"
    by (rule unsigned_less)
  with b have small: "unat a + 1 < 2 ^ 64"
    by simp
  then have "unat (a + 1) = unat b"
    using b by (simp add: unat_word_ariths)
  then have "a + 1 = b"
    by (simp add: word_unat_eq_iff)
  with small show "u64_checked_add a 1 = Some b"
    by (simp add: u64_checked_add_def)
qed (rule u64_checked_add_1_Some(1))

definition keyset_advances :: "keyset \<Rightarrow> bytes \<Rightarrow> keyset \<Rightarrow> bool" where
  "keyset_advances previous previous_hash candidate \<longleftrightarrow>
     unat (ks_keyset_epoch candidate) = Suc (unat (ks_keyset_epoch previous))
     \<and> ks_previous_payload_hash candidate = Some previous_hash
     \<and> ks_issued_at previous \<le> ks_issued_at candidate
     \<and> validate_key_rotation previous candidate = Inr ()"

lemma check_keyset_coordinate_parts_iff:
  "check_keyset_coordinate_parts ks h ks' h' = Inr changed \<longleftrightarrow>
     (if changed then keyset_advances ks h ks' else ks' = ks \<and> h' = h)"
proof (cases "ks_keyset_epoch ks' \<le> ks_keyset_epoch ks")
  case True
  then have "\<not> keyset_advances ks h ks'"
    by (auto simp: keyset_advances_def word_le_nat_alt)
  with True show ?thesis
    by (auto simp: check_keyset_coordinate_parts_def Let_def)
next
  case False
  then have "ks' \<noteq> ks" and "\<not> ks_keyset_epoch ks' < ks_keyset_epoch ks"
    and "ks_keyset_epoch ks' \<noteq> ks_keyset_epoch ks"
    by auto
  then show ?thesis
    by (auto simp: check_keyset_coordinate_parts_def Let_def keyset_advances_def result_simps
          ok_or_def u64_next_iff [symmetric] split: option.splits)
qed

text \<open>The policy coordinate \<open>(epoch, sequence)\<close> and its only two successors.\<close>

definition coordinate_next :: "endpoint_policy \<Rightarrow> endpoint_policy \<Rightarrow> bool" where
  "coordinate_next old new \<longleftrightarrow>
     pol_policy_epoch new = pol_policy_epoch old
       \<and> unat (pol_sequence new) = Suc (unat (pol_sequence old))
     \<or> unat (pol_policy_epoch new) = Suc (unat (pol_policy_epoch old)) \<and> pol_sequence new = 0"

definition coordinate_less :: "endpoint_policy \<Rightarrow> endpoint_policy \<Rightarrow> bool" where
  "coordinate_less old new \<longleftrightarrow>
     pol_policy_epoch old < pol_policy_epoch new
     \<or> pol_policy_epoch old = pol_policy_epoch new \<and> pol_sequence old < pol_sequence new"

lemma coordinate_next_less: "coordinate_next old new \<Longrightarrow> coordinate_less old new"
  by (auto simp: coordinate_next_def coordinate_less_def word_less_nat_alt)

lemma coordinate_less_trans:
  "coordinate_less p q \<Longrightarrow> coordinate_less q r \<Longrightarrow> coordinate_less p r"
  by (auto simp: coordinate_less_def)

lemma coordinate_less_irrefl: "\<not> coordinate_less p p"
  by (simp add: coordinate_less_def)

lemma check_policy_advance_iff:
  assumes "pol_policy_epoch old \<le> pol_policy_epoch new"
    and "pol_policy_epoch new \<noteq> pol_policy_epoch old \<or> pol_sequence new \<noteq> pol_sequence old"
  shows "check_policy_advance (pol_policy_epoch old) (pol_sequence old) (pol_policy_epoch new)
      (pol_sequence new) = Inr () \<longleftrightarrow> coordinate_next old new"
  by (auto simp: check_policy_advance_def coordinate_next_def result_simps ok_or_def
        u64_next_iff [symmetric] u64_checked_add_def split: option.splits if_splits)

definition policy_advances :: "endpoint_policy \<Rightarrow> bytes \<Rightarrow> endpoint_policy \<Rightarrow> bool" where
  "policy_advances old old_hash new \<longleftrightarrow>
     coordinate_next old new
     \<and> pol_previous_payload_hash new = Some old_hash
     \<and> pol_issued_at old \<le> pol_issued_at new
     \<and> map svc_service_id (pol_services new) = map svc_service_id (pol_services old)
     \<and> list_all2 (\<lambda>s s'. validate_pin_rotation s s' (pol_issued_at new) (pol_expires_at new) = Inr ())
         (pol_services old) (pol_services new)"

lemma check_policy_coordinate_iff:
  "check_policy_coordinate a b = Inr changed \<longleftrightarrow>
     (if changed then policy_advances (vb_policy a) (vb_policy_hash a) (vb_policy b)
      else vb_policy b = vb_policy a \<and> vb_policy_hash b = vb_policy_hash a)"
    (is "?lhs = ?rhs")
proof (cases "coordinate_less (vb_policy a) (vb_policy b)")
  case False
  then have "\<not> policy_advances (vb_policy a) (vb_policy_hash a) (vb_policy b)"
    using coordinate_next_less by (auto simp: policy_advances_def)
  with False show ?thesis
    by (auto simp: check_policy_coordinate_def Let_def coordinate_less_def)
next
  case True
  then have diff: "vb_policy b \<noteq> vb_policy a"
    using coordinate_less_irrefl by metis
  have loop: "foldE (\<lambda>_ (s, s'). validate_pin_rotation s s' i e) () (zip ss ts) = Inr () \<longleftrightarrow>
      list_all2 (\<lambda>s s'. validate_pin_rotation s s' i e = Inr ()) ss ts"
    if "length ts = length ss" for i e ss ts
    using that by (auto simp: foldE_unit_all list_all2_iff)
  have len: "map svc_service_id ts = map svc_service_id ss \<Longrightarrow> length ts = length ss" for ss ts
    using map_eq_imp_length_eq by blast
  have adv: "check_policy_advance (pol_policy_epoch (vb_policy a)) (pol_sequence (vb_policy a))
      (pol_policy_epoch (vb_policy b)) (pol_sequence (vb_policy b)) = Inr () \<longleftrightarrow>
    coordinate_next (vb_policy a) (vb_policy b)"
    using True by (intro check_policy_advance_iff) (auto simp: coordinate_less_def)
  have guards: "\<not> (pol_policy_epoch (vb_policy b) < pol_policy_epoch (vb_policy a)
      \<or> pol_policy_epoch (vb_policy b) = pol_policy_epoch (vb_policy a)
        \<and> pol_sequence (vb_policy b) < pol_sequence (vb_policy a))"
    "\<not> (pol_policy_epoch (vb_policy b) = pol_policy_epoch (vb_policy a)
        \<and> pol_sequence (vb_policy b) = pol_sequence (vb_policy a))"
    using True by (auto simp: coordinate_less_def)
  have "?lhs \<longleftrightarrow> changed \<and> policy_advances (vb_policy a) (vb_policy_hash a) (vb_policy b)"
    unfolding check_policy_coordinate_def Let_def policy_advances_def if_not_P [OF guards(1)]
      if_not_P [OF guards(2)]
    by (auto simp: result_simps adv loop dest: len)
  with diff show ?thesis
    by simp
qed

definition live_at :: "verified_bundle \<Rightarrow> int \<Rightarrow> bool" where
  "live_at vb now \<longleftrightarrow>
     0 \<le> now
     \<and> ks_issued_at (vb_keyset vb) \<le> now + MAX_CLOCK_SKEW_SECS
     \<and> pol_issued_at (vb_policy vb) \<le> now + MAX_CLOCK_SKEW_SECS
     \<and> ks_not_before (vb_keyset vb) \<le> now \<and> now < ks_expires_at (vb_keyset vb)
     \<and> pol_not_before (vb_policy vb) \<le> now \<and> now < pol_expires_at (vb_policy vb)
     \<and> (\<exists>signer. List.find (\<lambda>key. key_kid key = vb_signer_kid vb) (ks_keys (vb_keyset vb)) = Some signer
          \<and> key_not_before signer \<le> now \<and> now < key_expires_at signer)"

lemma ensure_live_at_apply_iff:
  assumes "keyset_typed (vb_keyset vb)" "policy_typed (vb_policy vb)" "in_i64 now"
  shows "ensure_live_at_apply vb now = Inr () \<longleftrightarrow> live_at vb now"
proof -
  have clock: "i \<le> i64_saturating_add now MAX_CLOCK_SKEW_SECS \<longleftrightarrow> i \<le> now + MAX_CLOCK_SKEW_SECS"
    if "in_i64 i" for i
    using that assms(3) by (auto simp: i64_saturating_add_def i64_defs MAX_CLOCK_SKEW_SECS_def)
  show ?thesis
    using assms(1,2) clock [of "ks_issued_at (vb_keyset vb)"] clock [of "pol_issued_at (vb_policy vb)"]
    by (auto simp: ensure_live_at_apply_def live_at_def Let_def result_simps ok_or_def
          keyset_typed_def policy_typed_def not_less not_le split: option.splits)
qed

definition next_state :: "accepted_state \<Rightarrow> verified_bundle \<Rightarrow> int \<Rightarrow> accepted_state" where
  "next_state s vb now = \<lparr> st_accepted = vb,
     st_max_issued_at = max (st_max_issued_at s)
       (max (ks_issued_at (vb_keyset vb)) (pol_issued_at (vb_policy vb))),
     st_max_wall_clock_seen = max (st_max_wall_clock_seen s) now \<rparr>"

lemma apply_verified_update_Some_iff:
  "apply_verified_update (Some s) vb now = Inr t \<longleftrightarrow>
     st_max_wall_clock_seen s \<le> i64_saturating_add now MAX_CLOCK_SKEW_SECS
     \<and> ensure_live_at_apply vb now = Inr ()
     \<and> vb_root_id vb = vb_root_id (st_accepted s)
     \<and> st_max_issued_at s \<le> max (ks_issued_at (vb_keyset vb)) (pol_issued_at (vb_policy vb))
     \<and> (\<exists>keyset_changed policy_changed.
          check_keyset_coordinate (st_accepted s) vb = Inr keyset_changed
          \<and> check_policy_coordinate (st_accepted s) vb = Inr policy_changed
          \<and> (keyset_changed \<longrightarrow> policy_changed)
          \<and> t = (if policy_changed then Applied (next_state s vb now)
                 else Idempotent (next_state s vb now)))"
  by (auto simp: apply_verified_update_def Let_def result_simps not_less next_state_def
        split: if_splits)

lemma apply_verified_update_None_iff:
  "apply_verified_update None vb now = Inr t \<longleftrightarrow>
     ensure_live_at_apply vb now = Inr ()
     \<and> ks_keyset_epoch (vb_keyset vb) = 0 \<and> pol_policy_epoch (vb_policy vb) = 0
     \<and> pol_sequence (vb_policy vb) = 0
     \<and> ks_previous_payload_hash (vb_keyset vb) = None
     \<and> pol_previous_payload_hash (vb_policy vb) = None
     \<and> t = Applied \<lparr> st_accepted = vb,
         st_max_issued_at = max (ks_issued_at (vb_keyset vb)) (pol_issued_at (vb_policy vb)),
         st_max_wall_clock_seen = now \<rparr>"
  by (auto simp: apply_verified_update_def Let_def result_simps)

text \<open>A bundle that verifies at some time is live at that time.\<close>

lemma verified_live:
  assumes "bundle_authentic M C input root now vb"
  shows "live_at vb now"
proof -
  from assms have ks: "keyset_valid (vb_keyset vb) now" and pol: "policy_valid C (vb_policy vb) now"
    by (auto simp: bundle_authentic_def keyset_authentic_def policy_authentic_def)
  from assms obtain signer where "signer \<in> set (ks_keys (vb_keyset vb))"
      "key_kid signer = vb_signer_kid vb" "key_not_before signer \<le> now" "now < key_expires_at signer"
    by (auto simp: bundle_authentic_def policy_authentic_def)
  moreover from this have "List.find (\<lambda>key. key_kid key = vb_signer_kid vb) (ks_keys (vb_keyset vb))
      = Some signer"
    using signer_found [OF ks] by blast
  ultimately show ?thesis
    using ks pol by (auto simp: live_at_def keyset_valid_def policy_valid_def window_ok_def)
qed

section \<open>Histories\<close>

text \<open>A client that verifies a bundle against its root at its current time and applies it:
\<open>policy_step\<close> from no state is enrollment. A history is any sequence of such updates.\<close>

inductive policy_step ::
  "minicbor \<Rightarrow> crypto \<Rightarrow> trusted_root \<Rightarrow> accepted_state option \<Rightarrow> accepted_state \<Rightarrow> bool"
  for M C root where
  policy_step: "in_i64 now \<Longrightarrow> verify_bundle M C input root now = Inr vb \<Longrightarrow>
    apply_verified_update s vb now = Inr t \<Longrightarrow> policy_step M C root s (transition_state t)"

inductive policy_history ::
  "minicbor \<Rightarrow> crypto \<Rightarrow> trusted_root \<Rightarrow> accepted_state \<Rightarrow> accepted_state \<Rightarrow> bool"
  for M C root where
  history_refl: "policy_history M C root s s"
| history_step: "policy_history M C root s s' \<Longrightarrow> policy_step M C root (Some s') s'' \<Longrightarrow>
    policy_history M C root s s''"

inductive policy_reachable :: "minicbor \<Rightarrow> crypto \<Rightarrow> trusted_root \<Rightarrow> accepted_state \<Rightarrow> bool"
  for M C root where
  reachable_enroll: "policy_step M C root None s \<Longrightarrow> policy_reachable M C root s"
| reachable_update: "policy_reachable M C root s \<Longrightarrow> policy_step M C root (Some s) s' \<Longrightarrow>
    policy_reachable M C root s'"

inductive_cases policy_step_cases: "policy_step M C root s s'"

text \<open>What one update does to the state.\<close>

definition state_updates :: "accepted_state \<Rightarrow> accepted_state \<Rightarrow> bool" where
  "state_updates s s' \<longleftrightarrow>
     (let a = st_accepted s; b = st_accepted s' in
     vb_root_id b = vb_root_id a
     \<and> st_max_issued_at s \<le> st_max_issued_at s'
     \<and> st_max_wall_clock_seen s \<le> st_max_wall_clock_seen s'
     \<and> (vb_policy b = vb_policy a \<and> vb_policy_hash b = vb_policy_hash a
          \<and> vb_keyset b = vb_keyset a \<and> vb_keyset_hash b = vb_keyset_hash a
        \<or> policy_advances (vb_policy a) (vb_policy_hash a) (vb_policy b)
          \<and> (vb_keyset b = vb_keyset a \<and> vb_keyset_hash b = vb_keyset_hash a
             \<or> keyset_advances (vb_keyset a) (vb_keyset_hash a) (vb_keyset b))))"

lemma apply_update_updates:
  assumes "apply_verified_update (Some s) vb now = Inr t"
  shows "state_updates s (transition_state t)"
  using assms
  by (fastforce simp: apply_verified_update_Some_iff check_keyset_coordinate_def
        check_keyset_coordinate_parts_iff check_policy_coordinate_iff state_updates_def Let_def
        next_state_def split: if_splits)

lemma policy_step_updates: "policy_step M C root (Some s) s' \<Longrightarrow> state_updates s s'"
  by (erule policy_step_cases) (use apply_update_updates in auto)

text \<open>Every state a client reaches holds a bundle that was authentic at some time it has seen.\<close>

definition state_ok :: "minicbor \<Rightarrow> crypto \<Rightarrow> trusted_root \<Rightarrow> accepted_state \<Rightarrow> bool" where
  "state_ok M C root s \<longleftrightarrow>
     (\<exists>input now. in_i64 now \<and> now \<le> st_max_wall_clock_seen s
        \<and> bundle_authentic M C input root now (st_accepted s))
     \<and> st_max_issued_at s =
         max (ks_issued_at (vb_keyset (st_accepted s))) (pol_issued_at (vb_policy (st_accepted s)))"

lemma policy_step_accepts:
  assumes "apply_verified_update s vb now = Inr t"
  shows "st_accepted (transition_state t) = vb" and "now \<le> st_max_wall_clock_seen (transition_state t)"
    and "st_max_issued_at (transition_state t) =
      max (ks_issued_at (vb_keyset vb)) (pol_issued_at (vb_policy vb))"
  using assms
  by (cases s; auto simp: apply_verified_update_None_iff apply_verified_update_Some_iff next_state_def
        split: if_splits)+

context cbor_codec
begin

lemma policy_step_ok: "policy_step M C root s s' \<Longrightarrow> state_ok M C root s'"
  by (erule policy_step_cases)
    (auto simp: state_ok_def verify_bundle_iff policy_step_accepts intro: policy_step_accepts(2))

lemma policy_reachable_ok: "policy_reachable M C root s \<Longrightarrow> state_ok M C root s"
  by (induction rule: policy_reachable.induct) (auto intro: policy_step_ok)

lemma policy_history_ok:
  "policy_history M C root s s' \<Longrightarrow> state_ok M C root s \<Longrightarrow> state_ok M C root s'"
  by (induction rule: policy_history.induct) (auto intro: policy_step_ok)

end

lemma state_ok_valid:
  assumes "state_ok M C root s"
  obtains now where "keyset_valid (vb_keyset (st_accepted s)) now" "keyset_typed (vb_keyset (st_accepted s))"
    "policy_valid C (vb_policy (st_accepted s)) now" "policy_typed (vb_policy (st_accepted s))"
  using assms
  by (auto simp: state_ok_def bundle_authentic_def keyset_authentic_def policy_authentic_def)

subsection \<open>Retirement overlap\<close>

text \<open>Keys and pins retire the same way: an active entry stays, at most becoming retiring at
the issue time of the update; a retiring entry stays as it is until the overlap has passed; an
entry that is new enters active. Whatever rotates like this keeps an active entry for the whole
overlap.\<close>

locale rotation =
  fixes ident :: "'a \<Rightarrow> bytes"
    and active :: "'a \<Rightarrow> bool"
    and retiring :: "'a \<Rightarrow> bool"
    and since :: "'a \<Rightarrow> int"
    and rotates :: "int \<Rightarrow> 'a list \<Rightarrow> 'a list \<Rightarrow> bool"
  assumes active_step: "rotates t xs ys \<Longrightarrow> x \<in> set xs \<Longrightarrow> active x \<Longrightarrow>
      \<exists>y \<in> set ys. ident y = ident x \<and> (active y \<or> retiring y \<and> since y = t)"
    and retiring_step: "rotates t xs ys \<Longrightarrow> x \<in> set xs \<Longrightarrow> retiring x \<Longrightarrow>
      (\<exists>y \<in> set ys. ident y = ident x \<and> retiring y \<and> since y = since x)
      \<or> since x + MIN_ROTATION_OVERLAP_SECS \<le> t"
begin

lemma overlap_step:
  assumes rot: "rotates t' xs ys" and mono: "t0 \<le> t" "t \<le> t'"
    and kept: "(\<exists>x \<in> set xs. ident x = k \<and> (active x \<or> retiring x \<and> t0 \<le> since x))
      \<or> t0 + MIN_ROTATION_OVERLAP_SECS \<le> t"
  shows "(\<exists>y \<in> set ys. ident y = k \<and> (active y \<or> retiring y \<and> t0 \<le> since y))
      \<or> t0 + MIN_ROTATION_OVERLAP_SECS \<le> t'"
proof (cases "t0 + MIN_ROTATION_OVERLAP_SECS \<le> t")
  case True
  with mono show ?thesis by linarith
next
  case False
  with kept obtain x where x: "x \<in> set xs" "ident x = k" "active x \<or> retiring x \<and> t0 \<le> since x"
    by auto
  from x(3) show ?thesis
  proof
    assume "active x"
    from active_step [OF rot x(1) this] mono x(2) show ?thesis by force
  next
    assume "retiring x \<and> t0 \<le> since x"
    with retiring_step [OF rot x(1)] x(2) show ?thesis by force
  qed
qed

end

lemma pins_rotate_step:
  assumes "pins_rotate xs ys t expires" and "x \<in> set xs"
  shows "(\<exists>y \<in> set ys. pin_fingerprint y = pin_fingerprint x \<and> pin_rotates t expires x y)
    \<or> pin_removable t x"
  using assms by (simp add: pins_rotate_def) (metis (no_types, lifting))

lemma keys_rotate_step:
  assumes "keys_rotate ks ks'" and "x \<in> set (ks_keys ks)"
  shows "(\<exists>y \<in> set (ks_keys ks'). key_kid y = key_kid x \<and> key_rotates ks' x y)
    \<or> key_removable ks' x"
  using assms by (simp add: keys_rotate_def) (metis (no_types, lifting))

interpretation pin_rotation: rotation pin_fingerprint "\<lambda>pin. pin_status pin = PinActive"
  "\<lambda>pin. pin_status pin = PinRetiring" pin_status_since
  "\<lambda>t xs ys. \<exists>expires. pins_rotate xs ys t expires"
  by unfold_locales
    (auto dest!: pins_rotate_step simp: pin_rotates_def pin_removable_def)

interpretation key_rotation: rotation key_kid "\<lambda>k. key_status k = KeyActive"
  "\<lambda>k. key_status k = KeyRetiring" key_status_since
  "\<lambda>t xs ys. \<exists>ks ks'. keys_rotate ks ks' \<and> xs = ks_keys ks \<and> ys = ks_keys ks' \<and> t = ks_issued_at ks'"
  by unfold_locales
    (auto dest!: keys_rotate_step simp: key_rotates_def key_removable_def)

text \<open>The pins of a named service, and how an update rotates them.\<close>

definition pins_of :: "endpoint_policy \<Rightarrow> bytes \<Rightarrow> server_pin list" where
  "pins_of p sid =
     (case List.find (\<lambda>s. svc_service_id s = sid) (pol_services p) of
        None \<Rightarrow> [] | Some s \<Rightarrow> svc_pins s)"

lemma find_list_all2:
  assumes "list_all2 P xs ys" and "map f ys = map f xs" and "List.find (\<lambda>x. f x = k) xs = Some x"
  shows "\<exists>y. List.find (\<lambda>y. f y = k) ys = Some y \<and> P x y"
  using assms by (induction rule: list_all2_induct) (auto split: if_splits)

lemma policy_advances_pins:
  assumes adv: "policy_advances old h new" and valid: "policy_valid C new now"
    and pin: "pin \<in> set (pins_of old sid)"
  shows "pins_rotate (pins_of old sid) (pins_of new sid) (pol_issued_at new) (pol_expires_at new)"
proof -
  from pin obtain s where s: "List.find (\<lambda>s. svc_service_id s = sid) (pol_services old) = Some s"
    by (cases "List.find (\<lambda>s. svc_service_id s = sid) (pol_services old)") (auto simp: pins_of_def)
  from adv find_list_all2 [OF _ _ s] obtain s' where
    s': "List.find (\<lambda>s. svc_service_id s = sid) (pol_services new) = Some s'"
    and rot: "validate_pin_rotation s s' (pol_issued_at new) (pol_expires_at new) = Inr ()"
    by (fastforce simp: policy_advances_def)
  from find_Some_mem [OF s'] valid have "distinct (map pin_fingerprint (svc_pins s'))"
    using sorted_wrt_less_distinct by (auto simp: policy_valid_def service_ok_def)
  with rot s s' show ?thesis
    by (simp add: validate_pin_rotation_iff pins_of_def)
qed

lemma updates_monotone:
  assumes "state_updates s s'"
  shows "pol_issued_at (vb_policy (st_accepted s)) \<le> pol_issued_at (vb_policy (st_accepted s'))"
    and "ks_issued_at (vb_keyset (st_accepted s)) \<le> ks_issued_at (vb_keyset (st_accepted s'))"
  using assms by (auto simp: state_updates_def Let_def policy_advances_def keyset_advances_def)

context cbor_codec
begin

lemma history_pin_overlap:
  assumes "policy_history M C root s s'" and "state_ok M C root s"
    and "pin \<in> set (pins_of (vb_policy (st_accepted s)) sid)" and "pin_status pin = PinActive"
  shows "pol_issued_at (vb_policy (st_accepted s)) \<le> pol_issued_at (vb_policy (st_accepted s'))
    \<and> ((\<exists>pin' \<in> set (pins_of (vb_policy (st_accepted s')) sid).
          pin_fingerprint pin' = pin_fingerprint pin
          \<and> (pin_status pin' = PinActive \<or> pin_status pin' = PinRetiring
             \<and> pol_issued_at (vb_policy (st_accepted s)) \<le> pin_status_since pin'))
       \<or> pol_issued_at (vb_policy (st_accepted s)) + MIN_ROTATION_OVERLAP_SECS
           \<le> pol_issued_at (vb_policy (st_accepted s')))"
  using assms
proof (induction rule: policy_history.induct)
  case (history_refl s)
  then show ?case by auto
next
  case (history_step s s' s'')
  let ?p = "vb_policy (st_accepted s')" and ?q = "vb_policy (st_accepted s'')"
  from history_step.IH history_step.prems have mono: "pol_issued_at (vb_policy (st_accepted s)) \<le> pol_issued_at ?p"
    by blast
  have upd: "state_updates s' s''"
    using history_step.hyps(2) by (rule policy_step_updates)
  from policy_step_ok [OF history_step.hyps(2)] obtain now where valid: "policy_valid C ?q now"
    by (auto elim: state_ok_valid)
  note issued = updates_monotone(1) [OF upd]
  from upd consider "?q = ?p" | h where "policy_advances ?p h ?q"
    by (auto simp: state_updates_def Let_def)
  then show ?case
  proof cases
    case 1
    with history_step.IH history_step.prems show ?thesis by simp
  next
    case 2
    have "(\<exists>expires. pins_rotate (pins_of ?p sid) (pins_of ?q sid) (pol_issued_at ?q) expires)
      \<or> pins_of ?p sid = []"
      using policy_advances_pins [OF 2 valid, of _ sid] by (cases "pins_of ?p sid") auto
    then show ?thesis
      using pin_rotation.overlap_step [OF _ mono issued, of "pins_of ?p sid" "pins_of ?q sid"
          "pin_fingerprint pin"] history_step.IH history_step.prems mono issued
      by (cases "pins_of ?p sid = []") auto
  qed
qed

lemma history_key_overlap:
  assumes "policy_history M C root s s'" and "state_ok M C root s"
    and "k \<in> set (ks_keys (vb_keyset (st_accepted s)))" and "key_status k = KeyActive"
  shows "ks_issued_at (vb_keyset (st_accepted s)) \<le> ks_issued_at (vb_keyset (st_accepted s'))
    \<and> ((\<exists>k' \<in> set (ks_keys (vb_keyset (st_accepted s'))).
          key_kid k' = key_kid k
          \<and> (key_status k' = KeyActive \<or> key_status k' = KeyRetiring
             \<and> ks_issued_at (vb_keyset (st_accepted s)) \<le> key_status_since k'))
       \<or> ks_issued_at (vb_keyset (st_accepted s)) + MIN_ROTATION_OVERLAP_SECS
           \<le> ks_issued_at (vb_keyset (st_accepted s')))"
  using assms
proof (induction rule: policy_history.induct)
  case (history_refl s)
  then show ?case by auto
next
  case (history_step s s' s'')
  let ?p = "vb_keyset (st_accepted s')" and ?q = "vb_keyset (st_accepted s'')"
  from history_step.IH history_step.prems have mono: "ks_issued_at (vb_keyset (st_accepted s)) \<le> ks_issued_at ?p"
    by blast
  have upd: "state_updates s' s''"
    using history_step.hyps(2) by (rule policy_step_updates)
  from policy_step_ok [OF history_step.hyps(2)] obtain now where
    valid: "keyset_valid ?q now" "keyset_typed ?q"
    by (auto elim: state_ok_valid)
  from policy_history_ok [OF history_step.hyps(1) history_step.prems(1)] obtain earlier where
    before: "keyset_valid ?p earlier" "keyset_typed ?p"
    by (auto elim: state_ok_valid)
  note issued = updates_monotone(2) [OF upd]
  from upd consider "?q = ?p" | h where "keyset_advances ?p h ?q"
    by (auto simp: state_updates_def Let_def)
  then show ?case
  proof cases
    case 1
    with history_step.IH history_step.prems show ?thesis by simp
  next
    case 2
    with validate_key_rotation_iff [OF before valid] have "keys_rotate ?p ?q"
      by (simp add: keyset_advances_def)
    then show ?thesis
      using key_rotation.overlap_step [OF _ mono issued, of "ks_keys ?p" "ks_keys ?q"
          "key_kid k"] history_step.IH history_step.prems mono issued
      by auto
  qed
qed

end

subsection \<open>Floors and coordinates\<close>

lemma updates_coordinates:
  assumes "state_updates s s'"
  shows "coordinate_less (vb_policy (st_accepted s)) (vb_policy (st_accepted s'))
    \<or> vb_policy (st_accepted s') = vb_policy (st_accepted s)
      \<and> vb_policy_hash (st_accepted s') = vb_policy_hash (st_accepted s)
      \<and> vb_keyset (st_accepted s') = vb_keyset (st_accepted s)
      \<and> vb_keyset_hash (st_accepted s') = vb_keyset_hash (st_accepted s)"
  using assms by (auto simp: state_updates_def Let_def policy_advances_def intro: coordinate_next_less)

lemma history_coordinates:
  assumes "policy_history M C root s s'"
  shows "coordinate_less (vb_policy (st_accepted s)) (vb_policy (st_accepted s'))
    \<or> vb_policy (st_accepted s') = vb_policy (st_accepted s)
      \<and> vb_policy_hash (st_accepted s') = vb_policy_hash (st_accepted s)
      \<and> vb_keyset (st_accepted s') = vb_keyset (st_accepted s)
      \<and> vb_keyset_hash (st_accepted s') = vb_keyset_hash (st_accepted s)"
  using assms
proof (induction rule: policy_history.induct)
  case (history_step s s' s'')
  from updates_coordinates [OF policy_step_updates [OF history_step.hyps(2)]] history_step.IH
  show ?case
    by (elim disjE conjE) (auto dest: coordinate_less_trans)
qed simp

lemma history_floors:
  assumes "policy_history M C root s s'"
  shows "vb_root_id (st_accepted s') = vb_root_id (st_accepted s)
    \<and> st_max_issued_at s \<le> st_max_issued_at s'
    \<and> st_max_wall_clock_seen s \<le> st_max_wall_clock_seen s'
    \<and> ks_keyset_epoch (vb_keyset (st_accepted s)) \<le> ks_keyset_epoch (vb_keyset (st_accepted s'))
    \<and> map svc_service_id (pol_services (vb_policy (st_accepted s')))
        = map svc_service_id (pol_services (vb_policy (st_accepted s)))"
  using assms
proof (induction rule: policy_history.induct)
  case (history_step s s' s'')
  from policy_step_updates [OF history_step.hyps(2)] history_step.IH show ?case
    by (auto simp: state_updates_def Let_def policy_advances_def keyset_advances_def
          word_le_nat_alt)
qed simp

subsection \<open>The plan in force\<close>

lemma find_sorted_service:
  assumes "policy_valid C p now" and "s \<in> set (pol_services p)"
  shows "List.find (\<lambda>t. svc_service_id t = svc_service_id s) (pol_services p) = Some s"
  using assms sorted_wrt_less_distinct find_unique [of svc_service_id "pol_services p" s]
  by (auto simp: policy_valid_def)

lemma plan_in_force:
  assumes "state_ok M C root s"
  defines "p \<equiv> vb_policy (st_accepted s)" and "plan \<equiv> vb_plan (st_accepted s)"
  shows "list_all2 (\<lambda>(s, e). plan_entry s e) (plan_source (pol_services p)) (plan_endpoints plan)"
    and "plan_policy_epoch plan = pol_policy_epoch p" and "plan_sequence plan = pol_sequence p"
    and "plan_expires_at plan = pol_expires_at p"
proof -
  from assms obtain now payload where "policy_valid C p now"
      "encode_policy_payload M p = Inr payload" "build_verified_plan p = Inr plan"
    by (auto simp: state_ok_def bundle_authentic_def policy_authentic_def)
  then show "list_all2 (\<lambda>(s, e). plan_entry s e) (plan_source (pol_services p)) (plan_endpoints plan)"
    "plan_policy_epoch plan = pol_policy_epoch p" "plan_sequence plan = pol_sequence p"
    "plan_expires_at plan = pol_expires_at p"
    using build_verified_plan_ready [OF policy_valid_plan_ready, of C p now]
    by (auto simp: encode_policy_payload_iff)
qed

lemma list_all2_mem2: "list_all2 P xs ys \<Longrightarrow> y \<in> set ys \<Longrightarrow> \<exists>x \<in> set xs. P x y"
  by (induction rule: list_all2_induct) auto

lemma plan_matches_pins:
  assumes ok: "state_ok M C root s" and pe: "pe \<in> set (plan_endpoints (vb_plan (st_accepted s)))"
  shows "server_pins_matches (pe_server_pins pe) fp \<longleftrightarrow>
    fp \<in> pin_fingerprint ` set (pins_of (vb_policy (st_accepted s)) (pe_service_id pe))"
proof -
  from list_all2_mem2 [OF plan_in_force(1) [OF ok] pe] obtain t e where
    "(t, e) \<in> set (plan_source (pol_services (vb_policy (st_accepted s))))" and entry: "plan_entry t e pe"
    by auto
  then have t: "t \<in> set (pol_services (vb_policy (st_accepted s)))"
    by (auto simp: plan_source_def)
  from ok obtain now where "policy_valid C (vb_policy (st_accepted s)) now"
    by (auto elim: state_ok_valid)
  from find_sorted_service [OF this t] entry show ?thesis
    by (simp add: plan_entry_def pins_of_def)
qed

lemma list_all2_mem1: "list_all2 P xs ys \<Longrightarrow> x \<in> set xs \<Longrightarrow> \<exists>y \<in> set ys. P x y"
  by (induction rule: list_all2_induct) auto

lemma plan_serves:
  assumes ok: "state_ok M C root s" and pin: "pin \<in> set (pins_of (vb_policy (st_accepted s)) sid)"
  shows "\<exists>pe \<in> set (plan_endpoints (vb_plan (st_accepted s))). pe_service_id pe = sid"
proof -
  let ?p = "vb_policy (st_accepted s)"
  from pin obtain t where "List.find (\<lambda>s. svc_service_id s = sid) (pol_services ?p) = Some t"
    by (cases "List.find (\<lambda>s. svc_service_id s = sid) (pol_services ?p)") (auto simp: pins_of_def)
  from find_Some_mem [OF this] have t: "t \<in> set (pol_services ?p)" "svc_service_id t = sid"
    by auto
  from ok obtain now where "policy_valid C ?p now"
    by (auto elim: state_ok_valid)
  with t(1) obtain e where "e \<in> set (svc_endpoints t)"
    by (cases "svc_endpoints t") (auto simp: policy_valid_def service_ok_def)
  with t(1) have "(t, e) \<in> set (plan_source (pol_services ?p))"
    by (auto simp: plan_source_def)
  from list_all2_mem1 [OF plan_in_force(1) [OF ok] this] t(2) show ?thesis
    by (auto simp: plan_entry_def)
qed

subsection \<open>Which updates are accepted\<close>

text \<open>The rules of an update, over the declarative rotation predicates.\<close>

definition keyset_moves :: "keyset \<Rightarrow> bytes \<Rightarrow> keyset \<Rightarrow> bool" where
  "keyset_moves old old_hash new \<longleftrightarrow>
     unat (ks_keyset_epoch new) = Suc (unat (ks_keyset_epoch old))
     \<and> ks_previous_payload_hash new = Some old_hash
     \<and> ks_issued_at old \<le> ks_issued_at new \<and> keys_rotate old new"

definition policy_moves :: "endpoint_policy \<Rightarrow> bytes \<Rightarrow> endpoint_policy \<Rightarrow> bool" where
  "policy_moves old old_hash new \<longleftrightarrow>
     coordinate_next old new
     \<and> pol_previous_payload_hash new = Some old_hash
     \<and> pol_issued_at old \<le> pol_issued_at new
     \<and> map svc_service_id (pol_services new) = map svc_service_id (pol_services old)
     \<and> list_all2 (\<lambda>s s'. pins_rotate (svc_pins s) (svc_pins s') (pol_issued_at new) (pol_expires_at new))
         (pol_services old) (pol_services new)"

lemma keyset_moves_iff:
  assumes "keyset_valid old earlier" "keyset_typed old" "keyset_valid new now" "keyset_typed new"
  shows "keyset_advances old h new \<longleftrightarrow> keyset_moves old h new"
  by (simp add: keyset_advances_def keyset_moves_def validate_key_rotation_iff [OF assms])

lemma policy_moves_iff:
  assumes "policy_valid C new now"
  shows "policy_advances old h new \<longleftrightarrow> policy_moves old h new"
proof -
  have "distinct (map pin_fingerprint (svc_pins s))" if "s \<in> set (pol_services new)" for s
    using that assms sorted_wrt_less_distinct by (auto simp: policy_valid_def service_ok_def)
  then have "list_all2 (\<lambda>s s'. validate_pin_rotation s s' i e = Inr ()) (pol_services old) (pol_services new)
    \<longleftrightarrow> list_all2 (\<lambda>s s'. pins_rotate (svc_pins s) (svc_pins s') i e) (pol_services old) (pol_services new)"
    for i e
    by (intro list.rel_cong refl) (simp add: validate_pin_rotation_iff)
  then show ?thesis
    by (simp add: policy_advances_def policy_moves_def)
qed

lemma reachable_clock: "policy_reachable M C root s \<Longrightarrow> in_i64 (st_max_wall_clock_seen s)"
  by (induction rule: policy_reachable.induct; erule policy_step_cases)
    (auto simp: apply_verified_update_None_iff apply_verified_update_Some_iff next_state_def
      i64_defs split: if_splits)

context cbor_codec
begin

lemma update_exact:
  assumes reach: "policy_reachable M C root s" and now: "in_i64 now"
    and ver: "verify_bundle M C input root now = Inr vb"
  shows "apply_verified_update (Some s) vb now = Inr t \<longleftrightarrow>
    st_max_wall_clock_seen s \<le> now + MAX_CLOCK_SKEW_SECS
    \<and> st_max_issued_at s \<le> max (ks_issued_at (vb_keyset vb)) (pol_issued_at (vb_policy vb))
    \<and> (let a = st_accepted s;
           same_keyset = (vb_keyset vb = vb_keyset a \<and> vb_keyset_hash vb = vb_keyset_hash a) in
       if vb_policy vb = vb_policy a then
         vb_policy_hash vb = vb_policy_hash a \<and> same_keyset \<and> t = Idempotent (next_state s vb now)
       else policy_moves (vb_policy a) (vb_policy_hash a) (vb_policy vb)
         \<and> (same_keyset \<or> keyset_moves (vb_keyset a) (vb_keyset_hash a) (vb_keyset vb))
         \<and> t = Applied (next_state s vb now))"
proof -
  let ?a = "st_accepted s"
  have ok: "state_ok M C root s"
    using reach by (rule policy_reachable_ok)
  then have root: "vb_root_id ?a = trusted_root_id C root"
    by (auto simp: state_ok_def bundle_authentic_def keyset_authentic_def)
  from ok obtain earlier where
    old: "keyset_valid (vb_keyset ?a) earlier" "keyset_typed (vb_keyset ?a)"
    by (rule state_ok_valid)
  from ver now have auth: "bundle_authentic M C input root now vb"
    by (simp add: verify_bundle_iff)
  then have new: "keyset_valid (vb_keyset vb) now" "keyset_typed (vb_keyset vb)"
    and pol: "policy_valid C (vb_policy vb) now" "policy_typed (vb_policy vb)"
    and root': "vb_root_id vb = trusted_root_id C root"
    by (auto simp: bundle_authentic_def keyset_authentic_def policy_authentic_def)
  have live: "ensure_live_at_apply vb now = Inr ()"
    using verified_live [OF auth] new(2) pol(2) now by (simp add: ensure_live_at_apply_iff)
  have clock: "st_max_wall_clock_seen s \<le> i64_saturating_add now MAX_CLOCK_SKEW_SECS \<longleftrightarrow>
      st_max_wall_clock_seen s \<le> now + MAX_CLOCK_SKEW_SECS"
    using reachable_clock [OF reach] now
    by (auto simp: i64_saturating_add_def i64_defs limit_defs)
  have irrefl: "\<not> policy_moves (vb_policy ?a) h (vb_policy ?a)" for h
    using coordinate_next_less coordinate_less_irrefl by (auto simp: policy_moves_def)
  show ?thesis
    unfolding apply_verified_update_Some_iff clock check_keyset_coordinate_def
      check_keyset_coordinate_parts_iff check_policy_coordinate_iff
      keyset_moves_iff [OF old new] policy_moves_iff [OF pol(1)]
    using live root root' irrefl by (auto simp: Let_def ex_bool_eq)
qed

end

end
