(* ===== verification/Policy_Sample.thy ===== *)
theory Policy_Sample
  imports Policy_Update
begin

text \<open>
  A small issuer history on the RFC 8949 codec, used to instantiate the theorems about signed
  policies: a root, an online key, an enrollment bundle for one service with one server pin, and
  a successor that retires that pin and adds a new one. The three cryptographic functions are
  simple stand-ins: a digest that repeats the first 16 bytes, padded to 32, and a signature that repeats the key.
\<close>

definition sample_crypto :: crypto where
  "sample_crypto = \<lparr> sha256 = (\<lambda>b. take 32 (take 16 b @ take 16 b @ replicate 32 0)),
     ed25519_verify = (\<lambda>pk _ sig. sig = pk @ pk),
     x25519 = (\<lambda>_ pk. pk) \<rparr>"

definition sample_root :: trusted_root where
  "sample_root = \<lparr> root_kid = replicate 16 1, root_ed25519_public_key = replicate 32 2 \<rparr>"

definition sample_key :: online_key where
  "sample_key = \<lparr> key_kid = replicate 16 3, key_ed25519_public_key = replicate 32 4,
     key_not_before = 1000, key_expires_at = 1000000, key_status = KeyActive,
     key_status_since = 1000 \<rparr>"

definition sample_keyset :: keyset where
  "sample_keyset = \<lparr> ks_keyset_epoch = 0, ks_issued_at = 1000, ks_not_before = 1000,
     ks_expires_at = 1000000, ks_previous_payload_hash = None, ks_keys = [sample_key] \<rparr>"

definition sample_pin :: server_pin where
  "sample_pin = \<lparr> pin_fingerprint = replicate 32 5, pin_not_before = 1000,
     pin_expires_at = 1000000, pin_status = PinActive, pin_status_since = 1000 \<rparr>"

definition sample_endpoint :: reality_endpoint where
  "sample_endpoint = \<lparr> ep_endpoint_id = replicate 16 6, ep_transport = RealityTcp,
     ep_ipv4 = [192, 0, 2, 1], ep_port = 443, ep_locator_name = ''a.example'',
     ep_sni = ''b.example'', ep_reality_x25519_public_key = replicate 32 7,
     ep_reality_short_id = replicate 8 8 \<rparr>"

definition sample_keyset_hash :: bytes where
  "sample_keyset_hash = take 16 KEYSET_HASH_DOMAIN @ take 16 KEYSET_HASH_DOMAIN"

definition sample_policy_hash :: bytes where
  "sample_policy_hash = take 16 POLICY_HASH_DOMAIN @ take 16 POLICY_HASH_DOMAIN"

definition sample_genesis :: endpoint_policy where
  "sample_genesis = \<lparr> pol_keyset_epoch = 0, pol_keyset_payload_hash = sample_keyset_hash,
     pol_policy_epoch = 0, pol_sequence = 0, pol_issued_at = 1000, pol_not_before = 1000,
     pol_expires_at = 200000, pol_previous_payload_hash = None,
     pol_services = [\<lparr> svc_service_id = replicate 16 9, svc_pins = [sample_pin],
       svc_endpoints = [sample_endpoint] \<rparr>],
     pol_rules = [\<lparr> rule_action = ProtectedOnly, rule_service_ids = [replicate 16 9] \<rparr>],
     pol_experiment_evidence = [] \<rparr>"

text \<open>A short-lived successor that changes nothing but its lifetime.\<close>

definition sample_short :: endpoint_policy where
  "sample_short = sample_genesis \<lparr> pol_sequence := 1, pol_issued_at := 2000,
     pol_not_before := 1500, pol_expires_at := 4950,
     pol_previous_payload_hash := Some sample_policy_hash \<rparr>"

text \<open>The successor retires the pin and adds another one.\<close>

definition sample_successor :: endpoint_policy where
  "sample_successor = \<lparr> pol_keyset_epoch = 0, pol_keyset_payload_hash = sample_keyset_hash,
     pol_policy_epoch = 0, pol_sequence = 1, pol_issued_at = 2000, pol_not_before = 1500,
     pol_expires_at = 200000, pol_previous_payload_hash = Some sample_policy_hash,
     pol_services = [\<lparr> svc_service_id = replicate 16 9,
       svc_pins = [sample_pin \<lparr> pin_status := PinRetiring, pin_status_since := 2000 \<rparr>,
         \<lparr> pin_fingerprint = replicate 32 6, pin_not_before = 1500, pin_expires_at = 1000000,
           pin_status = PinActive, pin_status_since = 2000 \<rparr>],
       svc_endpoints = [sample_endpoint] \<rparr>],
     pol_rules = [\<lparr> rule_action = ProtectedOnly, rule_service_ids = [replicate 16 9] \<rparr>],
     pol_experiment_evidence = [] \<rparr>"

definition sample_verified :: "endpoint_policy \<Rightarrow> verified_bundle" where
  "sample_verified p = \<lparr> vb_root_id = trusted_root_id sample_crypto sample_root,
     vb_keyset = sample_keyset, vb_policy = p, vb_keyset_hash = sample_keyset_hash,
     vb_policy_hash = sample_policy_hash, vb_signer_kid = key_kid sample_key,
     vb_plan = (case build_verified_plan p of Inr plan \<Rightarrow> plan) \<rparr>"

lemmas sample_defs =
  sample_root_def sample_key_def sample_keyset_def sample_pin_def sample_endpoint_def
  sample_genesis_def sample_successor_def sample_short_def

section \<open>Sizes and digests\<close>

lemma cbor_head_length:
  "length (cbor_head m n) = (if n < 24 then 1 else if n < 256 then 2 else if n < 65536 then 3
     else if n < 4294967296 then 5 else 9)"
  by (simp add: cbor_head_def)

lemma enc_int_length:
  "length (enc_int x) = (let n = if 0 \<le> x then nat x else nat (- 1 - x) in
     if n < 24 then 1 else if n < 256 then 2 else if n < 65536 then 3
     else if n < 4294967296 then 5 else 9)"
  by (simp add: enc_int_def cbor_head_length Let_def)

lemmas sample_sizes =
  rfc8949_def cbor_head_length enc_int_length Let_def encode_online_key_def encode_pin_def
  encode_endpoint_def encode_service_def encode_rule_def enc_hash_def

lemma domain_lengths [simp]:
  "length KEYSET_HASH_DOMAIN = 21" "length POLICY_HASH_DOMAIN = 21"
  by (simp_all add: KEYSET_HASH_DOMAIN_def POLICY_HASH_DOMAIN_def ascii_bytes_def)

lemma sample_hash_lengths [simp]:
  "length sample_keyset_hash = 32" "length sample_policy_hash = 32"
  by (simp_all add: sample_keyset_hash_def sample_policy_hash_def)

lemma sample_hashes [simp]:
  "keyset_payload_hash sample_crypto b = sample_keyset_hash"
  "policy_payload_hash sample_crypto b = sample_policy_hash"
  by (simp_all add: keyset_payload_hash_def policy_payload_hash_def domain_hash_def
        sample_crypto_def sample_keyset_hash_def sample_policy_hash_def)

lemma keyset_encodes:
  "encode_keyset_payload rfc8949 sample_keyset = Inr (encode_keyset_fields rfc8949 sample_keyset)"
  "length (encode_keyset_fields rfc8949 sample_keyset) \<le> 1000"
  by (simp_all add: encode_keyset_payload_iff encode_keyset_fields_def sample_defs sample_sizes
        limit_defs)

lemma policies_encode:
  "encode_policy_payload rfc8949 sample_genesis = Inr (encode_policy_fields rfc8949 sample_genesis)"
  "encode_policy_payload rfc8949 sample_successor = Inr (encode_policy_fields rfc8949 sample_successor)"
  "length (encode_policy_fields rfc8949 sample_genesis) \<le> 1000"
  "length (encode_policy_fields rfc8949 sample_successor) \<le> 1000"
  "encode_policy_payload rfc8949 sample_short = Inr (encode_policy_fields rfc8949 sample_short)"
  "length (encode_policy_fields rfc8949 sample_short) \<le> 1000"
  by (simp_all add: encode_policy_payload_iff encode_policy_fields_def policy_sized_def
        service_sized_def endpoint_sized_def total_endpoints_def sample_defs sample_sizes limit_defs)

text \<open>Any payload of at most 1000 bytes fits an envelope and the two envelopes fit a bundle.\<close>

lemma header_length:
  "length kid = 16 \<Longrightarrow>
     length (encode_protected_header rfc8949 \<lparr> hdr_content_type = ct, hdr_kid = kid \<rparr>) \<le> 200"
  by (cases ct)
    (simp_all add: encode_protected_header_def rfc8949_def cbor_head_length enc_int_length
      cose_consts KEYSET_CONTENT_TYPE_def POLICY_CONTENT_TYPE_def)

lemma envelope_exists:
  assumes "length kid = 16" and "length payload \<le> 1000" and "length pk = 32"
  shows "\<exists>out. signed_envelope rfc8949 sample_crypto ct kid pk payload out \<and> length out \<le> 1500"
proof -
  let ?h = "encode_protected_header rfc8949 \<lparr> hdr_content_type = ct, hdr_kid = kid \<rparr>"
  have small: "length ?h \<le> 200" "length payload \<le> 1000"
    using header_length [OF assms(1)] assms(2) by simp_all
  define out where "out = COSE_SIGN1_TAG # enc_array rfc8949 4 @ enc_bytes rfc8949 ?h
    @ enc_map rfc8949 0 @ enc_bytes rfc8949 payload @ enc_bytes rfc8949 (pk @ pk)"
  have len: "length out \<le> 1500"
    using small assms(3) by (simp add: out_def rfc8949_def cbor_head_length)
  have "encode_sign1 rfc8949 ?h payload (pk @ pk) = Inr out"
    using small len assms(1)
    by (auto simp: encode_sign1_iff out_def [symmetric] limit_defs
          rfc.decode_protected_header_encoded)
  moreover have "\<exists>signed. signature_structure rfc8949 ?h payload = Inr signed"
    using small by (simp add: signature_structure_iff limit_defs)
  ultimately show ?thesis
    using assms(1,3) len
    by (auto simp: signed_envelope_def sample_crypto_def SIGNATURE_LEN_def intro!: exI [of _ out])
qed

lemma sample_keyset_ok:
  "keyset_typed sample_keyset"
  "keyset_valid sample_keyset 1500" "keyset_valid sample_keyset 3000"
  "keyset_valid sample_keyset 4900" "keyset_valid sample_keyset 5000"
  by (simp_all add: sample_defs typed_defs keyset_valid_def window_ok_def key_ok_def key_usable_def
        limit_defs i64_defs MAX_CLOCK_SKEW_SECS_def KEYSET_MAX_TTL_SECS_def)

lemma sample_policies_ok:
  "policy_typed sample_genesis" "policy_typed sample_successor"
  "policy_valid sample_crypto sample_genesis 1500" "policy_valid sample_crypto sample_genesis 3000"
  "policy_valid sample_crypto sample_successor 3000"
  "policy_typed sample_short" "policy_valid sample_crypto sample_short 4900"
  "policy_valid sample_crypto sample_genesis 5000"
proof -
  have dns: "dns_name ''a.example''" "dns_name ''b.example''"
    by (simp_all flip: validate_canonical_dns_name_iff [of _ "[]"]) code_simp+
  have ascii: "utf8_valid ''a.example''" "utf8_valid ''b.example''"
    by (rule utf8_valid_ascii, simp add: char_code_def)+
  have order: "replicate 32 (5 :: u8) < replicate 32 6"
    by code_simp
  note defs = sample_defs typed_defs policy_valid_def window_ok_def service_ok_def pin_ok_def
    endpoint_ok_def all_endpoints_def endpoint_tuple_of_def reality_public_key_is_contributory_def
    special_ipv4_def sample_crypto_def limit_defs i64_defs
  show "policy_typed sample_genesis" "policy_typed sample_successor" "policy_typed sample_short"
    by (simp_all add: defs ascii)
  show "policy_valid sample_crypto sample_genesis 1500"
    "policy_valid sample_crypto sample_genesis 3000"
    "policy_valid sample_crypto sample_successor 3000"
    "policy_valid sample_crypto sample_short 4900"
    "policy_valid sample_crypto sample_genesis 5000"
    by (simp_all add: defs dns order)
qed

section \<open>The history\<close>

lemma sample_authentic:
  assumes p: "policy_typed p" "policy_valid sample_crypto p now" "keyset_valid sample_keyset now"
    and enc: "encode_policy_payload rfc8949 p = Inr payload" "length payload \<le> 1000"
    and refs: "pol_keyset_epoch p = 0" "pol_keyset_payload_hash p = sample_keyset_hash"
    and window: "1000 \<le> pol_issued_at p" "1000 \<le> pol_not_before p" "pol_expires_at p \<le> 1000000"
    and now: "1000 \<le> now" "now < 1000000"
  shows "\<exists>input. bundle_authentic rfc8949 sample_crypto input sample_root now (sample_verified p)"
proof -
  from envelope_exists [of "root_kid sample_root" "encode_keyset_fields rfc8949 sample_keyset"
      "root_ed25519_public_key sample_root" CtKeyset]
  obtain ke where ke: "signed_envelope rfc8949 sample_crypto CtKeyset (root_kid sample_root)
      (root_ed25519_public_key sample_root) (encode_keyset_fields rfc8949 sample_keyset) ke"
      "length ke \<le> 1500"
    using keyset_encodes by (auto simp: sample_root_def)
  from envelope_exists [of "key_kid sample_key" payload "key_ed25519_public_key sample_key"
      CtEndpointPolicy] enc(2)
  obtain pe where pe: "signed_envelope rfc8949 sample_crypto CtEndpointPolicy (key_kid sample_key)
      (key_ed25519_public_key sample_key) payload pe" "length pe \<le> 1500"
    by (auto simp: sample_key_def)
  have "encode_bundle rfc8949 \<lparr> keyset_sign1 = ke, policy_sign1 = pe \<rparr>
    = Inr (encode_bundle_fields rfc8949 \<lparr> keyset_sign1 = ke, policy_sign1 = pe \<rparr>)"
    using ke(2) pe(2)
    by (simp add: encode_bundle_iff encode_bundle_fields_def rfc8949_def cbor_head_length limit_defs)
  moreover have "keyset_authentic rfc8949 sample_crypto ke sample_root now
      \<lparr> vk_root_id = trusted_root_id sample_crypto sample_root, vk_keyset = sample_keyset,
        vk_payload_hash = sample_keyset_hash \<rparr>"
    using ke(1) keyset_encodes(1) sample_keyset_ok(1) p(3)
    by (auto simp: keyset_authentic_def sample_root_def)
  moreover have "policy_authentic rfc8949 sample_crypto pe now sample_keyset sample_keyset_hash
      (sample_verified p)"
    using pe(1) p enc refs window now
    by (auto simp: policy_authentic_def sample_verified_def sample_keyset_def sample_key_def
          intro!: exI [of _ payload])
  moreover have "\<exists>plan. build_verified_plan p = Inr plan"
    using build_verified_plan_ready [OF policy_valid_plan_ready [OF p(2)]] enc(1)
    by (auto simp: encode_policy_payload_iff)
  ultimately show ?thesis
    by (auto simp: bundle_authentic_def sample_verified_def intro!: exI)
qed

definition sample_state :: "endpoint_policy \<Rightarrow> int \<Rightarrow> accepted_state" where
  "sample_state p now = \<lparr> st_accepted = sample_verified p, st_max_issued_at = pol_issued_at p,
     st_max_wall_clock_seen = now \<rparr>"

text \<open>Enrollment at time 1500 and the update at time 3000.\<close>

lemma sample_now: "in_i64 1500" "in_i64 3000"
  by (simp_all add: i64_defs)

lemma sample_bundles:
  "\<exists>input. verify_bundle rfc8949 sample_crypto input sample_root 1500
     = Inr (sample_verified sample_genesis)"
  "\<exists>input. verify_bundle rfc8949 sample_crypto input sample_root 3000
     = Inr (sample_verified sample_successor)"
  unfolding rfc.verify_bundle_iff [OF sample_now(1)] rfc.verify_bundle_iff [OF sample_now(2)]
  by (rule sample_authentic [OF sample_policies_ok(1,3) sample_keyset_ok(2) policies_encode(1,3)],
      simp_all add: sample_genesis_def)
    (rule sample_authentic [OF sample_policies_ok(2,5) sample_keyset_ok(3) policies_encode(2,4)],
      simp_all add: sample_successor_def)

lemma sample_live:
  "ensure_live_at_apply (sample_verified sample_genesis) 1500 = Inr ()"
  "ensure_live_at_apply (sample_verified sample_successor) 3000 = Inr ()"
  using sample_bundles sample_keyset_ok(1) sample_policies_ok(1,2) sample_now
  by (auto simp: ensure_live_at_apply_iff rfc.verify_bundle_iff sample_verified_def
        intro: verified_live)

lemma sample_enroll:
  "apply_verified_update None (sample_verified sample_genesis) 1500
     = Inr (Applied (sample_state sample_genesis 1500))"
  using sample_live(1)
  by (simp add: apply_verified_update_None_iff)
    (simp add: sample_verified_def sample_state_def sample_defs)

lemma sample_update:
  "apply_verified_update (Some (sample_state sample_genesis 1500)) (sample_verified sample_successor)
     3000 = Inr (Applied (sample_state sample_successor 3000))"
proof -
  have "policy_advances sample_genesis sample_policy_hash sample_successor"
    by (simp add: policy_advances_def coordinate_next_def validate_pin_rotation_iff pins_rotate_def
          pin_rotates_def sample_defs limit_defs i64_defs)
  then have "check_policy_coordinate (sample_verified sample_genesis)
      (sample_verified sample_successor) = Inr True"
    by (simp add: check_policy_coordinate_iff sample_verified_def)
  moreover have "check_keyset_coordinate (sample_verified sample_genesis)
      (sample_verified sample_successor) = Inr False"
    by (simp add: check_keyset_coordinate_def check_keyset_coordinate_parts_iff sample_verified_def)
  ultimately show ?thesis
    using sample_live(2)
    by (simp add: apply_verified_update_Some_iff sample_state_def next_state_def)
      (auto simp: sample_verified_def sample_defs i64_saturating_add_def limit_defs i64_defs)
qed

lemma sample_steps:
  "policy_step rfc8949 sample_crypto sample_root None (sample_state sample_genesis 1500)"
  "policy_step rfc8949 sample_crypto sample_root (Some (sample_state sample_genesis 1500))
     (sample_state sample_successor 3000)"
  using sample_bundles policy_step [OF sample_now(1) _ sample_enroll]
    policy_step [OF sample_now(2) _ sample_update] by auto

lemma sample_reachable:
  "policy_reachable rfc8949 sample_crypto sample_root (sample_state sample_genesis 1500)"
  "policy_reachable rfc8949 sample_crypto sample_root (sample_state sample_successor 3000)"
  using sample_steps by (blast intro: reachable_enroll reachable_update)+

lemma sample_history:
  "policy_history rfc8949 sample_crypto sample_root (sample_state sample_genesis 1500)
     (sample_state sample_successor 3000)"
  using sample_steps(2) by (blast intro: history_refl history_step)

end
