(* ===== verification/Policy_Properties.thy ===== *)
theory Policy_Properties
  imports Policy_Sample
begin

text \<open>
  The properties of signed policies, stated over the definitions of the policy theories. Those
  that depend on the CBOR library take its laws as the hypothesis \<open>cbor_codec M\<close>; their
  instances are on the RFC 8949 codec and the sample history.
\<close>

section \<open>Histories\<close>

text \<open>C1. A client that has accepted a policy in which a service's server pin is active keeps
trusting that pin: after any number of further accepted updates whose policy was issued less
than the 24-hour overlap later, every endpoint of that service in the plan in force still
matches the pin, and the service still has an endpoint.\<close>

theorem pin_overlap:
  assumes "cbor_codec M" and "policy_reachable M C root s" and "policy_history M C root s s'"
    and "pin \<in> set (pins_of (vb_policy (st_accepted s)) sid)" and "pin_status pin = PinActive"
    and "pol_issued_at (vb_policy (st_accepted s'))
      < pol_issued_at (vb_policy (st_accepted s)) + MIN_ROTATION_OVERLAP_SECS"
  shows "(\<exists>pe \<in> set (plan_endpoints (vb_plan (st_accepted s'))). pe_service_id pe = sid)
    \<and> (\<forall>pe \<in> set (plan_endpoints (vb_plan (st_accepted s'))).
        pe_service_id pe = sid \<longrightarrow> server_pins_matches (pe_server_pins pe) (pin_fingerprint pin))"
proof -
  have ok: "state_ok M C root s" "state_ok M C root s'"
    using cbor_codec.policy_reachable_ok [OF assms(1,2)]
      cbor_codec.policy_history_ok [OF assms(1,3)] by auto
  from cbor_codec.history_pin_overlap [OF assms(1,3) ok(1) assms(4,5)] assms(6)
  have fp: "pin_fingerprint pin \<in> pin_fingerprint ` set (pins_of (vb_policy (st_accepted s')) sid)"
    by (elim conjE disjE bexE) (auto intro: rev_image_eqI)
  then obtain pin' where "pin' \<in> set (pins_of (vb_policy (st_accepted s')) sid)"
    by blast
  then have "\<exists>pe \<in> set (plan_endpoints (vb_plan (st_accepted s'))). pe_service_id pe = sid"
    by (rule plan_serves [OF ok(2)])
  with fp show ?thesis
    by (auto simp: plan_matches_pins [OF ok(2)])
qed

theorem pin_overlap_witness:
  "\<exists>pe. pe \<in> set (plan_endpoints (vb_plan (st_accepted (sample_state sample_successor 3000))))
     \<and> pe_service_id pe = replicate 16 9
     \<and> server_pins_matches (pe_server_pins pe) (pin_fingerprint sample_pin)"
proof -
  have "sample_pin \<in> set (pins_of (vb_policy (st_accepted (sample_state sample_genesis 1500)))
      (replicate 16 9))" "pin_status sample_pin = PinActive"
    "pol_issued_at (vb_policy (st_accepted (sample_state sample_successor 3000)))
      < pol_issued_at (vb_policy (st_accepted (sample_state sample_genesis 1500)))
        + MIN_ROTATION_OVERLAP_SECS"
    by (simp_all add: sample_state_def sample_verified_def sample_defs pins_of_def limit_defs)
  from pin_overlap [OF rfc.cbor_codec_axioms sample_reachable(1) sample_history this] show ?thesis
    by blast
qed

text \<open>C2. An online signing key that is active in an accepted keyset stays in every later
accepted keyset, active or retiring, with the same kid, as long as that keyset was issued less
than the 24-hour overlap later: it is neither removed nor revoked before.\<close>

theorem key_overlap:
  assumes "cbor_codec M" and "policy_reachable M C root s" and "policy_history M C root s s'"
    and "k \<in> set (ks_keys (vb_keyset (st_accepted s)))" and "key_status k = KeyActive"
    and "ks_issued_at (vb_keyset (st_accepted s'))
      < ks_issued_at (vb_keyset (st_accepted s)) + MIN_ROTATION_OVERLAP_SECS"
  shows "\<exists>k' \<in> set (ks_keys (vb_keyset (st_accepted s'))).
    key_kid k' = key_kid k \<and> key_live_status (key_status k')"
  using cbor_codec.history_key_overlap [OF assms(1,3)
      cbor_codec.policy_reachable_ok [OF assms(1,2)] assms(4,5)] assms(6)
  by (auto simp: key_live_status_def)

theorem key_overlap_witness:
  "\<exists>k' \<in> set (ks_keys (vb_keyset (st_accepted (sample_state sample_successor 3000)))).
    key_kid k' = key_kid sample_key \<and> key_live_status (key_status k')"
  by (rule key_overlap [OF rfc.cbor_codec_axioms sample_reachable(1) sample_history])
    (simp_all add: sample_state_def sample_verified_def sample_defs limit_defs)

text \<open>C3. Nothing a client has accepted moves backwards: along any history the root identity and
the set of enrolled services never change, and the keyset epoch, the issue-time floor and the
clock floor never decrease.\<close>

theorem history_keeps_floors:
  assumes "policy_history M C root s s'"
  shows "vb_root_id (st_accepted s') = vb_root_id (st_accepted s)
    \<and> map svc_service_id (pol_services (vb_policy (st_accepted s')))
        = map svc_service_id (pol_services (vb_policy (st_accepted s)))
    \<and> ks_keyset_epoch (vb_keyset (st_accepted s)) \<le> ks_keyset_epoch (vb_keyset (st_accepted s'))
    \<and> st_max_issued_at s \<le> st_max_issued_at s'
    \<and> st_max_wall_clock_seen s \<le> st_max_wall_clock_seen s'"
  using history_floors [OF assms] by blast

theorem history_keeps_floors_witness:
  "vb_root_id (st_accepted (sample_state sample_successor 3000))
     = vb_root_id (st_accepted (sample_state sample_genesis 1500))
   \<and> st_max_wall_clock_seen (sample_state sample_genesis 1500)
     \<le> st_max_wall_clock_seen (sample_state sample_successor 3000)"
  using history_keeps_floors [OF sample_history] by blast

text \<open>C4. No rollback and no fork: whatever a client accepts after a state of its history has a
policy coordinate strictly above that state's coordinate, or is exactly that state's policy and
keyset; in particular no second policy is ever accepted at a coordinate the history went through.\<close>

theorem no_rollback_no_fork:
  assumes "policy_history M C root s s'" and "apply_verified_update (Some s') vb now = Inr t"
  shows "coordinate_less (vb_policy (st_accepted s)) (vb_policy vb)
    \<or> vb_policy vb = vb_policy (st_accepted s) \<and> vb_keyset vb = vb_keyset (st_accepted s)"
proof -
  have "coordinate_less (vb_policy (st_accepted s')) (vb_policy vb)
      \<or> vb_policy vb = vb_policy (st_accepted s') \<and> vb_keyset vb = vb_keyset (st_accepted s')"
    using updates_coordinates [OF apply_update_updates [OF assms(2)]]
      policy_step_accepts(1) [OF assms(2)] by auto
  with history_coordinates [OF assms(1)] show ?thesis
    by (elim disjE conjE) (auto dest: coordinate_less_trans)
qed

theorem no_rollback_no_fork_witness:
  "coordinate_less (vb_policy (st_accepted (sample_state sample_genesis 1500)))
      (vb_policy (sample_verified sample_successor))
   \<or> vb_policy (sample_verified sample_successor) = vb_policy (st_accepted (sample_state sample_genesis 1500))
     \<and> vb_keyset (sample_verified sample_successor) = vb_keyset (st_accepted (sample_state sample_genesis 1500))"
  by (rule no_rollback_no_fork [OF history_refl sample_update])

text \<open>C5. Which updates a client accepts, exactly: for a freshly verified bundle, the clock and
issue-time floors must hold; the policy in force again (with its keyset) is accepted as
idempotent; anything else must be the next coordinate, chained by hash, keep the services,
rotate pins by the overlap rules, and keep or properly succeed the keyset. The new state then
records the bundle and the raised floors.\<close>

theorem accepted_updates_exact:
  assumes "cbor_codec M" and "policy_reachable M C root s" and "in_i64 now"
    and "verify_bundle M C input root now = Inr vb"
  shows "apply_verified_update (Some s) vb now = Inr t \<longleftrightarrow>
    st_max_wall_clock_seen s \<le> now + MAX_CLOCK_SKEW_SECS
    \<and> st_max_issued_at s \<le> max (ks_issued_at (vb_keyset vb)) (pol_issued_at (vb_policy vb))
    \<and> (let a = st_accepted s;
           same_keyset = (vb_keyset vb = vb_keyset a \<and> vb_keyset_hash vb = vb_keyset_hash a) in
       if vb_policy vb = vb_policy a then
         vb_policy_hash vb = vb_policy_hash a \<and> same_keyset \<and> t = Idempotent (next_state s vb now)
       else policy_moves (vb_policy a) (vb_policy_hash a) (vb_policy vb)
         \<and> (same_keyset \<or> keyset_moves (vb_keyset a) (vb_keyset_hash a) (vb_keyset vb))
         \<and> t = Applied (next_state s vb now))"
  by (rule cbor_codec.update_exact [OF assms])

theorem accepted_updates_exact_witness:
  "policy_moves sample_genesis sample_policy_hash sample_successor
   \<and> sample_state sample_successor 3000
       = next_state (sample_state sample_genesis 1500) (sample_verified sample_successor) 3000"
proof -
  from sample_bundles(2) obtain input where
    "verify_bundle rfc8949 sample_crypto input sample_root 3000
     = Inr (sample_verified sample_successor)" ..
  note accepted_updates_exact [OF rfc.cbor_codec_axioms sample_reachable(1) sample_now(2) this,
      of "Applied (sample_state sample_successor 3000)"]
  then show ?thesis
    using sample_update by (auto simp: Let_def sample_state_def sample_verified_def split: if_splits)
qed

section \<open>Bundles\<close>

text \<open>C6. \<open>verify_bundle\<close> accepts exactly the authentic bundles: the canonical encoding of a
keyset envelope signed by the root over the canonical encoding of a valid keyset, and a policy
envelope signed by an active key of that keyset, live now, over the canonical encoding of a
valid policy that names the keyset's epoch and hash and lies within the keyset's and the key's
lifetime.\<close>

theorem verify_bundle_exact:
  assumes "cbor_codec M" and "in_i64 now"
  shows "verify_bundle M C input root now = Inr vb \<longleftrightarrow> bundle_authentic M C input root now vb"
  by (rule cbor_codec.verify_bundle_iff [OF assms])

theorem verify_bundle_exact_witness:
  "\<exists>input. bundle_authentic rfc8949 sample_crypto input sample_root 1500
     (sample_verified sample_genesis)"
  using sample_bundles(1) verify_bundle_exact [OF rfc.cbor_codec_axioms sample_now(1)] by blast

text \<open>C7. A policy that decodes and passes validation always has a dialing plan: building it
neither fails nor panics, and the plan lists the policy's endpoints service by service, in
order, each with the address, names, REALITY key, short id and exactly the server pins of its
service, under the policy's coordinate and expiry. The constant-time test of such a pin set
answers membership: it matches a server key fingerprint exactly when that is one of the pins.\<close>

theorem validated_policy_has_plan:
  assumes "cbor_codec M" and "in_i64 now"
    and "decode_policy_payload M b = Inr p" and "validate_policy C p now = Inr ()"
  shows "(\<exists>plan. build_verified_plan p = Inr plan
    \<and> plan_policy_epoch plan = pol_policy_epoch p \<and> plan_sequence plan = pol_sequence p
    \<and> plan_expires_at plan = pol_expires_at p
    \<and> list_all2 (\<lambda>(s, e). plan_entry s e) (plan_source (pol_services p)) (plan_endpoints plan))
    \<and> (\<forall>pins vp candidate. server_pins_new pins = Inr vp
         \<longrightarrow> (server_pins_matches vp candidate \<longleftrightarrow> candidate \<in> set pins))"
proof -
  from assms have "policy_typed p" "encode_policy_payload M p = Inr b" "policy_valid C p now"
    using cbor_codec.decode_validate_policy_iff [OF assms(1,2)] by blast+
  then have "\<exists>plan. build_verified_plan p = Inr plan
    \<and> plan_policy_epoch plan = pol_policy_epoch p \<and> plan_sequence plan = pol_sequence p
    \<and> plan_expires_at plan = pol_expires_at p
    \<and> list_all2 (\<lambda>(s, e). plan_entry s e) (plan_source (pol_services p)) (plan_endpoints plan)"
    by (intro build_verified_plan_ready policy_valid_plan_ready [of C p now])
      (auto simp: encode_policy_payload_iff)
  then show ?thesis
    using server_pins_matches_iff by blast
qed

theorem validated_policy_has_plan_witness:
  "(\<exists>plan. build_verified_plan sample_genesis = Inr plan
    \<and> plan_policy_epoch plan = 0 \<and> plan_sequence plan = 0 \<and> plan_expires_at plan = 200000
    \<and> list_all2 (\<lambda>(s, e). plan_entry s e) (plan_source (pol_services sample_genesis))
        (plan_endpoints plan))
    \<and> (\<exists>vp. server_pins_new [replicate 32 5, replicate 32 6] = Inr vp
        \<and> server_pins_matches vp (replicate 32 6) \<and> \<not> server_pins_matches vp (replicate 32 7))"
proof -
  have "decode_policy_payload rfc8949 (encode_policy_fields rfc8949 sample_genesis)
      = Inr sample_genesis \<and> validate_policy sample_crypto sample_genesis 1500 = Inr ()"
    using rfc.decode_validate_policy_iff [OF sample_now(1)] policies_encode(1)
      sample_policies_ok(1,3) by blast
  note plan = validated_policy_has_plan [OF rfc.cbor_codec_axioms sample_now(1) conjunct1 [OF this] conjunct2 [OF this]]
  obtain vp where vp: "server_pins_new [replicate 32 5, replicate 32 6] = Inr vp"
    by (simp add: server_pins_new_def limit_defs)
  from plan have "\<forall>candidate. server_pins_matches vp candidate \<longleftrightarrow> candidate \<in> set [replicate 32 5, replicate 32 6]"
    using vp by blast
  with plan vp show ?thesis
    by (simp add: sample_genesis_def)
qed

text \<open>C8. Enrollment accepts exactly the genesis bundles among the verified ones: epoch 0, sequence
0 and no predecessor hashes; the state then holds the bundle, its issue time and the clock.\<close>

theorem enrollment_exact:
  assumes "cbor_codec M" and "in_i64 now" and "verify_bundle M C input root now = Inr vb"
  shows "apply_verified_update None vb now = Inr t \<longleftrightarrow>
    ks_keyset_epoch (vb_keyset vb) = 0 \<and> ks_previous_payload_hash (vb_keyset vb) = None
    \<and> pol_policy_epoch (vb_policy vb) = 0 \<and> pol_sequence (vb_policy vb) = 0
    \<and> pol_previous_payload_hash (vb_policy vb) = None
    \<and> t = Applied \<lparr> st_accepted = vb,
        st_max_issued_at = max (ks_issued_at (vb_keyset vb)) (pol_issued_at (vb_policy vb)),
        st_max_wall_clock_seen = now \<rparr>"
proof -
  have auth: "bundle_authentic M C input root now vb"
    using assms by (simp add: cbor_codec.verify_bundle_iff)
  then have "keyset_typed (vb_keyset vb)" "policy_typed (vb_policy vb)"
    by (auto simp: bundle_authentic_def keyset_authentic_def policy_authentic_def)
  with verified_live [OF auth] assms(2) have "ensure_live_at_apply vb now = Inr ()"
    by (simp add: ensure_live_at_apply_iff)
  then show ?thesis
    by (auto simp: apply_verified_update_None_iff)
qed

theorem enrollment_exact_witness:
  "\<exists>t. apply_verified_update None (sample_verified sample_genesis) 1500 = Inr t
     \<and> st_max_wall_clock_seen (transition_state t) = 1500"
proof -
  from sample_bundles(1) obtain input where
    "verify_bundle rfc8949 sample_crypto input sample_root 1500
     = Inr (sample_verified sample_genesis)" ..
  from enrollment_exact [OF rfc.cbor_codec_axioms sample_now(1) this] show ?thesis
    by (simp add: sample_verified_def sample_genesis_def sample_keyset_def)
qed

section \<open>Encodings and signatures\<close>

text \<open>C9. Payload encodings are bijections. A payload decodes to a keyset exactly when it is the
encoding of that well-typed keyset, and to a policy exactly when it is the encoding of that
policy and no rule names more than 16 services (a bound the encoder does not check); so every
accepted payload is canonical and no object has two payloads.\<close>

theorem payload_codecs_exact:
  assumes "cbor_codec M"
  shows "(decode_keyset_payload M b = Inr ks \<longleftrightarrow> keyset_typed ks \<and> encode_keyset_payload M ks = Inr b)
    \<and> (decode_policy_payload M b = Inr p \<longleftrightarrow>
        policy_typed p \<and> (\<forall>r \<in> set (pol_rules p). length (rule_service_ids r) \<le> MAX_SERVICES)
        \<and> encode_policy_payload M p = Inr b)"
  using cbor_codec.decode_keyset_payload_iff [OF assms] cbor_codec.decode_policy_payload_encoded [OF assms]
    cbor_codec.decode_policy_payload_typed [OF assms] decode_policy_payload_canonical
  by blast

theorem payload_codecs_exact_witness:
  "decode_keyset_payload rfc8949 (encode_keyset_fields rfc8949 sample_keyset) = Inr sample_keyset
   \<and> decode_policy_payload rfc8949 (encode_policy_fields rfc8949 sample_successor) = Inr sample_successor"
proof -
  have "\<forall>r \<in> set (pol_rules sample_successor). length (rule_service_ids r) \<le> MAX_SERVICES"
    by (simp add: sample_successor_def limit_defs)
  then show ?thesis
    using payload_codecs_exact [OF rfc.cbor_codec_axioms] keyset_encodes(1) sample_keyset_ok(1)
      policies_encode(2) sample_policies_ok(2)
    by blast
qed

lemma signature_structure_binds:
  assumes "cbor_codec M" and "length kid = 16" and "length kid' = 16"
    and "signature_structure M
      (encode_protected_header M \<lparr> hdr_content_type = ct, hdr_kid = kid \<rparr>) payload = Inr b"
    and "signature_structure M
      (encode_protected_header M \<lparr> hdr_content_type = ct', hdr_kid = kid' \<rparr>) payload' = Inr b"
  shows "ct = ct' \<and> kid = kid' \<and> payload = payload'"
proof -
  let ?h = "\<lparr> hdr_content_type = ct, hdr_kid = kid \<rparr>" and ?h' = "\<lparr> hdr_content_type = ct', hdr_kid = kid' \<rparr>"
  from cbor_codec.signature_structure_inj [OF assms(1,4,5)]
  have same: "encode_protected_header M ?h = encode_protected_header M ?h'"
    and payload: "payload = payload'" by auto
  have "decode_protected_header M (encode_protected_header M ?h) = Inr ?h"
    using assms(2) by (intro cbor_codec.decode_protected_header_encoded [OF assms(1)]) simp
  moreover have "decode_protected_header M (encode_protected_header M ?h') = Inr ?h'"
    using assms(3) by (intro cbor_codec.decode_protected_header_encoded [OF assms(1)]) simp
  ultimately have "?h = ?h'"
    unfolding same by (metis sum.inject(2))
  with payload show ?thesis
    by simp
qed

text \<open>C10. \<open>verify_sign1\<close> returns a payload exactly when the envelope is the canonical encoding of
the expected header, that payload and a 64-byte signature which the given key verifies over
them. The signature binds the content type, the signing key id and the payload: envelopes with
equal to-be-signed bytes agree on all three, so a keyset signature never serves for a policy.\<close>

theorem envelopes_exact_and_binding:
  assumes "cbor_codec M"
  shows "(verify_sign1 M C out ct kid pk = Inr payload \<longleftrightarrow> signed_envelope M C ct kid pk payload out)
    \<and> (length kid = 16 \<and> length kid' = 16
       \<and> signature_structure M (encode_protected_header M \<lparr> hdr_content_type = ct, hdr_kid = kid \<rparr>) payload = Inr b
       \<and> signature_structure M (encode_protected_header M \<lparr> hdr_content_type = ct', hdr_kid = kid' \<rparr>) payload' = Inr b
       \<longrightarrow> ct = ct' \<and> kid = kid' \<and> payload = payload')"
  using cbor_codec.verify_sign1_iff [OF assms] signature_structure_binds [OF assms] by blast

theorem envelopes_exact_and_binding_witness:
  "(\<exists>out. verify_sign1 rfc8949 sample_crypto out CtKeyset (replicate 16 1) (replicate 32 2) = Inr [1, 2, 3])
   \<and> signature_structure rfc8949 (encode_protected_header rfc8949
      \<lparr> hdr_content_type = CtKeyset, hdr_kid = replicate 16 1 \<rparr>) [1, 2]
   \<noteq> signature_structure rfc8949 (encode_protected_header rfc8949
      \<lparr> hdr_content_type = CtEndpointPolicy, hdr_kid = replicate 16 1 \<rparr>) [1, 2]"
proof
  show "\<exists>out. verify_sign1 rfc8949 sample_crypto out CtKeyset (replicate 16 1) (replicate 32 2) = Inr [1, 2, 3]"
    using envelope_exists [of "replicate 16 1" "[1, 2, 3]" "replicate 32 2" CtKeyset]
      envelopes_exact_and_binding [OF rfc.cbor_codec_axioms] by auto
  let ?s = "\<lambda>ct. signature_structure rfc8949 (encode_protected_header rfc8949
      \<lparr> hdr_content_type = ct, hdr_kid = replicate 16 1 \<rparr>) [1, 2]"
  have "length (encode_protected_header rfc8949
      \<lparr> hdr_content_type = CtKeyset, hdr_kid = replicate 16 1 \<rparr>) \<le> 200"
    by (simp add: header_length)
  then have "\<exists>b. ?s CtKeyset = Inr b"
    by (simp add: signature_structure_iff limit_defs)
  then obtain b where b: "?s CtKeyset = Inr b"
    by blast
  show "?s CtKeyset \<noteq> ?s CtEndpointPolicy"
    using envelopes_exact_and_binding [OF rfc.cbor_codec_axioms, of _ _ CtKeyset "replicate 16 1" _ "[1, 2]" "replicate 16 1" b
        CtEndpointPolicy "[1, 2]"] b by auto
qed

section \<open>Validation\<close>

text \<open>C11. The validation loops accept exactly the valid objects. A keyset: a live window of at most
90 days, strictly sorted distinct kids, distinct non-zero public keys, key lifetimes inside the
keyset, consistent status times and a usable active key. A policy: a live window of at most
seven days, sorted services, sorted non-zero pins that cover the policy's lifetime with one
active, sorted routable endpoints with canonical names, globally unique endpoint ids and address
tuples, at most 32 endpoints, one rule naming every service, and sorted evidence. A DNS name: at
most 253 characters, two or more labels of 1 to 63 lower-case letters, digits and inner
hyphens.\<close>

theorem validation_exact:
  assumes "in_i64 now"
  shows "(keyset_typed ks \<longrightarrow> (validate_keyset ks now = Inr () \<longleftrightarrow> keyset_valid ks now))
    \<and> (policy_typed p \<longrightarrow> (validate_policy C p now = Inr () \<longleftrightarrow> policy_valid C p now))
    \<and> (validate_canonical_dns_name s what = Inr () \<longleftrightarrow> dns_name s)"
  using validate_keyset_iff validate_policy_iff validate_canonical_dns_name_iff assms by blast

theorem validation_exact_witness:
  "validate_keyset sample_keyset 1500 = Inr () \<and> validate_policy sample_crypto sample_successor 3000 = Inr ()"
  using validation_exact [OF sample_now(1)] validation_exact [OF sample_now(2)]
    sample_keyset_ok(1,2) sample_policies_ok(2,5) by blast

section \<open>Rotation\<close>

text \<open>C12. Rotation is accepted exactly under the overlap rules. Between two valid keysets: every old
key is kept unchanged, retired now with the overlap still ahead, revoked or dropped after the
overlap, new keys enter active, and one live key spans the overlap. For the pins of a service:
every old pin is kept, retired now with the overlap still ahead or dropped after it, new pins
enter active with the overlap ahead, and at least one pin is common.\<close>

theorem rotation_exact:
  "(keyset_valid previous earlier \<and> keyset_typed previous \<and> keyset_valid candidate now \<and> keyset_typed candidate
      \<longrightarrow> (validate_key_rotation previous candidate = Inr () \<longleftrightarrow> keys_rotate previous candidate))
   \<and> (distinct (map pin_fingerprint (svc_pins new_service))
      \<longrightarrow> (validate_pin_rotation old_service new_service issued expires = Inr () \<longleftrightarrow>
            pins_rotate (svc_pins old_service) (svc_pins new_service) issued expires))"
  using validate_key_rotation_iff validate_pin_rotation_iff by blast

theorem rotation_exact_witness:
  "validate_key_rotation sample_keyset sample_keyset = Inr ()
   \<and> validate_pin_rotation (hd (pol_services sample_genesis)) (hd (pol_services sample_successor)) 2000 200000 = Inr ()"
proof -
  have "keys_rotate sample_keyset sample_keyset"
    by (simp add: keys_rotate_def key_rotates_def key_live_status_def sample_defs limit_defs
          i64_defs)
  moreover have "distinct (map pin_fingerprint (svc_pins (hd (pol_services sample_successor))))"
    by (simp add: sample_defs)
  moreover have "pins_rotate (svc_pins (hd (pol_services sample_genesis))) (svc_pins (hd (pol_services sample_successor))) 2000 200000"
    by (simp add: pins_rotate_def pin_rotates_def sample_defs limit_defs i64_defs)
  ultimately show ?thesis
    using rotation_exact [of sample_keyset _ sample_keyset _ "hd (pol_services sample_successor)" "hd (pol_services sample_genesis)" 2000 200000]
      sample_keyset_ok(1,2,3) by blast
qed

end
