(* ===== verification/Policy_Store.thy ===== *)
theory Policy_Store
  imports Policy_Sample
begin

unbundle bit_operations_syntax

text \<open>
  The durable policy state (\<open>policy_state.rs\<close>): the checksummed envelope around an accepted
  bundle and its floors, the expiry tombstone, the checks on the files that hold them, and the
  store operations \<open>enroll\<close>, \<open>update\<close>, \<open>load_active\<close> and \<open>checkpoint_expired\<close>. The directory
  and the two files, with the metadata the code tests, are the state; the system calls of a write
  fail as an environment parameter says, and an operation returns the store it leaves also when
  it is an error. Temporary files, which an unpublished write removes again, and failing reads of
  an existing file are not part of the model. The lemmas show that the envelopes are exact, that
  what a client loads back is what it accepted, that a failed write leaves the old file or the
  complete new one, and that a retired policy stays retired.
\<close>

section \<open>Errors\<close>

datatype io_kind = IoNotFound | IoAlreadyExists | IoOther

datatype store_reason =
    NotDirectory | DirectoryOwner | DirectoryMode
  | NotRegular | FileOwner | FileMode | HardLinks | FileTooLarge | GrewBeyondBound
  | NegativeFloor | BundleSize | StateLength | StateChecksum | StateMagic | StateVersion
  | StateReserved | StateRoot | BundleLength | NonCanonicalLength | TruncatedEnvelope
  | NegativeExpiry | ExpiryLength | ExpiryChecksum | ExpiryMagic | ExpiryVersion
  | ExpiryReserved | ExpiryRoot | ExpiryTrailing
  | LeaseTaken | LeaseError | FloorBelowBundle | ClockBehindFloor
  | TombstoneConflict | DurablyRetired | AlreadyEnrolled | StateMissing
  | CheckpointRoot | CheckpointStale | CheckpointConflict | TempNameLimit

datatype store_error = Io io_kind | Refused store_reason | PolicyFailure policy_error

type_synonym 'a store_result = "store_error + 'a"

definition policy_ctx :: "policy_error + 'a \<Rightarrow> 'a store_result" where
  "policy_ctx r = (case r of Inl e \<Rightarrow> Inl (PolicyFailure e) | Inr x \<Rightarrow> Inr x)"

text \<open>The operator \<open>?\<close> in an operation on a store: an error returns at once and leaves the store as
it is at that point.\<close>

definition tryS :: "'s \<Rightarrow> ('e + 'a) \<Rightarrow> ('a \<Rightarrow> 's \<times> ('e + 'b)) \<Rightarrow> 's \<times> ('e + 'b)" where
  "tryS d r f = (case r of Inl e \<Rightarrow> (d, Inl e) | Inr x \<Rightarrow> f x)"

lemma tryS_simps [simp]: "tryS d (Inl e) f = (d, Inl e)" "tryS d (Inr x) f = f x"
  by (simp_all add: tryS_def)

lemma tryS_eq_Inr [result_simps]: "tryS d r f = (d', Inr y) \<longleftrightarrow> (\<exists>x. r = Inr x \<and> f x = (d', Inr y))"
  by (cases r) auto

lemma tryS_last [result_simps]:
  "(case p of (e, r) \<Rightarrow> tryS e r (\<lambda>_. (e, Inr t))) = (d, Inr u) \<longleftrightarrow> p = (d, Inr ()) \<and> u = t"
  by (cases p; cases "snd p") auto

section \<open>Envelope codecs\<close>

definition MAGIC :: bytes where "MAGIC = ascii_bytes ''SPPOLST1''"
definition VERSION :: nat where "VERSION = 1"
definition RESERVED :: nat where "RESERVED = 0"
definition PREFIX_BYTES :: nat where "PREFIX_BYTES = 8 + 2 + 2 + 32 + 8 + 8 + 4"
definition CHECKSUM_BYTES :: nat where "CHECKSUM_BYTES = 32"
definition MIN_STATE_BYTES :: nat where "MIN_STATE_BYTES = PREFIX_BYTES + CHECKSUM_BYTES"
definition MAX_STATE_BYTES :: nat where "MAX_STATE_BYTES = MIN_STATE_BYTES + MAX_BUNDLE_BYTES"
definition STATE_MODE :: u32 where "STATE_MODE = 384"
definition DIRECTORY_MODE :: u32 where "DIRECTORY_MODE = 448"

definition STATE_HASH_DOMAIN :: bytes where
  "STATE_HASH_DOMAIN = ascii_bytes ''shadowpipe-policy-state-v1'' @ [0]"
definition EXPIRY_MAGIC :: bytes where "EXPIRY_MAGIC = ascii_bytes ''SPPOLEX1''"
definition EXPIRY_VERSION :: nat where "EXPIRY_VERSION = 1"
definition EXPIRY_BYTES :: nat where
  "EXPIRY_BYTES = 8 + 2 + 2 + 32 + 32 + 8 + 8 + 8 + CHECKSUM_BYTES"
definition EXPIRY_HASH_DOMAIN :: bytes where
  "EXPIRY_HASH_DOMAIN = ascii_bytes ''shadowpipe-policy-expiry-v1'' @ [0]"

lemmas store_consts =
  VERSION_def RESERVED_def PREFIX_BYTES_def CHECKSUM_BYTES_def MIN_STATE_BYTES_def
  MAX_STATE_BYTES_def EXPIRY_VERSION_def EXPIRY_BYTES_def

record disk_state =
  ds_root_id :: bytes
  ds_max_issued_at :: int
  ds_max_wall_clock_seen :: int
  ds_accepted_bundle :: bytes

record expiry_checkpoint =
  ex_root_id :: bytes
  ex_policy_hash :: bytes
  ex_policy_epoch :: u64
  ex_sequence :: u64
  ex_expires_at :: int

definition checkpoint_from_state :: "accepted_state \<Rightarrow> expiry_checkpoint" where
  "checkpoint_from_state s =
     (let accepted = st_accepted s; plan = vb_plan accepted in
     \<lparr> ex_root_id = vb_root_id accepted, ex_policy_hash = vb_policy_hash accepted,
       ex_policy_epoch = plan_policy_epoch plan, ex_sequence = plan_sequence plan,
       ex_expires_at = plan_expires_at plan \<rparr>)"

definition store_root_id :: "crypto \<Rightarrow> trusted_root \<Rightarrow> bytes" where
  "store_root_id C root = sha256 C (ROOT_ID_DOMAIN @ root_kid root @ root_ed25519_public_key root)"

definition state_checksum :: "crypto \<Rightarrow> bytes \<Rightarrow> bytes" where
  "state_checksum C contents = sha256 C (STATE_HASH_DOMAIN @ contents)"

definition expiry_checksum :: "crypto \<Rightarrow> bytes \<Rightarrow> bytes" where
  "expiry_checksum C contents = sha256 C (EXPIRY_HASH_DOMAIN @ contents)"

text \<open>\<open>to_be_bytes\<close> and \<open>from_be_bytes\<close> of an \<open>i64\<close>: two's complement.\<close>

definition i64_be :: "int \<Rightarrow> bytes" where
  "i64_be x = be_bytes 8 (nat (x mod 2 ^ 64))"

definition i64_of_be :: "bytes \<Rightarrow> int" where
  "i64_of_be b = (let v = int (be_val b) in if v < 2 ^ 63 then v else v - 2 ^ 64)"

definition encode_expiry :: "crypto \<Rightarrow> expiry_checkpoint \<Rightarrow> bytes store_result" where
  "encode_expiry C c =
     bindR (ensure (ex_expires_at c \<ge> 0) (Refused NegativeExpiry)) (\<lambda>_.
     let body = EXPIRY_MAGIC @ be_bytes 2 EXPIRY_VERSION @ be_bytes 2 RESERVED
           @ ex_root_id c @ ex_policy_hash c
           @ be_bytes 8 (unat (ex_policy_epoch c)) @ be_bytes 8 (unat (ex_sequence c))
           @ i64_be (ex_expires_at c) in
     Inr (body @ expiry_checksum C body))"

definition take_array :: "nat \<Rightarrow> (store_error, bytes) parser" where
  "take_array n = (\<lambda>rest.
     if length rest < n then Inl (Refused TruncatedEnvelope)
     else Inr (take n rest, drop n rest))"

definition expiry_fields :: "bytes \<Rightarrow> bytes \<Rightarrow> nat \<Rightarrow> (store_error, expiry_checkpoint) parser" where
  "expiry_fields input expected_root_id authenticated_len =
       bindP (take_array 8) (\<lambda>magic.
       bindP (liftP (ensure (magic = EXPIRY_MAGIC) (Refused ExpiryMagic))) (\<lambda>_.
       bindP (take_array 2) (\<lambda>version.
       bindP (liftP (ensure (be_val version = EXPIRY_VERSION) (Refused ExpiryVersion))) (\<lambda>_.
       bindP (take_array 2) (\<lambda>reserved.
       bindP (liftP (ensure (be_val reserved = RESERVED) (Refused ExpiryReserved))) (\<lambda>_.
       bindP (take_array 32) (\<lambda>actual_root_id.
       bindP (liftP (ensure (ct_eq actual_root_id expected_root_id) (Refused ExpiryRoot))) (\<lambda>_.
       bindP (take_array 32) (\<lambda>policy_hash.
       bindP (take_array 8) (\<lambda>policy_epoch.
       bindP (take_array 8) (\<lambda>sequence.
       bindP (take_array 8) (\<lambda>expires.
       let expires_at = i64_of_be expires in
       bindP (liftP (ensure (expires_at \<ge> 0) (Refused NegativeExpiry))) (\<lambda>_ rest.
       if length input - length rest \<noteq> authenticated_len then Inl (Refused ExpiryTrailing)
       else Inr (\<lparr> ex_root_id = actual_root_id, ex_policy_hash = policy_hash,
              ex_policy_epoch = word_of_nat (be_val policy_epoch),
              ex_sequence = word_of_nat (be_val sequence), ex_expires_at = expires_at \<rparr>,
            rest))))))))))))))"

definition decode_expiry :: "crypto \<Rightarrow> bytes \<Rightarrow> bytes \<Rightarrow> expiry_checkpoint store_result" where
  "decode_expiry C input expected_root_id =
     bindR (ensure (length input = EXPIRY_BYTES) (Refused ExpiryLength)) (\<lambda>_.
     let authenticated_len = EXPIRY_BYTES - CHECKSUM_BYTES;
         expected_checksum = expiry_checksum C (take authenticated_len input) in
     bindR (ensure (ct_eq expected_checksum (drop authenticated_len input))
        (Refused ExpiryChecksum)) (\<lambda>_.
     map_sum id fst (expiry_fields input expected_root_id authenticated_len input)))"

definition encode_disk :: "crypto \<Rightarrow> disk_state \<Rightarrow> bytes store_result" where
  "encode_disk C s =
     bindR (ensure (ds_max_issued_at s \<ge> 0 \<and> ds_max_wall_clock_seen s \<ge> 0)
        (Refused NegativeFloor)) (\<lambda>_.
     bindR (ensure (ds_accepted_bundle s \<noteq> [] \<and> length (ds_accepted_bundle s) \<le> MAX_BUNDLE_BYTES)
        (Refused BundleSize)) (\<lambda>_.
     bindR (ensure (length (ds_accepted_bundle s) < 2 ^ 32) (Refused BundleSize)) (\<lambda>_.
     let body = MAGIC @ be_bytes 2 VERSION @ be_bytes 2 RESERVED @ ds_root_id s
           @ i64_be (ds_max_issued_at s) @ i64_be (ds_max_wall_clock_seen s)
           @ be_bytes 4 (length (ds_accepted_bundle s)) @ ds_accepted_bundle s in
     Inr (body @ state_checksum C body))))"

definition disk_fields :: "bytes \<Rightarrow> bytes \<Rightarrow> nat \<Rightarrow> (store_error, disk_state) parser" where
  "disk_fields input expected_root_id authenticated_len =
       bindP (take_array 8) (\<lambda>magic.
       bindP (liftP (ensure (magic = MAGIC) (Refused StateMagic))) (\<lambda>_.
       bindP (take_array 2) (\<lambda>version.
       bindP (liftP (ensure (be_val version = VERSION) (Refused StateVersion))) (\<lambda>_.
       bindP (take_array 2) (\<lambda>reserved.
       bindP (liftP (ensure (be_val reserved = RESERVED) (Refused StateReserved))) (\<lambda>_.
       bindP (take_array 32) (\<lambda>actual_root_id.
       bindP (liftP (ensure (ct_eq actual_root_id expected_root_id) (Refused StateRoot))) (\<lambda>_.
       bindP (take_array 8) (\<lambda>issued.
       bindP (take_array 8) (\<lambda>seen.
       let max_issued_at = i64_of_be issued; max_wall_clock_seen = i64_of_be seen in
       bindP (liftP (ensure (max_issued_at \<ge> 0 \<and> max_wall_clock_seen \<ge> 0)
          (Refused NegativeFloor))) (\<lambda>_.
       bindP (take_array 4) (\<lambda>len.
       let bundle_len = be_val len in
       bindP (liftP (ensure (1 \<le> bundle_len \<and> bundle_len \<le> MAX_BUNDLE_BYTES)
          (Refused BundleLength))) (\<lambda>_ rest.
       if length input - length rest + bundle_len \<noteq> authenticated_len then
         Inl (Refused NonCanonicalLength)
       else Inr (\<lparr> ds_root_id = actual_root_id, ds_max_issued_at = max_issued_at,
              ds_max_wall_clock_seen = max_wall_clock_seen,
              ds_accepted_bundle = take bundle_len rest \<rparr>, rest))))))))))))))"

definition decode_disk :: "crypto \<Rightarrow> bytes \<Rightarrow> bytes \<Rightarrow> disk_state store_result" where
  "decode_disk C input expected_root_id =
     bindR (ensure (MIN_STATE_BYTES \<le> length input \<and> length input \<le> MAX_STATE_BYTES)
        (Refused StateLength)) (\<lambda>_.
     let authenticated_len = length input - CHECKSUM_BYTES;
         expected_checksum = state_checksum C (take authenticated_len input) in
     bindR (ensure (ct_eq expected_checksum (drop authenticated_len input))
        (Refused StateChecksum)) (\<lambda>_.
     map_sum id fst (disk_fields input expected_root_id authenticated_len input)))"

section \<open>Files\<close>

record dir_entry =
  de_is_dir :: bool
  de_uid :: u32
  de_mode :: u32

datatype file_kind = RegularFile | SymbolicLink | OtherFile

record file_entry =
  fe_kind :: file_kind
  fe_uid :: u32
  fe_mode :: u32
  fe_nlink :: nat
  fe_bytes :: bytes

datatype lease = LeaseFree | LeaseBusy | LeaseFailed

text \<open>The store of one path: the effective user, the parent directory, the lock file's lease as
other processes leave it, the state file and the tombstone beside it.\<close>

record policy_store =
  ps_uid :: u32
  ps_dir :: "dir_entry option"
  ps_lease :: lease
  ps_state :: "file_entry option"
  ps_expiry :: "file_entry option"

definition validate_directory :: "policy_store \<Rightarrow> unit store_result" where
  "validate_directory d =
     (case ps_dir d of
        None \<Rightarrow> Inl (Io IoNotFound)
      | Some m \<Rightarrow>
          bindR (ensure (de_is_dir m) (Refused NotDirectory)) (\<lambda>_.
          bindR (ensure (de_uid m = ps_uid d) (Refused DirectoryOwner)) (\<lambda>_.
          ensure (de_mode m AND 511 = DIRECTORY_MODE) (Refused DirectoryMode))))"

definition validate_file :: "policy_store \<Rightarrow> file_entry \<Rightarrow> unit store_result" where
  "validate_file d f =
     bindR (ensure (fe_kind f = RegularFile) (Refused NotRegular)) (\<lambda>_.
     bindR (ensure (fe_uid f = ps_uid d) (Refused FileOwner)) (\<lambda>_.
     bindR (ensure (fe_mode f AND 511 = STATE_MODE) (Refused FileMode)) (\<lambda>_.
     bindR (ensure (fe_nlink f = 1) (Refused HardLinks)) (\<lambda>_.
     ensure (length (fe_bytes f) \<le> MAX_STATE_BYTES) (Refused FileTooLarge)))))"

definition open_readonly_nofollow :: "file_entry option \<Rightarrow> file_entry store_result" where
  "open_readonly_nofollow f =
     (case f of
        None \<Rightarrow> Inl (Io IoNotFound)
      | Some f \<Rightarrow> if fe_kind f = SymbolicLink then Inl (Io IoOther) else Inr f)"

definition read_bounded :: "policy_store \<Rightarrow> file_entry option \<Rightarrow> bytes store_result" where
  "read_bounded d path =
     bindR (validate_directory d) (\<lambda>_.
     bindR (open_readonly_nofollow path) (\<lambda>f.
     bindR (validate_file d f) (\<lambda>_.
     let bytes = take (MAX_STATE_BYTES + 1) (fe_bytes f) in
     bindR (ensure (length bytes \<le> MAX_STATE_BYTES) (Refused GrewBeyondBound)) (\<lambda>_.
     Inr bytes))))"

text \<open>The temporary file is created with the state mode, one link and the caller's uid, checked
while empty, then written and synced.\<close>

definition fresh_file :: "policy_store \<Rightarrow> bytes \<Rightarrow> file_entry" where
  "fresh_file d bytes = \<lparr> fe_kind = RegularFile, fe_uid = ps_uid d, fe_mode = STATE_MODE,
     fe_nlink = 1, fe_bytes = bytes \<rparr>"

text \<open>
  The environment of a write: which of its system calls fail, for the calls of the naming loop by
  the number of attempts left, and which of the names drawn there exist already.
\<close>

datatype store_call =
    TempEntropy nat | TempOpen nat | TempChmod | TempStat | TempWrite | TempSync
  | PublishRename | ParentSync

record store_io =
  io_fails :: "store_call \<Rightarrow> bool"
  io_taken :: "nat \<Rightarrow> bool"

definition sys_call :: "store_io \<Rightarrow> store_call \<Rightarrow> unit store_result" where
  "sys_call io c = ensure (\<not> io_fails io c) (Io IoOther)"

fun create_temp :: "store_io \<Rightarrow> nat \<Rightarrow> unit store_result" where
  "create_temp io 0 = Inl (Refused TempNameLimit)"
| "create_temp io (Suc n) =
     bindR (sys_call io (TempEntropy n)) (\<lambda>_.
     if io_taken io n then create_temp io n else sys_call io (TempOpen n))"

definition stage :: "store_io \<Rightarrow> policy_store \<Rightarrow> bytes \<Rightarrow> file_entry store_result" where
  "stage io d bytes =
     bindR (ensure (length bytes \<le> MAX_STATE_BYTES) (Refused FileTooLarge)) (\<lambda>_.
     bindR (validate_directory d) (\<lambda>_.
     bindR (create_temp io 32) (\<lambda>_.
     bindR (sys_call io TempChmod) (\<lambda>_.
     bindR (sys_call io TempStat) (\<lambda>_.
     bindR (validate_file d (fresh_file d [])) (\<lambda>_.
     bindR (sys_call io TempWrite) (\<lambda>_.
     bindR (sys_call io TempSync) (\<lambda>_.
     Inr (fresh_file d bytes)))))))))"

definition sync_parent :: "store_io \<Rightarrow> unit store_result" where
  "sync_parent io = sys_call io ParentSync"

definition publish_noreplace :: "store_io \<Rightarrow> policy_store \<Rightarrow> file_entry \<Rightarrow> policy_store store_result" where
  "publish_noreplace io d f =
     bindR (sys_call io PublishRename) (\<lambda>_.
     case ps_state d of
       None \<Rightarrow> Inr (d \<lparr> ps_state := Some f \<rparr>)
     | Some _ \<Rightarrow> Inl (Io IoAlreadyExists))"

definition publish :: "store_io \<Rightarrow> policy_store \<Rightarrow> bytes \<Rightarrow> bool \<Rightarrow> policy_store \<times> unit store_result" where
  "publish io d bytes replacing =
     tryS d (stage io d bytes) (\<lambda>pending.
     tryS d (if replacing
        then bindR (sys_call io PublishRename) (\<lambda>_. Inr (d \<lparr> ps_state := Some pending \<rparr>))
        else publish_noreplace io d pending) (\<lambda>d'.
     (d', sync_parent io)))"

section \<open>Store operations\<close>

definition acquire_lock :: "policy_store \<Rightarrow> unit store_result" where
  "acquire_lock d =
     bindR (validate_directory d) (\<lambda>_.
     case ps_lease d of
       LeaseFree \<Rightarrow> Inr ()
     | LeaseBusy \<Rightarrow> Inl (Refused LeaseTaken)
     | LeaseFailed \<Rightarrow> Inl (Refused LeaseError))"

definition load_expiry ::
  "crypto \<Rightarrow> policy_store \<Rightarrow> trusted_root \<Rightarrow> expiry_checkpoint option store_result" where
  "load_expiry C d root =
     (case read_bounded d (ps_expiry d) of
        Inr bytes \<Rightarrow> bindR (decode_expiry C bytes (store_root_id C root)) (\<lambda>c. Inr (Some c))
      | Inl (Io IoNotFound) \<Rightarrow> Inr None
      | Inl e \<Rightarrow> Inl e)"

definition ensure_not_tombstoned ::
  "crypto \<Rightarrow> policy_store \<Rightarrow> trusted_root \<Rightarrow> verified_bundle \<Rightarrow> unit store_result" where
  "ensure_not_tombstoned C d root accepted =
     bindR (load_expiry C d root) (\<lambda>found.
     case found of
       None \<Rightarrow> Inr ()
     | Some tombstone \<Rightarrow>
         if \<not> ct_eq (ex_policy_hash tombstone) (vb_policy_hash accepted) then Inr ()
         else
           let plan = vb_plan accepted in
           bindR (ensure (ex_policy_epoch tombstone = plan_policy_epoch plan
                        \<and> ex_sequence tombstone = plan_sequence plan
                        \<and> ex_expires_at tombstone = plan_expires_at plan)
             (Refused TombstoneConflict)) (\<lambda>_.
           Inl (Refused DurablyRetired)))"

definition load_anchor ::
  "minicbor \<Rightarrow> crypto \<Rightarrow> policy_store \<Rightarrow> trusted_root \<Rightarrow> accepted_state option store_result" where
  "load_anchor M C d root =
     (case read_bounded d (ps_state d) of
        Inl (Io IoNotFound) \<Rightarrow> Inr None
      | Inl e \<Rightarrow> Inl e
      | Inr bytes \<Rightarrow>
          bindR (decode_disk C bytes (store_root_id C root)) (\<lambda>disk.
          bindR (policy_ctx (verify_bundle M C (ds_accepted_bundle disk) root
                   (ds_max_wall_clock_seen disk))) (\<lambda>accepted.
          let accepted_max_issued =
                max (ks_issued_at (vb_keyset accepted)) (pol_issued_at (vb_policy accepted)) in
          bindR (ensure (accepted_max_issued \<le> ds_max_issued_at disk) (Refused FloorBelowBundle))
            (\<lambda>_.
          Inr (Some \<lparr> st_accepted = accepted, st_max_issued_at = ds_max_issued_at disk,
            st_max_wall_clock_seen = ds_max_wall_clock_seen disk \<rparr>)))))"

definition load_active ::
  "minicbor \<Rightarrow> crypto \<Rightarrow> policy_store \<Rightarrow> trusted_root \<Rightarrow> int \<Rightarrow> accepted_state store_result" where
  "load_active M C d root now =
     bindR (acquire_lock d) (\<lambda>_.
     bindR (read_bounded d (ps_state d)) (\<lambda>bytes.
     bindR (decode_disk C bytes (store_root_id C root)) (\<lambda>disk.
     bindR (ensure (i64_saturating_add now MAX_CLOCK_SKEW_SECS \<ge> ds_max_wall_clock_seen disk)
        (Refused ClockBehindFloor)) (\<lambda>_.
     bindR (policy_ctx (verify_bundle M C (ds_accepted_bundle disk) root now)) (\<lambda>accepted.
     let accepted_max_issued =
           max (ks_issued_at (vb_keyset accepted)) (pol_issued_at (vb_policy accepted)) in
     bindR (ensure (accepted_max_issued \<le> ds_max_issued_at disk) (Refused FloorBelowBundle)) (\<lambda>_.
     bindR (ensure_not_tombstoned C d root accepted) (\<lambda>_.
     Inr \<lparr> st_accepted = accepted, st_max_issued_at = ds_max_issued_at disk,
       st_max_wall_clock_seen = ds_max_wall_clock_seen disk \<rparr>)))))))"

definition persist_transition ::
  "crypto \<Rightarrow> store_io \<Rightarrow> policy_store \<Rightarrow> trusted_root \<Rightarrow> bytes \<Rightarrow> transition \<Rightarrow> bool
   \<Rightarrow> policy_store \<times> unit store_result" where
  "persist_transition C io d root candidate_bundle t replacing =
     (let state = transition_state t in
     tryS d (encode_disk C \<lparr> ds_root_id = store_root_id C root,
        ds_max_issued_at = st_max_issued_at state,
        ds_max_wall_clock_seen = st_max_wall_clock_seen state,
        ds_accepted_bundle = candidate_bundle \<rparr>) (\<lambda>encoded.
     publish io d encoded replacing))"

definition store_enroll ::
  "minicbor \<Rightarrow> crypto \<Rightarrow> store_io \<Rightarrow> policy_store \<Rightarrow> trusted_root \<Rightarrow> bytes \<Rightarrow> int
   \<Rightarrow> policy_store \<times> transition store_result" where
  "store_enroll M C io d root candidate_bundle now =
     tryS d (acquire_lock d) (\<lambda>_.
     tryS d (load_anchor M C d root) (\<lambda>anchor.
     tryS d (ensure (anchor = None) (Refused AlreadyEnrolled)) (\<lambda>_.
     tryS d (policy_ctx (verify_bundle M C candidate_bundle root now)) (\<lambda>candidate.
     tryS d (ensure_not_tombstoned C d root candidate) (\<lambda>_.
     tryS d (policy_ctx (apply_verified_update None candidate now)) (\<lambda>t.
     case persist_transition C io d root candidate_bundle t False of
       (d', r) \<Rightarrow> tryS d' r (\<lambda>_. (d', Inr t))))))))"

definition store_update ::
  "minicbor \<Rightarrow> crypto \<Rightarrow> store_io \<Rightarrow> policy_store \<Rightarrow> trusted_root \<Rightarrow> bytes \<Rightarrow> int
   \<Rightarrow> policy_store \<times> transition store_result" where
  "store_update M C io d root candidate_bundle now =
     tryS d (acquire_lock d) (\<lambda>_.
     tryS d (load_anchor M C d root) (\<lambda>anchor.
     tryS d (ok_or anchor (Refused StateMissing)) (\<lambda>previous.
     tryS d (policy_ctx (verify_bundle M C candidate_bundle root now)) (\<lambda>candidate.
     tryS d (ensure_not_tombstoned C d root candidate) (\<lambda>_.
     tryS d (policy_ctx (apply_verified_update (Some previous) candidate now)) (\<lambda>t.
     case persist_transition C io d root candidate_bundle t True of
       (d', r) \<Rightarrow> tryS d' r (\<lambda>_. (d', Inr t))))))))"

definition checkpoint_expired ::
  "minicbor \<Rightarrow> crypto \<Rightarrow> store_io \<Rightarrow> policy_store \<Rightarrow> trusted_root \<Rightarrow> expiry_checkpoint
   \<Rightarrow> policy_store \<times> unit store_result" where
  "checkpoint_expired M C io d root checkpoint =
     tryS d (acquire_lock d) (\<lambda>_.
     tryS d (ensure (ct_eq (ex_root_id checkpoint) (store_root_id C root))
        (Refused CheckpointRoot)) (\<lambda>_.
     tryS d (load_anchor M C d root) (\<lambda>anchor.
     tryS d (ok_or anchor (Refused StateMissing)) (\<lambda>current.
     tryS d (ensure (checkpoint_from_state current = checkpoint) (Refused CheckpointStale)) (\<lambda>_.
     tryS d (load_expiry C d root) (\<lambda>existing.
     if existing = Some checkpoint then (d, Inr ())
     else
       tryS d (case existing of
                None \<Rightarrow> Inr ()
              | Some e \<Rightarrow> ensure (\<not> ct_eq (ex_policy_hash e) (ex_policy_hash checkpoint))
                  (Refused CheckpointConflict)) (\<lambda>_.
       tryS d (encode_expiry C checkpoint) (\<lambda>bytes.
       tryS d (stage io d bytes) (\<lambda>pending.
       tryS d (sys_call io PublishRename) (\<lambda>_.
       (d \<lparr> ps_expiry := Some pending \<rparr>, sync_parent io)))))))))))"

section \<open>The envelopes are exact\<close>

lemma i64_be_length [simp]: "length (i64_be x) = 8"
  by (simp add: i64_be_def)

lemma i64_mod:
  assumes "in_i64 x"
  shows "x mod 18446744073709551616 = (if 0 \<le> x then x else x + 18446744073709551616)"
proof (cases "0 \<le> x")
  case False
  with assms have "(x + 18446744073709551616) mod 18446744073709551616 = x + 18446744073709551616"
    by (intro mod_pos_pos_trivial) (auto simp: i64_defs)
  with False show ?thesis
    by simp
qed (use assms in \<open>simp add: i64_defs\<close>)

lemma i64_of_be_iff:
  assumes "length b = 8"
  shows "i64_of_be b = x \<longleftrightarrow> in_i64 x \<and> b = i64_be x"
proof -
  have bound: "be_val b < 2 ^ 64"
    using be_val_bound [of b] assms by simp
  show ?thesis
  proof
    assume x: "i64_of_be b = x"
    then have "nat (x mod 2 ^ 64) = be_val b"
      using bound by (auto simp: i64_of_be_def Let_def split: if_splits)
    with x bound show "in_i64 x \<and> b = i64_be x"
      using be_bytes_be_val [OF assms]
      by (auto simp: i64_be_def i64_of_be_def Let_def i64_defs split: if_splits)
  next
    assume x: "in_i64 x \<and> b = i64_be x"
    then have "int (be_val b) = x mod 2 ^ 64"
      by (simp add: i64_be_def be_val_be_bytes nat_less_iff)
    with x show "i64_of_be b = x"
      by (cases "0 \<le> x") (auto simp: i64_of_be_def Let_def i64_mod, auto simp: i64_defs)
  qed
qed

lemma take_array_iff [codec_simps]:
  "take_array n r = Inr (v, r') \<longleftrightarrow> length v = n \<and> r = v @ r'"
  by (auto simp: take_array_def)

lemma take_array_append [simp]: "length v = n \<Longrightarrow> take_array n (v @ r) = Inr (v, r)"
  by (simp add: take_array_iff)

lemma envelope_consts [simp]:
  "length MAGIC = 8" "length EXPIRY_MAGIC = 8"
  by (simp_all add: MAGIC_def EXPIRY_MAGIC_def ascii_bytes_def)

definition digest_size :: "crypto \<Rightarrow> bool" where
  "digest_size C \<longleftrightarrow> (\<forall>b. length (sha256 C b) = 32)"

lemma checksum_lengths:
  "digest_size C \<Longrightarrow> length (state_checksum C b) = 32 \<and> length (expiry_checksum C b) = 32
     \<and> length (store_root_id C root) = 32"
  by (simp add: digest_size_def state_checksum_def expiry_checksum_def store_root_id_def)

definition disk_prefix :: "disk_state \<Rightarrow> bytes" where
  "disk_prefix d = MAGIC @ be_bytes 2 VERSION @ be_bytes 2 RESERVED @ ds_root_id d
     @ i64_be (ds_max_issued_at d) @ i64_be (ds_max_wall_clock_seen d)
     @ be_bytes 4 (length (ds_accepted_bundle d))"

definition disk_state_ok :: "disk_state \<Rightarrow> bool" where
  "disk_state_ok d \<longleftrightarrow>
     length (ds_root_id d) = 32 \<and> 0 \<le> ds_max_issued_at d \<and> in_i64 (ds_max_issued_at d)
     \<and> 0 \<le> ds_max_wall_clock_seen d \<and> in_i64 (ds_max_wall_clock_seen d)
     \<and> 1 \<le> length (ds_accepted_bundle d) \<and> length (ds_accepted_bundle d) \<le> MAX_BUNDLE_BYTES"

lemma encode_disk_iff:
  "encode_disk C d = Inr b \<longleftrightarrow>
     0 \<le> ds_max_issued_at d \<and> 0 \<le> ds_max_wall_clock_seen d
     \<and> 1 \<le> length (ds_accepted_bundle d) \<and> length (ds_accepted_bundle d) \<le> MAX_BUNDLE_BYTES
     \<and> b = disk_prefix d @ ds_accepted_bundle d
           @ state_checksum C (disk_prefix d @ ds_accepted_bundle d)"
  by (auto simp: encode_disk_def disk_prefix_def Let_def result_simps limit_defs Suc_le_eq)

lemma be_val_fields:
  "length v = 2 \<Longrightarrow> be_val v = VERSION \<longleftrightarrow> v = be_bytes 2 VERSION"
  "length v = 2 \<Longrightarrow> be_val v = RESERVED \<longleftrightarrow> v = be_bytes 2 RESERVED"
  "length v = 2 \<Longrightarrow> be_val v = EXPIRY_VERSION \<longleftrightarrow> v = be_bytes 2 EXPIRY_VERSION"
  by (simp_all add: be_bytes_iff store_consts)

lemma disk_fields_sound:
  assumes "disk_fields input rid (length input - CHECKSUM_BYTES) input = Inr (d, rest)"
    and len: "MIN_STATE_BYTES \<le> length input"
  shows "disk_state_ok d \<and> ds_root_id d = rid
    \<and> (\<exists>tail. rest = ds_accepted_bundle d @ tail \<and> length tail = 32)
    \<and> input = disk_prefix d @ rest"
proof -
  from assms(1) obtain root issued seen len where
    input: "input = MAGIC @ be_bytes 2 VERSION @ be_bytes 2 RESERVED @ root @ issued @ seen @ len @ rest"
    and lens: "length root = 32" "length issued = 8" "length seen = 8" "length len = 4"
    and root: "root = rid"
    and floors: "0 \<le> i64_of_be issued" "0 \<le> i64_of_be seen"
    and n: "1 \<le> be_val len" "be_val len \<le> MAX_BUNDLE_BYTES"
      "length input - length rest + be_val len = length input - CHECKSUM_BYTES"
    and d: "d = \<lparr> ds_root_id = root, ds_max_issued_at = i64_of_be issued,
        ds_max_wall_clock_seen = i64_of_be seen, ds_accepted_bundle = take (be_val len) rest \<rparr>"
    by (auto simp: disk_fields_def Let_def codec_simps be_val_fields ct_eq_iff split: if_splits)
  have "length rest = be_val len + 32"
    using n(3) lens len unfolding input by (simp add: store_consts)
  then have b: "length (ds_accepted_bundle d) = be_val len"
    by (simp add: d)
  have "in_i64 (i64_of_be issued) \<and> issued = i64_be (i64_of_be issued)"
    "in_i64 (i64_of_be seen) \<and> seen = i64_be (i64_of_be seen)"
    using i64_of_be_iff lens by blast+
  moreover have "len = be_bytes 4 (be_val len)"
    using be_bytes_be_val [OF lens(4)] by simp
  moreover have "rest = ds_accepted_bundle d @ drop (be_val len) rest"
    by (simp add: d)
  ultimately show ?thesis
    using input lens root floors n b \<open>length rest = be_val len + 32\<close>
    by (auto simp: disk_state_ok_def disk_prefix_def d
          intro!: exI [of _ "drop (be_val len) rest"])
qed

lemma decode_disk_iff:
  assumes "digest_size C"
  shows "decode_disk C b rid = Inr d \<longleftrightarrow> disk_state_ok d \<and> ds_root_id d = rid \<and> encode_disk C d = Inr b"
proof
  assume dec: "decode_disk C b rid = Inr d"
  then obtain rest where len: "MIN_STATE_BYTES \<le> length b"
    and sum: "state_checksum C (take (length b - CHECKSUM_BYTES) b) = drop (length b - CHECKSUM_BYTES) b"
    and fields: "disk_fields b rid (length b - CHECKSUM_BYTES) b = Inr (d, rest)"
    by (cases "disk_fields b rid (length b - CHECKSUM_BYTES) b")
      (auto simp: decode_disk_def Let_def result_simps ct_eq_iff)
  from disk_fields_sound [OF fields len] obtain tail where
    d: "disk_state_ok d" "ds_root_id d = rid" "length tail = 32"
      "b = disk_prefix d @ ds_accepted_bundle d @ tail"
    by auto
  have "length b - CHECKSUM_BYTES = length (disk_prefix d @ ds_accepted_bundle d)"
    using d(3,4) by (simp add: CHECKSUM_BYTES_def)
  with sum d(4) have "tail = state_checksum C (disk_prefix d @ ds_accepted_bundle d)"
    by (metis append.assoc append_eq_conv_conj)
  with d show "disk_state_ok d \<and> ds_root_id d = rid \<and> encode_disk C d = Inr b"
    by (auto simp: encode_disk_iff disk_state_ok_def)
next
  assume "disk_state_ok d \<and> ds_root_id d = rid \<and> encode_disk C d = Inr b"
  then have ok: "disk_state_ok d" and rid: "ds_root_id d = rid"
    and b: "b = disk_prefix d @ ds_accepted_bundle d @ state_checksum C (disk_prefix d @ ds_accepted_bundle d)"
    by (auto simp: encode_disk_iff)
  let ?n = "length (ds_accepted_bundle d)"
  have prefix: "length (disk_prefix d) = 64"
    using ok by (simp add: disk_prefix_def disk_state_ok_def)
  have len: "length b = 96 + ?n"
    using checksum_lengths [OF assms] by (simp add: b prefix)
  have floors: "i64_of_be (i64_be (ds_max_issued_at d)) = ds_max_issued_at d"
    "i64_of_be (i64_be (ds_max_wall_clock_seen d)) = ds_max_wall_clock_seen d"
    using ok by (simp_all add: i64_of_be_iff disk_state_ok_def)
  have n: "be_val (be_bytes 4 ?n) = ?n"
    using ok by (intro be_val_be_bytes) (simp add: disk_state_ok_def limit_defs)
  have "disk_fields b rid (length b - CHECKSUM_BYTES) (disk_prefix d @ rest) =
    Inr (d, rest)" if "rest = ds_accepted_bundle d @ state_checksum C (disk_prefix d @ ds_accepted_bundle d)"
    for rest
    using ok rid that checksum_lengths [OF assms]
    by (simp add: disk_fields_def disk_prefix_def bindP_apply be_val_fields ct_eq_iff floors n
          disk_state_ok_def Let_def len CHECKSUM_BYTES_def)
  then have "disk_fields b rid (length b - CHECKSUM_BYTES) b = Inr (d, drop 64 b)"
    by (simp add: b prefix)
  moreover have "take (length b - CHECKSUM_BYTES) b = disk_prefix d @ ds_accepted_bundle d"
    "drop (length b - CHECKSUM_BYTES) b = state_checksum C (disk_prefix d @ ds_accepted_bundle d)"
    using len prefix by (simp_all add: b CHECKSUM_BYTES_def)
  ultimately show "decode_disk C b rid = Inr d"
    using ok len
    by (simp add: decode_disk_def Let_def ct_eq_iff store_consts disk_state_ok_def limit_defs)
qed

definition expiry_body :: "expiry_checkpoint \<Rightarrow> bytes" where
  "expiry_body c = EXPIRY_MAGIC @ be_bytes 2 EXPIRY_VERSION @ be_bytes 2 RESERVED
     @ ex_root_id c @ ex_policy_hash c
     @ be_bytes 8 (unat (ex_policy_epoch c)) @ be_bytes 8 (unat (ex_sequence c))
     @ i64_be (ex_expires_at c)"

definition checkpoint_ok :: "expiry_checkpoint \<Rightarrow> bool" where
  "checkpoint_ok c \<longleftrightarrow>
     length (ex_root_id c) = 32 \<and> length (ex_policy_hash c) = 32
     \<and> 0 \<le> ex_expires_at c \<and> in_i64 (ex_expires_at c)"

lemma encode_expiry_iff:
  "encode_expiry C c = Inr b \<longleftrightarrow>
     0 \<le> ex_expires_at c \<and> b = expiry_body c @ expiry_checksum C (expiry_body c)"
  by (auto simp: encode_expiry_def expiry_body_def Let_def result_simps)

lemma be_val_u64:
  assumes "length v = 8"
  shows "be_bytes 8 (unat (word_of_nat (be_val v) :: u64)) = v"
proof -
  have "be_val v < 2 ^ 64"
    using be_val_bound [of v] assms by simp
  then have "unat (word_of_nat (be_val v) :: u64) = be_val v"
    by (simp add: unat_of_nat)
  then show ?thesis
    using be_bytes_be_val [OF assms] by simp
qed

lemma be_val_be_bytes_u64: "word_of_nat (be_val (be_bytes 8 (unat (w :: u64)))) = w"
proof -
  have "unat w < 2 ^ LENGTH(64)"
    by (rule unsigned_less)
  then show ?thesis
    by (simp add: be_val_be_bytes)
qed

lemma expiry_fields_sound:
  assumes "expiry_fields input rid n input = Inr (c, rest)"
  shows "checkpoint_ok c \<and> ex_root_id c = rid \<and> input = expiry_body c @ rest"
proof -
  from assms obtain root hash epoch sequence expires where
    input: "input = EXPIRY_MAGIC @ be_bytes 2 EXPIRY_VERSION @ be_bytes 2 RESERVED @ root @ hash
      @ epoch @ sequence @ expires @ rest"
    and lens: "length root = 32" "length hash = 32" "length epoch = 8" "length sequence = 8"
      "length expires = 8"
    and root: "root = rid" and pos: "0 \<le> i64_of_be expires"
    and c: "c = \<lparr> ex_root_id = root, ex_policy_hash = hash,
        ex_policy_epoch = word_of_nat (be_val epoch), ex_sequence = word_of_nat (be_val sequence),
        ex_expires_at = i64_of_be expires \<rparr>"
    by (auto simp: expiry_fields_def Let_def codec_simps be_val_fields ct_eq_iff split: if_splits)
  have "in_i64 (i64_of_be expires) \<and> expires = i64_be (i64_of_be expires)"
    using i64_of_be_iff lens(5) by blast
  with input lens root pos show ?thesis
    by (auto simp: checkpoint_ok_def expiry_body_def c be_val_u64)
qed

lemma decode_expiry_iff:
  assumes "digest_size C"
  shows "decode_expiry C b rid = Inr c \<longleftrightarrow> checkpoint_ok c \<and> ex_root_id c = rid \<and> encode_expiry C c = Inr b"
proof
  assume dec: "decode_expiry C b rid = Inr c"
  then obtain rest where len: "length b = 132"
    and sum: "expiry_checksum C (take 100 b) = drop 100 b"
    and fields: "expiry_fields b rid 100 b = Inr (c, rest)"
    by (cases "expiry_fields b rid 100 b")
      (auto simp: decode_expiry_def Let_def result_simps ct_eq_iff store_consts)
  from expiry_fields_sound [OF fields] have
    c: "checkpoint_ok c" "ex_root_id c = rid" "b = expiry_body c @ rest"
    by auto
  have "length (expiry_body c) = 100"
    using c(1) by (simp add: expiry_body_def checkpoint_ok_def)
  with sum c show "checkpoint_ok c \<and> ex_root_id c = rid \<and> encode_expiry C c = Inr b"
    by (auto simp: encode_expiry_iff checkpoint_ok_def)
next
  assume "checkpoint_ok c \<and> ex_root_id c = rid \<and> encode_expiry C c = Inr b"
  then have ok: "checkpoint_ok c" and rid: "ex_root_id c = rid"
    and b: "b = expiry_body c @ expiry_checksum C (expiry_body c)"
    by (auto simp: encode_expiry_iff)
  have body: "length (expiry_body c) = 100"
    using ok by (simp add: expiry_body_def checkpoint_ok_def)
  have len: "length b = 132"
    using checksum_lengths [OF assms] by (simp add: b body)
  have time: "i64_of_be (i64_be (ex_expires_at c)) = ex_expires_at c"
    using ok by (simp add: i64_of_be_iff checkpoint_ok_def)
  have "expiry_fields b rid 100 (expiry_body c @ rest) = Inr (c, rest)" if "length rest = 32" for rest
    using ok rid that
    by (simp add: expiry_fields_def expiry_body_def bindP_apply be_val_fields ct_eq_iff time
          checkpoint_ok_def Let_def len be_val_be_bytes_u64)
  then have "expiry_fields b rid 100 b = Inr (c, expiry_checksum C (expiry_body c))"
    using checksum_lengths [OF assms] by (simp add: b)
  then show "decode_expiry C b rid = Inr c"
    using len body by (simp add: decode_expiry_def Let_def ct_eq_iff store_consts b)
qed

section \<open>Reading back what was published\<close>

lemma read_bounded_fresh:
  assumes "validate_directory d' = Inr ()" and "ps_uid d' = ps_uid d" and "length b \<le> MAX_STATE_BYTES"
  shows "read_bounded d' (Some (fresh_file d b)) = Inr b"
  using assms
  by (simp add: read_bounded_def open_readonly_nofollow_def validate_file_def fresh_file_def
        STATE_MODE_def Let_def)

lemma read_bounded_cong:
  assumes "read_bounded d f = Inr b" and "validate_directory d' = Inr ()" and "ps_uid d' = ps_uid d"
  shows "read_bounded d' f = Inr b"
  using assms by (auto simp: read_bounded_def result_simps validate_file_def)

lemma read_bounded_present:
  assumes "validate_directory d = Inr ()"
  shows "read_bounded d f = Inl (Io IoNotFound) \<longleftrightarrow> f = None"
  using assms
  by (auto simp: read_bounded_def open_readonly_nofollow_def validate_file_def Let_def ensure_def
        bindR_def split: option.splits if_splits)

lemma validate_directory_cong:
  "ps_dir d' = ps_dir d \<Longrightarrow> ps_uid d' = ps_uid d \<Longrightarrow> validate_directory d' = validate_directory d"
  unfolding validate_directory_def by (simp only:)

lemma acquire_lock_directory: "acquire_lock d = Inr () \<Longrightarrow> validate_directory d = Inr ()"
  by (auto simp: acquire_lock_def result_simps)

lemma sys_call_eq_Inr [result_simps]: "sys_call io c = Inr () \<longleftrightarrow> \<not> io_fails io c"
  by (simp add: sys_call_def ensure_def)

definition no_io_fault :: "store_io \<Rightarrow> bool" where
  "no_io_fault io \<longleftrightarrow> (\<forall>c. \<not> io_fails io c) \<and> (\<exists>n < 32. \<not> io_taken io n)"

lemma create_temp_quiet: "\<forall>c. \<not> io_fails io c \<Longrightarrow> \<exists>i < n. \<not> io_taken io i \<Longrightarrow> create_temp io n = Inr ()"
  by (induction n) (auto simp: sys_call_def ensure_def less_Suc_eq)

lemma create_temp_error: "create_temp io n = Inl e \<Longrightarrow> e = Io IoOther \<or> e = Refused TempNameLimit"
  by (induction n) (auto simp: sys_call_def ensure_def bindR_def split: if_splits sum.splits)

lemma fresh_file_valid: "validate_file d (fresh_file d []) = Inr ()"
  by (simp add: validate_file_def fresh_file_def STATE_MODE_def)

lemma stage_eq_Inr:
  assumes "stage io d b = Inr f"
  shows "length b \<le> MAX_STATE_BYTES \<and> validate_directory d = Inr () \<and> f = fresh_file d b"
  using assms by (auto simp: stage_def result_simps)

lemma stage_quiet:
  assumes "no_io_fault io" "length b \<le> MAX_STATE_BYTES" "validate_directory d = Inr ()"
  shows "stage io d b = Inr (fresh_file d b)"
  using assms create_temp_quiet [of io 32] fresh_file_valid
  by (simp add: stage_def no_io_fault_def sys_call_def ensure_def)

lemma stage_error:
  assumes "stage io d b = Inl e" "length b \<le> MAX_STATE_BYTES" "validate_directory d = Inr ()"
  shows "e = Io IoOther \<or> e = Refused TempNameLimit"
  using assms create_temp_error [of io 32 e] fresh_file_valid
  by (auto simp: stage_def sys_call_def ensure_def bindR_def split: if_splits sum.splits)

text \<open>A write that does not succeed leaves the old file, or the new one when only the directory sync
failed; without a failing call it succeeds.\<close>

lemma publish_outcome:
  assumes "length b \<le> MAX_STATE_BYTES" "validate_directory d = Inr ()" "\<not> replacing \<Longrightarrow> ps_state d = None"
    and "publish io d b replacing = (d', r)"
  shows "d' = d \<and> r \<in> {Inl (Io IoOther), Inl (Refused TempNameLimit)}
    \<or> d' = d \<lparr> ps_state := Some (fresh_file d b) \<rparr> \<and> r = sync_parent io"
    and "no_io_fault io \<Longrightarrow> d' = d \<lparr> ps_state := Some (fresh_file d b) \<rparr> \<and> r = Inr ()"
proof -
  have "d' = d \<and> r \<in> {Inl (Io IoOther), Inl (Refused TempNameLimit)}
    \<or> d' = d \<lparr> ps_state := Some (fresh_file d b) \<rparr> \<and> r = sync_parent io
    \<and> stage io d b = Inr (fresh_file d b)"
  proof (cases "stage io d b")
    case (Inl e)
    with stage_error [OF Inl assms(1,2)] assms(4) show ?thesis
      by (auto simp: publish_def)
  next
    case (Inr f)
    with stage_eq_Inr [OF Inr] assms(3,4) show ?thesis
      by (cases replacing; cases "io_fails io PublishRename")
        (auto simp: publish_def publish_noreplace_def sys_call_def ensure_def)
  qed
  then show "d' = d \<and> r \<in> {Inl (Io IoOther), Inl (Refused TempNameLimit)}
    \<or> d' = d \<lparr> ps_state := Some (fresh_file d b) \<rparr> \<and> r = sync_parent io"
    by blast
  assume "no_io_fault io"
  with stage_quiet [OF this assms(1,2)] assms(3,4)
  show "d' = d \<lparr> ps_state := Some (fresh_file d b) \<rparr> \<and> r = Inr ()"
    by (cases replacing)
      (auto simp: publish_def publish_noreplace_def sync_parent_def sys_call_def ensure_def no_io_fault_def)
qed

lemma published_reads_back:
  assumes "length b \<le> MAX_STATE_BYTES" "validate_directory d = Inr ()"
    and "d' = d \<lparr> ps_state := Some (fresh_file d b) \<rparr>"
  shows "read_bounded d' (ps_state d') = Inr b" and "validate_directory d' = Inr ()"
proof -
  show dir: "validate_directory d' = Inr ()"
    using assms(2,3) validate_directory_cong [of d' d] by simp
  then show "read_bounded d' (ps_state d') = Inr b"
    using assms(1) by (simp add: assms(3) read_bounded_fresh)
qed

lemma publish_reads_back:
  assumes "publish io d b replacing = (d', Inr ())"
  shows "read_bounded d' (ps_state d') = Inr b" and "ps_expiry d' = ps_expiry d"
    and "ps_dir d' = ps_dir d" and "ps_uid d' = ps_uid d" and "ps_lease d' = ps_lease d"
    and "validate_directory d' = Inr ()"
proof -
  from assms obtain f where f: "stage io d b = Inr f" and d': "d' = d \<lparr> ps_state := Some f \<rparr>"
    by (auto simp: publish_def publish_noreplace_def result_simps split: if_splits option.splits)
  note b = stage_eq_Inr [OF f]
  with d' show "ps_expiry d' = ps_expiry d" "ps_dir d' = ps_dir d" "ps_uid d' = ps_uid d"
    "ps_lease d' = ps_lease d"
    by simp_all
  show "read_bounded d' (ps_state d') = Inr b" "validate_directory d' = Inr ()"
    using published_reads_back [of b d d'] b d' by simp_all
qed

text \<open>The result of verification does not depend on the time of verification.\<close>

lemma verify_keyset_artifact_time:
  assumes "verify_keyset_artifact M C s root t1 = Inr a" and "verify_keyset_artifact M C s root t2 = Inr b"
  shows "a = b"
  using assms by (auto simp: verify_keyset_artifact_def result_simps)

lemma verify_bundle_time:
  assumes "verify_bundle M C input root t1 = Inr a" and "verify_bundle M C input root t2 = Inr b"
  shows "a = b"
proof -
  from assms(1) obtain bd vk k p where a: "decode_bundle M input = Inr bd"
      "verify_keyset_artifact M C (keyset_sign1 bd) root t1 = Inr vk"
      "List.find (\<lambda>key. key_kid key = vb_signer_kid a) (ks_keys (vk_keyset vk)) = Some k"
      "verify_sign1 M C (policy_sign1 bd) CtEndpointPolicy (vb_signer_kid a)
            (key_ed25519_public_key k) = Inr p"
      "decode_policy_payload M p = Inr (vb_policy a)"
      "build_verified_plan (vb_policy a) = Inr (vb_plan a)"
      "vb_policy_hash a = policy_payload_hash C p"
      "vk = \<lparr> vk_root_id = vb_root_id a, vk_keyset = vb_keyset a, vk_payload_hash = vb_keyset_hash a \<rparr>"
    unfolding verify_bundle_eq_Inr by blast
  from assms(2) obtain bd' vk' k' p' where b: "decode_bundle M input = Inr bd'"
      "verify_keyset_artifact M C (keyset_sign1 bd') root t2 = Inr vk'"
      "List.find (\<lambda>key. key_kid key = vb_signer_kid b) (ks_keys (vk_keyset vk')) = Some k'"
      "verify_sign1 M C (policy_sign1 bd') CtEndpointPolicy (vb_signer_kid b)
            (key_ed25519_public_key k') = Inr p'"
      "decode_policy_payload M p' = Inr (vb_policy b)"
      "build_verified_plan (vb_policy b) = Inr (vb_plan b)"
      "vb_policy_hash b = policy_payload_hash C p'"
      "vk' = \<lparr> vk_root_id = vb_root_id b, vk_keyset = vb_keyset b, vk_payload_hash = vb_keyset_hash b \<rparr>"
    unfolding verify_bundle_eq_Inr by blast
  have bd: "bd' = bd"
    using a(1) b(1) by simp
  then have vk: "vk' = vk"
    using verify_keyset_artifact_time [OF a(2)] b(2) by simp
  have kid: "vb_signer_kid b = vb_signer_kid a"
    using verify_sign1_inspect [OF a(4)] verify_sign1_inspect [OF b(4)] by (auto simp: bd)
  then have k: "k' = k"
    using a(3) b(3) vk by simp
  then have p: "p' = p"
    using a(4) b(4) bd kid by simp
  then have pol: "vb_policy b = vb_policy a"
    using a(5) b(5) by simp
  then show ?thesis
    using a(6,7,8) b(6,7,8) p vk kid by (cases a; cases b) simp
qed

section \<open>Store operations refine policy steps\<close>

lemma policy_ctx_eq_Inr [result_simps]: "policy_ctx r = Inr x \<longleftrightarrow> r = Inr x"
  by (cases r) (auto simp: policy_ctx_def)

lemma load_anchor_Some_iff:
  "load_anchor M C d root = Inr (Some s) \<longleftrightarrow>
     (\<exists>b disk. read_bounded d (ps_state d) = Inr b
        \<and> decode_disk C b (store_root_id C root) = Inr disk
        \<and> verify_bundle M C (ds_accepted_bundle disk) root (ds_max_wall_clock_seen disk)
            = Inr (st_accepted s)
        \<and> max (ks_issued_at (vb_keyset (st_accepted s))) (pol_issued_at (vb_policy (st_accepted s)))
            \<le> ds_max_issued_at disk
        \<and> st_max_issued_at s = ds_max_issued_at disk
        \<and> st_max_wall_clock_seen s = ds_max_wall_clock_seen disk)"
  by (cases s)
    (auto simp: load_anchor_def result_simps Let_def split: sum.splits store_error.splits
      io_kind.splits)

lemma load_anchor_None:
  assumes "load_anchor M C d root = Inr None"
  shows "read_bounded d (ps_state d) = Inl (Io IoNotFound)"
  using assms
  by (auto simp: load_anchor_def result_simps Let_def split: sum.splits store_error.splits
      io_kind.splits)

lemma store_update_eq_Inr:
  "store_update M C io d root input now = (d', Inr t) \<longleftrightarrow>
     acquire_lock d = Inr ()
     \<and> (\<exists>s vb. load_anchor M C d root = Inr (Some s) \<and> verify_bundle M C input root now = Inr vb
        \<and> ensure_not_tombstoned C d root vb = Inr ()
        \<and> apply_verified_update (Some s) vb now = Inr t
        \<and> persist_transition C io d root input t True = (d', Inr ()))"
  by (auto simp: store_update_def result_simps ok_or_eq_Inr)

lemma store_enroll_eq_Inr:
  "store_enroll M C io d root input now = (d', Inr t) \<longleftrightarrow>
     acquire_lock d = Inr () \<and> load_anchor M C d root = Inr None
     \<and> (\<exists>vb. verify_bundle M C input root now = Inr vb
        \<and> ensure_not_tombstoned C d root vb = Inr ()
        \<and> apply_verified_update None vb now = Inr t
        \<and> persist_transition C io d root input t False = (d', Inr ()))"
  by (auto simp: store_enroll_def result_simps)

text \<open>While there is a state file, whatever it contains, \<open>enroll\<close> stops before it writes.\<close>

lemma store_enroll_refused:
  assumes "ps_state d \<noteq> None"
  shows "\<exists>err. store_enroll M C io d root input now = (d, Inl err)"
proof (cases "acquire_lock d")
  case (Inr u)
  then have "validate_directory d = Inr ()"
    by (simp add: acquire_lock_directory)
  then have "load_anchor M C d root \<noteq> Inr None"
    using load_anchor_None [of M C d root] read_bounded_present [of d "ps_state d"] assms by auto
  then show ?thesis
    by (cases "load_anchor M C d root") (auto simp: store_enroll_def Inr ensure_def)
qed (simp add: store_enroll_def)

lemma anchor_in_range:
  assumes "digest_size C" "load_anchor M C d root = Inr (Some s)"
  shows "in_i64 (st_max_wall_clock_seen s)" "in_i64 (st_max_issued_at s)"
  using assms(2) by (auto simp: load_anchor_Some_iff decode_disk_iff [OF assms(1)] disk_state_ok_def)

lemma persisted_disk:
  assumes "digest_size C"
    and per: "persist_transition C io d root input t replacing = (d', Inr ())"
    and now: "in_i64 (st_max_wall_clock_seen (transition_state t))"
      "in_i64 (st_max_issued_at (transition_state t))"
  shows "\<exists>b. read_bounded d' (ps_state d') = Inr b
    \<and> decode_disk C b (store_root_id C root) = Inr \<lparr> ds_root_id = store_root_id C root,
        ds_max_issued_at = st_max_issued_at (transition_state t),
        ds_max_wall_clock_seen = st_max_wall_clock_seen (transition_state t),
        ds_accepted_bundle = input \<rparr>"
proof -
  let ?s = "transition_state t"
  let ?disk = "\<lparr> ds_root_id = store_root_id C root, ds_max_issued_at = st_max_issued_at ?s,
        ds_max_wall_clock_seen = st_max_wall_clock_seen ?s, ds_accepted_bundle = input \<rparr>"
  from per obtain b where b: "encode_disk C ?disk = Inr b" "publish io d b replacing = (d', Inr ())"
    by (auto simp: persist_transition_def Let_def result_simps)
  then have "disk_state_ok ?disk"
    using now checksum_lengths [OF assms(1)] by (auto simp: encode_disk_iff disk_state_ok_def)
  with b(1) have "decode_disk C b (store_root_id C root) = Inr ?disk"
    by (simp add: decode_disk_iff [OF assms(1)])
  with publish_reads_back(1) [OF b(2)] show ?thesis
    by blast
qed

lemma persisted_reloads:
  assumes "digest_size C"
    and per: "persist_transition C io d root input t replacing = (d', Inr ())"
    and now: "in_i64 (st_max_wall_clock_seen (transition_state t))"
      "in_i64 (st_max_issued_at (transition_state t))"
    and ver: "verify_bundle M C input root (st_max_wall_clock_seen (transition_state t))
      = Inr (st_accepted (transition_state t))"
    and issued: "st_max_issued_at (transition_state t) =
      max (ks_issued_at (vb_keyset (st_accepted (transition_state t))))
        (pol_issued_at (vb_policy (st_accepted (transition_state t))))"
  shows "load_anchor M C d' root = Inr (Some (transition_state t))"
  using persisted_disk [OF assms(1-4)] ver issued by (auto simp: load_anchor_Some_iff)

lemma persisted_lost:
  assumes "digest_size C"
    and "persist_transition C io d root input t replacing = (d', Inr ())"
    and "in_i64 (st_max_wall_clock_seen (transition_state t))"
      "in_i64 (st_max_issued_at (transition_state t))"
    and lost: "\<And>vb. verify_bundle M C input root (st_max_wall_clock_seen (transition_state t)) \<noteq> Inr vb"
  shows "load_anchor M C d' root \<noteq> Inr anchor"
proof
  assume load: "load_anchor M C d' root = Inr anchor"
  from persisted_disk [OF assms(1-4)] obtain b where
    b: "read_bounded d' (ps_state d') = Inr b"
      "decode_disk C b (store_root_id C root) = Inr \<lparr> ds_root_id = store_root_id C root,
        ds_max_issued_at = st_max_issued_at (transition_state t),
        ds_max_wall_clock_seen = st_max_wall_clock_seen (transition_state t),
        ds_accepted_bundle = input \<rparr>"
    by blast
  from load b lost show False
    by (auto simp: load_anchor_def result_simps)
qed

lemma in_i64_max: "in_i64 a \<Longrightarrow> in_i64 b \<Longrightarrow> in_i64 (max a b)"
  by (simp add: max_def)

context cbor_codec
begin

lemma verified_issued_range:
  assumes "verify_bundle M C input root now = Inr vb" and "in_i64 now"
  shows "in_i64 (max (ks_issued_at (vb_keyset vb)) (pol_issued_at (vb_policy vb)))"
proof -
  have "bundle_authentic M C input root now vb"
    using assms by (simp add: verify_bundle_iff)
  then have "keyset_typed (vb_keyset vb)" "policy_typed (vb_policy vb)"
    by (auto simp: bundle_authentic_def keyset_authentic_def policy_authentic_def)
  then show ?thesis
    by (intro in_i64_max) (simp_all add: keyset_typed_def policy_typed_def)
qed

lemma enroll_reloads:
  assumes "digest_size C" and now: "in_i64 now"
    and "store_enroll M C io d root input now = (d', Inr t)"
  shows "load_anchor M C d' root = Inr (Some (transition_state t))"
    and "policy_step M C root None (transition_state t)"
proof -
  from assms(3) obtain vb where vb: "verify_bundle M C input root now = Inr vb"
      "apply_verified_update None vb now = Inr t"
      "persist_transition C io d root input t False = (d', Inr ())"
    by (auto simp: store_enroll_eq_Inr)
  note acc = policy_step_accepts [OF vb(2)]
  from vb(2) have wall: "st_max_wall_clock_seen (transition_state t) = now"
    by (auto simp: apply_verified_update_None_iff)
  show "load_anchor M C d' root = Inr (Some (transition_state t))"
    using verified_issued_range [OF vb(1) now] now vb(1)
    by (intro persisted_reloads [OF assms(1) vb(3)]) (simp_all add: acc(1,3) wall)
  show "policy_step M C root None (transition_state t)"
    using now vb(1,2) by (rule policy_step)
qed

lemma update_refines:
  assumes "digest_size C" and now: "in_i64 now"
    and "store_update M C io d root input now = (d', Inr t)"
  obtains s where "load_anchor M C d root = Inr (Some s)"
    and "policy_step M C root (Some s) (transition_state t)"
    and "st_max_wall_clock_seen s \<le> now \<Longrightarrow>
      load_anchor M C d' root = Inr (Some (transition_state t))"
proof -
  from assms(3) obtain s vb where s: "load_anchor M C d root = Inr (Some s)"
      and vb: "verify_bundle M C input root now = Inr vb"
      "apply_verified_update (Some s) vb now = Inr t"
      "persist_transition C io d root input t True = (d', Inr ())"
    by (auto simp: store_update_eq_Inr)
  note acc = policy_step_accepts [OF vb(2)]
  have "load_anchor M C d' root = Inr (Some (transition_state t))"
    if "st_max_wall_clock_seen s \<le> now"
  proof -
    have wall: "st_max_wall_clock_seen (transition_state t) = now"
      using vb(2) that by (auto simp: apply_verified_update_Some_iff next_state_def split: if_splits)
    show ?thesis
      using verified_issued_range [OF vb(1) now] now vb(1)
      by (intro persisted_reloads [OF assms(1) vb(3)]) (simp_all add: acc(1,3) wall)
  qed
  with s policy_step [OF now vb(1,2)] show ?thesis
    by (rule that)
qed

end

section \<open>Retirement\<close>

lemma load_expiry_Some_iff:
  "load_expiry C d root = Inr (Some c) \<longleftrightarrow>
     (\<exists>b. read_bounded d (ps_expiry d) = Inr b \<and> decode_expiry C b (store_root_id C root) = Inr c)"
  by (auto simp: load_expiry_def result_simps split: sum.splits store_error.splits io_kind.splits)

lemma checkpoint_written:
  assumes "digest_size C" and chk: "checkpoint_expired M C io d root c = (d', Inr ())" and c: "in_i64 (ex_expires_at c)"
    "length (ex_policy_hash c) = 32"
    and later: "validate_directory e = Inr ()" "ps_uid e = ps_uid d'" "ps_expiry e = ps_expiry d'"
  shows "load_expiry C e root = Inr (Some c)"
proof -
  from chk obtain existing where root: "ex_root_id c = store_root_id C root"
    and ex: "load_expiry C d root = Inr existing"
    and wr: "existing = Some c \<and> d' = d
      \<or> (\<exists>b pending. encode_expiry C c = Inr b \<and> stage io d b = Inr pending
            \<and> d' = d \<lparr> ps_expiry := Some pending \<rparr>)"
    by (auto simp: checkpoint_expired_def result_simps ok_or_eq_Inr ct_eq_iff split: if_splits)
  from ex wr have cases: "load_expiry C d root = Inr (Some c) \<and> d' = d
      \<or> (\<exists>b. encode_expiry C c = Inr b \<and> length b \<le> MAX_STATE_BYTES
            \<and> d' = d \<lparr> ps_expiry := Some (fresh_file d b) \<rparr>)"
    using stage_eq_Inr [of io d] by blast
  from cases show ?thesis
  proof
    assume old: "load_expiry C d root = Inr (Some c) \<and> d' = d"
    then obtain b where "read_bounded d (ps_expiry d) = Inr b"
      "decode_expiry C b (store_root_id C root) = Inr c"
      unfolding load_expiry_Some_iff by blast
    moreover from this(1) have "read_bounded e (ps_expiry d) = Inr b"
      by (rule read_bounded_cong) (use later(1,2) old in simp_all)
    ultimately show ?thesis
      unfolding load_expiry_Some_iff later(3) using old by blast
  next
    assume "\<exists>b. encode_expiry C c = Inr b \<and> length b \<le> MAX_STATE_BYTES
            \<and> d' = d \<lparr> ps_expiry := Some (fresh_file d b) \<rparr>"
    then obtain b where b: "encode_expiry C c = Inr b" "length b \<le> MAX_STATE_BYTES"
      and d': "d' = d \<lparr> ps_expiry := Some (fresh_file d b) \<rparr>"
      by blast
    have "decode_expiry C b (store_root_id C root) = Inr c"
      using b(1) root c checksum_lengths [OF assms(1)]
      by (auto simp: decode_expiry_iff [OF assms(1)] checkpoint_ok_def encode_expiry_iff)
    moreover have "read_bounded e (ps_expiry e) = Inr b"
      using later b(2) by (simp add: d' read_bounded_fresh)
    ultimately show ?thesis
      unfolding load_expiry_Some_iff by blast
  qed
qed

lemma tombstoned_rejected:
  assumes "load_expiry C d root = Inr (Some c)" and "ensure_not_tombstoned C d root vb = Inr ()"
  shows "vb_policy_hash vb \<noteq> ex_policy_hash c"
  using assms by (auto simp: ensure_not_tombstoned_def ct_eq_iff result_simps Let_def split: if_splits)

lemma store_accepts_untombstoned:
  "load_active M C d root now = Inr s \<Longrightarrow>
     validate_directory d = Inr () \<and> ensure_not_tombstoned C d root (st_accepted s) = Inr ()"
  "store_update M C io d root input now = (d', Inr t) \<Longrightarrow>
     validate_directory d = Inr ()
     \<and> ensure_not_tombstoned C d root (st_accepted (transition_state t)) = Inr ()"
  "store_enroll M C io d root input now = (d', Inr t) \<Longrightarrow>
     validate_directory d = Inr ()
     \<and> ensure_not_tombstoned C d root (st_accepted (transition_state t)) = Inr ()"
  by (auto simp: load_active_def store_update_eq_Inr store_enroll_eq_Inr result_simps Let_def
        policy_step_accepts dest: acquire_lock_directory)

section \<open>Progress\<close>

lemma persist_outcome:
  assumes "digest_size C" and dir: "validate_directory d = Inr ()"
    and floors: "0 \<le> st_max_issued_at (transition_state t)" "0 \<le> st_max_wall_clock_seen (transition_state t)"
    and range: "in_i64 (st_max_wall_clock_seen (transition_state t))" "in_i64 (st_max_issued_at (transition_state t))"
    and size: "1 \<le> length input" "length input \<le> MAX_BUNDLE_BYTES"
    and free: "\<not> replacing \<Longrightarrow> ps_state d = None"
    and run: "persist_transition C io d root input t replacing = (d', r)"
  shows "d' = d \<and> r \<in> {Inl (Io IoOther), Inl (Refused TempNameLimit)}
    \<or> r = sync_parent io \<and> d' = d \<lparr> ps_state := ps_state d' \<rparr>
      \<and> (\<exists>b. read_bounded d' (ps_state d') = Inr b
          \<and> decode_disk C b (store_root_id C root) = Inr \<lparr> ds_root_id = store_root_id C root,
              ds_max_issued_at = st_max_issued_at (transition_state t),
              ds_max_wall_clock_seen = st_max_wall_clock_seen (transition_state t),
              ds_accepted_bundle = input \<rparr>)"
    and "no_io_fault io \<Longrightarrow> r = Inr ()"
proof -
  let ?disk = "\<lparr> ds_root_id = store_root_id C root,
      ds_max_issued_at = st_max_issued_at (transition_state t),
      ds_max_wall_clock_seen = st_max_wall_clock_seen (transition_state t),
      ds_accepted_bundle = input \<rparr>"
  obtain b where b: "encode_disk C ?disk = Inr b"
    using floors size by (simp add: encode_disk_iff)
  then have len: "length b \<le> MAX_STATE_BYTES"
    using checksum_lengths [OF assms(1)] size
    by (auto simp: encode_disk_iff disk_prefix_def store_consts)
  have "disk_state_ok ?disk"
    using b range checksum_lengths [OF assms(1)] by (auto simp: encode_disk_iff disk_state_ok_def)
  with b have dec: "decode_disk C b (store_root_id C root) = Inr ?disk"
    by (simp add: decode_disk_iff [OF assms(1)])
  have pub: "publish io d b replacing = (d', r)"
    using run b by (simp add: persist_transition_def Let_def)
  from publish_outcome(1) [OF len dir free pub] dec published_reads_back(1) [OF len dir, of d']
  show "d' = d \<and> r \<in> {Inl (Io IoOther), Inl (Refused TempNameLimit)}
    \<or> r = sync_parent io \<and> d' = d \<lparr> ps_state := ps_state d' \<rparr>
      \<and> (\<exists>b. read_bounded d' (ps_state d') = Inr b
          \<and> decode_disk C b (store_root_id C root) = Inr ?disk)"
    by auto
  show "r = Inr ()" if "no_io_fault io"
    using publish_outcome(2) [OF len dir free pub that] by simp
qed

context cbor_codec
begin

lemma enc_map_nonempty: "enc_map M n \<noteq> []"
proof
  assume "enc_map M n = []"
  then have "dec_map M (enc_map M (n + 1)) = Some (Some n, enc_map M (n + 1))"
    using map_of_map [of n "enc_map M (n + 1)"] by simp
  moreover have "dec_map M (enc_map M (n + 1)) = Some (Some (n + 1), [])"
    using map_of_map [of "n + 1" "[]"] by simp
  ultimately show False
    by simp
qed

lemma verified_bundle_size:
  assumes "verify_bundle M C input root now = Inr vb"
  shows "1 \<le> length input" and "length input \<le> MAX_BUNDLE_BYTES"
proof -
  from assms obtain bd where "encode_bundle M bd = Inr input"
    by (auto simp: verify_bundle_eq_Inr dest: decode_bundle_canonical)
  then show "1 \<le> length input" "length input \<le> MAX_BUNDLE_BYTES"
    using enc_map_nonempty [of 3]
    by (auto simp: encode_bundle_iff encode_bundle_fields_def Suc_le_eq)
qed

lemma verified_nonneg:
  assumes "verify_bundle M C input root now = Inr vb" and "in_i64 now"
  shows "0 \<le> ks_issued_at (vb_keyset vb)" and "0 \<le> now"
proof -
  have "bundle_authentic M C input root now vb"
    using assms by (simp add: verify_bundle_iff)
  then have "keyset_valid (vb_keyset vb) now"
    by (auto simp: bundle_authentic_def keyset_authentic_def)
  then show "0 \<le> ks_issued_at (vb_keyset vb)" "0 \<le> now"
    by (auto simp: keyset_valid_def window_ok_def)
qed

lemma accepted_outcome:
  assumes "digest_size C" and "validate_directory d = Inr ()" and now: "in_i64 now"
    and prev: "\<And>p. s = Some p \<Longrightarrow> in_i64 (st_max_wall_clock_seen p) \<and> in_i64 (st_max_issued_at p)"
    and ver: "verify_bundle M C input root now = Inr vb"
    and app: "apply_verified_update s vb now = Inr t"
    and free: "\<not> replacing \<Longrightarrow> ps_state d = None"
    and run: "persist_transition C io d root input t replacing = (d', r)"
  shows "d' = d \<and> r \<in> {Inl (Io IoOther), Inl (Refused TempNameLimit)}
    \<or> r = sync_parent io \<and> d' = d \<lparr> ps_state := ps_state d' \<rparr>
      \<and> (\<exists>b. read_bounded d' (ps_state d') = Inr b
          \<and> decode_disk C b (store_root_id C root) = Inr \<lparr> ds_root_id = store_root_id C root,
              ds_max_issued_at = st_max_issued_at (transition_state t),
              ds_max_wall_clock_seen = st_max_wall_clock_seen (transition_state t),
              ds_accepted_bundle = input \<rparr>)"
    and "no_io_fault io \<Longrightarrow> r = Inr ()"
proof -
  have floors: "0 \<le> st_max_issued_at (transition_state t)" "0 \<le> st_max_wall_clock_seen (transition_state t)"
    using verified_nonneg [OF ver now] policy_step_accepts(2,3) [OF app] by auto
  have range: "in_i64 (st_max_wall_clock_seen (transition_state t))" "in_i64 (st_max_issued_at (transition_state t))"
    using verified_issued_range [OF ver now] policy_step_accepts(3) [OF app] now app prev
    by (cases s; auto simp: apply_verified_update_None_iff apply_verified_update_Some_iff next_state_def in_i64_max
        split: if_splits)+
  note out = persist_outcome [OF assms(1,2) floors range verified_bundle_size [OF ver] free run]
  show "d' = d \<and> r \<in> {Inl (Io IoOther), Inl (Refused TempNameLimit)}
    \<or> r = sync_parent io \<and> d' = d \<lparr> ps_state := ps_state d' \<rparr>
      \<and> (\<exists>b. read_bounded d' (ps_state d') = Inr b
          \<and> decode_disk C b (store_root_id C root) = Inr \<lparr> ds_root_id = store_root_id C root,
              ds_max_issued_at = st_max_issued_at (transition_state t),
              ds_max_wall_clock_seen = st_max_wall_clock_seen (transition_state t),
              ds_accepted_bundle = input \<rparr>)"
    by (rule out(1))
  show "no_io_fault io \<Longrightarrow> r = Inr ()"
    by (rule out(2))
qed

end

end
