(* ===== verification/Store_Properties.thy ===== *)
theory Store_Properties
  imports Policy_Store
begin

text \<open>
  The properties of the durable policy store: what is published is loaded back, enrollment is
  one-time, a failed write leaves the old state or the complete new one, a retired policy stays
  retired, and the one way the store can lock itself out.
\<close>

definition sample_store :: policy_store where
  "sample_store = \<lparr> ps_uid = 0, ps_dir = Some \<lparr> de_is_dir = True, de_uid = 0, de_mode = 448 \<rparr>,
     ps_lease = LeaseFree, ps_state = None, ps_expiry = None \<rparr>"

lemma sample_digest: "digest_size sample_crypto"
  by (simp add: digest_size_def sample_crypto_def)

lemma sample_store_ok:
  "validate_directory sample_store = Inr ()" "acquire_lock sample_store = Inr ()"
  "load_anchor M C sample_store root = Inr None" "load_expiry C sample_store root = Inr None"
  by (simp_all add: sample_store_def acquire_lock_def validate_directory_def DIRECTORY_MODE_def
        load_anchor_def load_expiry_def read_bounded_def open_readonly_nofollow_def)

lemma store_times: "in_i64 4900" "in_i64 5000"
  by (simp_all add: i64_defs)

lemma store_bundles:
  "\<exists>input. verify_bundle rfc8949 sample_crypto input sample_root 5000
     = Inr (sample_verified sample_genesis)"
  "\<exists>input. verify_bundle rfc8949 sample_crypto input sample_root 4900
     = Inr (sample_verified sample_short)"
  unfolding rfc.verify_bundle_iff [OF store_times(1)] rfc.verify_bundle_iff [OF store_times(2)]
  by (rule sample_authentic [OF sample_policies_ok(1,8) sample_keyset_ok(5) policies_encode(1,3)],
      simp_all add: sample_genesis_def)
    (rule sample_authentic [OF sample_policies_ok(6,7) sample_keyset_ok(4) policies_encode(5,6)],
      simp_all add: sample_short_def sample_genesis_def)

lemma store_live:
  "ensure_live_at_apply (sample_verified sample_genesis) 5000 = Inr ()"
  "ensure_live_at_apply (sample_verified sample_short) 4900 = Inr ()"
  using store_bundles sample_keyset_ok(1) sample_policies_ok(1,6) store_times
  by (auto simp: ensure_live_at_apply_iff rfc.verify_bundle_iff sample_verified_def
        intro: verified_live)

lemma store_enroll_applies:
  "apply_verified_update None (sample_verified sample_genesis) 5000
     = Inr (Applied (sample_state sample_genesis 5000))"
  using store_live(1)
  by (simp add: apply_verified_update_None_iff)
    (simp add: sample_verified_def sample_state_def sample_defs)

text \<open>The short-lived successor, accepted at 4900 after the clock had reached 5000.\<close>

lemma store_short_applies:
  "apply_verified_update (Some (sample_state sample_genesis 5000)) (sample_verified sample_short)
     4900 = Inr (Applied (sample_state sample_short 5000))"
proof -
  have "policy_advances sample_genesis sample_policy_hash sample_short"
    by (simp add: policy_advances_def coordinate_next_def validate_pin_rotation_iff pins_rotate_def
          pin_rotates_def sample_defs limit_defs i64_defs)
  then have "check_policy_coordinate (sample_verified sample_genesis)
      (sample_verified sample_short) = Inr True"
    by (simp add: check_policy_coordinate_iff sample_verified_def)
  moreover have "check_keyset_coordinate (sample_verified sample_genesis)
      (sample_verified sample_short) = Inr False"
    by (simp add: check_keyset_coordinate_def check_keyset_coordinate_parts_iff sample_verified_def)
  ultimately show ?thesis
    using store_live(2)
    by (simp add: apply_verified_update_Some_iff sample_state_def next_state_def)
      (auto simp: sample_verified_def sample_defs i64_saturating_add_def limit_defs i64_defs)
qed

lemma no_tombstone:
  assumes "ps_expiry d = None" and "validate_directory d = Inr ()"
  shows "ensure_not_tombstoned C d root vb = Inr ()"
  using assms
  by (simp add: ensure_not_tombstoned_def load_expiry_def read_bounded_def open_readonly_nofollow_def)

text \<open>A file system on which nothing fails.\<close>

definition quiet_io :: store_io where
  "quiet_io = \<lparr> io_fails = (\<lambda>_. False), io_taken = (\<lambda>_. False) \<rparr>"

lemma quiet_io_ok: "no_io_fault quiet_io"
  by (auto simp: no_io_fault_def quiet_io_def intro: exI [of _ 0])

lemma enrolled_at:
  assumes now: "in_i64 n"
    and "\<exists>input. verify_bundle rfc8949 sample_crypto input sample_root n = Inr (sample_verified sample_genesis)"
    and app: "apply_verified_update None (sample_verified sample_genesis) n
      = Inr (Applied (sample_state sample_genesis n))"
  obtains input d where
    "store_enroll rfc8949 sample_crypto quiet_io sample_store sample_root input n
       = (d, Inr (Applied (sample_state sample_genesis n)))"
    "load_anchor rfc8949 sample_crypto d sample_root = Inr (Some (sample_state sample_genesis n))"
    "acquire_lock d = Inr ()" "validate_directory d = Inr ()" "ps_expiry d = None"
proof -
  from assms(2) obtain input where
    ver: "verify_bundle rfc8949 sample_crypto input sample_root n = Inr (sample_verified sample_genesis)" ..
  obtain d r where run: "persist_transition sample_crypto quiet_io sample_store sample_root input
      (Applied (sample_state sample_genesis n)) False = (d, r)"
    by fastforce
  have "r = Inr ()"
    by (rule rfc.accepted_outcome(2) [OF sample_digest sample_store_ok(1) now _ ver app _ run quiet_io_ok])
      (simp_all add: sample_store_def)
  with run have per: "persist_transition sample_crypto quiet_io sample_store sample_root input
      (Applied (sample_state sample_genesis n)) False = (d, Inr ())"
    by simp
  then have enr: "store_enroll rfc8949 sample_crypto quiet_io sample_store sample_root input n
       = (d, Inr (Applied (sample_state sample_genesis n)))"
    using ver app by (simp add: store_enroll_eq_Inr sample_store_ok ensure_not_tombstoned_def)
  from per obtain b where pub: "publish quiet_io sample_store b False = (d, Inr ())"
    by (auto simp: persist_transition_def Let_def result_simps)
  note rb = publish_reads_back [OF pub]
  have "acquire_lock d = Inr ()"
    using rb(5,6) by (simp add: acquire_lock_def sample_store_def)
  with rfc.enroll_reloads(1) [OF sample_digest now enr] enr rb show ?thesis
    by (intro that) (simp_all add: sample_store_def)
qed

lemma updated_at:
  assumes d: "load_anchor rfc8949 sample_crypto d sample_root = Inr (Some s)" "acquire_lock d = Inr ()"
      "validate_directory d = Inr ()" "ps_expiry d = None"
    and s: "in_i64 (st_max_wall_clock_seen s) \<and> in_i64 (st_max_issued_at s)" and now: "in_i64 n"
    and ver: "verify_bundle rfc8949 sample_crypto input sample_root n = Inr vb"
    and app: "apply_verified_update (Some s) vb n = Inr t"
  obtains d' where "store_update rfc8949 sample_crypto quiet_io d sample_root input n = (d', Inr t)"
    "persist_transition sample_crypto quiet_io d sample_root input t True = (d', Inr ())"
proof -
  obtain d' r where run: "persist_transition sample_crypto quiet_io d sample_root input t True = (d', r)"
    by fastforce
  have "r = Inr ()"
    by (rule rfc.accepted_outcome(2) [OF sample_digest d(3) now _ ver app _ run quiet_io_ok]) (use s in simp_all)
  with run have per: "persist_transition sample_crypto quiet_io d sample_root input t True = (d', Inr ())"
    by simp
  then have "store_update rfc8949 sample_crypto quiet_io d sample_root input n = (d', Inr t)"
    using d ver app no_tombstone [OF d(4,3)] by (auto simp: store_update_eq_Inr)
  then show ?thesis
    using per by (rule that)
qed

lemma store_enrolled:
  obtains input d where
    "store_enroll rfc8949 sample_crypto quiet_io sample_store sample_root input 5000
       = (d, Inr (Applied (sample_state sample_genesis 5000)))"
    "load_anchor rfc8949 sample_crypto d sample_root = Inr (Some (sample_state sample_genesis 5000))"
    "acquire_lock d = Inr ()" "validate_directory d = Inr ()" "ps_expiry d = None"
  by (rule enrolled_at [OF store_times(2) store_bundles(1) store_enroll_applies])

lemma store_short_accepted:
  obtains i0 d i1 d' where
    "store_enroll rfc8949 sample_crypto quiet_io sample_store sample_root i0 5000
       = (d, Inr (Applied (sample_state sample_genesis 5000)))"
    "verify_bundle rfc8949 sample_crypto i1 sample_root 4900 = Inr (sample_verified sample_short)"
    "store_update rfc8949 sample_crypto quiet_io d sample_root i1 4900
       = (d', Inr (Applied (sample_state sample_short 5000)))"
    "persist_transition sample_crypto quiet_io d sample_root i1 (Applied (sample_state sample_short 5000)) True
       = (d', Inr ())"
proof -
  obtain i0 d where enr: "store_enroll rfc8949 sample_crypto quiet_io sample_store sample_root i0 5000
       = (d, Inr (Applied (sample_state sample_genesis 5000)))"
    and d: "load_anchor rfc8949 sample_crypto d sample_root
      = Inr (Some (sample_state sample_genesis 5000))" "acquire_lock d = Inr ()"
      "validate_directory d = Inr ()" "ps_expiry d = None"
    by (rule store_enrolled)
  from store_bundles(2) obtain i1 where ver: "verify_bundle rfc8949 sample_crypto i1 sample_root 4900
      = Inr (sample_verified sample_short)" ..
  have "in_i64 (st_max_wall_clock_seen (sample_state sample_genesis 5000))
      \<and> in_i64 (st_max_issued_at (sample_state sample_genesis 5000))"
    by (simp add: sample_state_def sample_genesis_def i64_defs)
  from updated_at [OF d this store_times(1) ver store_short_applies] enr ver show ?thesis
    using that by metis
qed

text \<open>A successor accepted when the clock has advanced.\<close>

lemma store_successor_accepted:
  obtains d i1 d' where
    "load_anchor rfc8949 sample_crypto d sample_root = Inr (Some (sample_state sample_genesis 1500))"
    "store_update rfc8949 sample_crypto quiet_io d sample_root i1 3000
       = (d', Inr (Applied (sample_state sample_successor 3000)))"
proof -
  obtain i0 d where d: "load_anchor rfc8949 sample_crypto d sample_root
      = Inr (Some (sample_state sample_genesis 1500))" "acquire_lock d = Inr ()"
      "validate_directory d = Inr ()" "ps_expiry d = None"
    by (rule enrolled_at [OF sample_now(1) sample_bundles(1) sample_enroll])
  from sample_bundles(2) obtain i1 where ver: "verify_bundle rfc8949 sample_crypto i1 sample_root 3000
      = Inr (sample_verified sample_successor)" ..
  have "in_i64 (st_max_wall_clock_seen (sample_state sample_genesis 1500))
      \<and> in_i64 (st_max_issued_at (sample_state sample_genesis 1500))"
    by (simp add: sample_state_def sample_genesis_def i64_defs)
  from updated_at [OF d this sample_now(2) ver sample_update] d(1) show ?thesis
    using that by metis
qed

lemma store_genesis_ok: "state_ok rfc8949 sample_crypto sample_root (sample_state sample_genesis 5000)"
proof -
  from store_bundles(1) obtain i where "verify_bundle rfc8949 sample_crypto i sample_root 5000
      = Inr (sample_verified sample_genesis)" ..
  from rfc.policy_step_ok [OF policy_step [OF store_times(2) this store_enroll_applies]]
  show ?thesis by simp
qed

lemma checkpoint_succeeds:
  assumes "digest_size C" and d: "load_anchor M C d root = Inr (Some s)" "acquire_lock d = Inr ()"
      "validate_directory d = Inr ()" "ps_expiry d = None"
    and "ex_root_id (checkpoint_from_state s) = store_root_id C root"
    and "0 \<le> ex_expires_at (checkpoint_from_state s)"
    and "length (ex_policy_hash (checkpoint_from_state s)) = 32"
  shows "\<exists>d'. checkpoint_expired M C quiet_io d root (checkpoint_from_state s) = (d', Inr ()) \<and> ps_uid d' = ps_uid d"
proof -
  let ?c = "checkpoint_from_state s"
  obtain b where b: "encode_expiry C ?c = Inr b"
    using assms(7) by (simp add: encode_expiry_iff)
  then have "length b \<le> MAX_STATE_BYTES"
    using checksum_lengths [OF assms(1)] assms(6,8)
    by (auto simp: encode_expiry_iff expiry_body_def store_consts limit_defs)
  then have "stage quiet_io d b = Inr (fresh_file d b)"
    using d(3) by (intro stage_quiet [OF quiet_io_ok])
  moreover have "load_expiry C d root = Inr None"
    using d(3,4) by (simp add: load_expiry_def read_bounded_def open_readonly_nofollow_def)
  ultimately show ?thesis
    using d b assms(6)
    by (simp add: checkpoint_expired_def ok_or_def ct_eq_iff sync_parent_def sys_call_def quiet_io_def)
qed

lemma store_genesis_active:
  assumes d: "load_anchor rfc8949 sample_crypto d sample_root
      = Inr (Some (sample_state sample_genesis 5000))" "acquire_lock d = Inr ()"
      "validate_directory d = Inr ()" "ps_expiry d = None"
  shows "load_active rfc8949 sample_crypto d sample_root 5000 = Inr (sample_state sample_genesis 5000)"
proof -
  from d(1) obtain b disk where b: "read_bounded d (ps_state d) = Inr b"
      "decode_disk sample_crypto b (store_root_id sample_crypto sample_root) = Inr disk"
      "verify_bundle rfc8949 sample_crypto (ds_accepted_bundle disk) sample_root
         (ds_max_wall_clock_seen disk) = Inr (sample_verified sample_genesis)"
      "ds_max_issued_at disk = 1000" "ds_max_wall_clock_seen disk = 5000"
    unfolding load_anchor_Some_iff by (auto simp: sample_state_def sample_genesis_def)
  then show ?thesis
    using d(2) no_tombstone [OF d(4,3)]
    by (simp add: load_active_def Let_def policy_ctx_def)
      (simp add: sample_state_def sample_verified_def sample_genesis_def sample_keyset_def
        i64_saturating_add_def limit_defs i64_defs)
qed

section \<open>Properties\<close>

text \<open>C13. A successful store update is a policy step from the state the store held, and what it
publishes is loaded back exactly: if the clock has not gone behind the recorded floor, the next
load of the anchor returns the new state.\<close>

theorem store_update_refines:
  assumes "cbor_codec M" and "digest_size C" and "in_i64 now"
    and "store_update M C io d root input now = (d', Inr t)"
  shows "\<exists>s. load_anchor M C d root = Inr (Some s)
    \<and> policy_step M C root (Some s) (transition_state t)
    \<and> (st_max_wall_clock_seen s \<le> now \<longrightarrow>
        load_anchor M C d' root = Inr (Some (transition_state t)))"
  using cbor_codec.update_refines [OF assms] by metis

theorem store_update_refines_witness:
  "\<exists>d d'. (\<exists>input. store_update rfc8949 sample_crypto quiet_io d sample_root input 3000
          = (d', Inr (Applied (sample_state sample_successor 3000))))
     \<and> policy_step rfc8949 sample_crypto sample_root (Some (sample_state sample_genesis 1500))
         (sample_state sample_successor 3000)
     \<and> load_anchor rfc8949 sample_crypto d' sample_root = Inr (Some (sample_state sample_successor 3000))"
proof -
  obtain d d' input where
    up: "load_anchor rfc8949 sample_crypto d sample_root = Inr (Some (sample_state sample_genesis 1500))"
      "store_update rfc8949 sample_crypto quiet_io d sample_root input 3000
        = (d', Inr (Applied (sample_state sample_successor 3000)))"
    by (rule store_successor_accepted)
  have "st_max_wall_clock_seen (sample_state sample_genesis 1500) \<le> 3000"
    by (simp add: sample_state_def)
  with store_update_refines [OF rfc.cbor_codec_axioms sample_digest sample_now(2) up(2)] up
  show ?thesis
    by auto
qed

text \<open>C14. Enrollment is one-time: while a state file exists, whatever it contains and whatever the
bundle, \<open>enroll\<close> is an error and writes nothing; a successful enrollment is a policy step from no
state that is loaded back exactly.\<close>

theorem enrollment_is_one_time:
  assumes "cbor_codec M" and "digest_size C" and "in_i64 now"
    and "store_enroll M C io d root input now = (d', Inr t)"
  shows "ps_state d = None \<and> policy_step M C root None (transition_state t)
    \<and> load_anchor M C d' root = Inr (Some (transition_state t))
    \<and> (ps_state e \<noteq> None \<longrightarrow> (\<exists>err. store_enroll M C io' e root input' now' = (e, Inl err)))"
proof -
  have "ps_state d = None"
    using store_enroll_refused [of d M C io root input now] assms(4) by force
  with cbor_codec.enroll_reloads [OF assms] store_enroll_refused [of e M C io' root input' now'] show ?thesis
    by blast
qed

theorem enrollment_is_one_time_witness:
  "\<exists>d' input. load_anchor rfc8949 sample_crypto d' sample_root
     = Inr (Some (sample_state sample_genesis 5000))
   \<and> (\<exists>err. store_enroll rfc8949 sample_crypto quiet_io d' sample_root input 5000 = (d', Inl err))"
proof -
  obtain input d where d:
    "store_enroll rfc8949 sample_crypto quiet_io sample_store sample_root input 5000
       = (d, Inr (Applied (sample_state sample_genesis 5000)))"
    "load_anchor rfc8949 sample_crypto d sample_root = Inr (Some (sample_state sample_genesis 5000))"
    "validate_directory d = Inr ()"
    by (rule store_enrolled)
  have "ps_state d \<noteq> None"
    using d(2,3) read_bounded_present [OF d(3), of "ps_state d"] by (auto simp: load_anchor_Some_iff)
  with enrollment_is_one_time [OF rfc.cbor_codec_axioms sample_digest store_times(2) d(1), of d quiet_io input 5000]
  show ?thesis
    by auto
qed

text \<open>C15. A retired policy stays retired: once \<open>checkpoint_expired\<close> has recorded a policy's expiry,
no later load, update or enrollment on a store with that tombstone accepts a policy with that
hash, whatever the clock says, whatever calls fail and whatever happened to the state file.\<close>

theorem retired_stays_retired:
  assumes "digest_size C" and "checkpoint_expired M C io d root c = (d', Inr ())"
    and "in_i64 (ex_expires_at c)" and "length (ex_policy_hash c) = 32"
    and "ps_uid e = ps_uid d'" and "ps_expiry e = ps_expiry d'"
  shows "(load_active M C e root now = Inr s \<longrightarrow> vb_policy_hash (st_accepted s) \<noteq> ex_policy_hash c)
    \<and> (store_update M C io' e root input now = (e', Inr t) \<or> store_enroll M C io' e root input now = (e', Inr t)
        \<longrightarrow> vb_policy_hash (st_accepted (transition_state t)) \<noteq> ex_policy_hash c)"
proof -
  have tomb: "load_expiry C e root = Inr (Some c)" if "validate_directory e = Inr ()"
    using checkpoint_written [OF assms(1-4) that assms(5,6)] .
  show ?thesis
    using store_accepts_untombstoned(1) [of M C e root] store_accepts_untombstoned(2,3) [of M C io' e root] tombstoned_rejected [OF tomb] by blast
qed

theorem retired_stays_retired_witness:
  "\<exists>d c d'. load_active rfc8949 sample_crypto d sample_root 5000 = Inr (sample_state sample_genesis 5000)
     \<and> checkpoint_expired rfc8949 sample_crypto quiet_io d sample_root c = (d', Inr ())
     \<and> load_active rfc8949 sample_crypto d' sample_root 5000 \<noteq> Inr (sample_state sample_genesis 5000)"
proof -
  obtain i d where d: "load_anchor rfc8949 sample_crypto d sample_root
      = Inr (Some (sample_state sample_genesis 5000))" "acquire_lock d = Inr ()"
      "validate_directory d = Inr ()" "ps_expiry d = None"
    by (rule store_enrolled)
  let ?c = "checkpoint_from_state (sample_state sample_genesis 5000)"
  have c: "ex_expires_at ?c = 200000" "ex_policy_hash ?c = sample_policy_hash"
    "ex_root_id ?c = store_root_id sample_crypto sample_root"
    using plan_in_force(4) [OF store_genesis_ok]
    by (simp_all add: checkpoint_from_state_def Let_def sample_state_def sample_verified_def
          sample_genesis_def store_root_id_def trusted_root_id_def)
  obtain d' where chk: "checkpoint_expired rfc8949 sample_crypto quiet_io d sample_root ?c = (d', Inr ())"
    and d': "ps_uid d' = ps_uid d"
    using checkpoint_succeeds [OF sample_digest d c(3)] c(1,2) by auto
  have "vb_policy_hash (st_accepted (sample_state sample_genesis 5000)) = ex_policy_hash ?c"
    by (simp add: checkpoint_from_state_def Let_def)
  then have "load_active rfc8949 sample_crypto d' sample_root 5000 \<noteq> Inr (sample_state sample_genesis 5000)"
    using retired_stays_retired [OF sample_digest chk _ _ refl refl, of 5000 "sample_state sample_genesis 5000"]
    by (simp add: c i64_defs)
  moreover have "load_active rfc8949 sample_crypto d sample_root 5000 = Inr (sample_state sample_genesis 5000)"
    using d by (rule store_genesis_active)
  ultimately show ?thesis
    using chk by blast
qed




text \<open>C17. The state and tombstone envelopes are exact: bytes decode to a value for a root exactly
when they are the encoding of a well-formed value of that root, so a changed, truncated, extended
or foreign envelope is rejected unless it is itself a valid encoding.\<close>

theorem store_envelopes_exact:
  assumes "digest_size C"
  shows "(decode_disk C b rid = Inr ds \<longleftrightarrow>
      disk_state_ok ds \<and> ds_root_id ds = rid \<and> encode_disk C ds = Inr b)
    \<and> (decode_expiry C b rid = Inr c \<longleftrightarrow>
      checkpoint_ok c \<and> ex_root_id c = rid \<and> encode_expiry C c = Inr b)"
  using decode_disk_iff [OF assms] decode_expiry_iff [OF assms] by blast

theorem store_envelopes_exact_witness:
  "\<exists>b. decode_expiry sample_crypto b (replicate 32 1) = Inr \<lparr> ex_root_id = replicate 32 1,
     ex_policy_hash = replicate 32 2, ex_policy_epoch = 3, ex_sequence = 4, ex_expires_at = 5 \<rparr>"
  using store_envelopes_exact [OF sample_digest] by (auto simp: checkpoint_ok_def encode_expiry_iff i64_defs)

text \<open>C18. The store can lock itself out. The clock may be up to five minutes behind the recorded
floor when an update is accepted, but the floor, not the acceptance time, is recorded, and the
anchor is later re-verified at the floor. If the new policy or key expires in between, the anchor
no longer verifies: every later update and enrollment is an error, at every time.\<close>

theorem clock_regression_locks_store:
  "\<exists>d0 i0 t0 d1 i1 t1 d2.
     store_enroll rfc8949 sample_crypto quiet_io d0 sample_root i0 5000 = (d1, Inr t0)
     \<and> store_update rfc8949 sample_crypto quiet_io d1 sample_root i1 4900 = (d2, Inr t1)
     \<and> (\<forall>io input now r. snd (store_update rfc8949 sample_crypto io d2 sample_root input now) \<noteq> Inr r
         \<and> snd (store_enroll rfc8949 sample_crypto io d2 sample_root input now) \<noteq> Inr r)"
proof -
  obtain i0 d i1 d' where
    enr: "store_enroll rfc8949 sample_crypto quiet_io sample_store sample_root i0 5000
       = (d, Inr (Applied (sample_state sample_genesis 5000)))"
    and ver: "verify_bundle rfc8949 sample_crypto i1 sample_root 4900 = Inr (sample_verified sample_short)"
    and upd: "store_update rfc8949 sample_crypto quiet_io d sample_root i1 4900
       = (d', Inr (Applied (sample_state sample_short 5000)))"
    and per: "persist_transition sample_crypto quiet_io d sample_root i1
       (Applied (sample_state sample_short 5000)) True = (d', Inr ())"
    by (rule store_short_accepted)
  have "verify_bundle rfc8949 sample_crypto i1 sample_root 5000 \<noteq> Inr vb" for vb
  proof
    assume late: "verify_bundle rfc8949 sample_crypto i1 sample_root 5000 = Inr vb"
    with verify_bundle_time [OF ver late] have "live_at (sample_verified sample_short) 5000"
      using verified_live by (auto simp: rfc.verify_bundle_iff store_times)
    then show False
      by (simp add: live_at_def sample_verified_def sample_short_def)
  qed
  then have "load_anchor rfc8949 sample_crypto d' sample_root \<noteq> Inr anchor" for anchor
    by (intro persisted_lost [OF sample_digest per])
      (simp_all add: sample_state_def sample_short_def i64_defs)
  then have "store_update rfc8949 sample_crypto io d' sample_root input now \<noteq> (e, Inr r)"
    "store_enroll rfc8949 sample_crypto io d' sample_root input now \<noteq> (e, Inr r)" for io input now r e
    by (simp_all add: store_update_eq_Inr store_enroll_eq_Inr)
  then have "snd (store_update rfc8949 sample_crypto io d' sample_root input now) \<noteq> Inr r
      \<and> snd (store_enroll rfc8949 sample_crypto io d' sample_root input now) \<noteq> Inr r" for io input now r
    by (metis prod.collapse)
  with enr upd show ?thesis
    by blast
qed

end
