(* ===== verification/Wire_Proto.thy ===== *)
theory Wire_Proto
  imports Prelude
begin

text \<open>
  The inner wire protocol of \<open>proto/mod.rs\<close>: hello messages, length-prefixed blobs,
  canonical variable-length integers and padded frames. A reader is a parser over the bytes
  that are still unread; a writer returns the bytes it has put on the stream together with
  its result, so that an error after a partial write is visible. The central facts say that
  every reader accepts exactly what the writer emits.
\<close>

unbundle bit_operations_syntax

section \<open>Constants and enumerations\<close>

definition MAX_FRAME_PAYLOAD :: nat where
  "MAX_FRAME_PAYLOAD = 64 * 1024"

definition MAX_PADDING :: nat where
  "MAX_PADDING = 512"

definition MAX_FRAME_HEADER :: nat where
  "MAX_FRAME_HEADER = 9"

definition MLKEM_PUBLIC_KEY_SIZE :: nat where
  "MLKEM_PUBLIC_KEY_SIZE = 1184"

definition MLKEM_CIPHERTEXT_SIZE :: nat where
  "MLKEM_CIPHERTEXT_SIZE = 1088"

datatype wire_error =
    UnexpectedEof
  | UnknownCamouflage u8
  | UnknownCarrier u8
  | UnknownPaddingProfile u8
  | BadCiphertextLength nat
  | BadPublicKeyLength nat
  | BlobTooLarge
  | BlobExceedsMaximum nat nat
  | BlobLengthMismatch nat nat
  | UvarintOverflow
  | UvarintNonCanonical
  | UvarintTruncated
  | StreamIdExceedsU32
  | MissingFrameFlags
  | UnknownFrameFlags u8
  | TrailingHeaderBytes nat
  | PayloadTooLarge u64
  | EmptyPadding
  | PaddingTooLarge nat

datatype camouflage_mode = Raw | H2Chunk | DnsChunk

fun camouflage_u8 :: "camouflage_mode \<Rightarrow> u8" where
  "camouflage_u8 Raw = 0"
| "camouflage_u8 H2Chunk = 1"
| "camouflage_u8 DnsChunk = 2"

definition camouflage_from_u8 :: "u8 \<Rightarrow> wire_error + camouflage_mode" where
  "camouflage_from_u8 v =
     (if v = 0 then Inr Raw else if v = 1 then Inr H2Chunk else if v = 2 then Inr DnsChunk
      else Inl (UnknownCamouflage v))"

datatype carrier_binding =
    DirectTcp | RealityTcp | BrowserTlsTcp | QuicRaw | Http2Tls | Http3Quic

fun carrier_u8 :: "carrier_binding \<Rightarrow> u8" where
  "carrier_u8 DirectTcp = 0"
| "carrier_u8 RealityTcp = 1"
| "carrier_u8 BrowserTlsTcp = 2"
| "carrier_u8 QuicRaw = 3"
| "carrier_u8 Http2Tls = 4"
| "carrier_u8 Http3Quic = 5"

definition carrier_from_u8 :: "u8 \<Rightarrow> wire_error + carrier_binding" where
  "carrier_from_u8 v =
     (if v = 0 then Inr DirectTcp else if v = 1 then Inr RealityTcp
      else if v = 2 then Inr BrowserTlsTcp else if v = 3 then Inr QuicRaw
      else if v = 4 then Inr Http2Tls else if v = 5 then Inr Http3Quic
      else Inl (UnknownCarrier v))"

datatype padding_profile = Balanced | PreferAscii | PreferEntropy

fun padding_u8 :: "padding_profile \<Rightarrow> u8" where
  "padding_u8 Balanced = 0"
| "padding_u8 PreferAscii = 1"
| "padding_u8 PreferEntropy = 2"

definition padding_from_u8 :: "u8 \<Rightarrow> wire_error + padding_profile" where
  "padding_from_u8 v =
     (if v = 0 then Inr Balanced else if v = 1 then Inr PreferAscii
      else if v = 2 then Inr PreferEntropy else Inl (UnknownPaddingProfile v))"

lemma camouflage_from_u8_iff: "camouflage_from_u8 v = Inr m \<longleftrightarrow> v = camouflage_u8 m"
  by (cases m) (auto simp: camouflage_from_u8_def)

lemma carrier_from_u8_iff: "carrier_from_u8 v = Inr c \<longleftrightarrow> v = carrier_u8 c"
  by (cases c) (auto simp: carrier_from_u8_def)

lemma padding_from_u8_iff: "padding_from_u8 v = Inr p \<longleftrightarrow> v = padding_u8 p"
  by (cases p) (auto simp: padding_from_u8_def)

lemma camouflage_u8_inj [simp]: "camouflage_u8 a = camouflage_u8 b \<longleftrightarrow> a = b"
  by (cases a; cases b) simp_all

lemma carrier_u8_inj [simp]: "carrier_u8 a = carrier_u8 b \<longleftrightarrow> a = b"
  by (cases a; cases b) simp_all

lemma padding_u8_inj [simp]: "padding_u8 a = padding_u8 b \<longleftrightarrow> a = b"
  by (cases a; cases b) simp_all

text \<open>Frame flags are one byte; \<open>FrameFlags::bits\<close> and \<open>from_bits\<close> are the identity.\<close>

definition FLAG_DATA :: u8 where "FLAG_DATA = 1"
definition FLAG_FIN :: u8 where "FLAG_FIN = 2"
definition FLAG_PING :: u8 where "FLAG_PING = 4"
definition FLAG_PADDING :: u8 where "FLAG_PADDING = 8"

definition flags_contains :: "u8 \<Rightarrow> u8 \<Rightarrow> bool" where
  "flags_contains flags flag \<longleftrightarrow> flags AND flag \<noteq> 0"

definition known_flags :: u8 where
  "known_flags = FLAG_DATA OR FLAG_FIN OR FLAG_PING OR FLAG_PADDING"

lemmas flag_defs = FLAG_DATA_def FLAG_FIN_def FLAG_PING_def FLAG_PADDING_def
  known_flags_def flags_contains_def

section \<open>Messages\<close>

record client_hello =
  ch_magic :: u32
  ch_version :: u8
  ch_client_random :: bytes
  ch_x25519_public :: bytes
  ch_mlkem_ciphertext :: bytes
  ch_camouflage :: camouflage_mode
  ch_padding_profile :: padding_profile

record server_hello =
  sh_server_random :: bytes
  sh_x25519_public :: bytes
  sh_session_id :: bytes

record frame =
  fr_stream_id :: u32
  fr_flags :: u8
  fr_payload :: bytes
  fr_padding :: bytes

text \<open>The Rust field types: fixed arrays have their length.\<close>

definition client_hello_typed :: "client_hello \<Rightarrow> bool" where
  "client_hello_typed h \<longleftrightarrow> length (ch_client_random h) = 16 \<and> length (ch_x25519_public h) = 32"

definition server_hello_typed :: "server_hello \<Rightarrow> bool" where
  "server_hello_typed h \<longleftrightarrow> length (sh_server_random h) = 16 \<and> length (sh_x25519_public h) = 32
     \<and> length (sh_session_id h) = 8"

section \<open>Streams\<close>

text \<open>
  \<open>read_exact\<close>, \<open>read_u8\<close>, \<open>read_u16\<close> and \<open>read_u32\<close> of the asynchronous reader: they take a
  prefix of the unread bytes, or fail when the peer closed the stream too early. A writer of
  type \<open>emit\<close> appends to the stream and may stop with an error.
\<close>

type_synonym 'a wire_reader = "(wire_error, 'a) parser"
type_synonym emit = "bytes \<times> (wire_error + unit)"

definition read_exact :: "nat \<Rightarrow> bytes wire_reader" where
  "read_exact n bs = (if n \<le> length bs then Inr (take n bs, drop n bs) else Inl UnexpectedEof)"

definition read_u8 :: "u8 wire_reader" where
  "read_u8 = bindP (read_exact 1) (\<lambda>b. returnP (hd b))"

definition read_u16 :: "u16 wire_reader" where
  "read_u16 = bindP (read_exact 2) (\<lambda>b. returnP (word_of_nat (be_val b)))"

definition read_u32 :: "u32 wire_reader" where
  "read_u32 = bindP (read_exact 4) (\<lambda>b. returnP (word_of_nat (be_val b)))"

definition write_all :: "bytes \<Rightarrow> emit" where
  "write_all bs = (bs, Inr ())"

definition write_fail :: "wire_error \<Rightarrow> emit" where
  "write_fail e = ([], Inl e)"

definition then_write :: "emit \<Rightarrow> emit \<Rightarrow> emit" where
  "then_write a b = (case a of (out, Inl e) \<Rightarrow> (out, Inl e)
                     | (out, Inr _) \<Rightarrow> (out @ fst b, snd b))"

definition be16 :: "u16 \<Rightarrow> bytes" where
  "be16 v = be_bytes 2 (unat v)"

definition be32 :: "u32 \<Rightarrow> bytes" where
  "be32 v = be_bytes 4 (unat v)"

definition be64 :: "u64 \<Rightarrow> bytes" where
  "be64 v = be_bytes 8 (unat v)"

lemma length_be [simp]: "length (be16 v) = 2" "length (be32 w) = 4" "length (be64 x) = 8"
  by (simp_all add: be16_def be32_def be64_def)

lemma be_val_be [simp]:
  "be_val (be16 a) = unat a" "be_val (be32 b) = unat b" "be_val (be64 c) = unat c"
proof -
  have "unat a < 2 ^ LENGTH(16)" "unat b < 2 ^ LENGTH(32)" "unat c < 2 ^ LENGTH(64)"
    by (rule unsigned_less)+
  then show "be_val (be16 a) = unat a" "be_val (be32 b) = unat b" "be_val (be64 c) = unat c"
    by (simp_all add: be16_def be32_def be64_def be_val_be_bytes)
qed

lemma be_inj [simp]:
  "be16 a = be16 a' \<longleftrightarrow> a = a'" "be32 b = be32 b' \<longleftrightarrow> b = b'" "be64 c = be64 c' \<longleftrightarrow> c = c'"
  by (metis be_val_be(1) word_unat_eq_iff, metis be_val_be(2) word_unat_eq_iff,
      metis be_val_be(3) word_unat_eq_iff)

section \<open>Hello messages and blobs\<close>

definition write_blob16 :: "bytes \<Rightarrow> emit" where
  "write_blob16 data =
     (if length data > 65535 then write_fail BlobTooLarge
      else then_write (write_all (be16 (word_of_nat (length data)))) (write_all data))"

definition read_blob16_bounded :: "nat \<Rightarrow> bytes wire_reader" where
  "read_blob16_bounded maximum =
     bindP read_u16 (\<lambda>len.
     bindP (liftP (ensure (unat len \<le> maximum) (BlobExceedsMaximum (unat len) maximum))) (\<lambda>_.
     read_exact (unat len)))"

definition read_blob16_exact :: "nat \<Rightarrow> bytes wire_reader" where
  "read_blob16_exact expected =
     bindP read_u16 (\<lambda>len.
     bindP (liftP (ensure (unat len = expected) (BlobLengthMismatch (unat len) expected))) (\<lambda>_.
     read_exact (unat len)))"

definition write_client_hello :: "client_hello \<Rightarrow> emit" where
  "write_client_hello hello =
     then_write (write_all (be32 (ch_magic hello)))
     (then_write (write_all [ch_version hello])
     (then_write (write_all (ch_client_random hello))
     (then_write (write_all (ch_x25519_public hello))
     (if length (ch_mlkem_ciphertext hello) \<noteq> MLKEM_CIPHERTEXT_SIZE
      then write_fail (BadCiphertextLength (length (ch_mlkem_ciphertext hello)))
      else
        then_write (write_blob16 (ch_mlkem_ciphertext hello))
        (then_write (write_all [camouflage_u8 (ch_camouflage hello)])
        (write_all [padding_u8 (ch_padding_profile hello)]))))))"

definition read_client_hello :: "client_hello wire_reader" where
  "read_client_hello =
     bindP read_u32 (\<lambda>magic.
     bindP read_u8 (\<lambda>version.
     bindP (read_exact 16) (\<lambda>client_random.
     bindP (read_exact 32) (\<lambda>x25519_public.
     bindP (read_blob16_exact MLKEM_CIPHERTEXT_SIZE) (\<lambda>mlkem_ciphertext.
     bindP read_u8 (\<lambda>cam.
     bindP (liftP (camouflage_from_u8 cam)) (\<lambda>camouflage.
     bindP read_u8 (\<lambda>pad.
     bindP (liftP (padding_from_u8 pad)) (\<lambda>padding_profile.
     returnP \<lparr> ch_magic = magic, ch_version = version, ch_client_random = client_random,
       ch_x25519_public = x25519_public, ch_mlkem_ciphertext = mlkem_ciphertext,
       ch_camouflage = camouflage, ch_padding_profile = padding_profile \<rparr>)))))))))"

definition write_server_hello :: "server_hello \<Rightarrow> emit" where
  "write_server_hello hello =
     then_write (write_all (sh_server_random hello))
     (then_write (write_all (sh_x25519_public hello))
     (write_all (sh_session_id hello)))"

definition read_server_hello :: "server_hello wire_reader" where
  "read_server_hello =
     bindP (read_exact 16) (\<lambda>server_random.
     bindP (read_exact 32) (\<lambda>x25519_public.
     bindP (read_exact 8) (\<lambda>session_id.
     returnP \<lparr> sh_server_random = server_random, sh_x25519_public = x25519_public,
       sh_session_id = session_id \<rparr>)))"

definition write_mlkem_public :: "bytes \<Rightarrow> emit" where
  "write_mlkem_public pk =
     (if length pk \<noteq> MLKEM_PUBLIC_KEY_SIZE then write_fail (BadPublicKeyLength (length pk))
      else then_write (write_all (be16 (word_of_nat (length pk)))) (write_all pk))"

definition read_mlkem_public :: "bytes wire_reader" where
  "read_mlkem_public = read_blob16_exact MLKEM_PUBLIC_KEY_SIZE"

section \<open>Variable-length integers\<close>

lemma unat_drop_bit_7: "unat (drop_bit 7 (v :: u64)) = unat v div 128"
  by (simp add: drop_bit_eq_div unat_div)

lemma ge_0x80_unat: "(v :: u64) \<ge> 0x80 \<longleftrightarrow> unat v \<ge> 128"
  by (simp add: word_le_nat_alt)

function write_uvarint :: "u64 \<Rightarrow> bytes" where
  "write_uvarint value =
     (if value \<ge> 0x80 then (ucast value OR 0x80) # write_uvarint (drop_bit 7 value)
      else [ucast value])"
  by pat_completeness auto
termination
  by (relation "measure unat") (auto simp: unat_drop_bit_7 ge_0x80_unat)

declare write_uvarint.simps [simp del]

text \<open>
  The loop of \<open>read_uvarint\<close> at index \<open>i\<close> with the value read so far; at the end of the
  buffer \<open>i\<close> is its length.
\<close>

fun read_uvarint_from :: "nat \<Rightarrow> u64 \<Rightarrow> bytes \<Rightarrow> wire_error + (u64 \<times> bytes)" where
  "read_uvarint_from i value [] = Inl (if i \<ge> 10 then UvarintOverflow else UvarintTruncated)"
| "read_uvarint_from i value (byte # buf) =
     (if i \<ge> 10 \<or> (i = 9 \<and> byte AND 0x7e \<noteq> 0) then Inl UvarintOverflow
      else let payload = byte AND 0x7f; value' = value OR push_bit (i * 7) (ucast payload) in
        if byte AND 0x80 = 0 then
          (if i > 0 \<and> payload = 0 then Inl UvarintNonCanonical else Inr (value', buf))
        else read_uvarint_from (Suc i) value' buf)"

definition read_uvarint :: "bytes \<Rightarrow> wire_error + (u64 \<times> bytes)" where
  "read_uvarint buf = read_uvarint_from 0 0 buf"

section \<open>Frames\<close>

definition write_frame :: "frame \<Rightarrow> emit" where
  "write_frame frame =
     (let header = write_uvarint (ucast (fr_stream_id frame)) @ [fr_flags frame]
        @ write_uvarint (word_of_nat (length (fr_payload frame)))
      in then_write (write_blob16 header)
        (then_write (write_all (fr_payload frame)) (write_all (fr_padding frame))))"

text \<open>\<open>read_frame\<close> in the three parts of its body: the header blob, the payload, the padding.\<close>

definition parse_frame_header :: "bytes \<Rightarrow> wire_error + (u32 \<times> u8 \<times> u64)" where
  "parse_frame_header header =
     bindR (read_uvarint header) (\<lambda>(stream, rest).
     bindR (ensure (unat stream < 2 ^ 32) StreamIdExceedsU32) (\<lambda>_.
     bindR (ensure (rest \<noteq> []) MissingFrameFlags) (\<lambda>_.
     let flags = hd rest in
     bindR (ensure (flags AND NOT known_flags = 0) (UnknownFrameFlags flags)) (\<lambda>_.
     bindR (read_uvarint (tl rest)) (\<lambda>(payload_len, trailing).
     bindR (ensure (trailing = []) (TrailingHeaderBytes (length trailing))) (\<lambda>_.
     bindR (ensure (payload_len \<le> word_of_nat MAX_FRAME_PAYLOAD) (PayloadTooLarge payload_len)) (\<lambda>_.
     Inr (ucast stream, flags, payload_len))))))))"

definition read_padding :: "u8 \<Rightarrow> bytes wire_reader" where
  "read_padding flags =
     (if flags_contains flags FLAG_PADDING then
        bindP read_u16 (\<lambda>pad_len.
        bindP (liftP (ensure (unat pad_len \<noteq> 0) EmptyPadding)) (\<lambda>_.
        bindP (liftP (ensure (unat pad_len \<le> MAX_PADDING) (PaddingTooLarge (unat pad_len)))) (\<lambda>_.
        read_exact (unat pad_len))))
      else returnP [])"

definition read_frame :: "frame wire_reader" where
  "read_frame =
     bindP (read_blob16_bounded MAX_FRAME_HEADER) (\<lambda>header.
     bindP (liftP (parse_frame_header header)) (\<lambda>(stream, flags, payload_len).
     bindP (read_exact (unat payload_len)) (\<lambda>payload.
     bindP (read_padding flags) (\<lambda>padding.
     returnP \<lparr> fr_stream_id = stream, fr_flags = flags, fr_payload = payload,
       fr_padding = padding \<rparr>))))"

text \<open>
  \<open>random_padding\<close> with the two draws of the generator as arguments: the 32-bit length draw
  and the bytes that fill the buffer.
\<close>

definition padding_max :: "padding_profile \<Rightarrow> nat" where
  "padding_max profile = (case profile of PreferAscii \<Rightarrow> 128 | PreferEntropy \<Rightarrow> MAX_PADDING
     | Balanced \<Rightarrow> 256)"

definition random_padding :: "u32 \<Rightarrow> (nat \<Rightarrow> bytes) \<Rightarrow> padding_profile \<Rightarrow> bytes" where
  "random_padding draw fill profile =
     (let n = unat draw mod (padding_max profile + 1) in
      if n = 0 then []
      else let buf = fill n in
        if profile = PreferAscii then map (\<lambda>b. 65 + b mod 26) buf else buf)"

section \<open>Readers accept exactly what writers emit\<close>

lemma read_exact_iff [codec_simps]: "read_exact n bs = Inr (v, r) \<longleftrightarrow> length v = n \<and> bs = v @ r"
  by (auto simp: read_exact_def)

lemma read_exact_append [simp]: "length v = n \<Longrightarrow> read_exact n (v @ r) = Inr (v, r)"
  by (simp add: read_exact_iff)

lemma read_u8_iff [codec_simps]: "read_u8 bs = Inr (b, r) \<longleftrightarrow> bs = b # r"
  by (auto simp: read_u8_def codec_simps length_Suc_conv)

lemma be_word_iff:
  assumes "LENGTH('a::len) = 8 * k" and "length b = k"
  shows "w = (word_of_nat (be_val b) :: 'a word) \<longleftrightarrow> b = be_bytes k (unat w)"
proof -
  have size: "(256 :: nat) ^ k = 2 ^ LENGTH('a)"
    by (simp add: assms(1) power_mult)
  then have "be_val b < 2 ^ LENGTH('a)"
    using be_val_bound [of b] assms(2) by simp
  then have "w = (word_of_nat (be_val b) :: 'a word) \<longleftrightarrow> be_val b = unat w"
    by (auto simp: unat_of_nat)
  with be_bytes_iff [OF assms(2), of "unat w"] size show ?thesis
    by (simp add: unsigned_less)
qed

lemma read_be_iff:
  assumes "LENGTH('a::len) = 8 * k"
  shows "bindP (read_exact k) (\<lambda>b. returnP (word_of_nat (be_val b) :: 'a word)) bs = Inr (w, r)
    \<longleftrightarrow> bs = be_bytes k (unat w) @ r"
proof -
  have "bindP (read_exact k) (\<lambda>b. returnP (word_of_nat (be_val b) :: 'a word)) bs = Inr (w, r)
      \<longleftrightarrow> (\<exists>b. length b = k \<and> bs = b @ r \<and> w = word_of_nat (be_val b))"
    by (auto simp: codec_simps)
  also have "\<dots> \<longleftrightarrow> (\<exists>b. length b = k \<and> bs = b @ r \<and> b = be_bytes k (unat w))"
    using be_word_iff [OF assms] by metis
  finally show ?thesis
    by auto
qed

lemma read_u16_iff [codec_simps]: "read_u16 bs = Inr (w, r) \<longleftrightarrow> bs = be16 w @ r"
  unfolding read_u16_def be16_def by (rule read_be_iff) simp

lemma read_u32_iff [codec_simps]: "read_u32 bs = Inr (w, r) \<longleftrightarrow> bs = be32 w @ r"
  unfolding read_u32_def be32_def by (rule read_be_iff) simp

lemma unat_of_u16: "n < 65536 \<Longrightarrow> unat (word_of_nat n :: u16) = n"
  by (simp add: unat_of_nat)

lemma u16_length_iff: "unat (w :: u16) = n \<longleftrightarrow> n < 65536 \<and> w = word_of_nat n"
proof -
  have "unat w < 65536"
    using unsigned_less [of w] by simp
  then show ?thesis
    by (auto simp: unat_of_u16)
qed

lemma read_blob16_bounded_iff [codec_simps]:
  "read_blob16_bounded m bs = Inr (v, r) \<longleftrightarrow>
     length v \<le> m \<and> length v < 65536 \<and> bs = be16 (word_of_nat (length v)) @ v @ r"
proof -
  have "read_blob16_bounded m bs = Inr (v, r) \<longleftrightarrow>
      (\<exists>len. unat len = length v \<and> length v \<le> m \<and> bs = be16 len @ v @ r)"
    unfolding read_blob16_bounded_def by (simp add: codec_simps) metis
  then show ?thesis
    by (simp only: u16_length_iff) auto
qed

lemma read_blob16_exact_iff [codec_simps]:
  "read_blob16_exact n bs = Inr (v, r) \<longleftrightarrow>
     length v = n \<and> n < 65536 \<and> bs = be16 (word_of_nat n) @ v @ r"
proof -
  have "read_blob16_exact n bs = Inr (v, r) \<longleftrightarrow>
      (\<exists>len. unat len = length v \<and> length v = n \<and> bs = be16 len @ v @ r)"
    unfolding read_blob16_exact_def by (simp add: codec_simps) metis
  then show ?thesis
    by (simp only: u16_length_iff) auto
qed

named_theorems emit_simps

lemma then_write_simps [emit_simps, simp]:
  "then_write (write_all a) (write_all b) = write_all (a @ b)"
  "then_write (write_all a) (write_fail e) = (a, Inl e)"
  "then_write (write_all a) (b, x) = (a @ b, x)"
  "then_write (write_fail e) k = write_fail e"
  by (simp_all add: then_write_def write_all_def write_fail_def)

lemma write_all_eq [simp]: "write_all a = (b, x) \<longleftrightarrow> a = b \<and> x = Inr ()"
  by (auto simp: write_all_def)

lemma write_blob16_ok [simp]:
  "length data < 65536 \<Longrightarrow>
     write_blob16 data = write_all (be16 (word_of_nat (length data)) @ data)"
  by (simp add: write_blob16_def)

definition client_hello_wire :: "client_hello \<Rightarrow> bytes" where
  "client_hello_wire h = be32 (ch_magic h) @ [ch_version h] @ ch_client_random h
     @ ch_x25519_public h @ be16 1088 @ ch_mlkem_ciphertext h
     @ [camouflage_u8 (ch_camouflage h), padding_u8 (ch_padding_profile h)]"

lemma write_client_hello_ok:
  "length (ch_mlkem_ciphertext h) = MLKEM_CIPHERTEXT_SIZE \<Longrightarrow>
     write_client_hello h = write_all (client_hello_wire h)"
  by (simp add: write_client_hello_def client_hello_wire_def MLKEM_CIPHERTEXT_SIZE_def)

lemma read_client_hello_iff [codec_simps]:
  "read_client_hello bs = Inr (h, r) \<longleftrightarrow>
     client_hello_typed h \<and> length (ch_mlkem_ciphertext h) = MLKEM_CIPHERTEXT_SIZE
     \<and> bs = client_hello_wire h @ r"
  by (cases h)
    (auto simp: read_client_hello_def codec_simps client_hello_typed_def client_hello_wire_def
      camouflage_from_u8_iff padding_from_u8_iff MLKEM_CIPHERTEXT_SIZE_def)

definition server_hello_wire :: "server_hello \<Rightarrow> bytes" where
  "server_hello_wire h = sh_server_random h @ sh_x25519_public h @ sh_session_id h"

lemma write_server_hello_ok: "write_server_hello h = write_all (server_hello_wire h)"
  by (simp add: write_server_hello_def server_hello_wire_def)

lemma read_server_hello_iff [codec_simps]:
  "read_server_hello bs = Inr (h, r) \<longleftrightarrow> server_hello_typed h \<and> bs = server_hello_wire h @ r"
  by (cases h)
    (auto simp: read_server_hello_def codec_simps server_hello_typed_def server_hello_wire_def)

lemma write_mlkem_public_ok:
  "length pk = MLKEM_PUBLIC_KEY_SIZE \<Longrightarrow> write_mlkem_public pk = write_all (be16 1184 @ pk)"
  by (simp add: write_mlkem_public_def MLKEM_PUBLIC_KEY_SIZE_def)

lemma read_mlkem_public_iff [codec_simps]:
  "read_mlkem_public bs = Inr (pk, r) \<longleftrightarrow>
     length pk = MLKEM_PUBLIC_KEY_SIZE \<and> bs = be16 1184 @ pk @ r"
  by (auto simp: read_mlkem_public_def codec_simps MLKEM_PUBLIC_KEY_SIZE_def)

section \<open>Variable-length integers are canonical\<close>

lemma ge_0x80_drop_bit: "(v :: u64) \<ge> 0x80 \<longleftrightarrow> drop_bit 7 v \<noteq> 0"
  by (simp add: ge_0x80_unat word_unat_eq_iff unat_drop_bit_7 div_eq_0_iff not_less)

lemma byte_low_bits: "(b :: u8) AND 0x7f = take_bit 7 b"
  by (simp add: take_bit_eq_mask mask_eq_exp_minus_1)

lemma byte_continues: "(b :: u8) AND 0x80 = 0 \<longleftrightarrow> \<not> bit b 7"
  using and_exp_eq_0_iff_not_bit [of b 7] by simp

lemma byte_middle_bits: "(b :: u8) AND 0x7e = 0 \<longleftrightarrow> (\<forall>n. bit b n \<longrightarrow> n = 0 \<or> 7 \<le> n)"
proof -
  have "(0x7e :: u8) = push_bit 1 (mask 6)"
    by (simp add: mask_eq_exp_minus_1 push_bit_eq_mult)
  then have bits: "bit (0x7e :: u8) n \<longleftrightarrow> 1 \<le> n \<and> n < 7" for n
    by (simp only: bit_push_bit_iff bit_mask_iff) auto
  have "b AND 0x7e = 0 \<longleftrightarrow> (\<forall>n. \<not> bit (b AND 0x7e) n)"
    using bit_eqI [of "b AND 0x7e" 0] by auto
  then show ?thesis
    by (simp only: bit_and_iff bits) (auto simp: Suc_le_eq not_less)
qed

lemma bit_u64_less: "take_bit k (w :: u64) = w \<Longrightarrow> bit w n \<Longrightarrow> n < k"
  by (metis bit_take_bit_iff)

lemma low_group_bit:
  assumes "drop_bit 7 (w :: u64) = 0" and "bit w n"
  shows "n < 7"
proof (rule ccontr)
  assume "\<not> n < 7"
  then have "bit (drop_bit 7 w) (n - 7)"
    using assms(2) by (simp add: bit_drop_bit_eq)
  with assms(1) show False
    by simp
qed

lemma ucast_low:
  assumes "drop_bit 7 (w :: u64) = 0"
  shows "ucast (take_bit 7 (ucast w :: u8)) = w"
  by (rule bit_word_eqI) (auto simp: bit_simps dest: low_group_bit [OF assms])

lemma take_bit_1_drop:
  assumes "take_bit 1 (w :: u64) = w"
  shows "drop_bit 7 w = 0"
  by (rule bit_word_eqI) (auto simp: bit_drop_bit_eq dest: bit_u64_less [OF assms])

lemma cont_byte:
  fixes w :: u64
  shows "bit (ucast w OR 0x80 :: u8) 7"
    and "take_bit 7 (ucast w OR 0x80 :: u8) = take_bit 7 (ucast w)"
proof -
  have top: "(0x80 :: u8) = push_bit 7 1"
    by (simp add: push_bit_eq_mult)
  show "bit (ucast w OR 0x80 :: u8) 7"
    unfolding top by (simp add: bit_simps)
  show "take_bit 7 (ucast w OR 0x80 :: u8) = take_bit 7 (ucast w)"
    unfolding top by (rule bit_word_eqI) (auto simp: bit_simps)
qed

lemma byte_eqI:
  assumes "take_bit 7 a = take_bit 7 (b :: u8)" and "bit a 7 \<longleftrightarrow> bit b 7"
  shows "a = b"
proof (rule bit_word_eqI)
  fix n assume "n < LENGTH(8)"
  then have "n < 7 \<or> n = 7"
    by auto
  then show "bit a n = bit b n"
    using assms(2) arg_cong [OF assms(1), of "\<lambda>x. bit x n"] by (auto simp: bit_take_bit_iff)
qed

lemma join_groups:
  fixes w :: u64
  shows "(acc OR push_bit (i * 7) (ucast (take_bit 7 (ucast w :: u8)))) OR push_bit (7 + i * 7) (drop_bit 7 w)
    = acc OR push_bit (i * 7) w" (is "?l = ?r")
proof (rule bit_word_eqI)
  fix n assume "n < LENGTH(64)"
  then show "bit ?l n = bit ?r n"
    by (cases "7 + i * 7 \<le> n") (auto simp: bit_simps)
qed

lemma read_write_uvarint_from:
  assumes "take_bit (64 - i * 7) w = w" and "i \<le> 9" and "i = 0 \<or> w \<noteq> 0"
  shows "read_uvarint_from i acc (write_uvarint w @ r) = Inr (acc OR push_bit (i * 7) w, r)"
  using assms
proof (induction w arbitrary: i acc rule: write_uvarint.induct)
  case (1 w)
  show ?case
  proof (cases "w \<ge> 0x80")
    case True
    then have nz: "drop_bit 7 w \<noteq> 0"
      by (simp add: ge_0x80_drop_bit)
    with take_bit_1_drop [of w] 1(2,3) have i: "i < 9"
      by (cases "i = 9") auto
    have fits: "take_bit (64 - Suc i * 7) (drop_bit 7 w) = drop_bit 7 w"
      by (rule bit_word_eqI) (auto simp: bit_simps dest: bit_u64_less [OF 1(2)])
    from True have "write_uvarint w = (ucast w OR 0x80) # write_uvarint (drop_bit 7 w)"
      by (subst write_uvarint.simps) simp
    with i show ?thesis
      by (simp add: Let_def byte_continues byte_low_bits cont_byte 1(1) [OF True fits] nz join_groups)
  next
    case False
    then have low: "drop_bit 7 w = 0"
      by (simp add: ge_0x80_drop_bit)
    have w: "write_uvarint w = [ucast w]"
      using False by (subst write_uvarint.simps) simp
    have "\<not> bit (ucast w :: u8) 7"
      using low_group_bit [OF low, of 7] by (auto simp: bit_simps)
    moreover have "\<forall>n. bit (ucast w :: u8) n \<longrightarrow> n = 0 \<or> 7 \<le> n" if "i = 9"
      using bit_u64_less [of 1 w] 1(2) that by (auto simp: bit_simps)
    moreover have "take_bit 7 (ucast w :: u8) \<noteq> 0" if "w \<noteq> 0"
      using ucast_low [OF low] that by auto
    ultimately show ?thesis
      using 1(3,4) by (auto simp: w Let_def byte_continues byte_low_bits byte_middle_bits ucast_low [OF low])
  qed
qed

lemma read_uvarint_from_canonical:
  assumes "read_uvarint_from i acc bs = Inr (v, r)"
  shows "\<exists>w. bs = write_uvarint w @ r \<and> v = acc OR push_bit (i * 7) w
    \<and> take_bit (64 - i * 7) w = w \<and> i \<le> 9 \<and> (i = 0 \<or> w \<noteq> 0)"
  using assms
proof (induction i acc bs rule: read_uvarint_from.induct)
  case (2 i acc b bs)
  from 2(2) have i: "i \<le> 9" and nine: "i = 9 \<Longrightarrow> b AND 0x7e = 0"
    by (auto simp: Let_def split: if_splits)
  show ?case
  proof (cases "b AND 0x80 = 0")
    case True
    let ?w = "ucast (take_bit 7 b) :: u64"
    from True have b: "\<not> bit b 7"
      by (simp add: byte_continues)
    then have small: "drop_bit 7 ?w = 0"
      by (auto intro!: bit_word_eqI simp: bit_simps)
    have byte: "ucast ?w = b"
      by (rule bit_word_eqI) (use b in \<open>auto simp: bit_simps less_Suc_eq numeral_eq_Suc\<close>)
    then have zero: "b = 0" if "?w = 0"
      using that by auto
    have "write_uvarint ?w = [b]"
      using small by (subst write_uvarint.simps) (simp add: ge_0x80_drop_bit byte)
    moreover have "take_bit (64 - i * 7) ?w = ?w"
    proof (rule bit_word_eqI)
      fix n assume "n < LENGTH(64)"
      show "bit (take_bit (64 - i * 7) ?w) n = bit ?w n"
      proof (cases "i = 9")
        case True
        have "n < 64 - i * 7" if "bit ?w n"
          using nine [OF True] that by (auto simp: True byte_middle_bits bit_unsigned_iff bit_take_bit_iff)
        then show ?thesis
          by (simp only: bit_take_bit_iff) blast
      next
        case False
        with i have "64 - i * 7 \<ge> 8" by simp
        then show ?thesis by (auto simp: bit_simps)
      qed
    qed
    ultimately show ?thesis
      using 2(2) True i zero by (auto simp: Let_def byte_low_bits split: if_splits intro!: exI [of _ ?w])
  next
    case False
    then have b: "bit b 7"
      by (simp add: byte_continues)
    let ?acc = "acc OR push_bit (i * 7) (ucast (take_bit 7 b))"
    from 2(2) False i nine have "read_uvarint_from (Suc i) ?acc bs = Inr (v, r)"
      by (auto simp: Let_def byte_low_bits split: if_splits)
    with 2(1) [OF _ refl refl False] i nine obtain w' where
      w': "bs = write_uvarint w' @ r" "v = ?acc OR push_bit (Suc i * 7) w'"
        "take_bit (64 - Suc i * 7) w' = w'" "Suc i \<le> 9" "w' \<noteq> 0"
      by (auto simp: byte_low_bits)
    let ?w = "ucast (take_bit 7 b) OR push_bit 7 w'"
    have dr: "drop_bit 7 ?w = w'"
      by (rule bit_word_eqI) (auto simp: bit_simps dest: bit_u64_less [OF w'(3)])
    have lo: "take_bit 7 (ucast ?w :: u8) = take_bit 7 b"
      by (rule bit_word_eqI) (auto simp: bit_simps)
    have "ucast ?w OR 0x80 = b"
      by (rule byte_eqI) (simp_all only: cont_byte lo b)
    then have "write_uvarint ?w = b # write_uvarint w'"
      using w'(5) dr by (subst write_uvarint.simps) (simp add: ge_0x80_drop_bit)
    moreover have "v = acc OR push_bit (i * 7) ?w"
      using join_groups [of acc i ?w] by (simp only: w'(2) dr lo mult_Suc)
    moreover have "take_bit (64 - i * 7) ?w = ?w"
      by (rule bit_word_eqI) (use w'(4) in \<open>auto simp: bit_simps dest: bit_u64_less [OF w'(3)]\<close>)
    moreover have "?w \<noteq> 0"
      using dr w'(5) by (metis drop_bit_of_0)
    ultimately show ?thesis
      using w'(1) i by (intro exI [of _ ?w]) simp
  qed
qed simp

lemma read_uvarint_iff: "read_uvarint bs = Inr (v, r) \<longleftrightarrow> bs = write_uvarint v @ r"
  using read_uvarint_from_canonical [of 0 0 bs v r] read_write_uvarint_from [of 0 v 0 r]
  by (auto simp: read_uvarint_def take_bit_word_eq_self)

lemma read_uvarint_bounded:
  "n + i = 10 \<Longrightarrow> read_uvarint_from i acc bs = (case read_uvarint_from i acc (take n bs) of
     Inl e \<Rightarrow> Inl e | Inr (v, r) \<Rightarrow> Inr (v, r @ drop n bs))"
proof (induction i acc bs arbitrary: n rule: read_uvarint_from.induct)
  case (2 i acc b bs)
  then show ?case
    by (cases n) (auto simp: Let_def split: sum.splits)
qed simp

lemma read_write_uvarint [simp]:
  "read_uvarint (write_uvarint v @ r) = Inr (v, r)"
  "read_uvarint (write_uvarint v) = Inr (v, [])"
  using read_uvarint_iff [of "write_uvarint v" v "[]"] by (simp_all add: read_uvarint_iff)

lemma length_write_uvarint:
  assumes "unat v < 128 ^ Suc k"
  shows "length (write_uvarint v) \<le> Suc k"
  using assms
proof (induction k arbitrary: v)
  case 0
  then show ?case
    by (subst write_uvarint.simps) (simp add: ge_0x80_unat)
next
  case (Suc k)
  then have "unat (drop_bit 7 v) < 128 ^ Suc k"
    by (simp add: unat_drop_bit_7 less_mult_imp_div_less mult.commute)
  from Suc.IH [OF this] show ?case
    by (subst write_uvarint.simps) simp
qed

lemma write_uvarint_nonempty [simp]: "write_uvarint v \<noteq> []"
  by (subst write_uvarint.simps) simp

section \<open>Frames\<close>

definition frame_ok :: "frame \<Rightarrow> bool" where
  "frame_ok f \<longleftrightarrow> fr_flags f AND NOT known_flags = 0
     \<and> length (fr_payload f) \<le> MAX_FRAME_PAYLOAD
     \<and> (if flags_contains (fr_flags f) FLAG_PADDING
        then fr_padding f \<noteq> [] \<and> length (fr_padding f) \<le> MAX_PADDING
        else fr_padding f = [])"

definition frame_header :: "frame \<Rightarrow> bytes" where
  "frame_header f = write_uvarint (ucast (fr_stream_id f)) @ [fr_flags f]
     @ write_uvarint (word_of_nat (length (fr_payload f)))"

text \<open>
  The padding section: \<open>prepare_outbound_frame\<close> of the session layer puts the length of the
  padding in front of it before the frame is written.
\<close>

definition wire_padding :: "bytes \<Rightarrow> bytes" where
  "wire_padding pad = (if pad = [] then [] else be16 (word_of_nat (length pad)) @ pad)"

definition frame_wire :: "frame \<Rightarrow> bytes" where
  "frame_wire f = be16 (word_of_nat (length (frame_header f))) @ frame_header f
     @ fr_payload f @ wire_padding (fr_padding f)"

lemma frame_header_bound:
  assumes "length (fr_payload f) \<le> MAX_FRAME_PAYLOAD"
  shows "length (frame_header f) \<le> MAX_FRAME_HEADER"
proof -
  have "unat (fr_stream_id f) < 2 ^ 32"
    using unsigned_less [of "fr_stream_id f"] by simp
  then have "length (write_uvarint (ucast (fr_stream_id f))) \<le> Suc 4"
    by (intro length_write_uvarint) (simp add: unsigned_ucast_eq take_bit_nat_eq_self)
  moreover have "length (write_uvarint (word_of_nat (length (fr_payload f)))) \<le> Suc 2"
    using assms by (intro length_write_uvarint) (simp add: unat_of_nat MAX_FRAME_PAYLOAD_def)
  ultimately show ?thesis
    by (simp add: frame_header_def MAX_FRAME_HEADER_def)
qed

lemma write_frame_ok:
  assumes "length (fr_payload f) \<le> MAX_FRAME_PAYLOAD"
  shows "write_frame (f \<lparr> fr_padding := wire_padding (fr_padding f) \<rparr>) = write_all (frame_wire f)"
  using frame_header_bound [OF assms]
  by (simp add: write_frame_def Let_def frame_wire_def frame_header_def MAX_FRAME_HEADER_def)

lemma payload_len_iff:
  "payload_len \<le> (word_of_nat MAX_FRAME_PAYLOAD :: u64) \<and> length p = unat payload_len \<longleftrightarrow>
     payload_len = word_of_nat (length p) \<and> length p \<le> MAX_FRAME_PAYLOAD"
  by (auto simp: word_le_nat_alt MAX_FRAME_PAYLOAD_def unat_of_nat)

lemma stream_id_iff: "unat (s :: u64) < 4294967296 \<and> i = (ucast s :: u32) \<longleftrightarrow> s = ucast i"
proof
  assume "unat s < 4294967296 \<and> i = ucast s"
  then show "s = ucast i"
    by (simp add: word_unat_eq_iff unsigned_ucast_eq take_bit_nat_eq_self)
next
  assume s: "s = ucast i"
  have "unat i < 2 ^ LENGTH(32)"
    by (rule unsigned_less)
  with s show "unat s < 4294967296 \<and> i = ucast s"
    by (simp add: word_unat_eq_iff unsigned_ucast_eq take_bit_nat_eq_self)
qed

lemma read_padding_iff [codec_simps]:
  "read_padding flags bs = Inr (pad, r) \<longleftrightarrow>
     (if flags_contains flags FLAG_PADDING then pad \<noteq> [] \<and> length pad \<le> MAX_PADDING else pad = [])
     \<and> bs = wire_padding pad @ r"
proof (cases "flags_contains flags FLAG_PADDING")
  case True
  have "read_padding flags bs = Inr (pad, r) \<longleftrightarrow>
      (\<exists>n. unat n = length pad \<and> length pad \<noteq> 0 \<and> length pad \<le> MAX_PADDING \<and> bs = be16 n @ pad @ r)"
    unfolding read_padding_def by (auto simp: True codec_simps)
  then show ?thesis
    using True by (simp only: u16_length_iff) (auto simp: wire_padding_def MAX_PADDING_def)
qed (auto simp: read_padding_def wire_padding_def codec_simps)

lemma parse_frame_header_iff:
  "parse_frame_header header = Inr (stream, flags, len) \<longleftrightarrow>
     flags AND NOT known_flags = 0 \<and> len \<le> word_of_nat MAX_FRAME_PAYLOAD
     \<and> header = write_uvarint (ucast stream) @ [flags] @ write_uvarint len"
proof -
  have key: "read_uvarint header = Inr (s, rest) \<and> rest \<noteq> [] \<and> flags = hd rest
        \<and> read_uvarint (tl rest) = Inr (len, [])
      \<longleftrightarrow> header = write_uvarint s @ [flags] @ write_uvarint len \<and> rest = flags # write_uvarint len"
    for s rest
    by (cases rest) (auto simp: read_uvarint_iff)
  have "parse_frame_header header = Inr (stream, flags, len) \<longleftrightarrow>
      (\<exists>s rest. (read_uvarint header = Inr (s, rest) \<and> rest \<noteq> [] \<and> flags = hd rest
          \<and> read_uvarint (tl rest) = Inr (len, []))
        \<and> (unat s < 4294967296 \<and> stream = ucast s)
        \<and> flags AND NOT known_flags = 0 \<and> len \<le> word_of_nat MAX_FRAME_PAYLOAD)"
    unfolding parse_frame_header_def Let_def by (auto simp: result_simps)
  then show ?thesis
    by (simp only: key stream_id_iff) auto
qed

lemma read_frame_iff [codec_simps]:
  "read_frame bs = Inr (f, r) \<longleftrightarrow> frame_ok f \<and> bs = frame_wire f @ r"
proof
  assume "read_frame bs = Inr (f, r)"
  then obtain header stream flags len pay pad bs1 bs2 where
    rd: "read_blob16_bounded MAX_FRAME_HEADER bs = Inr (header, bs1)"
      "parse_frame_header header = Inr (stream, flags, len)"
      "read_exact (unat len) bs1 = Inr (pay, bs2)" "read_padding flags bs2 = Inr (pad, r)"
    and f: "f = \<lparr> fr_stream_id = stream, fr_flags = flags, fr_payload = pay, fr_padding = pad \<rparr>"
    unfolding read_frame_def bindP_eq_Inr liftP_eq_Inr returnP_eq_Inr by (auto simp: bindP_eq_Inr liftP_eq_Inr returnP_eq_Inr)
  then have bs: "bs = be16 (word_of_nat (length header)) @ header @ pay @ wire_padding pad @ r"
    and pay: "length pay = unat len"
    and pad: "if flags_contains flags FLAG_PADDING then pad \<noteq> [] \<and> length pad \<le> MAX_PADDING else pad = []"
    by (simp_all add: read_blob16_bounded_iff read_exact_iff read_padding_iff)
  from rd(2) have hdr: "flags AND NOT known_flags = 0" "len \<le> word_of_nat MAX_FRAME_PAYLOAD"
    "header = write_uvarint (ucast stream) @ [flags] @ write_uvarint len"
    by (simp_all add: parse_frame_header_iff)
  have len: "len = word_of_nat (length pay)" "length pay \<le> MAX_FRAME_PAYLOAD"
    using payload_len_iff [of len pay] hdr(2) pay by auto
  show "frame_ok f \<and> bs = frame_wire f @ r"
    using pad by (simp add: bs f hdr(1,3) len frame_ok_def frame_wire_def frame_header_def)
next
  assume f: "frame_ok f \<and> bs = frame_wire f @ r"
  let ?len = "word_of_nat (length (fr_payload f)) :: u64"
  from f have n: "length (fr_payload f) \<le> MAX_FRAME_PAYLOAD"
    by (simp add: frame_ok_def)
  then have len: "?len \<le> word_of_nat MAX_FRAME_PAYLOAD" "unat ?len = length (fr_payload f)"
    by (simp_all add: word_le_nat_alt unat_of_nat MAX_FRAME_PAYLOAD_def)
  have hd: "read_blob16_bounded MAX_FRAME_HEADER bs
      = Inr (frame_header f, fr_payload f @ wire_padding (fr_padding f) @ r)"
    using f frame_header_bound [OF n]
    by (simp add: read_blob16_bounded_iff frame_wire_def MAX_FRAME_HEADER_def)
  have ph: "parse_frame_header (frame_header f) = Inr (fr_stream_id f, fr_flags f, ?len)"
    using f len(1) by (simp add: parse_frame_header_iff frame_header_def frame_ok_def)
  have pad: "read_padding (fr_flags f) (wire_padding (fr_padding f) @ r) = Inr (fr_padding f, r)"
    using f by (simp add: read_padding_iff frame_ok_def)
  show "read_frame bs = Inr (f, r)"
    by (simp add: read_frame_def bindP_def hd ph len(2) pad)
qed

lemma wire_padding_length:
  "length pad \<le> MAX_PADDING \<Longrightarrow> length (wire_padding pad) = (if pad = [] then 0 else 2 + length pad)"
  by (simp add: wire_padding_def)

text \<open>Padding drawn from the generator always fits the receiver's bound.\<close>

lemma random_padding_bound:
  assumes "\<And>n. length (fill n) = n"
  shows "length (random_padding draw fill profile) \<le> padding_max profile"
    and "length (random_padding draw fill profile) \<le> MAX_PADDING"
proof -
  have "unat draw mod (padding_max profile + 1) \<le> padding_max profile"
    by (metis Suc_eq_plus1 less_Suc_eq_le mod_less_divisor zero_less_Suc)
  then show "length (random_padding draw fill profile) \<le> padding_max profile"
    using assms by (simp add: random_padding_def Let_def)
  also have "padding_max profile \<le> MAX_PADDING"
    by (cases profile) (simp_all add: padding_max_def MAX_PADDING_def)
  finally show "length (random_padding draw fill profile) \<le> MAX_PADDING" .
qed

lemma random_padding_ascii:
  "b \<in> set (random_padding draw fill PreferAscii) \<Longrightarrow> 65 \<le> b \<and> b \<le> 90"
proof -
  have "65 \<le> 65 + c mod 26 \<and> 65 + c mod 26 \<le> 90" for c :: u8
  proof -
    have "unat (c mod 26) < 26"
      by (simp add: unat_mod)
    then show ?thesis
      by (simp add: word_le_nat_alt unat_word_ariths)
  qed
  then show "b \<in> set (random_padding draw fill PreferAscii) \<Longrightarrow> 65 \<le> b \<and> b \<le> 90"
    by (auto simp: random_padding_def Let_def split: if_splits)
qed

end
