(* ===== verification/Session_Crypto.thy ===== *)
theory Session_Crypto
  imports Wire_Proto Policy_Plan
begin

text \<open>
  The cryptographic layer of the inner protocol (\<open>crypto/mod.rs\<close>): key schedule,
  contributory X25519, the AEAD session with its nonce counters and poisoned directions,
  and the storage forms of ML-KEM keys. The primitives of the third-party crates are the
  fields of \<open>session_crypto\<close>; what their documentation promises is \<open>primitives_ok\<close>. The
  lemmas show which nonce each record uses, that a direction that failed once never works
  again, and that splitting a session changes nothing.
\<close>

section \<open>Primitives\<close>

text \<open>
  \<open>'k\<close> is the ML-KEM decapsulation key. An encapsulation key is identified with its
  encoding. A randomised operation takes its coins as an argument. \<open>hkdf\<close> is extract with a
  salt followed by expand; expand fails when too much output is asked for. \<open>ct_select\<close> and
  \<open>ct_array_eq\<close> are the constant-time operations of the \<open>subtle\<close> crate.
\<close>

record 'k session_crypto = crypto +
  hmac_sign :: "bytes \<Rightarrow> bytes \<Rightarrow> bytes"
  hmac_verify :: "bytes \<Rightarrow> bytes \<Rightarrow> bytes \<Rightarrow> bool"
  hkdf :: "bytes \<Rightarrow> bytes \<Rightarrow> bytes \<Rightarrow> nat \<Rightarrow> bytes option"
  ed25519_public :: "bytes \<Rightarrow> bytes option"
  ed25519_sign :: "bytes \<Rightarrow> bytes \<Rightarrow> bytes"
  x25519_public :: "bytes \<Rightarrow> bytes"
  aead_seal :: "bytes \<Rightarrow> bytes \<Rightarrow> bytes \<Rightarrow> bytes \<Rightarrow> bytes option"
  aead_open :: "bytes \<Rightarrow> bytes \<Rightarrow> bytes \<Rightarrow> bytes \<Rightarrow> bytes option"
  mlkem_public_valid :: "bytes \<Rightarrow> bool"
  mlkem_encap :: "bytes \<Rightarrow> bytes \<Rightarrow> bytes \<times> bytes"
  mlkem_decap :: "'k \<Rightarrow> bytes \<Rightarrow> bytes"
  mlkem_encapsulation_key :: "'k \<Rightarrow> bytes"
  mlkem_from_seed :: "bytes \<Rightarrow> 'k"
  mlkem_to_seed :: "'k \<Rightarrow> bytes option"
  mlkem_from_expanded :: "bytes \<Rightarrow> 'k option"
  mlkem_to_expanded :: "'k \<Rightarrow> bytes"
  ct_select :: "u8 \<Rightarrow> u8 \<Rightarrow> bool \<Rightarrow> u8"
  ct_array_eq :: "bytes \<Rightarrow> bytes \<Rightarrow> bool"

section \<open>Constants and errors\<close>

definition KEY_SIZE :: nat where "KEY_SIZE = 32"
definition NONCE_SIZE :: nat where "NONCE_SIZE = 12"
definition MLKEM_SEED_SIZE :: nat where "MLKEM_SEED_SIZE = 64"
definition MLKEM_LEGACY_EXPANDED_SECRET_SIZE :: nat where
  "MLKEM_LEGACY_EXPANDED_SECRET_SIZE = 2400"

datatype crypto_error =
    NonContributory
  | HkdfExpandFailed
  | SendPoisoned
  | SendNonceOverflow
  | EncryptFailed
  | RecvPoisoned
  | RecvNonceOverflow
  | DecryptFailed
  | MlkemCiphertextLength nat
  | MlkemPublicLength nat
  | MlkemPublicEncoding
  | MlkemSecretLength nat
  | MlkemExpandedEncoding
  | MlkemPairwiseMismatch

section \<open>Shared secrets and traffic keys\<close>

record session_keys =
  send_key :: bytes
  recv_key :: bytes

definition encapsulate_mlkem :: "('k, 'z) session_crypto_scheme \<Rightarrow> bytes \<Rightarrow> bytes \<Rightarrow> bytes \<times> bytes" where
  "encapsulate_mlkem C coins server_public = mlkem_encap C server_public coins"

definition decapsulate_mlkem :: "('k, 'z) session_crypto_scheme \<Rightarrow> 'k \<Rightarrow> bytes \<Rightarrow> bytes" where
  "decapsulate_mlkem C server_secret ciphertext = mlkem_decap C server_secret ciphertext"

definition require_contributory_x25519 :: "bytes \<Rightarrow> crypto_error + bytes" where
  "require_contributory_x25519 shared =
     (if fold (\<lambda>byte accumulator. accumulator OR byte) shared 0 = (0 :: u8)
      then Inl NonContributory else Inr shared)"

definition x25519_shared :: "('k, 'z) session_crypto_scheme \<Rightarrow> bytes \<Rightarrow> bytes \<Rightarrow> crypto_error + bytes" where
  "x25519_shared C local remote = require_contributory_x25519 (x25519 C local remote)"

definition x25519_ephemeral_shared ::
  "('k, 'z) session_crypto_scheme \<Rightarrow> bytes \<Rightarrow> bytes \<Rightarrow> crypto_error + bytes" where
  "x25519_ephemeral_shared C local remote = require_contributory_x25519 (x25519 C local remote)"

record traffic_key_inputs =
  ti_x_shared :: bytes
  ti_pq_shared :: bytes
  ti_client_psk :: "bytes option"
  ti_client_random :: bytes
  ti_server_random :: bytes
  ti_transcript :: bytes
  ti_client_to_server :: bool

definition derive_v3_traffic_keys ::
  "('k, 'z) session_crypto_scheme \<Rightarrow> bytes \<Rightarrow> traffic_key_inputs \<Rightarrow> crypto_error + session_keys" where
  "derive_v3_traffic_keys C domain inputs =
     (let seed = ascii_bytes ''shadowpipe-v3/ikm'' @ [0] @ ti_x_shared inputs @ ti_pq_shared inputs
        @ (case ti_client_psk inputs of None \<Rightarrow> [] | Some psk \<Rightarrow> psk)
        @ ti_client_random inputs @ ti_server_random inputs
      in bindR (ok_or (hkdf C (ti_transcript inputs) seed domain (KEY_SIZE * 2)) HkdfExpandFailed) (\<lambda>material.
         if ti_client_to_server inputs
         then Inr \<lparr> send_key = take KEY_SIZE material, recv_key = drop KEY_SIZE material \<rparr>
         else Inr \<lparr> send_key = drop KEY_SIZE material, recv_key = take KEY_SIZE material \<rparr>))"

definition HANDSHAKE_KEY_DOMAIN :: bytes where
  "HANDSHAKE_KEY_DOMAIN = ascii_bytes ''shadowpipe-v3/handshake-traffic-keys'' @ [0]"

definition APPLICATION_KEY_DOMAIN :: bytes where
  "APPLICATION_KEY_DOMAIN = ascii_bytes ''shadowpipe-v3/application-traffic-keys'' @ [0]"

definition derive_handshake_traffic_keys ::
  "('k, 'z) session_crypto_scheme \<Rightarrow> bytes \<Rightarrow> bytes \<Rightarrow> bytes \<Rightarrow> bytes \<Rightarrow> bytes \<Rightarrow> bool
    \<Rightarrow> crypto_error + session_keys" where
  "derive_handshake_traffic_keys C xs pqs cr sr pre_finished c2s =
     derive_v3_traffic_keys C HANDSHAKE_KEY_DOMAIN
       \<lparr> ti_x_shared = xs, ti_pq_shared = pqs, ti_client_psk = None, ti_client_random = cr,
         ti_server_random = sr, ti_transcript = pre_finished, ti_client_to_server = c2s \<rparr>"

definition derive_application_traffic_keys ::
  "('k, 'z) session_crypto_scheme \<Rightarrow> bytes \<Rightarrow> bytes \<Rightarrow> bytes \<Rightarrow> bytes \<Rightarrow> bytes \<Rightarrow> bytes \<Rightarrow> bool
    \<Rightarrow> crypto_error + session_keys" where
  "derive_application_traffic_keys C xs pqs psk cr sr finished c2s =
     derive_v3_traffic_keys C APPLICATION_KEY_DOMAIN
       \<lparr> ti_x_shared = xs, ti_pq_shared = pqs, ti_client_psk = Some psk, ti_client_random = cr,
         ti_server_random = sr, ti_transcript = finished, ti_client_to_server = c2s \<rparr>"

section \<open>AEAD sessions\<close>

text \<open>
  The operations take the session and return it updated, with their result. Directions fail
  permanently: a refused record sets the flag and every later call returns an error.
\<close>

record aead_session =
  as_send :: bytes
  as_recv :: bytes
  as_send_nonce :: u64
  as_recv_nonce :: u64
  as_send_failed :: bool
  as_recv_failed :: bool

record aead_tx =
  tx_cipher :: bytes
  tx_nonce :: u64
  tx_failed :: bool

record aead_rx =
  rx_cipher :: bytes
  rx_nonce :: u64
  rx_failed :: bool

definition nonce_from_counter :: "u64 \<Rightarrow> bytes" where
  "nonce_from_counter counter = replicate 4 0 @ be64 counter"

definition aead_session_new :: "session_keys \<Rightarrow> aead_session" where
  "aead_session_new keys =
     \<lparr> as_send = send_key keys, as_recv = recv_key keys, as_send_nonce = 0, as_recv_nonce = 0,
       as_send_failed = False, as_recv_failed = False \<rparr>"

definition aead_session_split :: "aead_session \<Rightarrow> aead_tx \<times> aead_rx" where
  "aead_session_split s =
     (\<lparr> tx_cipher = as_send s, tx_nonce = as_send_nonce s, tx_failed = as_send_failed s \<rparr>,
      \<lparr> rx_cipher = as_recv s, rx_nonce = as_recv_nonce s, rx_failed = as_recv_failed s \<rparr>)"

definition aead_session_encrypt ::
  "('k, 'z) session_crypto_scheme \<Rightarrow> aead_session \<Rightarrow> bytes \<Rightarrow> bytes
    \<Rightarrow> aead_session \<times> (crypto_error + bytes)" where
  "aead_session_encrypt C s plaintext aad =
     (if as_send_failed s then (s, Inl SendPoisoned)
      else case u64_checked_add (as_send_nonce s) 1 of
        None \<Rightarrow> (s \<lparr> as_send_failed := True \<rparr>, Inl SendNonceOverflow)
      | Some next_nonce \<Rightarrow>
          (case aead_seal C (as_send s) (nonce_from_counter (as_send_nonce s)) aad plaintext of
             Some ciphertext \<Rightarrow> (s \<lparr> as_send_nonce := next_nonce \<rparr>, Inr ciphertext)
           | None \<Rightarrow> (s \<lparr> as_send_failed := True \<rparr>, Inl EncryptFailed)))"

definition aead_session_decrypt ::
  "('k, 'z) session_crypto_scheme \<Rightarrow> aead_session \<Rightarrow> bytes \<Rightarrow> bytes
    \<Rightarrow> aead_session \<times> (crypto_error + bytes)" where
  "aead_session_decrypt C s ciphertext aad =
     (if as_recv_failed s then (s, Inl RecvPoisoned)
      else case u64_checked_add (as_recv_nonce s) 1 of
        None \<Rightarrow> (s \<lparr> as_recv_failed := True \<rparr>, Inl RecvNonceOverflow)
      | Some next_nonce \<Rightarrow>
          (case aead_open C (as_recv s) (nonce_from_counter (as_recv_nonce s)) aad ciphertext of
             Some plaintext \<Rightarrow> (s \<lparr> as_recv_nonce := next_nonce \<rparr>, Inr plaintext)
           | None \<Rightarrow> (s \<lparr> as_recv_failed := True \<rparr>, Inl DecryptFailed)))"

definition aead_tx_encrypt ::
  "('k, 'z) session_crypto_scheme \<Rightarrow> aead_tx \<Rightarrow> bytes \<Rightarrow> bytes \<Rightarrow> aead_tx \<times> (crypto_error + bytes)" where
  "aead_tx_encrypt C t plaintext aad =
     (if tx_failed t then (t, Inl SendPoisoned)
      else case u64_checked_add (tx_nonce t) 1 of
        None \<Rightarrow> (t \<lparr> tx_failed := True \<rparr>, Inl SendNonceOverflow)
      | Some next_nonce \<Rightarrow>
          (case aead_seal C (tx_cipher t) (nonce_from_counter (tx_nonce t)) aad plaintext of
             Some ciphertext \<Rightarrow> (t \<lparr> tx_nonce := next_nonce \<rparr>, Inr ciphertext)
           | None \<Rightarrow> (t \<lparr> tx_failed := True \<rparr>, Inl EncryptFailed)))"

definition aead_rx_decrypt ::
  "('k, 'z) session_crypto_scheme \<Rightarrow> aead_rx \<Rightarrow> bytes \<Rightarrow> bytes \<Rightarrow> aead_rx \<times> (crypto_error + bytes)" where
  "aead_rx_decrypt C r ciphertext aad =
     (if rx_failed r then (r, Inl RecvPoisoned)
      else case u64_checked_add (rx_nonce r) 1 of
        None \<Rightarrow> (r \<lparr> rx_failed := True \<rparr>, Inl RecvNonceOverflow)
      | Some next_nonce \<Rightarrow>
          (case aead_open C (rx_cipher r) (nonce_from_counter (rx_nonce r)) aad ciphertext of
             Some plaintext \<Rightarrow> (r \<lparr> rx_nonce := next_nonce \<rparr>, Inr plaintext)
           | None \<Rightarrow> (r \<lparr> rx_failed := True \<rparr>, Inl DecryptFailed)))"

section \<open>ML-KEM keys\<close>

definition MLKEM_ID_DOMAIN :: bytes where
  "MLKEM_ID_DOMAIN = ascii_bytes ''shadowpipe-mlkem-id-v1''"

definition mlkem_fingerprint :: "('k, 'z) session_crypto_scheme \<Rightarrow> bytes \<Rightarrow> bytes" where
  "mlkem_fingerprint C pk_bytes = sha256 C (MLKEM_ID_DOMAIN @ pk_bytes)"

definition mlkem_secret_storage_bytes :: "('k, 'z) session_crypto_scheme \<Rightarrow> 'k \<Rightarrow> bytes" where
  "mlkem_secret_storage_bytes C sk =
     (case mlkem_to_seed C sk of Some seed \<Rightarrow> seed | None \<Rightarrow> mlkem_to_expanded C sk)"

definition mlkem_ciphertext_from_bytes :: "bytes \<Rightarrow> crypto_error + bytes" where
  "mlkem_ciphertext_from_bytes b =
     (if length b = MLKEM_CIPHERTEXT_SIZE then Inr b else Inl (MlkemCiphertextLength (length b)))"

definition mlkem_public_from_bytes :: "('k, 'z) session_crypto_scheme \<Rightarrow> bytes \<Rightarrow> crypto_error + bytes" where
  "mlkem_public_from_bytes C b =
     (if length b \<noteq> MLKEM_PUBLIC_KEY_SIZE then Inl (MlkemPublicLength (length b))
      else if mlkem_public_valid C b then Inr b else Inl MlkemPublicEncoding)"

definition PAIRWISE_DOMAIN :: bytes where
  "PAIRWISE_DOMAIN = ascii_bytes ''shadowpipe-mlkem-expanded-pairwise-check-v1''"

definition validate_mlkem_keypair :: "('k, 'z) session_crypto_scheme \<Rightarrow> 'k \<Rightarrow> crypto_error + unit" where
  "validate_mlkem_keypair C secret =
     (let public = mlkem_encapsulation_key C secret;
          message = sha256 C (PAIRWISE_DOMAIN @ public);
          (ciphertext, encapsulated) = mlkem_encap C public message;
          decapsulated = mlkem_decap C secret ciphertext
      in if ct_eq encapsulated decapsulated then Inr () else Inl MlkemPairwiseMismatch)"

definition mlkem_secret_from_storage_bytes ::
  "('k, 'z) session_crypto_scheme \<Rightarrow> bytes \<Rightarrow> crypto_error + 'k" where
  "mlkem_secret_from_storage_bytes C b =
     (if length b = MLKEM_SEED_SIZE then Inr (mlkem_from_seed C b)
      else if length b = MLKEM_LEGACY_EXPANDED_SECRET_SIZE then
        bindR (ok_or (mlkem_from_expanded C b) MlkemExpandedEncoding) (\<lambda>secret.
        bindR (validate_mlkem_keypair C secret) (\<lambda>_. Inr secret))
      else Inl (MlkemSecretLength (length b)))"

section \<open>What the primitives promise\<close>

text \<open>
  Output sizes; a MAC verifies exactly when it is the MAC; signatures of a key verify under
  its public key; X25519 commutes; a decapsulated ciphertext gives the encapsulated secret;
  the AEAD opens exactly the ciphertexts it seals, sixteen bytes longer than the plaintext;
  seeds and expanded keys read back; constant-time selection and comparison.
\<close>

definition mac_ok :: "('k, 'z) session_crypto_scheme \<Rightarrow> bool" where
  "mac_ok C \<longleftrightarrow> (\<forall>k m. length (hmac_sign C k m) = 32)
     \<and> (\<forall>k m t. hmac_verify C k m t \<longleftrightarrow> t = hmac_sign C k m)"

definition aead_ok :: "('k, 'z) session_crypto_scheme \<Rightarrow> bool" where
  "aead_ok C \<longleftrightarrow>
     (\<forall>k n a p c. aead_open C k n a c = Some p \<longleftrightarrow> aead_seal C k n a p = Some c)
     \<and> (\<forall>k n a p c. aead_seal C k n a p = Some c \<longrightarrow> length c = length p + 16)
     \<and> (\<forall>k n a p. length p \<le> 65536 \<longrightarrow> aead_seal C k n a p \<noteq> None)"

definition hkdf_ok :: "('k, 'z) session_crypto_scheme \<Rightarrow> bool" where
  "hkdf_ok C \<longleftrightarrow> (\<forall>s i d. \<exists>m. hkdf C s i d 64 = Some m \<and> length m = 64)"

definition signature_ok :: "('k, 'z) session_crypto_scheme \<Rightarrow> bool" where
  "signature_ok C \<longleftrightarrow> (\<forall>seed pk. ed25519_public C seed = Some pk \<longrightarrow> length pk = 32
       \<and> (\<forall>m. length (ed25519_sign C seed m) = 64 \<and> ed25519_verify C pk m (ed25519_sign C seed m)))"

definition exchange_ok :: "('k, 'z) session_crypto_scheme \<Rightarrow> bool" where
  "exchange_ok C \<longleftrightarrow> (\<forall>a b. x25519 C a (x25519_public C b) = x25519 C b (x25519_public C a))
     \<and> (\<forall>a. length (x25519_public C a) = 32)"

definition kem_ok :: "('k, 'z) session_crypto_scheme \<Rightarrow> bool" where
  "kem_ok C \<longleftrightarrow> (\<forall>sk. let pk = mlkem_encapsulation_key C sk in
       length pk = MLKEM_PUBLIC_KEY_SIZE \<and> mlkem_public_valid C pk
       \<and> (\<forall>coins. length (fst (mlkem_encap C pk coins)) = MLKEM_CIPHERTEXT_SIZE
            \<and> mlkem_decap C sk (fst (mlkem_encap C pk coins)) = snd (mlkem_encap C pk coins)))
     \<and> (\<forall>sk seed. mlkem_to_seed C sk = Some seed \<longrightarrow>
          length seed = MLKEM_SEED_SIZE \<and> mlkem_from_seed C seed = sk)
     \<and> (\<forall>sk. length (mlkem_to_expanded C sk) = MLKEM_LEGACY_EXPANDED_SECRET_SIZE
          \<and> mlkem_from_expanded C (mlkem_to_expanded C sk) = Some sk)"

definition select_ok :: "('k, 'z) session_crypto_scheme \<Rightarrow> bool" where
  "select_ok C \<longleftrightarrow> (\<forall>a b c. ct_select C a b c = (if c then b else a))
     \<and> (\<forall>a b. ct_array_eq C a b \<longleftrightarrow> a = b)"

definition primitives_ok :: "('k, 'z) session_crypto_scheme \<Rightarrow> bool" where
  "primitives_ok C \<longleftrightarrow> (\<forall>m. length (sha256 C m) = 32) \<and> mac_ok C \<and> aead_ok C \<and> hkdf_ok C
     \<and> signature_ok C \<and> exchange_ok C \<and> kem_ok C \<and> select_ok C"

lemma primitives_okD:
  assumes "primitives_ok C"
  shows "length (sha256 C m) = 32" and "mac_ok C" and "aead_ok C" and "hkdf_ok C"
    and "signature_ok C" and "exchange_ok C" and "kem_ok C" and "select_ok C"
  using assms by (simp_all add: primitives_ok_def)

section \<open>Keys\<close>

lemma fold_or_zero: "fold (\<lambda>b a. a OR b) bs (a :: u8) = 0 \<longleftrightarrow> a = 0 \<and> (\<forall>b \<in> set bs. b = 0)"
  by (induction bs arbitrary: a) (auto simp: or_eq_zero)

lemma require_contributory_iff:
  "require_contributory_x25519 shared = Inr s \<longleftrightarrow> s = shared \<and> (\<exists>b \<in> set shared. b \<noteq> 0)"
  by (auto simp: require_contributory_x25519_def fold_or_zero)

lemma ephemeral_shared_iff:
  "x25519_ephemeral_shared C a pk = Inr s \<longleftrightarrow> s = x25519 C a pk \<and> (\<exists>b \<in> set s. b \<noteq> 0)"
  by (auto simp: x25519_ephemeral_shared_def require_contributory_iff)

definition mirror_keys :: "session_keys \<Rightarrow> session_keys" where
  "mirror_keys k = \<lparr> send_key = recv_key k, recv_key = send_key k \<rparr>"

lemma derive_v3_mirror:
  "derive_v3_traffic_keys C d (i \<lparr> ti_client_to_server := \<not> ti_client_to_server i \<rparr>)
     = (case derive_v3_traffic_keys C d i of Inl e \<Rightarrow> Inl e | Inr k \<Rightarrow> Inr (mirror_keys k))"
  by (simp add: derive_v3_traffic_keys_def Let_def bindR_def mirror_keys_def split: sum.splits)

lemma handshake_keys_mirror:
  "derive_handshake_traffic_keys C x q cr sr t True = Inr k \<Longrightarrow>
     derive_handshake_traffic_keys C x q cr sr t False = Inr (mirror_keys k)"
  using derive_v3_mirror [of C HANDSHAKE_KEY_DOMAIN "\<lparr> ti_x_shared = x, ti_pq_shared = q, ti_client_psk = None,
    ti_client_random = cr, ti_server_random = sr, ti_transcript = t, ti_client_to_server = True \<rparr>"]
  by (simp add: derive_handshake_traffic_keys_def)

lemma application_keys_mirror:
  "derive_application_traffic_keys C x q p cr sr t True = Inr k \<Longrightarrow>
     derive_application_traffic_keys C x q p cr sr t False = Inr (mirror_keys k)"
  using derive_v3_mirror [of C APPLICATION_KEY_DOMAIN "\<lparr> ti_x_shared = x, ti_pq_shared = q, ti_client_psk = Some p,
    ti_client_random = cr, ti_server_random = sr, ti_transcript = t, ti_client_to_server = True \<rparr>"]
  by (simp add: derive_application_traffic_keys_def)

lemma traffic_keys_exist:
  assumes "hkdf_ok C"
  obtains k where "derive_v3_traffic_keys C d i = Inr k"
    and "length (send_key k) = 32" and "length (recv_key k) = 32"
proof -
  obtain m where "hkdf C (ti_transcript i) (ascii_bytes ''shadowpipe-v3/ikm'' @ [0] @ ti_x_shared i @ ti_pq_shared i
      @ (case ti_client_psk i of None \<Rightarrow> [] | Some psk \<Rightarrow> psk) @ ti_client_random i @ ti_server_random i)
      d 64 = Some m" and "length m = 64"
    using assms unfolding hkdf_ok_def by blast
  then show thesis
    using that by (cases "ti_client_to_server i")
      (simp_all add: derive_v3_traffic_keys_def Let_def KEY_SIZE_def)
qed

lemma secret_storage_roundtrip:
  assumes "kem_ok C"
  shows "mlkem_secret_from_storage_bytes C (mlkem_secret_storage_bytes C sk) = Inr sk"
proof (cases "mlkem_to_seed C sk")
  case (Some seed)
  with assms show ?thesis
    by (auto simp: kem_ok_def mlkem_secret_storage_bytes_def mlkem_secret_from_storage_bytes_def)
next
  case None
  moreover have "validate_mlkem_keypair C sk = Inr ()"
    using assms by (auto simp: kem_ok_def validate_mlkem_keypair_def Let_def ct_eq_iff split: prod.splits)
      (metis fst_conv snd_conv)
  ultimately show ?thesis
    using assms by (simp add: kem_ok_def mlkem_secret_storage_bytes_def
        mlkem_secret_from_storage_bytes_def MLKEM_SEED_SIZE_def MLKEM_LEGACY_EXPANDED_SECRET_SIZE_def)
qed

section \<open>Nonces\<close>

lemma nonce_length [simp]: "length (nonce_from_counter n) = NONCE_SIZE"
  by (simp add: nonce_from_counter_def NONCE_SIZE_def)

lemma nonce_inj [simp]: "nonce_from_counter a = nonce_from_counter b \<longleftrightarrow> a = b"
  by (simp add: nonce_from_counter_def)

lemma tx_encrypt_iff:
  "aead_tx_encrypt C t p a = (t', Inr c) \<longleftrightarrow>
     \<not> tx_failed t \<and> unat (tx_nonce t) + 1 < 2 ^ 64 \<and> t' = t \<lparr> tx_nonce := tx_nonce t + 1 \<rparr>
     \<and> aead_seal C (tx_cipher t) (nonce_from_counter (tx_nonce t)) a p = Some c"
  by (auto simp: aead_tx_encrypt_def u64_checked_add_def split: option.splits)

lemma rx_decrypt_iff:
  "aead_rx_decrypt C r c a = (r', Inr p) \<longleftrightarrow>
     \<not> rx_failed r \<and> unat (rx_nonce r) + 1 < 2 ^ 64 \<and> r' = r \<lparr> rx_nonce := rx_nonce r + 1 \<rparr>
     \<and> aead_open C (rx_cipher r) (nonce_from_counter (rx_nonce r)) a c = Some p"
  by (auto simp: aead_rx_decrypt_def u64_checked_add_def split: option.splits)

lemma tx_encrypt_error:
  "aead_tx_encrypt C t p a = (t', Inl e) \<Longrightarrow> tx_failed t' \<and> tx_nonce t' = tx_nonce t"
  by (auto simp: aead_tx_encrypt_def split: if_splits option.splits)

lemma rx_decrypt_error:
  "aead_rx_decrypt C r c a = (r', Inl e) \<Longrightarrow> rx_failed r' \<and> rx_nonce r' = rx_nonce r"
  by (auto simp: aead_rx_decrypt_def split: if_splits option.splits)

text \<open>The halves of a split session do what the session does.\<close>

lemma split_encrypt:
  "aead_tx_encrypt C (fst (aead_session_split s)) p a
     = map_prod (fst \<circ> aead_session_split) id (aead_session_encrypt C s p a)"
  by (simp add: aead_tx_encrypt_def aead_session_encrypt_def aead_session_split_def split: option.splits)

lemma split_decrypt:
  "aead_rx_decrypt C (snd (aead_session_split s)) c a
     = map_prod (snd \<circ> aead_session_split) id (aead_session_decrypt C s c a)"
  by (simp add: aead_rx_decrypt_def aead_session_decrypt_def aead_session_split_def split: option.splits)

section \<open>Runs of one direction\<close>

text \<open>
  \<open>tx_encrypts\<close> and \<open>rx_decrypts\<close>: the results of successive calls on one direction, going on
  after errors.
\<close>

fun tx_encrypts ::
  "('k, 'z) session_crypto_scheme \<Rightarrow> aead_tx \<Rightarrow> (bytes \<times> bytes) list \<Rightarrow> (crypto_error + bytes) list" where
  "tx_encrypts C t [] = []"
| "tx_encrypts C t ((plaintext, aad) # rs) =
     (case aead_tx_encrypt C t plaintext aad of (t', res) \<Rightarrow> res # tx_encrypts C t' rs)"

fun rx_decrypts ::
  "('k, 'z) session_crypto_scheme \<Rightarrow> aead_rx \<Rightarrow> (bytes \<times> bytes) list \<Rightarrow> (crypto_error + bytes) list" where
  "rx_decrypts C r [] = []"
| "rx_decrypts C r ((ciphertext, aad) # rs) =
     (case aead_rx_decrypt C r ciphertext aad of (r', res) \<Rightarrow> res # rx_decrypts C r' rs)"

text \<open>
  \<open>counter_run call failed (poisoned, overflow, refused) n out k\<close>: the results \<open>out\<close> are those of
  a direction whose counter starts at \<open>n\<close> and whose \<open>i\<close>-th record is \<open>call i\<close> under the nonce it
  is given. The first \<open>k\<close> records succeed, each under its own counter value; the \<open>k\<close>-th stops
  the run, because the direction had failed before, the counter is spent or the call is refused;
  and all later ones are refused as poisoned.
\<close>

definition counter_run ::
  "(nat \<Rightarrow> bytes \<Rightarrow> bytes option) \<Rightarrow> bool \<Rightarrow> crypto_error \<times> crypto_error \<times> crypto_error \<Rightarrow> u64
     \<Rightarrow> (crypto_error + bytes) list \<Rightarrow> nat \<Rightarrow> bool" where
  "counter_run call failed errs n out k \<longleftrightarrow> (case errs of (poisoned, overflow, refused) \<Rightarrow>
     k \<le> length out \<and> unat n + k < 2 ^ 64 \<and> (failed \<longrightarrow> k = 0)
     \<and> (\<forall>i < k. \<exists>x. call i (nonce_from_counter (n + word_of_nat i)) = Some x \<and> out ! i = Inr x)
     \<and> (k < length out \<longrightarrow>
          failed \<and> out ! k = Inl poisoned
          \<or> \<not> failed \<and> unat n + k + 1 = 2 ^ 64 \<and> out ! k = Inl overflow
          \<or> \<not> failed \<and> call k (nonce_from_counter (n + word_of_nat k)) = None \<and> out ! k = Inl refused)
     \<and> (\<forall>i < length out. k < i \<longrightarrow> out ! i = Inl poisoned))"

lemma unat_lt_u64: "unat (n :: u64) < 18446744073709551616"
  using unsigned_less [of n] by simp

lemma u64_spent: "\<not> unat (n :: u64) < 18446744073709551615 \<longleftrightarrow> unat n = 18446744073709551615"
  using unat_lt_u64 [of n] by linarith

lemma all_less_Suc_case: "(\<forall>i < Suc k. P i) \<longleftrightarrow> P 0 \<and> (\<forall>i < k. P (Suc i))"
  by (metis less_Suc_eq_0_disj)

lemma counter_run_Nil: "counter_run call failed errs n [] 0"
  by (simp add: counter_run_def unat_lt_u64 split: prod.splits)

lemma counter_run_stop:
  assumes "failed \<and> e = poisoned \<or> \<not> failed \<and> unat n + 1 = 2 ^ 64 \<and> e = overflow
      \<or> \<not> failed \<and> call 0 (nonce_from_counter n) = None \<and> e = refused"
    and "list_all (\<lambda>x. x = Inl poisoned) out"
  shows "counter_run call failed (poisoned, overflow, refused) n (Inl e # out) 0"
  using assms unat_lt_u64 [of n]
  by (auto simp: counter_run_def list_all_length nth_Cons split: nat.splits)

lemma counter_run_Cons:
  assumes "counter_run (call \<circ> Suc) False errs (n + 1) out k"
    and "unat n + 1 < 2 ^ 64" and "call 0 (nonce_from_counter n) = Some x"
  shows "counter_run call False errs n (Inr x # out) (Suc k)"
proof -
  have "unat (n + 1) = unat n + 1"
    using assms(2) by (simp add: unat_word_ariths)
  with assms show ?thesis
    by (auto simp: counter_run_def nth_Cons ac_simps all_less_Suc_case split: prod.splits nat.splits)
qed

lemma counter_run_nonces:
  assumes "counter_run call failed errs n out k"
  shows "distinct (map (\<lambda>i. nonce_from_counter (n + word_of_nat i)) [0..<Suc k])"
proof -
  have "unat n + k < 2 ^ 64"
    using assms by (simp add: counter_run_def split: prod.splits)
  then have "inj_on (\<lambda>i. word_of_nat i :: u64) (set [0..<Suc k])"
    by (intro inj_onI) (auto simp: unat_of_nat word_unat_eq_iff)
  then show ?thesis
    by (simp add: distinct_map inj_on_def del: upt_Suc)
qed

lemma tx_encrypts_failed: "tx_failed t \<Longrightarrow> list_all (\<lambda>x. x = Inl SendPoisoned) (tx_encrypts C t rs)"
  by (induction C t rs rule: tx_encrypts.induct) (auto simp: aead_tx_encrypt_def)

lemma rx_decrypts_failed: "rx_failed r \<Longrightarrow> list_all (\<lambda>x. x = Inl RecvPoisoned) (rx_decrypts C r rs)"
  by (induction C r rs rule: rx_decrypts.induct) (auto simp: aead_rx_decrypt_def)

lemma tx_encrypts_run:
  "\<exists>k. counter_run (\<lambda>i nonce. aead_seal C (tx_cipher t) nonce (snd (rs ! i)) (fst (rs ! i))) (tx_failed t)
     (SendPoisoned, SendNonceOverflow, EncryptFailed) (tx_nonce t) (tx_encrypts C t rs) k"
proof (induction rs arbitrary: t)
  case (Cons m rs)
  obtain p a where m: "m = (p, a)"
    by (cases m)
  obtain t' res where enc: "aead_tx_encrypt C t p a = (t', res)"
    by fastforce
  show ?case
  proof (cases res)
    case (Inl e)
    with enc tx_encrypts_failed [of t' C rs] tx_encrypt_error [of C t p a t' e] show ?thesis
      unfolding m by (auto intro!: exI [of _ 0] counter_run_stop
        simp: aead_tx_encrypt_def u64_checked_add_def u64_spent split: if_splits option.splits)
  next
    case (Inr c)
    with enc have t': "\<not> tx_failed t" "unat (tx_nonce t) + 1 < 2 ^ 64" "t' = t \<lparr> tx_nonce := tx_nonce t + 1 \<rparr>"
      "aead_seal C (tx_cipher t) (nonce_from_counter (tx_nonce t)) a p = Some c"
      by (simp_all add: tx_encrypt_iff)
    from Cons [of t'] obtain k where
      "counter_run (\<lambda>i nonce. aead_seal C (tx_cipher t) nonce (snd (rs ! i)) (fst (rs ! i))) False
        (SendPoisoned, SendNonceOverflow, EncryptFailed) (tx_nonce t + 1) (tx_encrypts C t' rs) k"
      using t' by auto
    then have "counter_run (\<lambda>i nonce. aead_seal C (tx_cipher t) nonce (snd ((m # rs) ! i)) (fst ((m # rs) ! i))) False
        (SendPoisoned, SendNonceOverflow, EncryptFailed) (tx_nonce t) (Inr c # tx_encrypts C t' rs) (Suc k)"
      using t' by (intro counter_run_Cons) (simp_all add: m comp_def)
    then show ?thesis
      using t'(1) enc Inr by (auto simp: m)
  qed
qed (auto intro: counter_run_Nil)

lemma rx_decrypts_run:
  "\<exists>k. counter_run (\<lambda>i nonce. aead_open C (rx_cipher r) nonce (snd (rs ! i)) (fst (rs ! i))) (rx_failed r)
     (RecvPoisoned, RecvNonceOverflow, DecryptFailed) (rx_nonce r) (rx_decrypts C r rs) k"
proof (induction rs arbitrary: r)
  case (Cons m rs)
  obtain c a where m: "m = (c, a)"
    by (cases m)
  obtain r' res where dec: "aead_rx_decrypt C r c a = (r', res)"
    by fastforce
  show ?case
  proof (cases res)
    case (Inl e)
    with dec rx_decrypts_failed [of r' C rs] rx_decrypt_error [of C r c a r' e] show ?thesis
      unfolding m by (auto intro!: exI [of _ 0] counter_run_stop
        simp: aead_rx_decrypt_def u64_checked_add_def u64_spent split: if_splits option.splits)
  next
    case (Inr p)
    with dec have r': "\<not> rx_failed r" "unat (rx_nonce r) + 1 < 2 ^ 64" "r' = r \<lparr> rx_nonce := rx_nonce r + 1 \<rparr>"
      "aead_open C (rx_cipher r) (nonce_from_counter (rx_nonce r)) a c = Some p"
      by (simp_all add: rx_decrypt_iff)
    from Cons [of r'] obtain k where
      "counter_run (\<lambda>i nonce. aead_open C (rx_cipher r) nonce (snd (rs ! i)) (fst (rs ! i))) False
        (RecvPoisoned, RecvNonceOverflow, DecryptFailed) (rx_nonce r + 1) (rx_decrypts C r' rs) k"
      using r' by auto
    then have "counter_run (\<lambda>i nonce. aead_open C (rx_cipher r) nonce (snd ((m # rs) ! i)) (fst ((m # rs) ! i))) False
        (RecvPoisoned, RecvNonceOverflow, DecryptFailed) (rx_nonce r) (Inr p # rx_decrypts C r' rs) (Suc k)"
      using r' by (intro counter_run_Cons) (simp_all add: m comp_def)
    then show ?thesis
      using r'(1) dec Inr by (auto simp: m)
  qed
qed (auto intro: counter_run_Nil)

end
