(* ===== verification/Client_Auth.thy ===== *)
theory Client_Auth
  imports Session_Crypto
begin

text \<open>
  Per-device authentication of the inner handshake (\<open>client_auth.rs\<close>): the fixed-width proof
  records, the mutual pre-key access gate and the Finished proofs, on the client's credential
  and the server's allowlist. \<open>BUILD_MAGIC\<close>, which the build generates, is the argument
  \<open>magic\<close>; random draws are arguments too, \<open>None\<close> being a failing generator. The lemmas show
  that the proof records are read back exactly, that every field of a proof message can be
  recovered from it, and when each verification succeeds.
\<close>

section \<open>Constants\<close>

definition PROTO_VERSION :: u8 where "PROTO_VERSION = 3"
definition CLIENT_KEY_ID_LEN :: nat where "CLIENT_KEY_ID_LEN = 16"
definition CLIENT_PUBLIC_KEY_LEN :: nat where "CLIENT_PUBLIC_KEY_LEN = 32"
definition CLIENT_PSK_LEN :: nat where "CLIENT_PSK_LEN = 32"
definition CLIENT_SIGNATURE_LEN :: nat where "CLIENT_SIGNATURE_LEN = 64"
definition CLIENT_MAC_LEN :: nat where "CLIENT_MAC_LEN = 32"
definition SERVER_ACCESS_CHALLENGE_LEN :: nat where "SERVER_ACCESS_CHALLENGE_LEN = 32"
definition CLIENT_ACCESS_NONCE_LEN :: nat where "CLIENT_ACCESS_NONCE_LEN = 32"
definition CLIENT_ACCESS_HELLO_LEN :: nat where "CLIENT_ACCESS_HELLO_LEN = CLIENT_KEY_ID_LEN"
definition SERVER_ACCESS_PROOF_LEN :: nat where
  "SERVER_ACCESS_PROOF_LEN = SERVER_ACCESS_CHALLENGE_LEN + CLIENT_MAC_LEN"
definition CLIENT_ACCESS_PROOF_LEN :: nat where
  "CLIENT_ACCESS_PROOF_LEN = CLIENT_ACCESS_NONCE_LEN + CLIENT_MAC_LEN"
definition CLIENT_FINISHED_LEN :: nat where
  "CLIENT_FINISHED_LEN = 1 + CLIENT_KEY_ID_LEN + CLIENT_SIGNATURE_LEN + CLIENT_MAC_LEN"
definition SERVER_FINISHED_LEN :: nat where "SERVER_FINISHED_LEN = 1 + CLIENT_MAC_LEN"
definition MAX_AUTHORIZED_CLIENTS :: nat where "MAX_AUTHORIZED_CLIENTS = 256"
definition CLIENT_FINISHED_FORMAT :: u8 where "CLIENT_FINISHED_FORMAT = 1"
definition SERVER_FINISHED_FORMAT :: u8 where "SERVER_FINISHED_FORMAT = 1"

lemmas auth_lengths = CLIENT_KEY_ID_LEN_def CLIENT_PUBLIC_KEY_LEN_def CLIENT_PSK_LEN_def
  CLIENT_SIGNATURE_LEN_def CLIENT_MAC_LEN_def SERVER_ACCESS_CHALLENGE_LEN_def
  CLIENT_ACCESS_NONCE_LEN_def CLIENT_ACCESS_HELLO_LEN_def SERVER_ACCESS_PROOF_LEN_def
  CLIENT_ACCESS_PROOF_LEN_def CLIENT_FINISHED_LEN_def SERVER_FINISHED_LEN_def

definition CLIENT_KEY_ID_DOMAIN :: bytes where
  "CLIENT_KEY_ID_DOMAIN = ascii_bytes ''shadowpipe-client-key-id-v3'' @ [0]"
definition SERVER_ACCESS_PROOF_DOMAIN :: bytes where
  "SERVER_ACCESS_PROOF_DOMAIN = ascii_bytes ''shadowpipe-v3/server-access-proof'' @ [0]"
definition CLIENT_ACCESS_PROOF_DOMAIN :: bytes where
  "CLIENT_ACCESS_PROOF_DOMAIN = ascii_bytes ''shadowpipe-v3/client-access-proof'' @ [0]"
definition CLIENT_PROOF_DOMAIN :: bytes where
  "CLIENT_PROOF_DOMAIN = ascii_bytes ''shadowpipe-v3/client-finished-proof'' @ [0]"
definition SERVER_PROOF_DOMAIN :: bytes where
  "SERVER_PROOF_DOMAIN = ascii_bytes ''shadowpipe-v3/server-finished-proof'' @ [0]"

definition DUMMY_ED25519_PUBLIC_KEY :: bytes where
  "DUMMY_ED25519_PUBLIC_KEY =
     [0xd7, 0x5a, 0x98, 0x01, 0x82, 0xb1, 0x0a, 0xb7, 0xd5, 0x4b, 0xfe, 0xd3, 0xc9, 0x64, 0x07, 0x3a,
      0x0e, 0xe1, 0x72, 0xf3, 0xda, 0xa6, 0x23, 0x25, 0xaf, 0x02, 0x1a, 0x68, 0xf7, 0x07, 0x51, 0x1a]"

datatype auth_error =
    AuthFailed
  | RngFailed
  | InvalidSeed
  | PublicKeyLength nat
  | SignatureLength nat
  | AllowlistSize nat
  | DuplicateKeyId

section \<open>Proof messages\<close>

definition derive_key_id :: "('k, 'z) session_crypto_scheme \<Rightarrow> bytes \<Rightarrow> bytes" where
  "derive_key_id C public_key = take CLIENT_KEY_ID_LEN (sha256 C (CLIENT_KEY_ID_DOMAIN @ public_key))"

definition proof_message :: "bytes \<Rightarrow> u8 \<Rightarrow> bytes \<Rightarrow> bytes \<Rightarrow> bytes" where
  "proof_message domain format key_id transcript = domain @ [format] @ key_id @ transcript"

definition client_proof_message :: "bytes \<Rightarrow> bytes \<Rightarrow> bytes" where
  "client_proof_message key_id transcript =
     proof_message CLIENT_PROOF_DOMAIN CLIENT_FINISHED_FORMAT key_id transcript"

definition server_access_proof_message ::
  "u32 \<Rightarrow> bytes \<Rightarrow> bytes \<Rightarrow> camouflage_mode \<Rightarrow> carrier_binding \<Rightarrow> bytes" where
  "server_access_proof_message magic challenge key_id camouflage carrier =
     SERVER_ACCESS_PROOF_DOMAIN @ [PROTO_VERSION] @ be32 magic @ [camouflage_u8 camouflage]
     @ [carrier_u8 carrier] @ key_id @ challenge"

definition client_access_proof_message ::
  "u32 \<Rightarrow> bytes \<Rightarrow> bytes \<Rightarrow> bytes \<Rightarrow> bytes \<Rightarrow> camouflage_mode \<Rightarrow> carrier_binding \<Rightarrow> bytes" where
  "client_access_proof_message magic challenge server_mac key_id client_nonce camouflage carrier =
     CLIENT_ACCESS_PROOF_DOMAIN @ [PROTO_VERSION] @ be32 magic @ [camouflage_u8 camouflage]
     @ [carrier_u8 carrier] @ key_id @ challenge @ server_mac @ client_nonce"

definition server_proof_message :: "bytes \<Rightarrow> bytes \<Rightarrow> bytes \<Rightarrow> bytes" where
  "server_proof_message key_id transcript client_finished =
     proof_message SERVER_PROOF_DOMAIN SERVER_FINISHED_FORMAT key_id transcript @ client_finished"

definition hmac_sha256 :: "('k, 'z) session_crypto_scheme \<Rightarrow> bytes \<Rightarrow> bytes \<Rightarrow> bytes" where
  "hmac_sha256 C psk message = hmac_sign C psk message"

section \<open>Proof records\<close>

record server_access_proof =
  sap_challenge :: bytes
  sap_psk_mac :: bytes

record client_access_proof =
  cap_client_nonce :: bytes
  cap_psk_mac :: bytes

record client_finished =
  cf_key_id :: bytes
  cf_signature :: bytes
  cf_psk_mac :: bytes

record server_finished =
  sf_psk_mac :: bytes

definition server_access_proof_encode :: "server_access_proof \<Rightarrow> bytes" where
  "server_access_proof_encode p = sap_challenge p @ sap_psk_mac p"

definition server_access_proof_decode :: "bytes \<Rightarrow> auth_error + server_access_proof" where
  "server_access_proof_decode encoded =
     (if length encoded \<noteq> SERVER_ACCESS_PROOF_LEN then Inl AuthFailed
      else Inr \<lparr> sap_challenge = take SERVER_ACCESS_CHALLENGE_LEN encoded,
                 sap_psk_mac = drop SERVER_ACCESS_CHALLENGE_LEN encoded \<rparr>)"

definition client_access_proof_encode :: "client_access_proof \<Rightarrow> bytes" where
  "client_access_proof_encode p = cap_client_nonce p @ cap_psk_mac p"

definition client_access_proof_decode :: "bytes \<Rightarrow> auth_error + client_access_proof" where
  "client_access_proof_decode encoded =
     (if length encoded \<noteq> CLIENT_ACCESS_PROOF_LEN then Inl AuthFailed
      else Inr \<lparr> cap_client_nonce = take CLIENT_ACCESS_NONCE_LEN encoded,
                 cap_psk_mac = drop CLIENT_ACCESS_NONCE_LEN encoded \<rparr>)"

definition client_finished_encode :: "client_finished \<Rightarrow> bytes" where
  "client_finished_encode f = [CLIENT_FINISHED_FORMAT] @ cf_key_id f @ cf_signature f @ cf_psk_mac f"

definition client_finished_decode :: "bytes \<Rightarrow> auth_error + client_finished" where
  "client_finished_decode encoded =
     (if length encoded \<noteq> CLIENT_FINISHED_LEN \<or> hd encoded \<noteq> CLIENT_FINISHED_FORMAT then Inl AuthFailed
      else let kid_end = 1 + CLIENT_KEY_ID_LEN; signature_end = kid_end + CLIENT_SIGNATURE_LEN in
        Inr \<lparr> cf_key_id = take CLIENT_KEY_ID_LEN (drop 1 encoded),
              cf_signature = take CLIENT_SIGNATURE_LEN (drop kid_end encoded),
              cf_psk_mac = drop signature_end encoded \<rparr>)"

definition server_finished_encode :: "server_finished \<Rightarrow> bytes" where
  "server_finished_encode f = [SERVER_FINISHED_FORMAT] @ sf_psk_mac f"

definition server_finished_decode :: "bytes \<Rightarrow> auth_error + server_finished" where
  "server_finished_decode encoded =
     (if length encoded \<noteq> SERVER_FINISHED_LEN \<or> hd encoded \<noteq> SERVER_FINISHED_FORMAT then Inl AuthFailed
      else Inr \<lparr> sf_psk_mac = drop 1 encoded \<rparr>)"

section \<open>Credentials\<close>

record client_credential =
  cc_seed :: bytes
  cc_public_key :: bytes
  cc_psk :: bytes
  cc_key_id :: bytes

definition credential_from_parts ::
  "('k, 'z) session_crypto_scheme \<Rightarrow> bytes \<Rightarrow> bytes \<Rightarrow> auth_error + client_credential" where
  "credential_from_parts C seed psk =
     bindR (ok_or (ed25519_public C seed) InvalidSeed) (\<lambda>public_key.
     bindR (ensure (length public_key = CLIENT_PUBLIC_KEY_LEN) (PublicKeyLength (length public_key))) (\<lambda>_.
     Inr \<lparr> cc_seed = seed, cc_public_key = public_key, cc_psk = psk,
           cc_key_id = derive_key_id C public_key \<rparr>))"

definition credential_generate ::
  "('k, 'z) session_crypto_scheme \<Rightarrow> bytes option \<Rightarrow> bytes option \<Rightarrow> auth_error + client_credential" where
  "credential_generate C seed_draw psk_draw =
     bindR (ok_or seed_draw RngFailed) (\<lambda>seed.
     bindR (ok_or psk_draw RngFailed) (\<lambda>psk.
     credential_from_parts C seed psk))"

definition verify_server_access_and_prove ::
  "('k, 'z) session_crypto_scheme \<Rightarrow> u32 \<Rightarrow> client_credential \<Rightarrow> server_access_proof \<Rightarrow> camouflage_mode
    \<Rightarrow> carrier_binding \<Rightarrow> bytes option \<Rightarrow> auth_error + client_access_proof" where
  "verify_server_access_and_prove C magic cred server_proof claimed_camouflage claimed_carrier nonce_draw =
     (let server_message = server_access_proof_message magic (sap_challenge server_proof) (cc_key_id cred)
        claimed_camouflage claimed_carrier in
      bindR (ensure (hmac_verify C (cc_psk cred) server_message (sap_psk_mac server_proof)) AuthFailed) (\<lambda>_.
      bindR (ok_or nonce_draw RngFailed) (\<lambda>client_nonce.
      let message = client_access_proof_message magic (sap_challenge server_proof) (sap_psk_mac server_proof)
        (cc_key_id cred) client_nonce claimed_camouflage claimed_carrier in
      Inr \<lparr> cap_client_nonce = client_nonce, cap_psk_mac = hmac_sha256 C (cc_psk cred) message \<rparr>)))"

definition sign_finished ::
  "('k, 'z) session_crypto_scheme \<Rightarrow> client_credential \<Rightarrow> bytes \<Rightarrow> auth_error + client_finished" where
  "sign_finished C cred transcript =
     (let message = client_proof_message (cc_key_id cred) transcript in
      bindR (ok_or (ed25519_public C (cc_seed cred)) InvalidSeed) (\<lambda>_.
      let signature = ed25519_sign C (cc_seed cred) message in
      bindR (ensure (length signature = CLIENT_SIGNATURE_LEN) (SignatureLength (length signature))) (\<lambda>_.
      Inr \<lparr> cf_key_id = cc_key_id cred, cf_signature = signature,
            cf_psk_mac = hmac_sha256 C (cc_psk cred) message \<rparr>)))"

definition verify_server_finished ::
  "('k, 'z) session_crypto_scheme \<Rightarrow> client_credential \<Rightarrow> bytes \<Rightarrow> bytes \<Rightarrow> server_finished
    \<Rightarrow> auth_error + unit" where
  "verify_server_finished C cred transcript client_finished server_finished =
     (let message = server_proof_message (cc_key_id cred) transcript client_finished in
      ensure (hmac_verify C (cc_psk cred) message (sf_psk_mac server_finished)) AuthFailed)"

section \<open>The server's allowlist\<close>

record authorized_client =
  ac_key_id :: bytes
  ac_public_key :: bytes
  ac_psk :: bytes

type_synonym authorized_clients = "authorized_client list"

record verified_client =
  vc_key_id :: bytes
  vc_psk :: bytes

record pending_client_access =
  pc_key_id :: bytes
  pc_psk :: bytes
  pc_authorized :: bool

text \<open>\<open>slice::binary_search_by_key\<close>: the window \<open>lo..hi\<close> halves until the key is found.\<close>

function search_window :: "('a \<Rightarrow> 'b :: linorder) \<Rightarrow> 'b \<Rightarrow> 'a list \<Rightarrow> nat \<Rightarrow> nat \<Rightarrow> nat option" where
  "search_window key k xs lo hi =
     (if lo < hi then
        let mid = (lo + hi) div 2; v = key (xs ! mid) in
        if v = k then Some mid
        else if v < k then search_window key k xs (mid + 1) hi
        else search_window key k xs lo mid
      else None)"
  by pat_completeness auto
termination
  by (relation "measure (\<lambda>(key, k, xs, lo, hi). hi - lo)") auto

declare search_window.simps [simp del]

definition binary_search_by_key :: "'b :: linorder \<Rightarrow> ('a \<Rightarrow> 'b) \<Rightarrow> 'a list \<Rightarrow> nat option" where
  "binary_search_by_key k key xs = search_window key k xs 0 (length xs)"

text \<open>\<open>slice::windows(2)\<close>: the pairs of neighbours.\<close>

definition windows2 :: "'a list \<Rightarrow> ('a \<times> 'a) list" where
  "windows2 xs = zip xs (tl xs)"

definition authorized_from_entries :: "authorized_client list \<Rightarrow> auth_error + authorized_clients" where
  "authorized_from_entries entries =
     (if entries = [] \<or> length entries > MAX_AUTHORIZED_CLIENTS then Inl (AllowlistSize (length entries))
      else let sorted_entries = sort_key ac_key_id entries in
        if \<exists>(a, b) \<in> set (windows2 sorted_entries). ac_key_id a = ac_key_id b
        then Inl DuplicateKeyId else Inr sorted_entries)"

definition authorized_from_credentials :: "client_credential list \<Rightarrow> auth_error + authorized_clients" where
  "authorized_from_credentials credentials =
     authorized_from_entries (map (\<lambda>c. \<lparr> ac_key_id = cc_key_id c, ac_public_key = cc_public_key c,
       ac_psk = cc_psk c \<rparr>) credentials)"

text \<open>The body of the scan in \<open>begin_access\<close>: select the entry's secret without branching.\<close>

fun select_entry ::
  "('k, 'z) session_crypto_scheme \<Rightarrow> bytes \<Rightarrow> authorized_client \<Rightarrow> bytes \<times> bool \<Rightarrow> bytes \<times> bool" where
  "select_entry C key_id entry (psk, authorized) =
     (let matches = ct_array_eq C (ac_key_id entry) key_id in
      (map2 (\<lambda>selected candidate. ct_select C selected candidate matches) psk (ac_psk entry),
       authorized \<or> matches))"

definition begin_access ::
  "('k, 'z) session_crypto_scheme \<Rightarrow> u32 \<Rightarrow> authorized_clients \<Rightarrow> bytes \<Rightarrow> bytes \<Rightarrow> camouflage_mode
    \<Rightarrow> carrier_binding \<Rightarrow> bytes option \<Rightarrow> auth_error + (server_access_proof \<times> pending_client_access)" where
  "begin_access C magic clients key_id challenge observed_camouflage observed_carrier dummy_draw =
     bindR (ok_or dummy_draw RngFailed) (\<lambda>dummy.
     let (psk, authorized) = fold (select_entry C key_id) clients (dummy, False);
         message = server_access_proof_message magic challenge key_id observed_camouflage observed_carrier
     in Inr (\<lparr> sap_challenge = challenge, sap_psk_mac = hmac_sha256 C psk message \<rparr>,
             \<lparr> pc_key_id = key_id, pc_psk = psk, pc_authorized = authorized \<rparr>))"

definition pending_verify ::
  "('k, 'z) session_crypto_scheme \<Rightarrow> u32 \<Rightarrow> pending_client_access \<Rightarrow> server_access_proof \<Rightarrow> camouflage_mode
    \<Rightarrow> carrier_binding \<Rightarrow> client_access_proof \<Rightarrow> auth_error + bytes" where
  "pending_verify C magic pending server_proof observed_camouflage observed_carrier prf =
     (let message = client_access_proof_message magic (sap_challenge server_proof) (sap_psk_mac server_proof)
            (pc_key_id pending) (cap_client_nonce prf) observed_camouflage observed_carrier;
          mac_valid = hmac_verify C (pc_psk pending) message (cap_psk_mac prf)
      in if pc_authorized pending \<and> mac_valid then Inr (pc_key_id pending) else Inl AuthFailed)"

definition verify_finished_for_key ::
  "('k, 'z) session_crypto_scheme \<Rightarrow> authorized_clients \<Rightarrow> bytes \<Rightarrow> client_finished \<Rightarrow> bytes
    \<Rightarrow> auth_error + verified_client" where
  "verify_finished_for_key C clients transcript finished access_key_id =
     (let index = binary_search_by_key (cf_key_id finished) ac_key_id clients;
          (public_key, psk) = (case index of
             Some i \<Rightarrow> (ac_public_key (clients ! i), ac_psk (clients ! i))
           | None \<Rightarrow> (DUMMY_ED25519_PUBLIC_KEY, replicate CLIENT_PSK_LEN 0));
          message = client_proof_message (cf_key_id finished) transcript;
          signature_valid = ed25519_verify C public_key message (cf_signature finished);
          mac_valid = hmac_verify C psk message (cf_psk_mac finished);
          same_access_identity = ct_eq (cf_key_id finished) access_key_id
      in case (index, signature_valid, mac_valid, same_access_identity) of
           (Some i, True, True, True) \<Rightarrow>
             Inr \<lparr> vc_key_id = cf_key_id finished, vc_psk = ac_psk (clients ! i) \<rparr>
         | _ \<Rightarrow> Inl AuthFailed)"

definition make_server_finished ::
  "('k, 'z) session_crypto_scheme \<Rightarrow> verified_client \<Rightarrow> bytes \<Rightarrow> bytes \<Rightarrow> server_finished" where
  "make_server_finished C verified transcript client_finished =
     (let message = server_proof_message (vc_key_id verified) transcript client_finished in
      \<lparr> sf_psk_mac = hmac_sha256 C (vc_psk verified) message \<rparr>)"

section \<open>Binary search\<close>

lemma search_window_iff:
  assumes "sorted_wrt (<) (map key xs)" and "hi \<le> length xs"
  shows "search_window key k xs lo hi = Some i \<longleftrightarrow> lo \<le> i \<and> i < hi \<and> key (xs ! i) = k"
  using assms
proof (induction key k xs lo hi rule: search_window.induct)
  case (1 key k xs lo hi)
  show ?case
  proof (cases "lo < hi")
    case True
    define mid where "mid = (lo + hi) div 2"
    have mid: "lo \<le> mid" "mid < hi" "mid < length xs"
      using True 1(4) by (auto simp: mid_def)
    have mono: "key (xs ! a) < key (xs ! b)" if "a < b" "b < length xs" for a b
      using sorted_wrt_nth_less [OF 1(3), of a b] that by simp
    have low: "key (xs ! j) < key (xs ! mid)" if "j < mid" for j
      using mono [of j mid] that mid by simp
    have high: "key (xs ! mid) < key (xs ! j)" if "mid < j" "j < hi" for j
      using mono [of mid j] that 1(4) by simp
    have eq: "search_window key k xs lo hi = (if key (xs ! mid) = k then Some mid
        else if key (xs ! mid) < k then search_window key k xs (mid + 1) hi
        else search_window key k xs lo mid)"
      using True by (subst search_window.simps) (simp add: mid_def Let_def)
    consider "key (xs ! mid) = k" | "key (xs ! mid) < k" | "k < key (xs ! mid)"
      by (rule linorder_cases)
    then show ?thesis
    proof cases
      case 1
      have "i = mid" if "lo \<le> i" "i < hi" "key (xs ! i) = k"
        using 1 low [of i] high [of i] that by (cases i mid rule: linorder_cases) auto
      with 1 mid show ?thesis
        unfolding eq by auto
    next
      case 2
      have "search_window key k xs (mid + 1) hi = Some i \<longleftrightarrow> mid + 1 \<le> i \<and> i < hi \<and> key (xs ! i) = k"
        using 1(1) [OF True mid_def refl] 2 1(3,4) by auto
      moreover have "mid < i" if "key (xs ! i) = k"
        using low [of i] that 2 by (cases i mid rule: linorder_cases) auto
      ultimately show ?thesis
        unfolding eq using 2 mid by auto
    next
      case 3
      have "search_window key k xs lo mid = Some i \<longleftrightarrow> lo \<le> i \<and> i < mid \<and> key (xs ! i) = k"
        using 1(2) [OF True mid_def refl] 3 1(3) mid by auto
      moreover have "i < mid" if "i < hi" "key (xs ! i) = k"
        using high [of i] that 3 by (cases i mid rule: linorder_cases) auto
      ultimately show ?thesis
        unfolding eq using 3 mid by auto
    qed
  qed (simp add: search_window.simps)
qed

lemma binary_search_Some:
  "sorted_wrt (<) (map key xs) \<Longrightarrow>
     binary_search_by_key k key xs = Some i \<longleftrightarrow> i < length xs \<and> key (xs ! i) = k"
  by (simp add: binary_search_by_key_def search_window_iff)

lemma binary_search_None:
  assumes "sorted_wrt (<) (map key xs)"
  shows "binary_search_by_key k key xs = None \<longleftrightarrow> k \<notin> key ` set xs"
proof -
  have "binary_search_by_key k key xs = None \<longleftrightarrow> (\<forall>i < length xs. key (xs ! i) \<noteq> k)"
    using binary_search_Some [OF assms] by (metis option.exhaust option.distinct(1))
  also have "\<dots> \<longleftrightarrow> k \<notin> key ` set xs"
    by (auto simp: set_conv_nth)
  finally show ?thesis .
qed

section \<open>Proof records and messages\<close>

lemma server_access_proof_decode_iff:
  "server_access_proof_decode e = Inr p \<longleftrightarrow>
     length (sap_challenge p) = 32 \<and> length (sap_psk_mac p) = 32 \<and> e = server_access_proof_encode p"
  by (cases p) (auto simp: server_access_proof_decode_def server_access_proof_encode_def auth_lengths)

lemma client_access_proof_decode_iff:
  "client_access_proof_decode e = Inr p \<longleftrightarrow>
     length (cap_client_nonce p) = 32 \<and> length (cap_psk_mac p) = 32 \<and> e = client_access_proof_encode p"
  by (cases p) (auto simp: client_access_proof_decode_def client_access_proof_encode_def auth_lengths)

lemma client_finished_decode_iff:
  "client_finished_decode e = Inr f \<longleftrightarrow>
     length (cf_key_id f) = 16 \<and> length (cf_signature f) = 64 \<and> length (cf_psk_mac f) = 32
     \<and> e = client_finished_encode f"
proof (cases e)
  case (Cons b bs)
  have split: "take 16 bs @ take 64 (drop 16 bs) @ drop 80 bs = bs"
  proof -
    have "take 64 (drop 16 bs) @ drop 64 (drop 16 bs) = drop 16 bs"
      by (rule append_take_drop_id)
    then show ?thesis
      by simp
  qed
  show ?thesis
    unfolding Cons by (cases f) (auto simp: client_finished_decode_def client_finished_encode_def auth_lengths
        CLIENT_FINISHED_FORMAT_def Let_def split)
qed (auto simp: client_finished_decode_def client_finished_encode_def auth_lengths)

lemma server_finished_decode_iff:
  "server_finished_decode e = Inr f \<longleftrightarrow> length (sf_psk_mac f) = 32 \<and> e = server_finished_encode f"
  by (cases f; cases e) (auto simp: server_finished_decode_def server_finished_encode_def auth_lengths)

lemma server_access_message_inj:
  assumes "server_access_proof_message m c k cam car = server_access_proof_message m' c' k' cam' car'"
    and "length k = 16" "length k' = 16"
  shows "m = m' \<and> c = c' \<and> k = k' \<and> cam = cam' \<and> car = car'"
  using assms by (auto simp: server_access_proof_message_def)

lemma client_access_message_inj:
  assumes "client_access_proof_message m c s k n cam car = client_access_proof_message m' c' s' k' n' cam' car'"
    and "length k = 16" "length k' = 16" "length c = 32" "length c' = 32" "length s = 32" "length s' = 32"
  shows "m = m' \<and> c = c' \<and> s = s' \<and> k = k' \<and> n = n' \<and> cam = cam' \<and> car = car'"
  using assms by (auto simp: client_access_proof_message_def)

lemma client_proof_message_inj:
  assumes "client_proof_message k t = client_proof_message k' t'" and "length k = 16" "length k' = 16"
  shows "k = k' \<and> t = t'"
  using assms by (auto simp: client_proof_message_def proof_message_def)

lemma server_proof_message_inj:
  assumes "server_proof_message k t f = server_proof_message k' t' f'"
    and "length k = 16" "length k' = 16" "length t = 32" "length t' = 32"
  shows "k = k' \<and> t = t' \<and> f = f'"
  using assms by (auto simp: server_proof_message_def proof_message_def)

section \<open>Allowlists\<close>

definition authorized_client_typed :: "authorized_client \<Rightarrow> bool" where
  "authorized_client_typed e \<longleftrightarrow>
     length (ac_key_id e) = 16 \<and> length (ac_public_key e) = 32 \<and> length (ac_psk e) = 32"

definition clients_sorted :: "authorized_clients \<Rightarrow> bool" where
  "clients_sorted clients \<longleftrightarrow> sorted_wrt (<) (map ac_key_id clients)"

definition clients_ok :: "authorized_clients \<Rightarrow> bool" where
  "clients_ok clients \<longleftrightarrow> clients \<noteq> [] \<and> length clients \<le> MAX_AUTHORIZED_CLIENTS
     \<and> clients_sorted clients \<and> (\<forall>e \<in> set clients. authorized_client_typed e)"

lemma clients_sorted_unique:
  assumes "clients_sorted clients" "e \<in> set clients" "e' \<in> set clients" "ac_key_id e = ac_key_id e'"
  shows "e = e'"
proof -
  from assms(1) have "distinct (map ac_key_id clients)"
    by (simp add: clients_sorted_def strict_sorted_iff)
  with assms(2-4) show ?thesis
    by (auto simp: distinct_map inj_on_def)
qed

lemma windows2_simps [simp]:
  "windows2 [] = []" "windows2 [x] = []" "windows2 (x # y # xs) = (x, y) # windows2 (y # xs)"
  by (simp_all add: windows2_def)

lemma windows2_strict:
  fixes key :: "'a \<Rightarrow> 'b :: linorder"
  shows "(\<forall>(a, b) \<in> set (windows2 xs). key a < key b) \<longleftrightarrow> sorted_wrt (<) (map key xs)"
proof (induction xs rule: induct_list012)
  case (3 x y zs)
  then show ?case
    by (auto intro: order.strict_trans)
qed simp_all

lemma windows2_distinct:
  fixes key :: "'a \<Rightarrow> 'b :: linorder"
  assumes "sorted (map key xs)"
  shows "(\<exists>(a, b) \<in> set (windows2 xs). key a = key b) \<longleftrightarrow> \<not> distinct (map key xs)"
  using assms
proof (induction xs rule: induct_list012)
  case (3 x y zs)
  then have "key x = key y \<or> key x < key y" "\<forall>z \<in> set zs. key y \<le> key z"
    by (auto simp: order.order_iff_strict)
  with 3 show ?case
    by auto
qed simp_all

lemma authorized_from_entries_iff:
  "authorized_from_entries entries = Inr clients \<longleftrightarrow>
     entries \<noteq> [] \<and> length entries \<le> MAX_AUTHORIZED_CLIENTS \<and> distinct (map ac_key_id entries)
     \<and> clients = sort_key ac_key_id entries"
proof -
  have "(\<exists>(a, b) \<in> set (windows2 (sort_key ac_key_id entries)). ac_key_id a = ac_key_id b)
      \<longleftrightarrow> \<not> distinct (map ac_key_id entries)"
    by (subst windows2_distinct) (simp_all add: distinct_map)
  then show ?thesis
    unfolding authorized_from_entries_def Let_def by (auto simp: not_less)
qed

lemma authorized_from_entries_ok:
  assumes "authorized_from_entries entries = Inr clients" "\<forall>e \<in> set entries. authorized_client_typed e"
  shows "clients_ok clients" and "set clients = set entries"
proof -
  from assms have "entries \<noteq> []" "length entries \<le> MAX_AUTHORIZED_CLIENTS" "distinct (map ac_key_id entries)"
    and c: "clients = sort_key ac_key_id entries"
    by (simp_all add: authorized_from_entries_iff)
  then have "distinct (map ac_key_id clients)"
    by (simp add: distinct_map)
  then have "sorted_wrt (<) (map ac_key_id clients)"
    by (simp add: strict_sorted_iff c)
  moreover have "clients \<noteq> []"
    using c \<open>entries \<noteq> []\<close> by (metis length_0_conv length_sort)
  ultimately show "clients_ok clients"
    using c assms(2) \<open>length entries \<le> _\<close> by (simp add: clients_ok_def clients_sorted_def)
  show "set clients = set entries"
    by (simp add: c)
qed

lemma select_entry_eq:
  assumes "select_ok C" "length (ac_psk e) = 32" "length psk = 32"
  shows "select_entry C key_id e (psk, a) = (if ac_key_id e = key_id then (ac_psk e, True) else (psk, a))"
proof -
  have "map2 (\<lambda>s c. ct_select C s c m) psk (ac_psk e) = (if m then ac_psk e else psk)" for m
    using assms by (auto simp: select_ok_def intro!: nth_equalityI)
  with assms(1) show ?thesis
    by (simp add: Let_def select_ok_def)
qed

declare select_entry.simps [simp del]

lemma select_fold:
  assumes "select_ok C" "clients_sorted clients" "\<forall>e \<in> set clients. length (ac_psk e) = 32" "length psk = 32"
  shows "fold (select_entry C key_id) clients (psk, a)
    = (case List.find (\<lambda>e. ac_key_id e = key_id) clients of None \<Rightarrow> (psk, a) | Some e \<Rightarrow> (ac_psk e, True))"
  using assms(2-4)
proof (induction clients arbitrary: psk a)
  case (Cons e clients)
  have none: "List.find (\<lambda>e'. ac_key_id e' = ac_key_id e) clients = None"
    using Cons.prems(1) by (auto simp: find_None_all clients_sorted_def)
  from Cons show ?case
    by (auto simp: select_entry_eq [OF assms(1)] none clients_sorted_def)
qed simp

lemma find_client:
  assumes "clients_sorted clients"
  shows "List.find (\<lambda>e. ac_key_id e = k) clients = Some e \<longleftrightarrow> e \<in> set clients \<and> ac_key_id e = k"
proof -
  from assms have "distinct (map ac_key_id clients)"
    by (simp add: clients_sorted_def strict_sorted_iff)
  then show ?thesis
    by (auto dest: find_Some_mem intro: find_unique)
qed

text \<open>
  The gate opens for enrolled identities only; to everybody else the server's flight is a MAC
  under the fresh dummy secret.
\<close>

lemma begin_access_known:
  assumes "select_ok C" "clients_ok clients" "e \<in> set clients" "length dummy = 32"
  shows "begin_access C magic clients (ac_key_id e) challenge cam car (Some dummy) =
    Inr (\<lparr> sap_challenge = challenge, sap_psk_mac = hmac_sign C (ac_psk e)
           (server_access_proof_message magic challenge (ac_key_id e) cam car) \<rparr>,
         \<lparr> pc_key_id = ac_key_id e, pc_psk = ac_psk e, pc_authorized = True \<rparr>)"
proof -
  from assms(2) have s: "clients_sorted clients" "\<forall>e \<in> set clients. length (ac_psk e) = 32"
    by (auto simp: clients_ok_def authorized_client_typed_def)
  have "List.find (\<lambda>x. ac_key_id x = ac_key_id e) clients = Some e"
    using find_client [OF s(1)] assms(3) by blast
  then show ?thesis
    by (simp add: begin_access_def select_fold [OF assms(1) s assms(4)] hmac_sha256_def)
qed

lemma begin_access_unknown:
  assumes "select_ok C" "clients_ok clients" "key_id \<notin> ac_key_id ` set clients" "length dummy = 32"
  shows "begin_access C magic clients key_id challenge cam car (Some dummy) =
    Inr (\<lparr> sap_challenge = challenge, sap_psk_mac = hmac_sign C dummy
           (server_access_proof_message magic challenge key_id cam car) \<rparr>,
         \<lparr> pc_key_id = key_id, pc_psk = dummy, pc_authorized = False \<rparr>)"
proof -
  from assms(2) have s: "clients_sorted clients" "\<forall>e \<in> set clients. length (ac_psk e) = 32"
    by (auto simp: clients_ok_def authorized_client_typed_def)
  have "List.find (\<lambda>x. ac_key_id x = key_id) clients = None"
    using assms(3) by (auto simp: find_None_all)
  then show ?thesis
    by (simp add: begin_access_def select_fold [OF assms(1) s assms(4)] hmac_sha256_def)
qed

lemma pending_verify_iff:
  "mac_ok C \<Longrightarrow> pending_verify C magic pending sp cam car prf = Inr k \<longleftrightarrow>
     pc_authorized pending \<and> k = pc_key_id pending
     \<and> cap_psk_mac prf = hmac_sign C (pc_psk pending) (client_access_proof_message magic (sap_challenge sp)
         (sap_psk_mac sp) (pc_key_id pending) (cap_client_nonce prf) cam car)"
  by (auto simp: pending_verify_def mac_ok_def Let_def)

lemma verify_finished_iff:
  assumes "mac_ok C" "clients_sorted clients"
  shows "verify_finished_for_key C clients t f access = Inr v \<longleftrightarrow>
    (\<exists>e \<in> set clients. ac_key_id e = cf_key_id f \<and> cf_key_id f = access
       \<and> ed25519_verify C (ac_public_key e) (client_proof_message (cf_key_id f) t) (cf_signature f)
       \<and> cf_psk_mac f = hmac_sign C (ac_psk e) (client_proof_message (cf_key_id f) t)
       \<and> v = \<lparr> vc_key_id = cf_key_id f, vc_psk = ac_psk e \<rparr>)"
proof (cases "binary_search_by_key (cf_key_id f) ac_key_id clients")
  case None
  then have "\<forall>e \<in> set clients. ac_key_id e \<noteq> cf_key_id f"
    using binary_search_None [OF assms(2) [unfolded clients_sorted_def]] by (metis imageI)
  with None show ?thesis
    by (auto simp: verify_finished_for_key_def Let_def)
next
  case (Some i)
  with binary_search_Some [OF assms(2) [unfolded clients_sorted_def]]
  have i: "i < length clients" "ac_key_id (clients ! i) = cf_key_id f"
    by auto
  have mem: "clients ! i \<in> set clients"
    using i by simp
  have "e \<in> set clients \<and> ac_key_id e = cf_key_id f \<longleftrightarrow> e = clients ! i" for e
    using clients_sorted_unique [OF assms(2)] i mem by metis
  then have "(\<exists>e \<in> set clients. ac_key_id e = cf_key_id f \<and> P e) \<longleftrightarrow> P (clients ! i)" for P
    by metis
  with Some assms(1) show ?thesis
    by (auto simp: verify_finished_for_key_def Let_def ct_eq_iff mac_ok_def split: bool.splits)
qed

lemma verify_server_access_iff:
  "mac_ok C \<Longrightarrow> verify_server_access_and_prove C magic cred sp cam car draw = Inr prf \<longleftrightarrow>
     sap_psk_mac sp = hmac_sign C (cc_psk cred)
       (server_access_proof_message magic (sap_challenge sp) (cc_key_id cred) cam car)
     \<and> (\<exists>nonce. draw = Some nonce \<and> prf = \<lparr> cap_client_nonce = nonce, cap_psk_mac = hmac_sign C (cc_psk cred)
          (client_access_proof_message magic (sap_challenge sp) (sap_psk_mac sp) (cc_key_id cred) nonce cam car) \<rparr>)"
  by (auto simp: verify_server_access_and_prove_def mac_ok_def Let_def result_simps hmac_sha256_def)

lemma verify_server_finished_iff:
  "mac_ok C \<Longrightarrow> verify_server_finished C cred t cf sf = Inr u \<longleftrightarrow>
     sf_psk_mac sf = hmac_sign C (cc_psk cred) (server_proof_message (cc_key_id cred) t cf)"
  by (auto simp: verify_server_finished_def mac_ok_def Let_def)

section \<open>Credentials\<close>

definition credential_ok :: "('k, 'z) session_crypto_scheme \<Rightarrow> client_credential \<Rightarrow> bool" where
  "credential_ok C cred \<longleftrightarrow> ed25519_public C (cc_seed cred) = Some (cc_public_key cred)
     \<and> length (cc_public_key cred) = 32 \<and> length (cc_psk cred) = 32
     \<and> cc_key_id cred = derive_key_id C (cc_public_key cred)"

lemma credential_from_parts_ok:
  "length psk = 32 \<Longrightarrow> credential_from_parts C seed psk = Inr cred \<longleftrightarrow>
     credential_ok C cred \<and> cc_seed cred = seed \<and> cc_psk cred = psk"
  by (cases cred) (auto simp: credential_from_parts_def credential_ok_def result_simps auth_lengths)

lemma derive_key_id_length [simp]:
  "length (sha256 C (CLIENT_KEY_ID_DOMAIN @ pk)) = 32 \<Longrightarrow> length (derive_key_id C pk) = 16"
  by (simp add: derive_key_id_def auth_lengths)

lemma sign_finished_ok:
  assumes "credential_ok C cred" "signature_ok C"
  shows "sign_finished C cred t = Inr \<lparr> cf_key_id = cc_key_id cred,
    cf_signature = ed25519_sign C (cc_seed cred) (client_proof_message (cc_key_id cred) t),
    cf_psk_mac = hmac_sign C (cc_psk cred) (client_proof_message (cc_key_id cred) t) \<rparr>"
  using assms by (simp add: sign_finished_def credential_ok_def signature_ok_def Let_def hmac_sha256_def auth_lengths)

end
