(* ===== verification/Private_Files.thy ===== *)
theory Private_Files
  imports Policy_Schema
begin

text \<open>
  Private files on disk (\<open>session.rs\<close>, \<open>client_auth.rs\<close>): the guarded read of a key file, the
  staged atomic replacement and the create-only publication, the check of every directory on
  the way to a credential, and the advisory lock of the allowlist. The operating system is a
  map from paths to files plus the outcome of each call; a \<open>fs_fault\<close> says which call of an
  operation fails. The lemmas state what an accepted file satisfies and that publication is
  atomic under every fault.
\<close>

unbundle bit_operations_syntax

section \<open>Paths and files\<close>

datatype path_component = RootDir | CurDir | ParentDir | Normal string

type_synonym path = "path_component list"

fun is_normal :: "path_component \<Rightarrow> bool" where
  "is_normal (Normal _) = True"
| "is_normal _ = False"

text \<open>\<open>Path::parent\<close> and \<open>Path::file_name\<close> of the standard library.\<close>

definition path_parent :: "path \<Rightarrow> path option" where
  "path_parent p = (if p = [] \<or> last p = RootDir then None else Some (butlast p))"

definition path_file_name :: "path \<Rightarrow> string option" where
  "path_file_name p = (if p = [] then None else case last p of Normal s \<Rightarrow> Some s | _ \<Rightarrow> None)"

record private_file =
  pf_regular :: bool
  pf_uid :: u32
  pf_mode :: u32
  pf_nlink :: u64
  pf_len :: u64
  pf_text :: string

datatype private_file_owner = EffectiveUser | Root

datatype file_error =
    FileNotFound
  | OpenFailed
  | NotRegularFile
  | WrongOwner u32 u32
  | ModeNot0600 u32
  | NotSingleLink u64
  | UnsafePermissions u32
  | FileTooLarge u64
  | ReadFailed
  | FileGrew
  | NoFileName
  | CreateDirFailed
  | TempCreateFailed
  | TempNamesExhausted
  | ChmodFailed
  | WriteFailed
  | SyncFailed
  | PublishFailed
  | RemoveTempFailed
  | DirectorySyncFailed
  | NoCurrentDirectory
  | NoParent
  | ParentTraversal
  | DirectoryMissing path
  | NotRealDirectory path
  | UntrustedDirectoryOwner path u32
  | WritableDirectory path u32
  | LockFileUnsafe
  | MutationInProgress
  | LockFailed

definition expected_uid :: "u32 \<Rightarrow> private_file_owner \<Rightarrow> u32" where
  "expected_uid euid owner = (case owner of EffectiveUser \<Rightarrow> euid | Root \<Rightarrow> 0)"

definition MAX_PRIVATE_KEY_FILE_BYTES :: u64 where
  "MAX_PRIVATE_KEY_FILE_BYTES = 16 * 1024"

section \<open>Reading\<close>

definition ensure_private_file_owner :: "u32 \<Rightarrow> u32 \<Rightarrow> file_error + unit" where
  "ensure_private_file_owner owner_uid expected =
     (if owner_uid \<noteq> expected then Inl (WrongOwner owner_uid expected) else Inr ())"

text \<open>
  \<open>opened\<close> is the result of opening the path without following a final symlink. The octal
  masks of the source are written in hexadecimal: 0777 is 0x1ff, 0600 is 0x180, 0077 is 0x3f
  and 0022 is 0x12.
\<close>

definition read_private_file_to_string_bounded ::
  "u32 \<Rightarrow> file_error + private_file \<Rightarrow> u64 \<Rightarrow> private_file_owner \<Rightarrow> bool \<Rightarrow> file_error + string" where
  "read_private_file_to_string_bounded euid opened maximum_bytes owner require_mode_0600 =
     bindR opened (\<lambda>f.
     bindR (ensure (pf_regular f) NotRegularFile) (\<lambda>_.
     bindR (ensure_private_file_owner (pf_uid f) (expected_uid euid owner)) (\<lambda>_.
     let mode = pf_mode f AND 0x1ff in
     bindR (ensure (\<not> (require_mode_0600 \<and> mode \<noteq> 0x180)) (ModeNot0600 mode)) (\<lambda>_.
     bindR (ensure (\<not> (require_mode_0600 \<and> pf_nlink f \<noteq> 1)) (NotSingleLink (pf_nlink f))) (\<lambda>_.
     bindR (ensure (\<not> (\<not> require_mode_0600 \<and> mode AND 0x3f \<noteq> 0)) (UnsafePermissions mode)) (\<lambda>_.
     bindR (ensure (pf_len f \<le> maximum_bytes) (FileTooLarge (pf_len f))) (\<lambda>_.
     let contents = take (unat maximum_bytes + 1) (pf_text f) in
     bindR (ensure (utf8_valid contents) ReadFailed) (\<lambda>_.
     bindR (ensure (length contents \<le> unat maximum_bytes) FileGrew) (\<lambda>_.
     Inr contents)))))))))"

definition read_private_file_to_string :: "u32 \<Rightarrow> file_error + private_file \<Rightarrow> file_error + string" where
  "read_private_file_to_string euid opened =
     read_private_file_to_string_bounded euid opened MAX_PRIVATE_KEY_FILE_BYTES EffectiveUser False"

section \<open>Staging and publishing\<close>

text \<open>
  An environment of an operation: the process, the hexadecimal draws for temporary names, and
  the call that fails, if any. Dropping an unpublished \<open>PendingPrivateFile\<close> removes it.
\<close>

type_synonym filesystem = "path \<Rightarrow> private_file option"

datatype fs_fault =
    NoFault | CreateDirFault | TempCreateFault | ChmodFault | WriteFault | SyncFault
  | PublishFault | RemoveFault | DirectorySyncFault

record fs_env =
  fe_euid :: u32
  fe_pid :: string
  fe_nonces :: "string list"
  fe_fault :: fs_fault

datatype create_outcome = Created | AlreadyExists

definition private_file_parent :: "path \<Rightarrow> path" where
  "private_file_parent p =
     (case path_parent p of Some q \<Rightarrow> if q = [] then [CurDir] else q | None \<Rightarrow> [CurDir])"

definition temp_path :: "fs_env \<Rightarrow> path \<Rightarrow> string \<Rightarrow> string \<Rightarrow> path" where
  "temp_path env p name nonce = private_file_parent p
     @ [Normal (''.'' @ name @ ''.shadowpipe-'' @ fe_pid env @ ''-'' @ nonce @ ''.tmp'')]"

definition new_private_file :: "fs_env \<Rightarrow> string \<Rightarrow> private_file" where
  "new_private_file env contents =
     \<lparr> pf_regular = True, pf_uid = fe_euid env, pf_mode = 0x180, pf_nlink = 1,
       pf_len = word_of_nat (length contents), pf_text = contents \<rparr>"

definition stage_private_file ::
  "fs_env \<Rightarrow> path \<Rightarrow> string \<Rightarrow> filesystem \<Rightarrow> filesystem \<times> (file_error + path)" where
  "stage_private_file env p contents fs =
     (if fe_fault env = CreateDirFault then (fs, Inl CreateDirFailed)
      else case path_file_name p of None \<Rightarrow> (fs, Inl NoFileName)
      | Some name \<Rightarrow>
          (case List.find (\<lambda>t. fs t = None) (map (temp_path env p name) (take 16 (fe_nonces env))) of
             None \<Rightarrow> (fs, Inl TempNamesExhausted)
           | Some tmp \<Rightarrow>
               (case fe_fault env of
                  TempCreateFault \<Rightarrow> (fs, Inl TempCreateFailed)
                | ChmodFault \<Rightarrow> (fs, Inl ChmodFailed)
                | WriteFault \<Rightarrow> (fs, Inl WriteFailed)
                | SyncFault \<Rightarrow> (fs, Inl SyncFailed)
                | _ \<Rightarrow> (fs(tmp := Some (new_private_file env contents)), Inr tmp))))"

definition sync_private_file_directory :: "fs_env \<Rightarrow> file_error + unit" where
  "sync_private_file_directory env =
     (if fe_fault env = DirectorySyncFault then Inl DirectorySyncFailed else Inr ())"

definition atomic_write_private_file ::
  "fs_env \<Rightarrow> path \<Rightarrow> string \<Rightarrow> filesystem \<Rightarrow> filesystem \<times> (file_error + unit)" where
  "atomic_write_private_file env p contents fs =
     (case stage_private_file env p contents fs of
        (fs1, Inl e) \<Rightarrow> (fs1, Inl e)
      | (fs1, Inr tmp) \<Rightarrow>
          if fe_fault env = PublishFault then (fs1(tmp := None), Inl PublishFailed)
          else (fs1(p := fs1 tmp, tmp := None), sync_private_file_directory env))"

definition atomic_create_private_file ::
  "fs_env \<Rightarrow> path \<Rightarrow> string \<Rightarrow> filesystem \<Rightarrow> filesystem \<times> (file_error + create_outcome)" where
  "atomic_create_private_file env p contents fs =
     (case stage_private_file env p contents fs of
        (fs1, Inl e) \<Rightarrow> (fs1, Inl e)
      | (fs1, Inr tmp) \<Rightarrow>
          if fe_fault env = PublishFault then (fs1(tmp := None), Inl PublishFailed)
          else if fs1 p \<noteq> None then
            (if fe_fault env = RemoveFault then (fs1, Inl RemoveTempFailed)
             else (fs1(tmp := None),
               bindR (sync_private_file_directory env) (\<lambda>_. Inr AlreadyExists)))
          else
            let linked = map_option (pf_nlink_update (\<lambda>_. 2)) (fs1 tmp) in
            if fe_fault env = RemoveFault then (fs1(p := linked, tmp := linked), Inl RemoveTempFailed)
            else (fs1(p := fs1 tmp, tmp := None),
              bindR (sync_private_file_directory env) (\<lambda>_. Inr Created)))"

section \<open>Directories and the mutation lock\<close>

record directory_meta =
  dm_real_directory :: bool
  dm_uid :: u32
  dm_mode :: u32

record trust_env =
  te_euid :: u32
  te_cwd :: "path option"
  te_dirs :: "path \<Rightarrow> directory_meta option"

definition absolute_path :: "trust_env \<Rightarrow> path \<Rightarrow> file_error + path" where
  "absolute_path T p =
     (if p \<noteq> [] \<and> hd p = RootDir then Inr p
      else bindR (ok_or (te_cwd T) NoCurrentDirectory) (\<lambda>cwd. Inr (cwd @ p)))"

definition check_trusted_directory ::
  "trust_env \<Rightarrow> private_file_owner \<Rightarrow> path \<Rightarrow> file_error + unit" where
  "check_trusted_directory T owner cursor =
     bindR (ok_or (te_dirs T cursor) (DirectoryMissing cursor)) (\<lambda>m.
     bindR (ensure (dm_real_directory m) (NotRealDirectory cursor)) (\<lambda>_.
     bindR (ensure (case owner of Root \<Rightarrow> dm_uid m = 0
                    | EffectiveUser \<Rightarrow> dm_uid m = 0 \<or> dm_uid m = te_euid T)
       (UntrustedDirectoryOwner cursor (dm_uid m))) (\<lambda>_.
     let mode = dm_mode m AND 0x1ff in
     ensure (mode AND 0x12 = 0) (WritableDirectory cursor mode))))"

fun trusted_components ::
  "trust_env \<Rightarrow> private_file_owner \<Rightarrow> path \<Rightarrow> path \<Rightarrow> file_error + unit" where
  "trusted_components T owner cursor [] = Inr ()"
| "trusted_components T owner cursor (c # cs) =
     (case c of
        CurDir \<Rightarrow> trusted_components T owner cursor cs
      | ParentDir \<Rightarrow> Inl ParentTraversal
      | _ \<Rightarrow> bindR (check_trusted_directory T owner (cursor @ [c])) (\<lambda>_.
               trusted_components T owner (cursor @ [c]) cs))"

definition validate_trusted_parent ::
  "trust_env \<Rightarrow> path \<Rightarrow> private_file_owner \<Rightarrow> file_error + unit" where
  "validate_trusted_parent T p owner =
     bindR (absolute_path T p) (\<lambda>absolute.
     bindR (ok_or (path_parent absolute) NoParent) (\<lambda>parent.
     trusted_components T owner [] parent))"

datatype lock_outcome = Locked | WouldBlock | LockError

definition acquire_mutation_lease ::
  "trust_env \<Rightarrow> path \<Rightarrow> private_file_owner \<Rightarrow> (path \<Rightarrow> file_error + private_file) \<Rightarrow> lock_outcome
    \<Rightarrow> file_error + unit" where
  "acquire_mutation_lease T allowlist_path owner open_lock try_lock =
     bindR (validate_trusted_parent T allowlist_path owner) (\<lambda>_.
     bindR (ok_or (path_file_name allowlist_path) NoFileName) (\<lambda>name.
     bindR (open_lock (butlast allowlist_path @ [Normal (''.'' @ name @ ''.shadowpipe-mutation-lock'')])) (\<lambda>f.
     bindR (ensure (pf_regular f) NotRegularFile) (\<lambda>_.
     bindR (ensure (\<not> (pf_uid f \<noteq> expected_uid (te_euid T) owner \<or> pf_mode f AND 0x1ff \<noteq> 0x180
         \<or> pf_nlink f \<noteq> 1)) LockFileUnsafe) (\<lambda>_.
     case try_lock of Locked \<Rightarrow> Inr () | WouldBlock \<Rightarrow> Inl MutationInProgress
       | LockError \<Rightarrow> Inl LockFailed)))))"

section \<open>What is accepted\<close>

definition private_file_safe :: "u32 \<Rightarrow> u64 \<Rightarrow> private_file_owner \<Rightarrow> bool \<Rightarrow> private_file \<Rightarrow> bool" where
  "private_file_safe euid maximum owner strict f \<longleftrightarrow>
     pf_regular f \<and> pf_uid f = expected_uid euid owner \<and> pf_len f \<le> maximum
     \<and> (if strict then pf_mode f AND 0x1ff = 0x180 \<and> pf_nlink f = 1
        else (pf_mode f AND 0x1ff) AND 0x3f = 0)
     \<and> length (pf_text f) \<le> unat maximum \<and> utf8_valid (pf_text f)"

lemma read_private_file_iff:
  "read_private_file_to_string_bounded euid opened maximum owner strict = Inr text \<longleftrightarrow>
     (\<exists>f. opened = Inr f \<and> private_file_safe euid maximum owner strict f \<and> text = pf_text f)"
proof -
  have "length (take (n + 1) xs) \<le> n \<longleftrightarrow> length xs \<le> n" for n and xs :: string
    by auto
  moreover have "take (n + 1) xs = xs" if "length xs \<le> n" for n and xs :: string
    using that by simp
  ultimately show ?thesis
    unfolding read_private_file_to_string_bounded_def Let_def ensure_private_file_owner_def private_file_safe_def
    by (cases opened; cases strict) (auto simp: result_simps split: if_splits)
qed

lemma temp_path_fresh:
  assumes "path_file_name p = Some name"
  shows "temp_path env p name nonce \<noteq> p"
proof
  assume eq: "temp_path env p name nonce = p"
  from assms have "p \<noteq> []" and "last p = Normal name"
    by (auto simp: path_file_name_def split: if_splits path_component.splits)
  moreover from eq have "last p = Normal (''.'' @ name @ ''.shadowpipe-'' @ fe_pid env @ ''-'' @ nonce @ ''.tmp'')"
    unfolding temp_path_def by (metis last_snoc)
  ultimately have "length name = length (''.'' @ name @ ''.shadowpipe-'' @ fe_pid env @ ''-'' @ nonce @ ''.tmp'')"
    by simp
  then show False
    by simp
qed

lemma stage_cases:
  assumes "stage_private_file env p contents fs = (fs1, r)"
  shows "(\<exists>e. r = Inl e) \<and> fs1 = fs
    \<or> (\<exists>tmp. r = Inr tmp \<and> fs tmp = None \<and> tmp \<noteq> p
        \<and> fs1 = fs(tmp := Some (new_private_file env contents)))"
proof (cases "path_file_name p")
  case None
  with assms show ?thesis
    by (auto simp: stage_private_file_def split: if_splits)
next
  case (Some name)
  note name = this
  show ?thesis
  proof (cases "List.find (\<lambda>t. fs t = None) (map (temp_path env p name) (take 16 (fe_nonces env)))")
    case None
    with assms name show ?thesis
      by (auto simp: stage_private_file_def split: if_splits)
  next
    case (Some tmp)
    from find_Some_mem [OF Some] have "fs tmp = None" "tmp \<noteq> p"
      using temp_path_fresh [OF name] by auto
    with assms Some name show ?thesis
      by (cases "fe_fault env") (auto simp: stage_private_file_def)
  qed
qed

text \<open>A replacement is all or nothing; on success the file is the new one.\<close>

lemma atomic_write_cases:
  assumes "atomic_write_private_file env p contents fs = (fs', r)"
  shows "fs' = fs \<and> (\<exists>e. r = Inl e) \<or> fs' = fs(p := Some (new_private_file env contents))"
proof -
  obtain fs1 r1 where st: "stage_private_file env p contents fs = (fs1, r1)"
    by fastforce
  from stage_cases [OF st] show ?thesis
  proof (elim disjE conjE exE)
    fix e assume "r1 = Inl e" "fs1 = fs"
    with assms st show ?thesis
      by (auto simp: atomic_write_private_file_def)
  next
    fix tmp assume t: "r1 = Inr tmp" "fs tmp = None" "tmp \<noteq> p"
      "fs1 = fs(tmp := Some (new_private_file env contents))"
    have undo: "fs(tmp := None) = fs"
      using t(2) by auto
    from t assms st undo show ?thesis
      by (auto simp: atomic_write_private_file_def fun_upd_twist split: if_splits)
  qed
qed

lemma atomic_write_ok:
  assumes "atomic_write_private_file env p contents fs = (fs', Inr ())"
  shows "fs' = fs(p := Some (new_private_file env contents))"
  using atomic_write_cases [OF assms] by simp

lemma atomic_create_cases:
  assumes "atomic_create_private_file env p contents fs = (fs', r)"
  shows "r = Inr Created \<and> fs p = None \<and> fs' = fs(p := Some (new_private_file env contents))
    \<or> r = Inr AlreadyExists \<and> fs p \<noteq> None \<and> fs' = fs
    \<or> (\<exists>e. r = Inl e) \<and> (fs p \<noteq> None \<longrightarrow> fs' p = fs p)"
proof -
  obtain fs1 r1 where st: "stage_private_file env p contents fs = (fs1, r1)"
    by fastforce
  from stage_cases [OF st] show ?thesis
  proof (elim disjE conjE exE)
    fix e assume "r1 = Inl e" "fs1 = fs"
    with assms st show ?thesis
      by (auto simp: atomic_create_private_file_def)
  next
    fix tmp assume t: "r1 = Inr tmp" "fs tmp = None" "tmp \<noteq> p"
      "fs1 = fs(tmp := Some (new_private_file env contents))"
    have undo: "fs(tmp := None) = fs"
      using t(2) by auto
    from t assms st undo show ?thesis
      by (auto simp: atomic_create_private_file_def sync_private_file_directory_def fun_upd_twist Let_def
          split: if_splits)
  qed
qed

definition directory_trusted :: "trust_env \<Rightarrow> private_file_owner \<Rightarrow> path \<Rightarrow> bool" where
  "directory_trusted T owner d \<longleftrightarrow> (\<exists>m. te_dirs T d = Some m \<and> dm_real_directory m
     \<and> (dm_uid m = 0 \<or> owner = EffectiveUser \<and> dm_uid m = te_euid T)
     \<and> (dm_mode m AND 0x1ff) AND 0x12 = 0)"

lemma check_trusted_directory_iff:
  "check_trusted_directory T owner d = Inr () \<longleftrightarrow> directory_trusted T owner d"
  by (cases owner) (auto simp: check_trusted_directory_def directory_trusted_def result_simps Let_def)

lemma trusted_components_iff:
  "trusted_components T owner cursor cs = Inr () \<longleftrightarrow> ParentDir \<notin> set cs
     \<and> (\<forall>pre c post. cs = pre @ c # post \<longrightarrow> c \<noteq> CurDir \<longrightarrow>
          directory_trusted T owner (cursor @ filter (\<lambda>c. c \<noteq> CurDir) pre @ [c]))"
proof (induction cs arbitrary: cursor)
  case (Cons c cs)
  have split: "(\<forall>pre d post. c # cs = pre @ d # post \<longrightarrow> d \<noteq> CurDir \<longrightarrow> P pre d)
      \<longleftrightarrow> (c \<noteq> CurDir \<longrightarrow> P [] c) \<and> (\<forall>pre d post. cs = pre @ d # post \<longrightarrow> d \<noteq> CurDir \<longrightarrow> P (c # pre) d)" for P
    by (auto simp: Cons_eq_append_conv)
  show ?case
    unfolding split using Cons.IH
    by (cases c) (auto simp: result_simps check_trusted_directory_iff)
qed simp

end
