(* ===== verification/Client_Allowlist.thy ===== *)
theory Client_Allowlist
  imports Client_Auth Private_Files
begin

text \<open>
  Credentials, enrollments and the allowlist as files (\<open>client_auth.rs\<close>). JSON and
  hexadecimal come from third-party crates: their functions are the fields of
  \<open>auth_documents\<close> and \<open>documents_ok\<close> is what the sources rely on. The abstract view of an
  allowlist is a map from key identifiers to authenticators; enrolling and revoking refine
  the update and the deletion of that map, through the file on disk.
\<close>

section \<open>Documents\<close>

definition CLIENT_AUTH_FILE_LIMIT :: u64 where "CLIENT_AUTH_FILE_LIMIT = 256 * 1024"
definition IDENTITY_SCHEMA :: string where "IDENTITY_SCHEMA = ''shadowpipe-client-credential-v1''"
definition ENROLLMENT_SCHEMA :: string where "ENROLLMENT_SCHEMA = ''shadowpipe-client-enrollment-v1''"
definition ALLOWLIST_SCHEMA :: string where "ALLOWLIST_SCHEMA = ''shadowpipe-client-allowlist-v1''"

record credential_file =
  cdf_schema :: string
  cdf_key_id :: string
  cdf_ed25519_public_key :: string
  cdf_ed25519_seed :: string
  cdf_psk :: string

record enrollment_file =
  ef_schema :: string
  ef_key_id :: string
  ef_ed25519_public_key :: string
  ef_psk :: string

record allowlist_entry =
  ae_key_id :: string
  ae_ed25519_public_key :: string
  ae_psk :: string

record allowlist_file =
  al_schema :: string
  al_clients :: "allowlist_entry list"

record client_enrollment =
  ce_key_id :: bytes
  ce_public_key :: bytes
  ce_psk :: bytes

record auth_documents =
  hex_encode :: "bytes \<Rightarrow> string"
  hex_decode_to_slice :: "nat \<Rightarrow> string \<Rightarrow> bytes option"
  parse_credential :: "string \<Rightarrow> credential_file option"
  print_credential :: "credential_file \<Rightarrow> string option"
  parse_enrollment :: "string \<Rightarrow> enrollment_file option"
  print_enrollment :: "enrollment_file \<Rightarrow> string option"
  parse_allowlist :: "string \<Rightarrow> allowlist_file option"
  print_allowlist :: "allowlist_file \<Rightarrow> string option"

datatype allowlist_error =
    FileErr file_error
  | AuthErr auth_error
  | JsonParse
  | JsonPrint
  | UnsupportedSchema string
  | NotCanonicalHex nat
  | HexDecode
  | KeyIdNotDerived
  | CredentialMismatch
  | CredentialExists
  | EnrollmentExists
  | AllowlistCount nat
  | NotStrictlySorted
  | NotEnrolled
  | LastClient
  | EnrollmentConflict
  | AllowlistFull
  | AllowlistAppeared

definition fileR :: "file_error + 'a \<Rightarrow> allowlist_error + 'a" where
  "fileR r = (case r of Inl e \<Rightarrow> Inl (FileErr e) | Inr x \<Rightarrow> Inr x)"

definition authR :: "auth_error + 'a \<Rightarrow> allowlist_error + 'a" where
  "authR r = (case r of Inl e \<Rightarrow> Inl (AuthErr e) | Inr x \<Rightarrow> Inr x)"

lemma lift_error_Inr [simp]:
  "fileR r = Inr x \<longleftrightarrow> r = Inr x" "authR a = Inr y \<longleftrightarrow> a = Inr y"
  by (auto simp: fileR_def authR_def split: sum.splits)

lemma lift_error_simps [simp]:
  "fileR (Inr x) = Inr x" "fileR (Inl e) = Inl (FileErr e)" "authR (Inr y) = Inr y"
  by (simp_all add: fileR_def authR_def)

section \<open>Hexadecimal fields\<close>

definition canonical_hex_char :: "char \<Rightarrow> bool" where
  "canonical_hex_char c \<longleftrightarrow> c \<in> set ''0123456789abcdef''"

definition validate_canonical_hex :: "string \<Rightarrow> nat \<Rightarrow> allowlist_error + unit" where
  "validate_canonical_hex encoded n =
     (if length encoded \<noteq> n * 2 \<or> \<not> list_all canonical_hex_char encoded
      then Inl (NotCanonicalHex (n * 2)) else Inr ())"

definition decode_public_hex :: "auth_documents \<Rightarrow> nat \<Rightarrow> string \<Rightarrow> allowlist_error + bytes" where
  "decode_public_hex D n encoded =
     bindR (validate_canonical_hex encoded n) (\<lambda>_. ok_or (hex_decode_to_slice D n encoded) HexDecode)"

definition decode_secret_hex :: "auth_documents \<Rightarrow> nat \<Rightarrow> string \<Rightarrow> allowlist_error + bytes" where
  "decode_secret_hex D n encoded =
     bindR (validate_canonical_hex encoded n) (\<lambda>_. ok_or (hex_decode_to_slice D n encoded) HexDecode)"

definition parse_client_key_id :: "auth_documents \<Rightarrow> string \<Rightarrow> allowlist_error + bytes" where
  "parse_client_key_id D encoded = decode_public_hex D CLIENT_KEY_ID_LEN encoded"

section \<open>Credential files\<close>

definition open_file :: "filesystem \<Rightarrow> path \<Rightarrow> file_error + private_file" where
  "open_file fs p = ok_or (fs p) FileNotFound"

definition read_auth_file ::
  "trust_env \<Rightarrow> filesystem \<Rightarrow> path \<Rightarrow> private_file_owner \<Rightarrow> allowlist_error + string" where
  "read_auth_file T fs p owner =
     bindR (fileR (validate_trusted_parent T p owner)) (\<lambda>_.
     fileR (read_private_file_to_string_bounded (te_euid T) (open_file fs p) CLIENT_AUTH_FILE_LIMIT owner True))"

definition credential_serialized :: "auth_documents \<Rightarrow> client_credential \<Rightarrow> allowlist_error + string" where
  "credential_serialized D cred =
     ok_or (print_credential D \<lparr> cdf_schema = IDENTITY_SCHEMA, cdf_key_id = hex_encode D (cc_key_id cred),
       cdf_ed25519_public_key = hex_encode D (cc_public_key cred),
       cdf_ed25519_seed = hex_encode D (cc_seed cred), cdf_psk = hex_encode D (cc_psk cred) \<rparr>) JsonPrint"

definition credential_create ::
  "('k, 'z) session_crypto_scheme \<Rightarrow> auth_documents \<Rightarrow> trust_env \<Rightarrow> fs_env \<Rightarrow> bytes option \<Rightarrow> bytes option
    \<Rightarrow> path \<Rightarrow> filesystem \<Rightarrow> filesystem \<times> (allowlist_error + client_credential)" where
  "credential_create C D T env seed_draw psk_draw p fs =
     (case (bindR (fileR (validate_trusted_parent T p EffectiveUser)) (\<lambda>_.
            bindR (authR (credential_generate C seed_draw psk_draw)) (\<lambda>cred.
            bindR (credential_serialized D cred) (\<lambda>serialized. Inr (cred, serialized))))) of
        Inl e \<Rightarrow> (fs, Inl e)
      | Inr (cred, serialized) \<Rightarrow>
          (case atomic_create_private_file env p serialized fs of
             (fs', Inl e) \<Rightarrow> (fs', Inl (FileErr e))
           | (fs', Inr Created) \<Rightarrow> (fs', Inr cred)
           | (fs', Inr AlreadyExists) \<Rightarrow> (fs', Inl CredentialExists)))"

definition credential_load_with_owner ::
  "('k, 'z) session_crypto_scheme \<Rightarrow> auth_documents \<Rightarrow> trust_env \<Rightarrow> filesystem \<Rightarrow> path \<Rightarrow> private_file_owner
    \<Rightarrow> allowlist_error + client_credential" where
  "credential_load_with_owner C D T fs p owner =
     bindR (read_auth_file T fs p owner) (\<lambda>json.
     bindR (ok_or (parse_credential D json) JsonParse) (\<lambda>document.
     bindR (ensure (cdf_schema document = IDENTITY_SCHEMA) (UnsupportedSchema (cdf_schema document))) (\<lambda>_.
     bindR (decode_secret_hex D 32 (cdf_ed25519_seed document)) (\<lambda>seed.
     bindR (decode_secret_hex D CLIENT_PSK_LEN (cdf_psk document)) (\<lambda>psk.
     bindR (authR (credential_from_parts C seed psk)) (\<lambda>credential.
     bindR (decode_public_hex D CLIENT_PUBLIC_KEY_LEN (cdf_ed25519_public_key document)) (\<lambda>public_key.
     bindR (decode_public_hex D CLIENT_KEY_ID_LEN (cdf_key_id document)) (\<lambda>key_id.
     bindR (ensure (\<not> (public_key \<noteq> cc_public_key credential \<or> key_id \<noteq> cc_key_id credential))
       CredentialMismatch) (\<lambda>_.
     Inr credential)))))))))"

definition enrollment_from_credential :: "client_credential \<Rightarrow> client_enrollment" where
  "enrollment_from_credential cred =
     \<lparr> ce_key_id = cc_key_id cred, ce_public_key = cc_public_key cred, ce_psk = cc_psk cred \<rparr>"

definition enrollment_serialized :: "auth_documents \<Rightarrow> client_enrollment \<Rightarrow> allowlist_error + string" where
  "enrollment_serialized D e =
     ok_or (print_enrollment D \<lparr> ef_schema = ENROLLMENT_SCHEMA, ef_key_id = hex_encode D (ce_key_id e),
       ef_ed25519_public_key = hex_encode D (ce_public_key e), ef_psk = hex_encode D (ce_psk e) \<rparr>) JsonPrint"

definition write_enrollment ::
  "auth_documents \<Rightarrow> trust_env \<Rightarrow> fs_env \<Rightarrow> client_credential \<Rightarrow> path \<Rightarrow> filesystem
    \<Rightarrow> filesystem \<times> (allowlist_error + unit)" where
  "write_enrollment D T env cred p fs =
     (case (bindR (fileR (validate_trusted_parent T p EffectiveUser)) (\<lambda>_.
            enrollment_serialized D (enrollment_from_credential cred))) of
        Inl e \<Rightarrow> (fs, Inl e)
      | Inr serialized \<Rightarrow>
          (case atomic_create_private_file env p serialized fs of
             (fs', Inl e) \<Rightarrow> (fs', Inl (FileErr e))
           | (fs', Inr Created) \<Rightarrow> (fs', Inr ())
           | (fs', Inr AlreadyExists) \<Rightarrow> (fs', Inl EnrollmentExists)))"

definition enrollment_load_with_owner ::
  "('k, 'z) session_crypto_scheme \<Rightarrow> auth_documents \<Rightarrow> trust_env \<Rightarrow> filesystem \<Rightarrow> path \<Rightarrow> private_file_owner
    \<Rightarrow> allowlist_error + client_enrollment" where
  "enrollment_load_with_owner C D T fs p owner =
     bindR (read_auth_file T fs p owner) (\<lambda>json.
     bindR (ok_or (parse_enrollment D json) JsonParse) (\<lambda>document.
     bindR (ensure (ef_schema document = ENROLLMENT_SCHEMA) (UnsupportedSchema (ef_schema document))) (\<lambda>_.
     bindR (decode_public_hex D CLIENT_PUBLIC_KEY_LEN (ef_ed25519_public_key document)) (\<lambda>public_key.
     bindR (decode_public_hex D CLIENT_KEY_ID_LEN (ef_key_id document)) (\<lambda>key_id.
     bindR (ensure (key_id = derive_key_id C public_key) KeyIdNotDerived) (\<lambda>_.
     bindR (decode_secret_hex D CLIENT_PSK_LEN (ef_psk document)) (\<lambda>psk.
     Inr \<lparr> ce_key_id = key_id, ce_public_key = public_key, ce_psk = psk \<rparr>)))))))"

section \<open>The allowlist file\<close>

definition parse_allowlist_entry ::
  "('k, 'z) session_crypto_scheme \<Rightarrow> auth_documents \<Rightarrow> allowlist_entry \<Rightarrow> allowlist_error + authorized_client" where
  "parse_allowlist_entry C D item =
     bindR (decode_public_hex D CLIENT_KEY_ID_LEN (ae_key_id item)) (\<lambda>key_id.
     bindR (decode_public_hex D CLIENT_PUBLIC_KEY_LEN (ae_ed25519_public_key item)) (\<lambda>public_key.
     bindR (ensure (key_id = derive_key_id C public_key) KeyIdNotDerived) (\<lambda>_.
     bindR (decode_secret_hex D CLIENT_PSK_LEN (ae_psk item)) (\<lambda>psk.
     Inr \<lparr> ac_key_id = key_id, ac_public_key = public_key, ac_psk = psk \<rparr>))))"

definition authorized_parse ::
  "('k, 'z) session_crypto_scheme \<Rightarrow> auth_documents \<Rightarrow> string \<Rightarrow> allowlist_error + authorized_clients" where
  "authorized_parse C D json =
     bindR (ok_or (parse_allowlist D json) JsonParse) (\<lambda>document.
     bindR (ensure (al_schema document = ALLOWLIST_SCHEMA) (UnsupportedSchema (al_schema document))) (\<lambda>_.
     bindR (ensure (\<not> (al_clients document = [] \<or> length (al_clients document) > MAX_AUTHORIZED_CLIENTS))
       (AllowlistCount (length (al_clients document)))) (\<lambda>_.
     bindR (foldE (\<lambda>entries item. bindR (parse_allowlist_entry C D item) (\<lambda>e. Inr (entries @ [e]))) []
       (al_clients document)) (\<lambda>entries.
     bindR (ensure (\<forall>(a, b) \<in> set (windows2 entries). ac_key_id a < ac_key_id b) NotStrictlySorted) (\<lambda>_.
     Inr entries)))))"

definition authorized_load_with_owner ::
  "('k, 'z) session_crypto_scheme \<Rightarrow> auth_documents \<Rightarrow> trust_env \<Rightarrow> filesystem \<Rightarrow> path \<Rightarrow> private_file_owner
    \<Rightarrow> allowlist_error + authorized_clients" where
  "authorized_load_with_owner C D T fs p owner =
     bindR (read_auth_file T fs p owner) (\<lambda>json. authorized_parse C D json)"

definition authorized_revoke :: "authorized_clients \<Rightarrow> bytes \<Rightarrow> allowlist_error + authorized_clients" where
  "authorized_revoke clients key_id =
     bindR (ok_or (binary_search_by_key key_id ac_key_id clients) NotEnrolled) (\<lambda>index.
     bindR (ensure (length clients \<noteq> 1) LastClient) (\<lambda>_.
     Inr (take index clients @ drop (index + 1) clients)))"

definition authorized_serialized :: "auth_documents \<Rightarrow> authorized_clients \<Rightarrow> allowlist_error + string" where
  "authorized_serialized D clients =
     ok_or (print_allowlist D \<lparr> al_schema = ALLOWLIST_SCHEMA,
       al_clients = map (\<lambda>e. \<lparr> ae_key_id = hex_encode D (ac_key_id e),
         ae_ed25519_public_key = hex_encode D (ac_public_key e), ae_psk = hex_encode D (ac_psk e) \<rparr>) clients \<rparr>)
       JsonPrint"

fun is_not_found :: "allowlist_error \<Rightarrow> bool" where
  "is_not_found (FileErr FileNotFound) = True"
| "is_not_found (FileErr (DirectoryMissing _)) = True"
| "is_not_found _ = False"

section \<open>Transactions\<close>

text \<open>
  \<open>lock\<close> is what opening the lock file and locking it return. Everything before the write is
  \<open>enroll_decide\<close>: \<open>None\<close> when the enrollment is already present, otherwise the new entries.
\<close>

record lock_env =
  lk_open :: "path \<Rightarrow> file_error + private_file"
  lk_try :: lock_outcome

definition enroll_decide ::
  "authorized_clients \<Rightarrow> client_enrollment \<Rightarrow> allowlist_error + authorized_clients option" where
  "enroll_decide entries enrollment =
     (case List.find (\<lambda>entry. ac_key_id entry = ce_key_id enrollment) entries of
        Some existing \<Rightarrow>
          if ac_public_key existing = ce_public_key enrollment \<and> ac_psk existing = ce_psk enrollment
          then Inr None else Inl EnrollmentConflict
      | None \<Rightarrow>
          if length entries \<ge> MAX_AUTHORIZED_CLIENTS then Inl AllowlistFull
          else Inr (Some (sort_key ac_key_id (entries @ [\<lparr> ac_key_id = ce_key_id enrollment,
            ac_public_key = ce_public_key enrollment, ac_psk = ce_psk enrollment \<rparr>]))))"

text \<open>The clients the file stands for; a missing allowlist stands for none.\<close>

definition stored_clients ::
  "('k, 'z) session_crypto_scheme \<Rightarrow> auth_documents \<Rightarrow> trust_env \<Rightarrow> path \<Rightarrow> private_file_owner \<Rightarrow> filesystem
    \<Rightarrow> allowlist_error + authorized_clients" where
  "stored_clients C D T p owner fs =
     (case authorized_load_with_owner C D T fs p owner of
        Inr allowlist \<Rightarrow> Inr allowlist | Inl e \<Rightarrow> if is_not_found e then Inr [] else Inl e)"

text \<open>The read-only part of \<open>enroll_with_owner\<close>, up to the serialized new allowlist.\<close>

definition enroll_prepare ::
  "('k, 'z) session_crypto_scheme \<Rightarrow> auth_documents \<Rightarrow> trust_env \<Rightarrow> lock_env \<Rightarrow> path \<Rightarrow> path
    \<Rightarrow> private_file_owner \<Rightarrow> filesystem \<Rightarrow> allowlist_error + (bytes \<times> (authorized_clients \<times> string) option)" where
  "enroll_prepare C D T lock allowlist_path enrollment_path owner fs =
     bindR (fileR (validate_trusted_parent T allowlist_path owner)) (\<lambda>_.
     bindR (fileR (validate_trusted_parent T enrollment_path owner)) (\<lambda>_.
     bindR (fileR (acquire_mutation_lease T allowlist_path owner (lk_open lock) (lk_try lock))) (\<lambda>_.
     bindR (enrollment_load_with_owner C D T fs enrollment_path owner) (\<lambda>enrollment.
     bindR (stored_clients C D T allowlist_path owner fs) (\<lambda>entries.
     bindR (enroll_decide entries enrollment) (\<lambda>decision.
     case decision of None \<Rightarrow> Inr (ce_key_id enrollment, None)
     | Some entries' \<Rightarrow> bindR (authorized_serialized D entries') (\<lambda>serialized.
         Inr (ce_key_id enrollment, Some (entries', serialized)))))))))"

definition enroll_with_owner ::
  "('k, 'z) session_crypto_scheme \<Rightarrow> auth_documents \<Rightarrow> trust_env \<Rightarrow> lock_env \<Rightarrow> fs_env \<Rightarrow> path \<Rightarrow> path
    \<Rightarrow> private_file_owner \<Rightarrow> filesystem \<Rightarrow> filesystem \<times> (allowlist_error + bytes)" where
  "enroll_with_owner C D T lock env allowlist_path enrollment_path owner fs =
     (case enroll_prepare C D T lock allowlist_path enrollment_path owner fs of
        Inl e \<Rightarrow> (fs, Inl e)
      | Inr (key_id, None) \<Rightarrow> (fs, Inr key_id)
      | Inr (key_id, Some (entries', serialized)) \<Rightarrow>
          if length entries' = 1 then
            (case atomic_create_private_file env allowlist_path serialized fs of
               (fs', Inl e) \<Rightarrow> (fs', Inl (FileErr e))
             | (fs', Inr Created) \<Rightarrow> (fs', Inr key_id)
             | (fs', Inr AlreadyExists) \<Rightarrow> (fs', Inl AllowlistAppeared))
          else
            (case atomic_write_private_file env allowlist_path serialized fs of
               (fs', Inl e) \<Rightarrow> (fs', Inl (FileErr e))
             | (fs', Inr _) \<Rightarrow> (fs', Inr key_id)))"

definition revoke_with_owner ::
  "('k, 'z) session_crypto_scheme \<Rightarrow> auth_documents \<Rightarrow> trust_env \<Rightarrow> lock_env \<Rightarrow> fs_env \<Rightarrow> path \<Rightarrow> bytes
    \<Rightarrow> private_file_owner \<Rightarrow> filesystem \<Rightarrow> filesystem \<times> (allowlist_error + unit)" where
  "revoke_with_owner C D T lock env allowlist_path key_id owner fs =
     (case (bindR (fileR (validate_trusted_parent T allowlist_path owner)) (\<lambda>_.
            bindR (fileR (acquire_mutation_lease T allowlist_path owner (lk_open lock) (lk_try lock))) (\<lambda>_.
            bindR (authorized_load_with_owner C D T fs allowlist_path owner) (\<lambda>allowlist.
            bindR (authorized_revoke allowlist key_id) (\<lambda>allowlist'.
            authorized_serialized D allowlist'))))) of
        Inl e \<Rightarrow> (fs, Inl e)
      | Inr serialized \<Rightarrow>
          (case atomic_write_private_file env allowlist_path serialized fs of
             (fs', Inl e) \<Rightarrow> (fs', Inl (FileErr e))
           | (fs', Inr _) \<Rightarrow> (fs', Inr ())))"

section \<open>What the document libraries promise\<close>

definition canonical_hex :: "nat \<Rightarrow> string \<Rightarrow> bool" where
  "canonical_hex n s \<longleftrightarrow> length s = n * 2 \<and> list_all canonical_hex_char s"

definition entry_document :: "auth_documents \<Rightarrow> authorized_client \<Rightarrow> allowlist_entry" where
  "entry_document D e = \<lparr> ae_key_id = hex_encode D (ac_key_id e),
     ae_ed25519_public_key = hex_encode D (ac_public_key e), ae_psk = hex_encode D (ac_psk e) \<rparr>"

definition allowlist_document :: "auth_documents \<Rightarrow> authorized_clients \<Rightarrow> allowlist_file" where
  "allowlist_document D clients =
     \<lparr> al_schema = ALLOWLIST_SCHEMA, al_clients = map (entry_document D) clients \<rparr>"

definition credential_document :: "auth_documents \<Rightarrow> client_credential \<Rightarrow> credential_file" where
  "credential_document D cred = \<lparr> cdf_schema = IDENTITY_SCHEMA, cdf_key_id = hex_encode D (cc_key_id cred),
     cdf_ed25519_public_key = hex_encode D (cc_public_key cred),
     cdf_ed25519_seed = hex_encode D (cc_seed cred), cdf_psk = hex_encode D (cc_psk cred) \<rparr>"

definition enrollment_document :: "auth_documents \<Rightarrow> client_enrollment \<Rightarrow> enrollment_file" where
  "enrollment_document D e = \<lparr> ef_schema = ENROLLMENT_SCHEMA, ef_key_id = hex_encode D (ce_key_id e),
     ef_ed25519_public_key = hex_encode D (ce_public_key e), ef_psk = hex_encode D (ce_psk e) \<rparr>"

definition credential_typed :: "client_credential \<Rightarrow> bool" where
  "credential_typed cred \<longleftrightarrow> length (cc_key_id cred) = 16 \<and> length (cc_public_key cred) = 32
     \<and> length (cc_seed cred) = 32 \<and> length (cc_psk cred) = 32"

definition enrollment_typed :: "client_enrollment \<Rightarrow> bool" where
  "enrollment_typed e \<longleftrightarrow> length (ce_key_id e) = 16 \<and> length (ce_public_key e) = 32 \<and> length (ce_psk e) = 32"

text \<open>
  Lower-case hexadecimal is a bijection between \<open>n\<close> bytes and \<open>2n\<close> canonical characters. The
  documents the program writes are printed as valid UTF-8 and parse back to themselves; a
  credential and an enrollment take at most a kilobyte, and an allowlist entry at most 256
  characters beside a fixed frame.
\<close>

definition printed :: "('d \<Rightarrow> string option) \<Rightarrow> (string \<Rightarrow> 'd option) \<Rightarrow> nat \<Rightarrow> 'd \<Rightarrow> bool" where
  "printed pr pa n d \<longleftrightarrow> (\<exists>j. pr d = Some j \<and> pa j = Some d \<and> utf8_valid j \<and> length j \<le> n)"

definition documents_ok :: "auth_documents \<Rightarrow> bool" where
  "documents_ok D \<longleftrightarrow>
     (\<forall>b. canonical_hex (length b) (hex_encode D b) \<and> hex_decode_to_slice D (length b) (hex_encode D b) = Some b)
     \<and> (\<forall>n s. canonical_hex n s \<longrightarrow> (\<exists>b. length b = n \<and> hex_encode D b = s))
     \<and> (\<forall>cred. credential_typed cred \<longrightarrow>
          printed (print_credential D) (parse_credential D) 1024 (credential_document D cred))
     \<and> (\<forall>e. enrollment_typed e \<longrightarrow>
          printed (print_enrollment D) (parse_enrollment D) 1024 (enrollment_document D e))
     \<and> (\<forall>clients. (\<forall>e \<in> set clients. authorized_client_typed e) \<longrightarrow>
          printed (print_allowlist D) (parse_allowlist D) (128 + 256 * length clients) (allowlist_document D clients))"

lemma decode_hex_iff:
  assumes "documents_ok D"
  shows "decode_public_hex D n s = Inr b \<longleftrightarrow> length b = n \<and> s = hex_encode D b"
    and "decode_secret_hex D n s = Inr b \<longleftrightarrow> length b = n \<and> s = hex_encode D b"
proof -
  have hex: "canonical_hex (length b) (hex_encode D b)"
      "hex_decode_to_slice D (length b) (hex_encode D b) = Some b" for b
    using assms by (auto simp: documents_ok_def)
  have onto: "\<exists>b. length b = n \<and> hex_encode D b = s" if "canonical_hex n s"
    using assms that unfolding documents_ok_def by blast
  have "canonical_hex n s \<and> hex_decode_to_slice D n s = Some b \<longleftrightarrow> length b = n \<and> s = hex_encode D b"
    using hex onto by (metis option.inject)
  then show "decode_public_hex D n s = Inr b \<longleftrightarrow> length b = n \<and> s = hex_encode D b"
    and "decode_secret_hex D n s = Inr b \<longleftrightarrow> length b = n \<and> s = hex_encode D b"
    by (auto simp: decode_public_hex_def decode_secret_hex_def validate_canonical_hex_def canonical_hex_def
        result_simps)
qed

lemma decode_hex_encode:
  assumes "documents_ok D"
  shows "length b = n \<Longrightarrow> decode_public_hex D n (hex_encode D b) = Inr b"
    and "length b = n \<Longrightarrow> decode_secret_hex D n (hex_encode D b) = Inr b"
  by (simp_all add: decode_hex_iff [OF assms])

section \<open>Allowlists read back\<close>

definition allowlist_valid :: "('k, 'z) session_crypto_scheme \<Rightarrow> authorized_clients \<Rightarrow> bool" where
  "allowlist_valid C clients \<longleftrightarrow> clients_ok clients
     \<and> (\<forall>e \<in> set clients. ac_key_id e = derive_key_id C (ac_public_key e))"

lemma parse_allowlist_entry_iff:
  assumes "documents_ok D"
  shows "parse_allowlist_entry C D item = Inr e \<longleftrightarrow>
    authorized_client_typed e \<and> ac_key_id e = derive_key_id C (ac_public_key e) \<and> item = entry_document D e"
  unfolding parse_allowlist_entry_def
  by (cases e; cases item)
    (auto simp: result_simps decode_hex_iff [OF assms] authorized_client_typed_def entry_document_def auth_lengths)

lemma foldE_collect:
  "foldE (\<lambda>acc x. bindR (f x) (\<lambda>y. Inr (acc @ [y]))) acc xs = Inr ys \<longleftrightarrow>
     (\<exists>zs. ys = acc @ zs \<and> list_all2 (\<lambda>x z. f x = Inr z) xs zs)"
proof (induction xs arbitrary: acc)
  case (Cons x xs)
  show ?case
  proof (cases "f x")
    case (Inr y)
    with Cons [of "acc @ [y]"] show ?thesis
      by (auto simp: list_all2_Cons1)
  qed (auto simp: list_all2_Cons1)
qed auto

lemma authorized_parse_iff:
  assumes "documents_ok D"
  shows "authorized_parse C D json = Inr clients \<longleftrightarrow>
    allowlist_valid C clients \<and> parse_allowlist D json = Some (allowlist_document D clients)"
proof -
  have collect: "list_all2 (\<lambda>x z. parse_allowlist_entry C D x = Inr z) items clients \<longleftrightarrow>
      (\<forall>e \<in> set clients. authorized_client_typed e \<and> ac_key_id e = derive_key_id C (ac_public_key e))
      \<and> items = map (entry_document D) clients" for items
    by (induction clients arbitrary: items)
      (auto simp: list_all2_Cons2 parse_allowlist_entry_iff [OF assms])
  show ?thesis
  proof (cases "parse_allowlist D json")
    case (Some d)
    have "authorized_parse C D json = Inr clients \<longleftrightarrow>
        al_schema d = ALLOWLIST_SCHEMA \<and> al_clients d \<noteq> [] \<and> length (al_clients d) \<le> MAX_AUTHORIZED_CLIENTS
        \<and> list_all2 (\<lambda>x z. parse_allowlist_entry C D x = Inr z) (al_clients d) clients
        \<and> clients_sorted clients"
      using Some by (auto simp: authorized_parse_def result_simps foldE_collect windows2_strict
          clients_sorted_def not_less)
    then show ?thesis
      unfolding collect using Some
      by (cases d) (auto simp: allowlist_valid_def clients_ok_def allowlist_document_def)
  qed (simp add: authorized_parse_def)
qed

lemma authorized_serialized_iff:
  "authorized_serialized D clients = Inr j \<longleftrightarrow> print_allowlist D (allowlist_document D clients) = Some j"
  by (simp add: authorized_serialized_def allowlist_document_def entry_document_def [abs_def])

lemma allowlist_read_back:
  assumes "documents_ok D" "allowlist_valid C clients"
  shows "\<exists>j. authorized_serialized D clients = Inr j \<and> authorized_parse C D j = Inr clients
    \<and> utf8_valid j \<and> length j \<le> 128 + 256 * length clients"
proof -
  have "\<forall>e \<in> set clients. authorized_client_typed e"
    using assms(2) by (simp add: allowlist_valid_def clients_ok_def)
  then have "printed (print_allowlist D) (parse_allowlist D) (128 + 256 * length clients) (allowlist_document D clients)"
    using assms(1) unfolding documents_ok_def by blast
  with assms show ?thesis
    by (auto simp: authorized_serialized_iff authorized_parse_iff printed_def)
qed

section \<open>The registry an allowlist stands for\<close>

definition registry :: "authorized_clients \<Rightarrow> bytes \<Rightarrow> (bytes \<times> bytes) option" where
  "registry clients k =
     map_option (\<lambda>e. (ac_public_key e, ac_psk e)) (List.find (\<lambda>e. ac_key_id e = k) clients)"

lemma registry_Some:
  "clients_sorted clients \<Longrightarrow> registry clients k = Some (pk, psk) \<longleftrightarrow>
     \<lparr> ac_key_id = k, ac_public_key = pk, ac_psk = psk \<rparr> \<in> set clients"
proof -
  assume s: "clients_sorted clients"
  have "registry clients k = Some (pk, psk) \<longleftrightarrow>
      (\<exists>e \<in> set clients. ac_key_id e = k \<and> ac_public_key e = pk \<and> ac_psk e = psk)"
    by (auto simp: registry_def find_client [OF s])
  also have "\<dots> \<longleftrightarrow> (\<exists>e \<in> set clients. e = \<lparr> ac_key_id = k, ac_public_key = pk, ac_psk = psk \<rparr>)"
    by (rule bex_cong) auto
  finally show ?thesis
    by auto
qed

lemma registry_eqI:
  assumes "clients_sorted a" "\<And>k pk psk. m k = Some (pk, psk) \<longleftrightarrow>
    \<lparr> ac_key_id = k, ac_public_key = pk, ac_psk = psk \<rparr> \<in> set a"
  shows "registry a = m"
proof
  fix k
  show "registry a k = m k"
    using assms(2) [of k] registry_Some [OF assms(1), of k]
    by (cases "registry a k"; cases "m k") auto
qed

definition enrollment_ok :: "('k, 'z) session_crypto_scheme \<Rightarrow> client_enrollment \<Rightarrow> bool" where
  "enrollment_ok C e \<longleftrightarrow> length (ce_key_id e) = 16 \<and> length (ce_public_key e) = 32 \<and> length (ce_psk e) = 32
     \<and> ce_key_id e = derive_key_id C (ce_public_key e)"

definition enrollment_entry :: "client_enrollment \<Rightarrow> authorized_client" where
  "enrollment_entry e =
     \<lparr> ac_key_id = ce_key_id e, ac_public_key = ce_public_key e, ac_psk = ce_psk e \<rparr>"

lemma enroll_decide_None:
  "clients_sorted entries \<Longrightarrow> enroll_decide entries e = Inr None \<longleftrightarrow>
     registry entries (ce_key_id e) = Some (ce_public_key e, ce_psk e)"
  by (auto simp: enroll_decide_def registry_def split: option.splits if_splits)

lemma enroll_decide_conflict:
  "enroll_decide entries e = Inl EnrollmentConflict \<longleftrightarrow>
     (\<exists>v. registry entries (ce_key_id e) = Some v \<and> v \<noteq> (ce_public_key e, ce_psk e))"
  by (auto simp: enroll_decide_def registry_def split: option.splits if_splits)

lemma enroll_decide_Some:
  assumes "entries = [] \<or> allowlist_valid C entries" "enrollment_ok C e"
    and "enroll_decide entries e = Inr (Some entries')"
  shows "allowlist_valid C entries'" and "registry entries (ce_key_id e) = None"
    and "registry entries' = (registry entries)(ce_key_id e \<mapsto> (ce_public_key e, ce_psk e))"
    and "length entries' = Suc (length entries)"
proof -
  have none: "List.find (\<lambda>x. ac_key_id x = ce_key_id e) entries = None"
    and len: "length entries < MAX_AUTHORIZED_CLIENTS"
    and e': "entries' = sort_key ac_key_id (entries @ [enrollment_entry e])"
    using assms(3) by (auto simp: enroll_decide_def enrollment_entry_def split: option.splits if_splits)
  show "registry entries (ce_key_id e) = None"
    by (simp add: registry_def none)
  have sorted: "clients_sorted entries"
    using assms(1) by (auto simp: allowlist_valid_def clients_ok_def clients_sorted_def)
  have "ce_key_id e \<notin> ac_key_id ` set entries"
    using none by (auto simp: find_None_all)
  then have "distinct (map ac_key_id (entries @ [enrollment_entry e]))"
    using sorted by (simp add: clients_sorted_def strict_sorted_iff enrollment_entry_def)
  then have "distinct (map ac_key_id entries')"
    unfolding e' by (simp only: distinct_map distinct_sort set_sort)
  then have sorted': "clients_sorted entries'"
    by (simp add: clients_sorted_def strict_sorted_iff e')
  show len': "length entries' = Suc (length entries)"
    by (simp add: e')
  have set': "set entries' = insert (enrollment_entry e) (set entries)"
    by (simp add: e')
  show "allowlist_valid C entries'"
    using assms(1,2) sorted' len len' set'
    by (auto simp: allowlist_valid_def clients_ok_def authorized_client_typed_def enrollment_ok_def
        enrollment_entry_def)
  show "registry entries' = (registry entries)(ce_key_id e \<mapsto> (ce_public_key e, ce_psk e))"
  proof (rule registry_eqI [OF sorted'])
    fix k pk psk
    have "\<lparr> ac_key_id = ce_key_id e, ac_public_key = pk, ac_psk = psk \<rparr> \<notin> set entries"
      using none by (auto simp: find_None_all)
    then show "((registry entries)(ce_key_id e \<mapsto> (ce_public_key e, ce_psk e))) k = Some (pk, psk)
        \<longleftrightarrow> \<lparr> ac_key_id = k, ac_public_key = pk, ac_psk = psk \<rparr> \<in> set entries'"
      by (auto simp: set' registry_Some [OF sorted] enrollment_entry_def)
  qed
qed

lemma authorized_revoke_ok:
  assumes "allowlist_valid C clients" "authorized_revoke clients k = Inr clients'"
  shows "allowlist_valid C clients'" and "registry clients k \<noteq> None"
    and "registry clients' = (registry clients)(k := None)"
proof -
  have sorted: "clients_sorted clients"
    using assms(1) by (simp add: allowlist_valid_def clients_ok_def)
  from assms(2) obtain i where bs: "binary_search_by_key k ac_key_id clients = Some i"
    and c': "clients' = take i clients @ drop (Suc i) clients" and one: "length clients \<noteq> 1"
    by (auto simp: authorized_revoke_def result_simps)
  then have i: "i < length clients" "ac_key_id (clients ! i) = k"
    using binary_search_Some [OF sorted [unfolded clients_sorted_def]] by auto
  have split: "clients = take i clients @ clients ! i # drop (Suc i) clients"
    using i by (rule_tac id_take_nth_drop)
  define a b where "a = take i clients" and "b = drop (Suc i) clients"
  have cl: "clients = a @ clients ! i # b" and c'': "clients' = a @ b"
    using split c' by (simp_all add: a_def b_def)
  have sorted': "clients_sorted clients'"
    using sorted unfolding clients_sorted_def c'' by (subst (asm) cl) (auto simp: sorted_wrt_append)
  have keys: "k \<notin> ac_key_id ` set (a @ b)"
    using sorted i(2) unfolding clients_sorted_def by (subst (asm) cl) (auto simp: sorted_wrt_append)
  have mem: "set clients = insert (clients ! i) (set clients')"
    unfolding c'' by (subst cl) auto
  have "length clients' = length clients - 1" "clients' \<noteq> []"
    using i(1) one by (auto simp: c' simp del: append_is_Nil_conv simp flip: length_0_conv)
  then show "allowlist_valid C clients'"
    using assms(1) sorted' mem by (auto simp: allowlist_valid_def clients_ok_def)
  have e: "clients ! i \<in> set clients"
    using i by simp
  then show "registry clients k \<noteq> None"
    using i(2) by (auto simp: registry_def find_None_all)
  have "clients ! i = \<lparr> ac_key_id = k, ac_public_key = ac_public_key (clients ! i), ac_psk = ac_psk (clients ! i) \<rparr>"
    using i(2) by simp
  then have at_i: "\<lparr> ac_key_id = j, ac_public_key = pk, ac_psk = psk \<rparr> = clients ! i \<Longrightarrow> j = k" for j pk psk
    by (metis authorized_client.select_convs(1))
  show "registry clients' = (registry clients)(k := None)"
  proof (rule registry_eqI [OF sorted'])
    fix j pk psk
    have "\<lparr> ac_key_id = k, ac_public_key = pk, ac_psk = psk \<rparr> \<notin> set clients'"
      using keys unfolding c'' by force
    then show "((registry clients)(k := None)) j = Some (pk, psk)
        \<longleftrightarrow> \<lparr> ac_key_id = j, ac_public_key = pk, ac_psk = psk \<rparr> \<in> set clients'"
      using at_i by (auto simp: mem registry_Some [OF sorted])
  qed
qed

section \<open>Transactions on disk\<close>

lemma stored_clients_valid:
  assumes "documents_ok D" "stored_clients C D T p owner fs = Inr clients"
  shows "clients = [] \<or> allowlist_valid C clients"
  using assms
  by (auto simp: stored_clients_def authorized_load_with_owner_def result_simps authorized_parse_iff
      split: sum.splits if_splits)

lemma enrollment_load_ok:
  assumes "documents_ok D" "enrollment_load_with_owner C D T fs p owner = Inr e"
  shows "enrollment_ok C e"
  using assms
  by (auto simp: enrollment_load_with_owner_def result_simps decode_hex_iff enrollment_ok_def auth_lengths)

lemma new_file_reads_back:
  assumes "validate_trusted_parent T p owner = Inr ()" "fe_euid env = expected_uid (te_euid T) owner"
    and "utf8_valid j" "length j \<le> 65664" "fs p = Some (new_private_file env j)"
  shows "read_auth_file T fs p owner = Inr j"
proof -
  have "word_of_nat (length j) \<le> CLIENT_AUTH_FILE_LIMIT" "length j \<le> unat CLIENT_AUTH_FILE_LIMIT"
    using assms(4) by (simp_all add: CLIENT_AUTH_FILE_LIMIT_def word_le_nat_alt unat_of_nat)
  then have "private_file_safe (te_euid T) CLIENT_AUTH_FILE_LIMIT owner True (new_private_file env j)"
    using assms(2,3) by (simp add: private_file_safe_def new_private_file_def)
  then show ?thesis
    using assms(1,5) by (auto simp: read_auth_file_def open_file_def read_private_file_iff new_private_file_def)
qed

lemma written_reads_back:
  assumes "documents_ok D" "allowlist_valid C clients" "authorized_serialized D clients = Inr j"
    and "validate_trusted_parent T p owner = Inr ()" "fe_euid env = expected_uid (te_euid T) owner"
  shows "authorized_load_with_owner C D T (fs(p := Some (new_private_file env j))) p owner = Inr clients"
proof -
  from allowlist_read_back [OF assms(1,2)] assms(3)
  have j: "authorized_parse C D j = Inr clients" "utf8_valid j" "length j \<le> 128 + 256 * length clients"
    by auto
  moreover have "length clients \<le> 256"
    using assms(2) by (simp add: allowlist_valid_def clients_ok_def MAX_AUTHORIZED_CLIENTS_def)
  ultimately have "length j \<le> 65664"
    by simp
  then show ?thesis
    using j(1,2) assms(4,5) by (simp add: authorized_load_with_owner_def new_file_reads_back)
qed

lemma enroll_prepare_iff:
  "enroll_prepare C D T lock ap ep owner fs = Inr v \<longleftrightarrow>
     validate_trusted_parent T ap owner = Inr () \<and> validate_trusted_parent T ep owner = Inr ()
     \<and> acquire_mutation_lease T ap owner (lk_open lock) (lk_try lock) = Inr ()
     \<and> (\<exists>e old d. enrollment_load_with_owner C D T fs ep owner = Inr e
          \<and> stored_clients C D T ap owner fs = Inr old \<and> enroll_decide old e = Inr d
          \<and> (case d of None \<Rightarrow> v = (ce_key_id e, None)
             | Some new \<Rightarrow> \<exists>j. authorized_serialized D new = Inr j \<and> v = (ce_key_id e, Some (new, j))))"
proof -
  have key: "(case d of None \<Rightarrow> Inr (ce_key_id e, None)
       | Some new \<Rightarrow> bindR (authorized_serialized D new) (\<lambda>j. Inr (ce_key_id e, Some (new, j)))) = Inr v
     \<longleftrightarrow> (case d of None \<Rightarrow> v = (ce_key_id e, None)
       | Some new \<Rightarrow> \<exists>j. authorized_serialized D new = Inr j \<and> v = (ce_key_id e, Some (new, j)))" for d e
    by (cases d) (auto simp: result_simps)
  show ?thesis
    unfolding enroll_prepare_def bindR_eq_Inr lift_error_Inr key by simp
qed

lemma enroll_commit:
  assumes "enroll_prepare C D T lock ap ep owner fs = Inr (k, Some (new, j))"
    and "enroll_with_owner C D T lock env ap ep owner fs = (fs', r)"
  shows "r = Inr k \<and> fs' = fs(ap := Some (new_private_file env j))
    \<or> (\<exists>f. r = Inl (FileErr f)) \<or> r = Inl AllowlistAppeared \<and> fs' = fs"
proof (cases "length new = 1")
  case True
  obtain fs1 r1 where cr: "atomic_create_private_file env ap j fs = (fs1, r1)"
    by fastforce
  with assms True have "(fs', r) = (case r1 of Inl e \<Rightarrow> (fs1, Inl (FileErr e))
      | Inr Created \<Rightarrow> (fs1, Inr k) | Inr AlreadyExists \<Rightarrow> (fs1, Inl AllowlistAppeared))"
    by (simp add: enroll_with_owner_def split: sum.splits create_outcome.splits)
  with atomic_create_cases [OF cr] show ?thesis
    by auto
next
  case False
  obtain fs1 r1 where wr: "atomic_write_private_file env ap j fs = (fs1, r1)"
    by fastforce
  with assms False have "(fs', r) = (case r1 of Inl e \<Rightarrow> (fs1, Inl (FileErr e)) | Inr _ \<Rightarrow> (fs1, Inr k))"
    by (simp add: enroll_with_owner_def split: sum.splits)
  with atomic_write_cases [OF wr] show ?thesis
    by (cases r1) auto
qed

lemma enroll_error_keeps:
  assumes "enroll_with_owner C D T lock env ap ep owner fs = (fs', Inl e)" "\<forall>f. e \<noteq> FileErr f"
  shows "fs' = fs"
proof (cases "enroll_prepare C D T lock ap ep owner fs")
  case (Inl e')
  with assms show ?thesis
    by (simp add: enroll_with_owner_def)
next
  case (Inr v)
  then show ?thesis
    using assms enroll_commit [of C D T lock ap ep owner fs _ _ _ env fs' "Inl e"]
    by (cases v; cases "snd v") (auto simp: enroll_with_owner_def)
qed

lemma enroll_ok:
  assumes "documents_ok D" "fe_euid env = expected_uid (te_euid T) owner"
    and ok: "enroll_with_owner C D T lock env ap ep owner fs = (fs', Inr k)"
  shows "\<exists>e old new. enrollment_load_with_owner C D T fs ep owner = Inr e \<and> k = ce_key_id e
    \<and> stored_clients C D T ap owner fs = Inr old \<and> stored_clients C D T ap owner fs' = Inr new
    \<and> allowlist_valid C new \<and> registry new = (registry old)(k \<mapsto> (ce_public_key e, ce_psk e))
    \<and> registry old k \<in> {None, Some (ce_public_key e, ce_psk e)} \<and> (\<forall>q. q \<noteq> ap \<longrightarrow> fs' q = fs q)"
proof -
  from ok obtain v where v: "enroll_prepare C D T lock ap ep owner fs = Inr v"
    by (auto simp: enroll_with_owner_def split: sum.splits)
  then obtain e old d where tp: "validate_trusted_parent T ap owner = Inr ()"
    and e: "enrollment_load_with_owner C D T fs ep owner = Inr e"
    and old: "stored_clients C D T ap owner fs = Inr old" and d: "enroll_decide old e = Inr d"
    and vd: "case d of None \<Rightarrow> v = (ce_key_id e, None)
      | Some new \<Rightarrow> \<exists>j. authorized_serialized D new = Inr j \<and> v = (ce_key_id e, Some (new, j))"
    unfolding enroll_prepare_iff by blast
  note valid = stored_clients_valid [OF assms(1) old]
  show ?thesis
  proof (cases d)
    case None
    with ok v vd have f: "fs' = fs" "k = ce_key_id e"
      by (auto simp: enroll_with_owner_def)
    have "clients_sorted old"
      using valid by (auto simp: allowlist_valid_def clients_ok_def clients_sorted_def)
    then have reg: "registry old k = Some (ce_public_key e, ce_psk e)"
      using d None f(2) by (simp add: enroll_decide_None)
    then have "allowlist_valid C old"
      using valid by (auto simp: registry_def)
    with e old f reg show ?thesis
      by (auto simp: fun_upd_idem_iff)
  next
    case (Some new)
    with vd obtain j where j: "authorized_serialized D new = Inr j" "v = (ce_key_id e, Some (new, j))"
      by auto
    with enroll_commit [OF v [unfolded j(2)] ok] have f: "fs' = fs(ap := Some (new_private_file env j))"
      "k = ce_key_id e"
      by auto
    note dec = enroll_decide_Some [OF valid enrollment_load_ok [OF assms(1) e], of new]
    have new: "allowlist_valid C new" "registry old k = None"
      "registry new = (registry old)(k \<mapsto> (ce_public_key e, ce_psk e))"
      using dec d Some f(2) by auto
    have "authorized_load_with_owner C D T fs' ap owner = Inr new"
      unfolding f(1) by (rule written_reads_back [OF assms(1) new(1) j(1) tp assms(2)])
    with e old f new show ?thesis
      by (auto simp: stored_clients_def)
  qed
qed

lemma revoke_ok:
  assumes "documents_ok D" "fe_euid env = expected_uid (te_euid T) owner"
    and ok: "revoke_with_owner C D T lock env ap k owner fs = (fs', Inr u)"
  shows "\<exists>old new. authorized_load_with_owner C D T fs ap owner = Inr old
    \<and> authorized_load_with_owner C D T fs' ap owner = Inr new \<and> registry old k \<noteq> None
    \<and> registry new = (registry old)(k := None) \<and> new \<noteq> [] \<and> (\<forall>q. q \<noteq> ap \<longrightarrow> fs' q = fs q)"
proof -
  from ok obtain old new j where tp: "validate_trusted_parent T ap owner = Inr ()"
    and old: "authorized_load_with_owner C D T fs ap owner = Inr old"
    and rv: "authorized_revoke old k = Inr new" and j: "authorized_serialized D new = Inr j"
    and wr: "atomic_write_private_file env ap j fs = (fs', Inr ())"
    by (auto simp: revoke_with_owner_def result_simps split: sum.splits prod.splits)
  have valid: "allowlist_valid C old"
    using old assms(1) by (auto simp: authorized_load_with_owner_def result_simps authorized_parse_iff)
  note rev = authorized_revoke_ok [OF valid rv]
  have "authorized_load_with_owner C D T fs' ap owner = Inr new"
    unfolding atomic_write_ok [OF wr] by (rule written_reads_back [OF assms(1) rev(1) j tp assms(2)])
  with old rev show ?thesis
    by (auto simp: atomic_write_ok [OF wr] allowlist_valid_def clients_ok_def)
qed

section \<open>Credentials on disk\<close>

lemma credential_create_ok:
  assumes "documents_ok D" "\<And>m. length (sha256 C m) = 32" "length seed = 32" "length psk = 32"
    and "fe_euid env = te_euid T"
    and ok: "credential_create C D T env (Some seed) (Some psk) p fs = (fs', Inr cred)"
  shows "credential_ok C cred" and "fs p = None" and "credential_load_with_owner C D T fs' p EffectiveUser = Inr cred"
proof -
  from ok obtain j where tp: "validate_trusted_parent T p EffectiveUser = Inr ()"
    and cred: "credential_from_parts C seed psk = Inr cred" and j: "credential_serialized D cred = Inr j"
    and wr: "atomic_create_private_file env p j fs = (fs', Inr Created)"
    by (auto simp: credential_create_def credential_generate_def result_simps
        split: sum.splits prod.splits create_outcome.splits)
  show cok: "credential_ok C cred"
    using cred assms(4) by (simp add: credential_from_parts_ok)
  have sp: "cc_seed cred = seed" "cc_psk cred = psk"
    using cred assms(4) by (simp_all add: credential_from_parts_ok)
  have typed: "credential_typed cred"
    using cok sp assms(2-4) by (auto simp: credential_typed_def credential_ok_def derive_key_id_length)
  have f: "fs p = None" "fs' p = Some (new_private_file env j)"
    using atomic_create_cases [OF wr] by auto
  then show "fs p = None"
    by simp
  have "printed (print_credential D) (parse_credential D) 1024 (credential_document D cred)"
    using assms(1) typed unfolding documents_ok_def by blast
  moreover have "print_credential D (credential_document D cred) = Some j"
    using j by (simp add: credential_serialized_def credential_document_def)
  ultimately have pj: "parse_credential D j = Some (credential_document D cred)" "utf8_valid j" "length j \<le> 1024"
    by (auto simp: printed_def)
  then have "read_auth_file T fs' p EffectiveUser = Inr j"
    using tp assms(5) f(2) by (intro new_file_reads_back) (simp_all add: expected_uid_def)
  then show "credential_load_with_owner C D T fs' p EffectiveUser = Inr cred"
    using pj(1) typed cred sp
    by (simp add: credential_load_with_owner_def credential_document_def decode_hex_encode [OF assms(1)]
        credential_typed_def auth_lengths)
qed

lemma write_enrollment_ok:
  assumes "documents_ok D" "\<And>m. length (sha256 C m) = 32" "credential_ok C cred"
    and "fe_euid env = te_euid T" "fe_euid env = expected_uid (te_euid T) owner"
      "validate_trusted_parent T p owner = Inr ()"
    and ok: "write_enrollment D T env cred p fs = (fs', Inr u)"
  shows "fs' = fs(p := fs' p)" and "enrollment_load_with_owner C D T fs' p owner = Inr (enrollment_from_credential cred)"
proof -
  let ?e = "enrollment_from_credential cred"
  from ok obtain j where j: "enrollment_serialized D ?e = Inr j"
    and wr: "atomic_create_private_file env p j fs = (fs', Inr Created)"
    by (auto simp: write_enrollment_def result_simps split: sum.splits prod.splits create_outcome.splits)
  have typed: "enrollment_typed ?e"
    using assms(2,3) by (auto simp: enrollment_typed_def enrollment_from_credential_def credential_ok_def
        derive_key_id_length)
  have f: "fs' = fs(p := Some (new_private_file env j))"
    using atomic_create_cases [OF wr] by auto
  then show "fs' = fs(p := fs' p)"
    by simp
  have "printed (print_enrollment D) (parse_enrollment D) 1024 (enrollment_document D ?e)"
    using assms(1) typed unfolding documents_ok_def by blast
  moreover have "print_enrollment D (enrollment_document D ?e) = Some j"
    using j by (simp add: enrollment_serialized_def enrollment_document_def)
  ultimately have pj: "parse_enrollment D j = Some (enrollment_document D ?e)" "utf8_valid j" "length j \<le> 1024"
    by (auto simp: printed_def)
  then have "read_auth_file T fs' p owner = Inr j"
    using assms(5,6) f by (intro new_file_reads_back) simp_all
  then show "enrollment_load_with_owner C D T fs' p owner = Inr ?e"
    using pj(1) typed assms(3)
    by (simp add: enrollment_load_with_owner_def enrollment_document_def decode_hex_encode [OF assms(1)]
        enrollment_typed_def auth_lengths credential_ok_def enrollment_from_credential_def)
qed

lemma provision_enrolls:
  assumes "documents_ok D" "\<And>m. length (sha256 C m) = 32" "length seed = 32" "length psk = 32" "fe_euid env = te_euid T"
    and cr: "credential_create C D T env (Some seed) (Some psk) cp fs0 = (fs1, Inr cred)"
    and wr: "write_enrollment D T env cred ep fs1 = (fs2, Inr u)"
    and en: "enroll_with_owner C D T lock env ap ep EffectiveUser fs2 = (fs3, Inr k)"
  shows "\<exists>clients. stored_clients C D T ap EffectiveUser fs3 = Inr clients \<and> allowlist_valid C clients
    \<and> k = cc_key_id cred \<and> registry clients k = Some (cc_public_key cred, cc_psk cred)"
proof -
  note cok = credential_create_ok(1) [OF assms(1-5) cr]
  have uid: "fe_euid env = expected_uid (te_euid T) EffectiveUser"
    using assms(5) by (simp add: expected_uid_def)
  have tp: "validate_trusted_parent T ep EffectiveUser = Inr ()"
    using wr by (auto simp: write_enrollment_def result_simps split: sum.splits prod.splits)
  note e = write_enrollment_ok(2) [OF assms(1,2) cok assms(5) uid tp wr]
  from enroll_ok [OF assms(1) uid en] e show ?thesis
    by (auto simp: enrollment_from_credential_def)
qed

end
