(* ===== verification/Session_Frames.thy ===== *)
theory Session_Frames
  imports Client_Auth
begin

text \<open>
  Application records of an authenticated session (\<open>session.rs\<close>) with the byte estimate of
  \<open>volume_guard.rs\<close>: what \<open>send\<close> puts on the wire, what \<open>recv\<close> accepts, and the associated
  data that binds every cleartext field of a frame to its ciphertext. Programs that read and
  write a stream are functions from the unread input to the bytes written and a result. The
  lemmas show that \<open>recv\<close> accepts exactly the encodings of sealed records, that a stream of
  sent frames is received in order, and that the estimate is the exact length.
\<close>

section \<open>Stream programs\<close>

type_synonym ('e, 'a) io = "bytes \<Rightarrow> bytes \<times> ('e + 'a \<times> bytes)"

definition returnIO :: "'a \<Rightarrow> ('e, 'a) io" where
  "returnIO x = (\<lambda>inp. ([], Inr (x, inp)))"

definition bindIO :: "('e, 'a) io \<Rightarrow> ('a \<Rightarrow> ('e, 'b) io) \<Rightarrow> ('e, 'b) io" where
  "bindIO m f = (\<lambda>inp. case m inp of
      (out, Inl e) \<Rightarrow> (out, Inl e)
    | (out, Inr (x, rest)) \<Rightarrow> (out @ fst (f x rest), snd (f x rest)))"

definition liftIO :: "'e + 'a \<Rightarrow> ('e, 'a) io" where
  "liftIO r = (\<lambda>inp. ([], case r of Inl e \<Rightarrow> Inl e | Inr x \<Rightarrow> Inr (x, inp)))"

definition readIO :: "('d \<Rightarrow> 'e) \<Rightarrow> ('d, 'a) parser \<Rightarrow> ('e, 'a) io" where
  "readIO conv p = (\<lambda>inp. ([], case p inp of Inl e \<Rightarrow> Inl (conv e) | Inr y \<Rightarrow> Inr y))"

definition writeIO :: "('d \<Rightarrow> 'e) \<Rightarrow> bytes \<times> ('d + unit) \<Rightarrow> ('e, unit) io" where
  "writeIO conv w = (\<lambda>inp. (fst w, case snd w of Inl e \<Rightarrow> Inl (conv e) | Inr _ \<Rightarrow> Inr ((), inp)))"

named_theorems io_simps

lemma bindIO_eq_Inr [io_simps]:
  "bindIO m f inp = (out, Inr (y, r)) \<longleftrightarrow>
     (\<exists>out1 x r1 out2. m inp = (out1, Inr (x, r1)) \<and> f x r1 = (out2, Inr (y, r)) \<and> out = out1 @ out2)"
  by (auto simp: bindIO_def split: prod.splits sum.splits) (metis prod.collapse)

lemma returnIO_eq [io_simps]: "returnIO x inp = (out, Inr (y, r)) \<longleftrightarrow> out = [] \<and> y = x \<and> r = inp"
  by (auto simp: returnIO_def)

lemma liftIO_eq [io_simps]: "liftIO m inp = (out, Inr (y, r)) \<longleftrightarrow> out = [] \<and> m = Inr y \<and> r = inp"
  by (cases m) (auto simp: liftIO_def)

lemma readIO_eq [io_simps]: "readIO c p inp = (out, Inr (y, r)) \<longleftrightarrow> out = [] \<and> p inp = Inr (y, r)"
  by (auto simp: readIO_def split: sum.splits)

lemma writeIO_eq [io_simps]:
  "writeIO c w inp = (out, Inr (y, r)) \<longleftrightarrow> w = (out, Inr ()) \<and> r = inp"
  by (cases w) (auto simp: writeIO_def split: sum.splits)

lemma bindIO_run: "m inp = (out, Inr (x, r)) \<Longrightarrow> bindIO m f inp = (out @ fst (f x r), snd (f x r))"
  by (simp add: bindIO_def)

lemma io_run:
  "bindIO (liftIO (Inr x)) f inp = f x inp"
  "bindIO (liftIO (Inl e)) g inp = ([], Inl e)"
  "bindIO (returnIO x) f inp = f x inp"
  by (simp_all add: bindIO_def liftIO_def returnIO_def)

lemma io_read: "p inp = Inr (x, r) \<Longrightarrow> bindIO (readIO c p) f inp = f x r"
  by (simp add: bindIO_def readIO_def)

lemma io_write:
  "bindIO (writeIO c (write_all bs)) f inp = (bs @ fst (f () inp), snd (f () inp))"
  by (simp add: bindIO_def writeIO_def write_all_def)

section \<open>Byte estimates\<close>

function uvarint_len :: "u64 \<Rightarrow> nat" where
  "uvarint_len value = (if value \<ge> 0x80 then Suc (uvarint_len (drop_bit 7 value)) else 1)"
  by pat_completeness auto
termination
  by (relation "measure unat") (auto simp: unat_drop_bit_7 ge_0x80_unat)

declare uvarint_len.simps [simp del]

text \<open>The sums are over \<open>usize\<close> and the result is a \<open>u64\<close>.\<close>

definition estimate_frame_wire_bytes :: "nat \<Rightarrow> nat \<Rightarrow> u32 \<Rightarrow> u64" where
  "estimate_frame_wire_bytes payload_len padding_len stream =
     (let header_len = uvarint_len (ucast stream) + 1 + uvarint_len (word_of_nat payload_len)
      in word_of_nat (2 + header_len + payload_len + padding_len))"

lemma uvarint_len_eq: "uvarint_len v = length (write_uvarint v)"
proof (induction v rule: uvarint_len.induct)
  case (1 v)
  then show ?case
    by (subst uvarint_len.simps, subst write_uvarint.simps) simp
qed

section \<open>Frames of a session\<close>

datatype session_error =
    Wire wire_error
  | Crypto crypto_error
  | Auth auth_error
  | CarrierNotImplemented
  | PinMismatch bytes
  | MagicMismatch u32
  | UnsupportedVersion u8
  | FramingMismatch camouflage_mode camouflage_mode
  | FinishedLengthInvariant
  | ForbiddenFlags u8
  | CiphertextLengthOverflow
  | CiphertextTooLong nat
  | PaddingInvariant
  | CiphertextLengthInvariant
  | PinSetSize nat
  | DuplicatePin bytes

definition wireR :: "wire_error + 'a \<Rightarrow> session_error + 'a" where
  "wireR r = (case r of Inl e \<Rightarrow> Inl (Wire e) | Inr x \<Rightarrow> Inr x)"

definition cryptoR :: "crypto_error + 'a \<Rightarrow> session_error + 'a" where
  "cryptoR r = (case r of Inl e \<Rightarrow> Inl (Crypto e) | Inr x \<Rightarrow> Inr x)"

definition authSR :: "auth_error + 'a \<Rightarrow> session_error + 'a" where
  "authSR r = (case r of Inl e \<Rightarrow> Inl (Auth e) | Inr x \<Rightarrow> Inr x)"

lemma session_error_Inr [simp]:
  "wireR a = Inr x \<longleftrightarrow> a = Inr x" "cryptoR b = Inr y \<longleftrightarrow> b = Inr y" "authSR c = Inr z \<longleftrightarrow> c = Inr z"
  by (auto simp: wireR_def cryptoR_def authSR_def split: sum.splits)

lemma session_error_simps [simp]: "wireR (Inr x) = Inr x" "cryptoR (Inr y) = Inr y" "authSR (Inr z) = Inr z"
  "cryptoR (Inl e) = Inl (Crypto e)"
  by (simp_all add: wireR_def cryptoR_def authSR_def)

definition FRAME_AAD_DOMAIN :: bytes where
  "FRAME_AAD_DOMAIN = ascii_bytes ''shadowpipe-v3/application-frame'' @ [0]"

definition CHACHA20_POLY1305_TAG_LEN :: nat where "CHACHA20_POLY1305_TAG_LEN = 16"

definition frame_aad :: "u32 \<Rightarrow> u8 \<Rightarrow> nat \<Rightarrow> bytes \<Rightarrow> bytes" where
  "frame_aad stream flags ciphertext_len pad =
     FRAME_AAD_DOMAIN @ be32 stream @ [flags] @ be64 (word_of_nat ciphertext_len)
     @ be32 (word_of_nat (length pad)) @ pad"

record prepared_frame =
  pr_flags :: u8
  pr_padding :: bytes
  pr_wire_padding :: bytes
  pr_ciphertext_len :: nat

text \<open>
  The draws of \<open>random_padding\<close> are an argument: the length draw and the function that fills a
  buffer of the requested size.
\<close>

type_synonym padding_draws = "u32 \<times> (nat \<Rightarrow> bytes)"

definition fill_ok :: "padding_draws \<Rightarrow> bool" where
  "fill_ok d \<longleftrightarrow> (\<forall>n. length (snd d n) = n)"

definition prepare_outbound_frame ::
  "padding_draws \<Rightarrow> padding_profile \<Rightarrow> u8 \<Rightarrow> nat \<Rightarrow> session_error + prepared_frame" where
  "prepare_outbound_frame d profile flags plaintext_len =
     bindR (ensure (flags = FLAG_DATA \<or> flags = FLAG_FIN \<or> flags = FLAG_PING) (ForbiddenFlags flags)) (\<lambda>_.
     bindR (ensure (plaintext_len + CHACHA20_POLY1305_TAG_LEN < 2 ^ 64) CiphertextLengthOverflow) (\<lambda>_.
     let ciphertext_len = plaintext_len + CHACHA20_POLY1305_TAG_LEN in
     bindR (ensure (ciphertext_len \<le> MAX_FRAME_PAYLOAD) (CiphertextTooLong ciphertext_len)) (\<lambda>_.
     let pad = random_padding (fst d) (snd d) profile in
     bindR (ensure (length pad \<le> MAX_PADDING) PaddingInvariant) (\<lambda>_.
     Inr \<lparr> pr_flags = (if pad = [] then flags else flags OR FLAG_PADDING), pr_padding = pad,
           pr_wire_padding = (if pad = [] then [] else be16 (word_of_nat (length pad)) @ pad),
           pr_ciphertext_len = ciphertext_len \<rparr>))))"

record session_tx =
  stx_aead :: aead_tx
  stx_padding_profile :: padding_profile

record session_rx =
  srx_aead :: aead_rx

record auth_session =
  se_aead :: aead_session
  se_padding_profile :: padding_profile
  se_client_key_id :: bytes

definition session_split :: "auth_session \<Rightarrow> session_tx \<times> session_rx" where
  "session_split s =
     (let (tx, rx) = aead_session_split (se_aead s) in
      (\<lparr> stx_aead = tx, stx_padding_profile = se_padding_profile s \<rparr>, \<lparr> srx_aead = rx \<rparr>))"

definition tx_send ::
  "('k, 'z) session_crypto_scheme \<Rightarrow> padding_draws \<Rightarrow> session_tx \<Rightarrow> u32 \<Rightarrow> u8 \<Rightarrow> bytes
    \<Rightarrow> session_tx \<times> bytes \<times> (session_error + u64)" where
  "tx_send C d t stream flags payload =
     (case prepare_outbound_frame d (stx_padding_profile t) flags (length payload) of
        Inl e \<Rightarrow> (t, [], Inl e)
      | Inr p \<Rightarrow>
          (case aead_tx_encrypt C (stx_aead t) payload
                  (frame_aad stream (pr_flags p) (pr_ciphertext_len p) (pr_padding p)) of
             (a, Inl e) \<Rightarrow> (t \<lparr> stx_aead := a \<rparr>, [], Inl (Crypto e))
           | (a, Inr encrypted) \<Rightarrow>
               if length encrypted \<noteq> pr_ciphertext_len p
               then (t \<lparr> stx_aead := a \<rparr>, [], Inl CiphertextLengthInvariant)
               else let wire = estimate_frame_wire_bytes (length encrypted) (length (pr_wire_padding p)) stream in
                 (case write_frame \<lparr> fr_stream_id = stream, fr_flags = pr_flags p, fr_payload = encrypted,
                         fr_padding = pr_wire_padding p \<rparr> of
                    (out, Inl e) \<Rightarrow> (t \<lparr> stx_aead := a \<rparr>, out, Inl (Wire e))
                  | (out, Inr _) \<Rightarrow> (t \<lparr> stx_aead := a \<rparr>, out, Inr wire))))"

definition rx_recv ::
  "('k, 'z) session_crypto_scheme \<Rightarrow> session_rx \<Rightarrow> bytes
    \<Rightarrow> session_rx \<times> (session_error + (u32 \<times> u8 \<times> bytes \<times> u64) \<times> bytes)" where
  "rx_recv C r inp =
     (case read_frame inp of
        Inl e \<Rightarrow> (r, Inl (Wire e))
      | Inr (frame, rest) \<Rightarrow>
          let pad_wire = (if flags_contains (fr_flags frame) FLAG_PADDING then 2 + length (fr_padding frame) else 0);
              wire = estimate_frame_wire_bytes (length (fr_payload frame)) pad_wire (fr_stream_id frame)
          in case aead_rx_decrypt C (srx_aead r) (fr_payload frame)
                 (frame_aad (fr_stream_id frame) (fr_flags frame) (length (fr_payload frame)) (fr_padding frame)) of
               (a, Inl e) \<Rightarrow> (r \<lparr> srx_aead := a \<rparr>, Inl (Crypto e))
             | (a, Inr plaintext) \<Rightarrow>
                 (r \<lparr> srx_aead := a \<rparr>, Inr ((fr_stream_id frame, fr_flags frame, plaintext, wire), rest)))"

text \<open>The unsplit session sends and receives with the same bodies on its own AEAD state.\<close>

definition session_send ::
  "('k, 'z) session_crypto_scheme \<Rightarrow> padding_draws \<Rightarrow> auth_session \<Rightarrow> u32 \<Rightarrow> u8 \<Rightarrow> bytes
    \<Rightarrow> auth_session \<times> bytes \<times> (session_error + u64)" where
  "session_send C d s stream flags payload =
     (case prepare_outbound_frame d (se_padding_profile s) flags (length payload) of
        Inl e \<Rightarrow> (s, [], Inl e)
      | Inr p \<Rightarrow>
          (case aead_session_encrypt C (se_aead s) payload
                  (frame_aad stream (pr_flags p) (pr_ciphertext_len p) (pr_padding p)) of
             (a, Inl e) \<Rightarrow> (s \<lparr> se_aead := a \<rparr>, [], Inl (Crypto e))
           | (a, Inr encrypted) \<Rightarrow>
               if length encrypted \<noteq> pr_ciphertext_len p
               then (s \<lparr> se_aead := a \<rparr>, [], Inl CiphertextLengthInvariant)
               else let wire = estimate_frame_wire_bytes (length encrypted) (length (pr_wire_padding p)) stream in
                 (case write_frame \<lparr> fr_stream_id = stream, fr_flags = pr_flags p, fr_payload = encrypted,
                         fr_padding = pr_wire_padding p \<rparr> of
                    (out, Inl e) \<Rightarrow> (s \<lparr> se_aead := a \<rparr>, out, Inl (Wire e))
                  | (out, Inr _) \<Rightarrow> (s \<lparr> se_aead := a \<rparr>, out, Inr wire))))"

definition session_recv ::
  "('k, 'z) session_crypto_scheme \<Rightarrow> auth_session \<Rightarrow> bytes
    \<Rightarrow> auth_session \<times> (session_error + (u32 \<times> u8 \<times> bytes \<times> u64) \<times> bytes)" where
  "session_recv C s inp =
     (case read_frame inp of
        Inl e \<Rightarrow> (s, Inl (Wire e))
      | Inr (frame, rest) \<Rightarrow>
          let pad_wire = (if flags_contains (fr_flags frame) FLAG_PADDING then 2 + length (fr_padding frame) else 0);
              wire = estimate_frame_wire_bytes (length (fr_payload frame)) pad_wire (fr_stream_id frame)
          in case aead_session_decrypt C (se_aead s) (fr_payload frame)
                 (frame_aad (fr_stream_id frame) (fr_flags frame) (length (fr_payload frame)) (fr_padding frame)) of
               (a, Inl e) \<Rightarrow> (s \<lparr> se_aead := a \<rparr>, Inl (Crypto e))
             | (a, Inr plaintext) \<Rightarrow>
                 (s \<lparr> se_aead := a \<rparr>, Inr ((fr_stream_id frame, fr_flags frame, plaintext, wire), rest)))"

section \<open>A split session behaves like the session\<close>

lemma split_session_send:
  "tx_send C d (fst (session_split s)) stream flags payload
     = (case session_send C d s stream flags payload of (s', out, r) \<Rightarrow> (fst (session_split s'), out, r))"
  using split_encrypt [of C "se_aead s"]
  by (auto simp: tx_send_def session_send_def session_split_def Let_def split_beta map_prod_def
      split: sum.splits prod.splits)

lemma split_session_recv:
  "rx_recv C (snd (session_split s)) inp
     = (case session_recv C s inp of (s', r) \<Rightarrow> (snd (session_split s'), r))"
  using split_decrypt [of C "se_aead s"]
  by (auto simp: rx_recv_def session_recv_def session_split_def Let_def split_beta map_prod_def
      split: sum.splits prod.splits)

section \<open>Associated data and estimates\<close>

lemma frame_aad_inj:
  assumes "frame_aad s f n p = frame_aad s' f' n' p'" "n \<le> MAX_FRAME_PAYLOAD" "n' \<le> MAX_FRAME_PAYLOAD"
  shows "s = s' \<and> f = f' \<and> n = n' \<and> p = p'"
proof -
  from assms(1) have "s = s'" "f = f'" "(word_of_nat n :: u64) = word_of_nat n'" "p = p'"
    by (auto simp: frame_aad_def)
  moreover from this(3) have "unat (word_of_nat n :: u64) = unat (word_of_nat n' :: u64)"
    by simp
  then have "n = n'"
    using assms(2,3) by (simp add: unat_of_nat MAX_FRAME_PAYLOAD_def)
  ultimately show ?thesis
    by simp
qed

lemma estimate_exact:
  assumes "length (fr_payload f) \<le> MAX_FRAME_PAYLOAD" "length (fr_padding f) \<le> MAX_PADDING"
  shows "unat (estimate_frame_wire_bytes (length (fr_payload f)) (length (wire_padding (fr_padding f)))
    (fr_stream_id f)) = length (frame_wire f)"
proof -
  have "length (frame_header f) \<le> 9"
    using frame_header_bound [OF assms(1)] by (simp add: MAX_FRAME_HEADER_def)
  moreover have "length (wire_padding (fr_padding f)) \<le> 514"
    using assms(2) by (simp add: wire_padding_length MAX_PADDING_def)
  ultimately have "length (frame_wire f) < 2 ^ 64"
    using assms(1) by (simp add: frame_wire_def MAX_FRAME_PAYLOAD_def)
  moreover have "estimate_frame_wire_bytes (length (fr_payload f)) (length (wire_padding (fr_padding f)))
      (fr_stream_id f) = word_of_nat (length (frame_wire f))"
    by (simp add: estimate_frame_wire_bytes_def Let_def uvarint_len_eq frame_wire_def frame_header_def)
  ultimately show ?thesis
    by (simp add: unat_of_nat)
qed

section \<open>Sending\<close>

text \<open>An outbound message: stream, kind, payload and the padding draws of its frame.\<close>

type_synonym outbound = "u32 \<times> u8 \<times> bytes \<times> padding_draws"

definition outbound_ok :: "outbound \<Rightarrow> bool" where
  "outbound_ok m \<longleftrightarrow> (case m of (stream, flags, payload, d) \<Rightarrow>
     flags \<in> {FLAG_DATA, FLAG_FIN, FLAG_PING} \<and> length payload + 16 \<le> MAX_FRAME_PAYLOAD \<and> fill_ok d)"

definition sent_padding :: "padding_profile \<Rightarrow> outbound \<Rightarrow> bytes" where
  "sent_padding profile m = (case m of (_, _, _, d) \<Rightarrow> random_padding (fst d) (snd d) profile)"

definition sent_flags :: "padding_profile \<Rightarrow> outbound \<Rightarrow> u8" where
  "sent_flags profile m = (case m of (_, flags, _, _) \<Rightarrow>
     if sent_padding profile m = [] then flags else flags OR FLAG_PADDING)"

definition sent_aad :: "padding_profile \<Rightarrow> outbound \<Rightarrow> bytes" where
  "sent_aad profile m = (case m of (stream, _, payload, _) \<Rightarrow>
     frame_aad stream (sent_flags profile m) (length payload + 16) (sent_padding profile m))"

definition sent_frame :: "padding_profile \<Rightarrow> outbound \<Rightarrow> bytes \<Rightarrow> frame" where
  "sent_frame profile m c = (case m of (stream, _, _, _) \<Rightarrow>
     \<lparr> fr_stream_id = stream, fr_flags = sent_flags profile m, fr_payload = c,
       fr_padding = sent_padding profile m \<rparr>)"

lemma sent_padding_bound: "outbound_ok m \<Longrightarrow> length (sent_padding profile m) \<le> MAX_PADDING"
  using random_padding_bound(2) by (auto simp: outbound_ok_def sent_padding_def fill_ok_def)

lemma sent_frame_ok:
  assumes "outbound_ok m" "length c = length (fst (snd (snd m))) + 16"
  shows "frame_ok (sent_frame profile m c)"
proof -
  obtain stream flags payload d where m: "m = (stream, flags, payload, d)"
    by (cases m)
  have fl: "flags = 1 \<or> flags = 2 \<or> flags = 4"
    using assms(1) by (auto simp: m outbound_ok_def flag_defs)
  let ?f = "sent_flags profile m"
  have "?f AND NOT known_flags = 0" "flags_contains ?f FLAG_PADDING \<longleftrightarrow> sent_padding profile m \<noteq> []"
    using fl by (auto simp: m sent_flags_def flag_defs)
  then show ?thesis
    using assms sent_padding_bound [OF assms(1), of profile]
    by (auto simp: frame_ok_def sent_frame_def m outbound_ok_def)
qed

lemma tx_send_ok:
  assumes "aead_ok C" "outbound_ok m" "m = (stream, flags, payload, d)"
    and "\<not> tx_failed (stx_aead t)" "unat (tx_nonce (stx_aead t)) + 1 < 2 ^ 64"
  obtains c wire where
    "aead_seal C (tx_cipher (stx_aead t)) (nonce_from_counter (tx_nonce (stx_aead t)))
       (sent_aad (stx_padding_profile t) m) payload = Some c"
    "tx_send C d t stream flags payload
       = (t \<lparr> stx_aead := stx_aead t \<lparr> tx_nonce := tx_nonce (stx_aead t) + 1 \<rparr> \<rparr>,
          frame_wire (sent_frame (stx_padding_profile t) m c), Inr wire)"
    "unat wire = length (frame_wire (sent_frame (stx_padding_profile t) m c))"
    "length c = length payload + 16"
proof -
  let ?pad = "sent_padding (stx_padding_profile t) m" and ?fl = "sent_flags (stx_padding_profile t) m"
  have len: "length payload + 16 \<le> MAX_FRAME_PAYLOAD"
    using assms(2,3) by (simp add: outbound_ok_def)
  have prep: "prepare_outbound_frame d (stx_padding_profile t) flags (length payload)
      = Inr \<lparr> pr_flags = ?fl, pr_padding = ?pad, pr_wire_padding = wire_padding ?pad,
          pr_ciphertext_len = length payload + 16 \<rparr>"
    using assms(2,3) sent_padding_bound [OF assms(2), of "stx_padding_profile t"]
    by (auto simp: prepare_outbound_frame_def outbound_ok_def CHACHA20_POLY1305_TAG_LEN_def MAX_FRAME_PAYLOAD_def
        sent_padding_def sent_flags_def wire_padding_def Let_def)
  have "length payload \<le> 65536"
    using len by (simp add: MAX_FRAME_PAYLOAD_def)
  then obtain c where c: "aead_seal C (tx_cipher (stx_aead t)) (nonce_from_counter (tx_nonce (stx_aead t)))
       (sent_aad (stx_padding_profile t) m) payload = Some c"
    using assms(1) unfolding aead_ok_def by (meson not_None_eq)
  then have lc: "length c = length payload + 16"
    using assms(1) unfolding aead_ok_def by blast
  let ?frame = "sent_frame (stx_padding_profile t) m c"
  have enc: "aead_tx_encrypt C (stx_aead t) payload
      (frame_aad stream ?fl (length payload + 16) ?pad) =
      (stx_aead t \<lparr> tx_nonce := tx_nonce (stx_aead t) + 1 \<rparr>, Inr c)"
    using assms(3-5) c by (simp add: tx_encrypt_iff sent_aad_def)
  have wf: "write_frame \<lparr> fr_stream_id = stream, fr_flags = ?fl, fr_payload = c, fr_padding = wire_padding ?pad \<rparr>
      = write_all (frame_wire ?frame)"
    using write_frame_ok [of ?frame] len lc by (simp add: sent_frame_def assms(3))
  show thesis
  proof (rule that [OF c _ _ lc])
    show "tx_send C d t stream flags payload
       = (t \<lparr> stx_aead := stx_aead t \<lparr> tx_nonce := tx_nonce (stx_aead t) + 1 \<rparr> \<rparr>, frame_wire ?frame,
          Inr (estimate_frame_wire_bytes (length c) (length (wire_padding ?pad)) stream))"
      by (simp add: tx_send_def prep enc lc wf Let_def write_all_def)
    show "unat (estimate_frame_wire_bytes (length c) (length (wire_padding ?pad)) stream) = length (frame_wire ?frame)"
      using estimate_exact [of ?frame] len lc sent_padding_bound [OF assms(2), of "stx_padding_profile t"]
      by (simp add: sent_frame_def assms(3))
  qed
qed

section \<open>Receiving\<close>

lemma rx_recv_iff:
  "rx_recv C r inp = (r', Inr ((stream, flags, plaintext, wire), rest)) \<longleftrightarrow>
     (\<exists>c pad. let f = \<lparr> fr_stream_id = stream, fr_flags = flags, fr_payload = c, fr_padding = pad \<rparr> in
        frame_ok f \<and> inp = frame_wire f @ rest \<and> unat wire = length (frame_wire f)
        \<and> \<not> rx_failed (srx_aead r) \<and> unat (rx_nonce (srx_aead r)) + 1 < 2 ^ 64
        \<and> r' = r \<lparr> srx_aead := srx_aead r \<lparr> rx_nonce := rx_nonce (srx_aead r) + 1 \<rparr> \<rparr>
        \<and> aead_open C (rx_cipher (srx_aead r)) (nonce_from_counter (rx_nonce (srx_aead r)))
            (frame_aad stream flags (length c) pad) c = Some plaintext)"
proof -
  have est: "estimate_frame_wire_bytes (length (fr_payload f))
      (if flags_contains (fr_flags f) FLAG_PADDING then 2 + length (fr_padding f) else 0) (fr_stream_id f) = w
      \<longleftrightarrow> unat w = length (frame_wire f)" if "frame_ok f" for f w
  proof -
    have "(if flags_contains (fr_flags f) FLAG_PADDING then 2 + length (fr_padding f) else 0)
        = length (wire_padding (fr_padding f))"
      using that by (auto simp: frame_ok_def wire_padding_length)
    with estimate_exact [of f] that show ?thesis
      by (auto simp: frame_ok_def word_unat_eq_iff split: if_splits)
  qed
  show ?thesis
  proof (cases "read_frame inp")
    case (Inl e)
    then have "\<nexists>f r. frame_ok f \<and> inp = frame_wire f @ r"
      by (metis Inr_Inl_False read_frame_iff)
    with Inl show ?thesis
      by (auto simp: rx_recv_def Let_def)
  next
    case (Inr v)
    then obtain f0 rest0 where v: "read_frame inp = Inr (f0, rest0)"
      by (cases v) auto
    then have ok: "frame_ok f0" and inp: "inp = frame_wire f0 @ rest0"
      by (simp_all add: read_frame_iff)
    have uniq: "frame_ok f \<and> inp = frame_wire f @ rest \<longleftrightarrow> f = f0 \<and> rest = rest0" for f
      using v read_frame_iff [of inp f rest] read_frame_iff [of inp f0 rest0] by auto
    have "rx_recv C r inp = (r', Inr ((stream, flags, plaintext, wire), rest)) \<longleftrightarrow>
        fr_stream_id f0 = stream \<and> fr_flags f0 = flags \<and> rest = rest0 \<and> unat wire = length (frame_wire f0)
        \<and> (\<exists>a. aead_rx_decrypt C (srx_aead r) (fr_payload f0)
              (frame_aad (fr_stream_id f0) (fr_flags f0) (length (fr_payload f0)) (fr_padding f0)) = (a, Inr plaintext)
            \<and> r' = r \<lparr> srx_aead := a \<rparr>)"
      using est [OF ok, of wire] by (auto simp: rx_recv_def v Let_def split: sum.splits prod.splits)
    also have "\<dots> \<longleftrightarrow> (\<exists>f. (f = f0 \<and> rest = rest0) \<and> fr_stream_id f = stream \<and> fr_flags f = flags
        \<and> unat wire = length (frame_wire f) \<and> \<not> rx_failed (srx_aead r) \<and> unat (rx_nonce (srx_aead r)) + 1 < 2 ^ 64
        \<and> r' = r \<lparr> srx_aead := srx_aead r \<lparr> rx_nonce := rx_nonce (srx_aead r) + 1 \<rparr> \<rparr>
        \<and> aead_open C (rx_cipher (srx_aead r)) (nonce_from_counter (rx_nonce (srx_aead r)))
            (frame_aad (fr_stream_id f) (fr_flags f) (length (fr_payload f)) (fr_padding f)) (fr_payload f)
          = Some plaintext)"
      by (auto simp: rx_decrypt_iff)
    also have "\<dots> \<longleftrightarrow> (\<exists>c pad. let f = \<lparr> fr_stream_id = stream, fr_flags = flags, fr_payload = c, fr_padding = pad \<rparr> in
        (f = f0 \<and> rest = rest0)
        \<and> unat wire = length (frame_wire f) \<and> \<not> rx_failed (srx_aead r) \<and> unat (rx_nonce (srx_aead r)) + 1 < 2 ^ 64
        \<and> r' = r \<lparr> srx_aead := srx_aead r \<lparr> rx_nonce := rx_nonce (srx_aead r) + 1 \<rparr> \<rparr>
        \<and> aead_open C (rx_cipher (srx_aead r)) (nonce_from_counter (rx_nonce (srx_aead r)))
            (frame_aad stream flags (length c) pad) c = Some plaintext)"
      by (cases f0) (auto simp: Let_def)
    finally show ?thesis
      unfolding Let_def uniq [symmetric] conj_assoc .
  qed
qed

section \<open>Streams of records\<close>

fun send_seq :: "('k, 'z) session_crypto_scheme \<Rightarrow> session_tx \<Rightarrow> outbound list \<Rightarrow> session_tx \<times> bytes" where
  "send_seq C t [] = (t, [])"
| "send_seq C t ((stream, flags, payload, d) # ms) =
     (case tx_send C d t stream flags payload of (t', out, _) \<Rightarrow>
        (fst (send_seq C t' ms), out @ snd (send_seq C t' ms)))"

fun recv_seq :: "('k, 'z) session_crypto_scheme \<Rightarrow> nat \<Rightarrow> session_rx \<Rightarrow> bytes \<Rightarrow> (u32 \<times> u8 \<times> bytes) list" where
  "recv_seq C 0 r inp = []"
| "recv_seq C (Suc n) r inp =
     (case rx_recv C r inp of
        (r', Inr ((stream, flags, plaintext, _), rest)) \<Rightarrow> (stream, flags, plaintext) # recv_seq C n r' rest
      | (_, Inl _) \<Rightarrow> [])"

text \<open>
  \<open>recv_calls\<close>: successive calls of \<open>recv\<close>, each on whatever bytes the network presents then,
  going on after errors.
\<close>

fun recv_calls :: "('k, 'z) session_crypto_scheme \<Rightarrow> session_rx \<Rightarrow> bytes list \<Rightarrow> (u32 \<times> u8 \<times> bytes) list" where
  "recv_calls C r [] = []"
| "recv_calls C r (inp # inps) =
     (case rx_recv C r inp of
        (r', Inr ((stream, flags, plaintext, _), _)) \<Rightarrow> (stream, flags, plaintext) # recv_calls C r' inps
      | (r', Inl _) \<Rightarrow> recv_calls C r' inps)"

definition delivered :: "padding_profile \<Rightarrow> outbound \<Rightarrow> u32 \<times> u8 \<times> bytes" where
  "delivered profile m = (case m of (stream, _, payload, _) \<Rightarrow> (stream, sent_flags profile m, payload))"

lemma stream_delivered:
  assumes "aead_ok C" "list_all outbound_ok ms"
    and "\<not> tx_failed (stx_aead t)" "\<not> rx_failed (srx_aead r)" "rx_cipher (srx_aead r) = tx_cipher (stx_aead t)"
    and "rx_nonce (srx_aead r) = tx_nonce (stx_aead t)" "unat (tx_nonce (stx_aead t)) + length ms < 2 ^ 64"
  shows "recv_seq C (length ms) r (snd (send_seq C t ms) @ rest) = map (delivered (stx_padding_profile t)) ms"
  using assms(2-)
proof (induction ms arbitrary: t r)
  case (Cons m ms)
  obtain stream flags payload d where m: "m = (stream, flags, payload, d)"
    by (cases m)
  have ok: "outbound_ok m" and n: "unat (tx_nonce (stx_aead t)) + 1 < 2 ^ 64"
    using Cons.prems by auto
  obtain c wire where c: "aead_seal C (tx_cipher (stx_aead t)) (nonce_from_counter (tx_nonce (stx_aead t)))
       (sent_aad (stx_padding_profile t) m) payload = Some c"
    and send: "tx_send C d t stream flags payload
       = (t \<lparr> stx_aead := stx_aead t \<lparr> tx_nonce := tx_nonce (stx_aead t) + 1 \<rparr> \<rparr>,
          frame_wire (sent_frame (stx_padding_profile t) m c), Inr wire)"
    and wire: "unat wire = length (frame_wire (sent_frame (stx_padding_profile t) m c))"
    and lc: "length c = length payload + 16"
    using tx_send_ok [OF assms(1) ok m Cons.prems(2) n] by blast
  let ?t = "t \<lparr> stx_aead := stx_aead t \<lparr> tx_nonce := tx_nonce (stx_aead t) + 1 \<rparr> \<rparr>"
  let ?r = "r \<lparr> srx_aead := srx_aead r \<lparr> rx_nonce := rx_nonce (srx_aead r) + 1 \<rparr> \<rparr>"
  let ?f = "sent_frame (stx_padding_profile t) m c"
  have opn: "aead_open C (tx_cipher (stx_aead t)) (nonce_from_counter (tx_nonce (stx_aead t)))
      (sent_aad (stx_padding_profile t) m) c = Some payload"
    using c assms(1) by (simp add: aead_ok_def)
  have "rx_recv C r (frame_wire ?f @ rest') = (?r, Inr ((stream, sent_flags (stx_padding_profile t) m, payload, wire), rest'))"
    for rest'
    unfolding rx_recv_iff Let_def
    using sent_frame_ok [OF ok, of c "stx_padding_profile t"] Cons.prems n wire opn lc
    by (intro exI [of _ c] exI [of _ "sent_padding (stx_padding_profile t) m"])
      (simp add: m sent_frame_def sent_aad_def)
  moreover have "recv_seq C (length ms) ?r (snd (send_seq C ?t ms) @ rest) = map (delivered (stx_padding_profile ?t)) ms"
    using Cons.prems n by (intro Cons.IH) (auto simp: unat_word_ariths)
  ultimately show ?case
    by (simp add: m send delivered_def)
qed simp

text \<open>
  \<open>sealed_by_sender C t ms n aad c\<close>: in the run in which the sender \<open>t\<close> sends \<open>ms\<close>, the
  encryption of one of them was made with counter \<open>n\<close> and additional data \<open>aad\<close> and gave \<open>c\<close>.
  \<open>unforged C t ms inps\<close> is ciphertext integrity for that run: every frame presented to the
  receiver that opens under the sender's key, at any counter, is one the sender sealed, with that
  counter and that additional data. It speaks of the presented bytes only, so an AEAD that opens
  whatever was sealed meets it for every input that contains no forgery.
\<close>

definition sealed_by_sender ::
  "('k, 'z) session_crypto_scheme \<Rightarrow> session_tx \<Rightarrow> outbound list \<Rightarrow> u64 \<Rightarrow> bytes \<Rightarrow> bytes \<Rightarrow> bool" where
  "sealed_by_sender C t ms n aad c \<longleftrightarrow> (\<exists>i < length ms.
     let s = fst (send_seq C t (take i ms)) in
       n = tx_nonce (stx_aead s) \<and> aad = sent_aad (stx_padding_profile s) (ms ! i)
       \<and> snd (aead_tx_encrypt C (stx_aead s) (fst (snd (snd (ms ! i)))) aad) = Inr c)"

definition unforged ::
  "('k, 'z) session_crypto_scheme \<Rightarrow> session_tx \<Rightarrow> outbound list \<Rightarrow> bytes list \<Rightarrow> bool" where
  "unforged C t ms inps \<longleftrightarrow> (\<forall>inp \<in> set inps. \<forall>f rest n. read_frame inp = Inr (f, rest) \<longrightarrow>
     (let aad = frame_aad (fr_stream_id f) (fr_flags f) (length (fr_payload f)) (fr_padding f) in
        aead_open C (tx_cipher (stx_aead t)) (nonce_from_counter n) aad (fr_payload f) \<noteq> None \<longrightarrow>
        sealed_by_sender C t ms n aad (fr_payload f)))"

lemma unforgedD:
  assumes "unforged C t ms inps" "inp \<in> set inps" "read_frame inp = Inr (f, rest)"
    and "aead_open C (tx_cipher (stx_aead t)) (nonce_from_counter n)
      (frame_aad (fr_stream_id f) (fr_flags f) (length (fr_payload f)) (fr_padding f)) (fr_payload f) = Some p"
  shows "sealed_by_sender C t ms n
    (frame_aad (fr_stream_id f) (fr_flags f) (length (fr_payload f)) (fr_padding f)) (fr_payload f)"
  using assms unfolding unforged_def Let_def by blast

lemma send_seq_state:
  assumes "aead_ok C" "list_all outbound_ok ms"
    and "\<not> tx_failed (stx_aead t)" "unat (tx_nonce (stx_aead t)) + length ms < 2 ^ 64"
  shows "fst (send_seq C t ms)
    = t \<lparr> stx_aead := stx_aead t \<lparr> tx_nonce := tx_nonce (stx_aead t) + word_of_nat (length ms) \<rparr> \<rparr>"
  using assms(2-)
proof (induction ms arbitrary: t)
  case (Cons m ms)
  obtain stream flags payload d where m: "m = (stream, flags, payload, d)"
    by (cases m)
  have ok: "outbound_ok m" and n: "unat (tx_nonce (stx_aead t)) + 1 < 2 ^ 64"
    using Cons.prems by auto
  obtain out w where "tx_send C d t stream flags payload
      = (t \<lparr> stx_aead := stx_aead t \<lparr> tx_nonce := tx_nonce (stx_aead t) + 1 \<rparr> \<rparr>, out, w)"
    using tx_send_ok [OF assms(1) ok m Cons.prems(2) n] by blast
  moreover have "unat (tx_nonce (stx_aead t) + 1) = unat (tx_nonce (stx_aead t)) + 1"
    using n by (simp add: unat_word_ariths)
  ultimately show ?case
    using Cons by (simp add: m ac_simps)
qed simp

lemma list_all_take: "list_all P xs \<Longrightarrow> list_all P (take n xs)"
  by (auto simp: list_all_iff dest: in_set_takeD)

lemma sealed_by_senderD:
  assumes "aead_ok C" "list_all outbound_ok ms" "\<not> tx_failed (stx_aead t)"
    and "unat (tx_nonce (stx_aead t)) + length ms < 2 ^ 64" "sealed_by_sender C t ms n aad c"
  obtains i where "i < length ms" and "n = tx_nonce (stx_aead t) + word_of_nat i"
    and "aad = sent_aad (stx_padding_profile t) (ms ! i)"
    and "aead_open C (tx_cipher (stx_aead t)) (nonce_from_counter n) aad c = Some (fst (snd (snd (ms ! i))))"
proof -
  from assms(5) obtain i s where i: "i < length ms" and s: "s = fst (send_seq C t (take i ms))"
    and n: "n = tx_nonce (stx_aead s)" "aad = sent_aad (stx_padding_profile s) (ms ! i)"
    and c: "snd (aead_tx_encrypt C (stx_aead s) (fst (snd (snd (ms ! i)))) aad) = Inr c"
    unfolding sealed_by_sender_def Let_def by blast
  have st: "s = t \<lparr> stx_aead := stx_aead t \<lparr> tx_nonce := tx_nonce (stx_aead t) + word_of_nat i \<rparr> \<rparr>"
    using send_seq_state [of C "take i ms" t] assms(1-4) i s list_all_take [of outbound_ok ms i] by simp
  from c obtain s' where "aead_tx_encrypt C (stx_aead s) (fst (snd (snd (ms ! i)))) aad = (s', Inr c)"
    by (metis prod.collapse)
  then have "aead_seal C (tx_cipher (stx_aead t)) (nonce_from_counter n) aad (fst (snd (snd (ms ! i)))) = Some c"
    by (simp add: tx_encrypt_iff n st)
  with assms(1) i n st show thesis
    by (intro that [of i]) (simp_all add: aead_ok_def)
qed

lemma recv_poisoned: "rx_failed (srx_aead r) \<Longrightarrow> recv_calls C r inps = []"
proof (induction inps)
  case (Cons inp inps)
  then have "\<exists>e. rx_recv C r inp = (r, Inl e)"
    by (auto simp: rx_recv_def aead_rx_decrypt_def Let_def split: sum.splits)
  with Cons show ?case
    by auto
qed simp

lemma recv_error:
  "rx_recv C r inp = (r', Inl e) \<Longrightarrow> r' = r \<or> rx_failed (srx_aead r')"
  by (auto simp: rx_recv_def Let_def dest: rx_decrypt_error split: sum.splits prod.splits)

lemma recv_calls_in_order:
  assumes "aead_ok C" "list_all outbound_ok ms" "\<not> tx_failed (stx_aead t)"
    and "unat (tx_nonce (stx_aead t)) + length ms < 2 ^ 64"
    and "rx_cipher (srx_aead r) = tx_cipher (stx_aead t)"
    and "rx_nonce (srx_aead r) = tx_nonce (stx_aead t) + word_of_nat j" "j \<le> length ms" "unforged C t ms inps"
  shows "\<exists>k. recv_calls C r inps = take k (drop j (map (delivered (stx_padding_profile t)) ms))"
  using assms(5-)
proof (induction inps arbitrary: r j)
  case Nil
  show ?case
    by (intro exI [of _ 0]) simp
next
  case (Cons inp inps)
  obtain r' res where rr: "rx_recv C r inp = (r', res)"
    by fastforce
  show ?case
  proof (cases res)
    case (Inl e)
    with rr recv_error have "r' = r \<or> rx_failed (srx_aead r')"
      by blast
    then show ?thesis
    proof
      assume "r' = r"
      with Cons rr Inl show ?thesis
        by (simp add: unforged_def)
    next
      assume "rx_failed (srx_aead r')"
      with rr Inl show ?thesis
        by (intro exI [of _ 0]) (simp add: recv_poisoned)
    qed
  next
    case (Inr v)
    then obtain stream flags p wire rest where res: "res = Inr ((stream, flags, p, wire), rest)"
      by (cases v) auto
    from rr [unfolded res rx_recv_iff Let_def] obtain c pad where
      fok: "frame_ok \<lparr> fr_stream_id = stream, fr_flags = flags, fr_payload = c, fr_padding = pad \<rparr>"
      and inp: "inp = frame_wire \<lparr> fr_stream_id = stream, fr_flags = flags, fr_payload = c, fr_padding = pad \<rparr> @ rest"
      and r': "r' = r \<lparr> srx_aead := srx_aead r \<lparr> rx_nonce := rx_nonce (srx_aead r) + 1 \<rparr> \<rparr>"
      and op: "aead_open C (tx_cipher (stx_aead t)) (nonce_from_counter (tx_nonce (stx_aead t) + word_of_nat j))
        (frame_aad stream flags (length c) pad) c = Some p"
      using Cons.prems by auto
    have "read_frame inp = Inr (\<lparr> fr_stream_id = stream, fr_flags = flags, fr_payload = c, fr_padding = pad \<rparr>, rest)"
      using fok inp by (simp add: read_frame_iff)
    then have "sealed_by_sender C t ms (tx_nonce (stx_aead t) + word_of_nat j) (frame_aad stream flags (length c) pad) c"
      using unforgedD [OF Cons.prems(4), of inp _ rest "tx_nonce (stx_aead t) + word_of_nat j" p] op by simp
    from sealed_by_senderD [OF assms(1-4) this] op obtain i where i: "i < length ms"
      "tx_nonce (stx_aead t) + word_of_nat j = tx_nonce (stx_aead t) + (word_of_nat i :: u64)"
      "frame_aad stream flags (length c) pad = sent_aad (stx_padding_profile t) (ms ! i)"
      "p = fst (snd (snd (ms ! i)))"
      by (metis option.inject)
    from i(2) have "(word_of_nat j :: u64) = word_of_nat i"
      by simp
    then have "unat (word_of_nat j :: u64) = unat (word_of_nat i :: u64)"
      by simp
    then have ij: "i = j"
      using i(1) Cons.prems(3) assms(4) by (simp add: unat_of_nat)
    obtain st fl pl d where m: "ms ! j = (st, fl, pl, d)"
      by (cases "ms ! j")
    have mok: "outbound_ok (ms ! j)"
      using assms(2) i(1) ij by (simp add: list_all_length)
    have "stream = st \<and> flags = sent_flags (stx_padding_profile t) (ms ! j)"
      using i(3) ij fok mok frame_aad_inj [of stream flags "length c" pad]
      by (auto simp: m sent_aad_def frame_ok_def outbound_ok_def)
    then have here: "(stream, flags, p) = delivered (stx_padding_profile t) (ms ! j)"
      using i(4) ij by (simp add: delivered_def m)
    obtain k where "recv_calls C r' inps = take k (drop (Suc j) (map (delivered (stx_padding_profile t)) ms))"
      using Cons.IH [of r' "Suc j"] Cons.prems i(1) ij by (auto simp: r' algebra_simps unforged_def)
    moreover have "drop j (map (delivered (stx_padding_profile t)) ms)
        = delivered (stx_padding_profile t) (ms ! j) # drop (Suc j) (map (delivered (stx_padding_profile t)) ms)"
      using i(1) ij by (simp add: Cons_nth_drop_Suc [symmetric])
    ultimately show ?thesis
      using rr res here by (intro exI [of _ "Suc k"]) simp
  qed
qed

end
