(* ===== verification/Session_Handshake.thy ===== *)
theory Session_Handshake
  imports Session_Frames
begin

text \<open>
  The v3 handshake of \<open>session.rs\<close>: pin sets, the canonical transcript, and both roles from the
  first byte to the authenticated session, as stream programs. The operating system's random
  draws are arguments. The lemmas show that the transcript determines everything it commits
  to, what each role has verified when it accepts, what it may have written before that, and
  that two honest roles finish with mirrored keys.
\<close>

section \<open>Pins\<close>

definition MAX_SERVER_PINS :: nat where "MAX_SERVER_PINS = 3"

record pin_slots =
  ps_slots :: "bytes list"
  ps_len :: u8

definition pins_single :: "bytes \<Rightarrow> pin_slots" where
  "pins_single pin = \<lparr> ps_slots = [pin, replicate 32 0, replicate 32 0], ps_len = 1 \<rparr>"

fun check_pin_duplicates :: "bytes list \<Rightarrow> bytes list \<Rightarrow> session_error + unit" where
  "check_pin_duplicates seen [] = Inr ()"
| "check_pin_duplicates seen (pin # pins) =
     (if \<exists>existing \<in> set seen. ct_eq existing pin then Inl (DuplicatePin pin)
      else check_pin_duplicates (seen @ [pin]) pins)"

definition pins_new :: "bytes list \<Rightarrow> session_error + pin_slots" where
  "pins_new pins =
     (if pins = [] \<or> length pins > MAX_SERVER_PINS then Inl (PinSetSize (length pins))
      else bindR (check_pin_duplicates [] pins) (\<lambda>_.
        Inr \<lparr> ps_slots = pins @ replicate (MAX_SERVER_PINS - length pins) (replicate 32 0),
              ps_len = word_of_nat (length pins) \<rparr>))"

definition pins_as_slice :: "pin_slots \<Rightarrow> bytes list" where
  "pins_as_slice p = take (unat (ps_len p)) (ps_slots p)"

definition pins_matches :: "pin_slots \<Rightarrow> bytes \<Rightarrow> bool" where
  "pins_matches p fingerprint =
     (fold (\<lambda>(index, pin) matched.
        matched OR ((if ct_eq fingerprint pin then 1 else 0) AND (if index < unat (ps_len p) then 1 else 0)))
      (enumerate 0 (ps_slots p)) (0 :: u8) \<noteq> 0)"

section \<open>Transcripts\<close>

definition V3_SUITE :: bytes where
  "V3_SUITE = ascii_bytes ''ML-KEM-768+X25519+MUTUAL-PSK-ACCESS-HMAC-SHA256+Ed25519+HMAC-SHA256+HKDF-SHA256+ChaCha20Poly1305''"
definition TRANSCRIPT_DOMAIN :: bytes where
  "TRANSCRIPT_DOMAIN = ascii_bytes ''shadowpipe-v3/canonical-handshake-transcript'' @ [0]"
definition FINISHED_TRANSCRIPT_DOMAIN :: bytes where
  "FINISHED_TRANSCRIPT_DOMAIN = ascii_bytes ''shadowpipe-v3/finished-transcript'' @ [0]"
definition CLIENT_FINISHED_AAD_DOMAIN :: bytes where
  "CLIENT_FINISHED_AAD_DOMAIN = ascii_bytes ''shadowpipe-v3/client-finished-record'' @ [0]"
definition SERVER_FINISHED_AAD_DOMAIN :: bytes where
  "SERVER_FINISHED_AAD_DOMAIN = ascii_bytes ''shadowpipe-v3/server-finished-record'' @ [0]"
definition CLIENT_FINISHED_CIPHERTEXT_LEN :: nat where
  "CLIENT_FINISHED_CIPHERTEXT_LEN = CLIENT_FINISHED_LEN + CHACHA20_POLY1305_TAG_LEN"
definition SERVER_FINISHED_CIPHERTEXT_LEN :: nat where
  "SERVER_FINISHED_CIPHERTEXT_LEN = SERVER_FINISHED_LEN + CHACHA20_POLY1305_TAG_LEN"

definition transcript_field :: "u8 \<Rightarrow> bytes \<Rightarrow> bytes" where
  "transcript_field tag value = [tag] @ be32 (word_of_nat (length value)) @ value"

text \<open>What the transcript commits to.\<close>

record transcript_view =
  tv_access_hello :: bytes
  tv_server_access_proof :: bytes
  tv_client_access_proof :: bytes
  tv_server_pk :: bytes
  tv_client_hello :: client_hello
  tv_server_hello :: server_hello
  tv_carrier :: carrier_binding

definition canonical_transcript :: "u32 \<Rightarrow> transcript_view \<Rightarrow> bytes" where
  "canonical_transcript magic v =
     (let ch = tv_client_hello v; sh = tv_server_hello v in
      TRANSCRIPT_DOMAIN
      @ transcript_field 1 [PROTO_VERSION]
      @ transcript_field 2 (ascii_bytes ''client'')
      @ transcript_field 3 (ascii_bytes ''server'')
      @ transcript_field 4 (be32 magic)
      @ transcript_field 5 V3_SUITE
      @ transcript_field 6 (tv_server_pk v)
      @ transcript_field 7 (ch_mlkem_ciphertext ch)
      @ transcript_field 8 (ch_client_random ch)
      @ transcript_field 9 (sh_server_random sh)
      @ transcript_field 10 (ch_x25519_public ch)
      @ transcript_field 11 (sh_x25519_public sh)
      @ transcript_field 12 (sh_session_id sh)
      @ transcript_field 13 (be32 (ch_magic ch))
      @ transcript_field 14 [ch_version ch]
      @ transcript_field 15 [camouflage_u8 (ch_camouflage ch)]
      @ transcript_field 16 [padding_u8 (ch_padding_profile ch)]
      @ transcript_field 17 (tv_access_hello v)
      @ transcript_field 18 (tv_server_access_proof v)
      @ transcript_field 19 (tv_client_access_proof v)
      @ transcript_field 20 [carrier_u8 (tv_carrier v)])"

definition pre_finished_transcript ::
  "('k, 'z) session_crypto_scheme \<Rightarrow> u32 \<Rightarrow> transcript_view \<Rightarrow> bytes" where
  "pre_finished_transcript C magic v = sha256 C (canonical_transcript magic v)"

definition finished_transcript ::
  "('k, 'z) session_crypto_scheme \<Rightarrow> bytes \<Rightarrow> bytes \<Rightarrow> bytes \<Rightarrow> bytes" where
  "finished_transcript C pre_finished client_finished server_finished =
     sha256 C (FINISHED_TRANSCRIPT_DOMAIN @ pre_finished
       @ be16 (word_of_nat (length client_finished)) @ client_finished
       @ be16 (word_of_nat (length server_finished)) @ server_finished)"

definition finished_aad :: "bytes \<Rightarrow> bytes \<Rightarrow> bytes" where
  "finished_aad domain pre_finished = domain @ pre_finished"

section \<open>The client\<close>

record client_config =
  cfg_camouflage :: camouflage_mode
  cfg_padding_profile :: padding_profile
  cfg_server_fingerprint :: bytes
  cfg_credential :: client_credential

record client_draws =
  cd_access_nonce :: "bytes option"
  cd_x_secret :: bytes
  cd_kem_coins :: bytes
  cd_client_random :: bytes

text \<open>
  One operation of the handshake AEAD, whose session is threaded along; a record that does not
  decrypt is an authentication failure.
\<close>

definition aeadIO :: "aead_session \<times> (crypto_error + bytes) \<Rightarrow> (session_error, aead_session \<times> bytes) io" where
  "aeadIO r = liftIO (case r of (s, Inl e) \<Rightarrow> Inl (Crypto e) | (s, Inr b) \<Rightarrow> Inr (s, b))"

definition authAeadIO :: "aead_session \<times> (crypto_error + bytes) \<Rightarrow> (session_error, aead_session \<times> bytes) io" where
  "authAeadIO r = liftIO (case r of (s, Inl e) \<Rightarrow> Inl (Auth AuthFailed) | (s, Inr b) \<Rightarrow> Inr (s, b))"

text \<open>
  \<open>client_connect_pins_bound\<close> in the three parts of its body: the mutual access gate, the
  exchange of keys up to the transcript, and the Finished records.
\<close>

definition client_access_gate ::
  "('k, 'z) session_crypto_scheme \<Rightarrow> u32 \<Rightarrow> client_draws \<Rightarrow> client_config \<Rightarrow> carrier_binding
    \<Rightarrow> (session_error, bytes \<times> bytes) io" where
  "client_access_gate C magic draws config carrier =
     (let cred = cfg_credential config in
      bindIO (liftIO (ensure (cfg_camouflage config \<noteq> DnsChunk) CarrierNotImplemented)) (\<lambda>_.
      bindIO (writeIO Wire (write_all (cc_key_id cred))) (\<lambda>_.
      bindIO (readIO Wire (read_exact SERVER_ACCESS_PROOF_LEN)) (\<lambda>server_access_proof.
      bindIO (liftIO (authSR (server_access_proof_decode server_access_proof))) (\<lambda>decoded.
      bindIO (liftIO (authSR (verify_server_access_and_prove C magic cred decoded (cfg_camouflage config) carrier
        (cd_access_nonce draws)))) (\<lambda>client_proof.
      let client_access_proof = client_access_proof_encode client_proof in
      bindIO (writeIO Wire (write_all client_access_proof)) (\<lambda>_.
      returnIO (server_access_proof, client_access_proof))))))))"

text \<open>Both roles end the key exchange with these values.\<close>

record exchanged =
  ex_view :: transcript_view
  ex_x_shared :: bytes
  ex_pq_shared :: bytes
  ex_pre_finished :: bytes

definition client_key_exchange ::
  "('k, 'z) session_crypto_scheme \<Rightarrow> u32 \<Rightarrow> client_draws \<Rightarrow> client_config \<Rightarrow> pin_slots \<Rightarrow> carrier_binding
    \<Rightarrow> bytes \<times> bytes \<Rightarrow> (session_error, exchanged) io" where
  "client_key_exchange C magic draws config pins carrier proofs =
     bindIO (readIO Wire read_mlkem_public) (\<lambda>pk_bytes.
     let got = mlkem_fingerprint C pk_bytes in
     bindIO (liftIO (ensure (pins_matches pins got) (PinMismatch got))) (\<lambda>_.
     bindIO (liftIO (cryptoR (mlkem_public_from_bytes C pk_bytes))) (\<lambda>server_pk.
     let x_public = x25519_public C (cd_x_secret draws);
         (pq_ct, pq_shared) = encapsulate_mlkem C (cd_kem_coins draws) server_pk;
         client_hello = \<lparr> ch_magic = magic, ch_version = PROTO_VERSION, ch_client_random = cd_client_random draws,
           ch_x25519_public = x_public, ch_mlkem_ciphertext = pq_ct, ch_camouflage = cfg_camouflage config,
           ch_padding_profile = cfg_padding_profile config \<rparr> in
     bindIO (writeIO Wire (write_client_hello client_hello)) (\<lambda>_.
     bindIO (readIO Wire read_server_hello) (\<lambda>server_hello.
     bindIO (liftIO (cryptoR (x25519_ephemeral_shared C (cd_x_secret draws) (sh_x25519_public server_hello)))) (\<lambda>x_shared.
     let view = \<lparr> tv_access_hello = cc_key_id (cfg_credential config), tv_server_access_proof = fst proofs,
           tv_client_access_proof = snd proofs, tv_server_pk = pk_bytes, tv_client_hello = client_hello,
           tv_server_hello = server_hello, tv_carrier = carrier \<rparr> in
     returnIO \<lparr> ex_view = view, ex_x_shared = x_shared, ex_pq_shared = pq_shared,
       ex_pre_finished = pre_finished_transcript C magic view \<rparr>))))))"

definition client_finish ::
  "('k, 'z) session_crypto_scheme \<Rightarrow> client_config \<Rightarrow> exchanged \<Rightarrow> (session_error, auth_session \<times> bytes) io" where
  "client_finish C config ex =
     (let cred = cfg_credential config; pre_finished = ex_pre_finished ex;
          cr = ch_client_random (tv_client_hello (ex_view ex)); sr = sh_server_random (tv_server_hello (ex_view ex)) in
      bindIO (liftIO (cryptoR (derive_handshake_traffic_keys C (ex_x_shared ex) (ex_pq_shared ex) cr sr
        pre_finished True))) (\<lambda>handshake_keys.
      bindIO (liftIO (authSR (sign_finished C cred pre_finished))) (\<lambda>finished.
      let client_finished = client_finished_encode finished in
      bindIO (aeadIO (aead_session_encrypt C (aead_session_new handshake_keys) client_finished
        (finished_aad CLIENT_FINISHED_AAD_DOMAIN pre_finished))) (\<lambda>(handshake_aead, encrypted_client_finished).
      bindIO (liftIO (ensure (length encrypted_client_finished = CLIENT_FINISHED_CIPHERTEXT_LEN)
        FinishedLengthInvariant)) (\<lambda>_.
      bindIO (writeIO Wire (write_all encrypted_client_finished)) (\<lambda>_.
      bindIO (readIO Wire (read_exact SERVER_FINISHED_CIPHERTEXT_LEN)) (\<lambda>encrypted_server_finished.
      bindIO (authAeadIO (aead_session_decrypt C handshake_aead encrypted_server_finished
        (finished_aad SERVER_FINISHED_AAD_DOMAIN pre_finished))) (\<lambda>(_, server_finished_plaintext).
      bindIO (liftIO (authSR (server_finished_decode server_finished_plaintext))) (\<lambda>server_finished.
      bindIO (liftIO (authSR (verify_server_finished C cred pre_finished client_finished server_finished))) (\<lambda>_.
      let transcript = finished_transcript C pre_finished client_finished (server_finished_encode server_finished) in
      bindIO (liftIO (cryptoR (derive_application_traffic_keys C (ex_x_shared ex) (ex_pq_shared ex) (cc_psk cred)
        cr sr transcript True))) (\<lambda>application_keys.
      returnIO (\<lparr> se_aead = aead_session_new application_keys, se_padding_profile = cfg_padding_profile config,
                   se_client_key_id = cc_key_id cred \<rparr>,
        sh_session_id (tv_server_hello (ex_view ex))))))))))))))"

definition client_connect_pins_bound ::
  "('k, 'z) session_crypto_scheme \<Rightarrow> u32 \<Rightarrow> client_draws \<Rightarrow> client_config \<Rightarrow> pin_slots \<Rightarrow> carrier_binding
    \<Rightarrow> (session_error, auth_session \<times> bytes) io" where
  "client_connect_pins_bound C magic draws config pins carrier =
     bindIO (client_access_gate C magic draws config carrier) (\<lambda>proofs.
     bindIO (client_key_exchange C magic draws config pins carrier proofs) (\<lambda>ex.
     client_finish C config ex))"

definition client_connect_pins ::
  "('k, 'z) session_crypto_scheme \<Rightarrow> u32 \<Rightarrow> client_draws \<Rightarrow> client_config \<Rightarrow> pin_slots
    \<Rightarrow> (session_error, auth_session \<times> bytes) io" where
  "client_connect_pins C magic draws config pins = client_connect_pins_bound C magic draws config pins DirectTcp"

definition client_connect_bound ::
  "('k, 'z) session_crypto_scheme \<Rightarrow> u32 \<Rightarrow> client_draws \<Rightarrow> client_config \<Rightarrow> carrier_binding
    \<Rightarrow> (session_error, auth_session \<times> bytes) io" where
  "client_connect_bound C magic draws config carrier =
     client_connect_pins_bound C magic draws config (pins_single (cfg_server_fingerprint config)) carrier"

definition client_connect ::
  "('k, 'z) session_crypto_scheme \<Rightarrow> u32 \<Rightarrow> client_draws \<Rightarrow> client_config \<Rightarrow> (session_error, auth_session \<times> bytes) io" where
  "client_connect C magic draws config = client_connect_bound C magic draws config DirectTcp"

section \<open>The server\<close>

record server_draws =
  sd_challenge :: bytes
  sd_dummy_psk :: "bytes option"
  sd_x_secret :: bytes
  sd_server_random :: bytes
  sd_session_id :: bytes

text \<open>The server's static key pair: the public key it advertises and the decapsulation key.\<close>

record 'k server_state =
  st_public :: bytes
  st_secret :: 'k

definition server_access_gate ::
  "('k, 'z) session_crypto_scheme \<Rightarrow> u32 \<Rightarrow> server_draws \<Rightarrow> authorized_clients \<Rightarrow> camouflage_mode
    \<Rightarrow> carrier_binding \<Rightarrow> (session_error, bytes \<times> bytes \<times> bytes \<times> bytes) io" where
  "server_access_gate C magic draws clients observed_camouflage observed_carrier =
     bindIO (liftIO (ensure (observed_camouflage \<noteq> DnsChunk) CarrierNotImplemented)) (\<lambda>_.
     bindIO (readIO (\<lambda>_. Auth AuthFailed) (read_exact CLIENT_ACCESS_HELLO_LEN)) (\<lambda>access_hello.
     bindIO (liftIO (authSR (begin_access C magic clients access_hello (sd_challenge draws) observed_camouflage
       observed_carrier (sd_dummy_psk draws)))) (\<lambda>(server_access, pending_access).
     let server_access_proof = server_access_proof_encode server_access in
     bindIO (writeIO Wire (write_all server_access_proof)) (\<lambda>_.
     bindIO (readIO (\<lambda>_. Auth AuthFailed) (read_exact CLIENT_ACCESS_PROOF_LEN)) (\<lambda>client_access_proof.
     bindIO (liftIO (authSR (client_access_proof_decode client_access_proof))) (\<lambda>decoded.
     bindIO (liftIO (authSR (pending_verify C magic pending_access server_access observed_camouflage
       observed_carrier decoded))) (\<lambda>access_key_id.
     returnIO (access_hello, server_access_proof, client_access_proof, access_key_id))))))))"

definition server_key_exchange ::
  "('k, 'z) session_crypto_scheme \<Rightarrow> u32 \<Rightarrow> server_draws \<Rightarrow> 'k server_state \<Rightarrow> camouflage_mode \<Rightarrow> carrier_binding
    \<Rightarrow> bytes \<times> bytes \<times> bytes \<Rightarrow> (session_error, exchanged) io" where
  "server_key_exchange C magic draws state observed_camouflage observed_carrier proofs =
     (let server_public = st_public state in
      bindIO (writeIO Wire (write_mlkem_public server_public)) (\<lambda>_.
      bindIO (readIO Wire read_client_hello) (\<lambda>client_hello.
      bindIO (liftIO (ensure (ch_magic client_hello = magic) (MagicMismatch (ch_magic client_hello)))) (\<lambda>_.
      bindIO (liftIO (ensure (ch_version client_hello = PROTO_VERSION) (UnsupportedVersion (ch_version client_hello)))) (\<lambda>_.
      bindIO (liftIO (ensure (ch_camouflage client_hello = observed_camouflage)
        (FramingMismatch (ch_camouflage client_hello) observed_camouflage))) (\<lambda>_.
      bindIO (liftIO (cryptoR (mlkem_ciphertext_from_bytes (ch_mlkem_ciphertext client_hello)))) (\<lambda>pq_ct.
      let pq_shared = decapsulate_mlkem C (st_secret state) pq_ct;
          x_public = x25519_public C (sd_x_secret draws);
          server_hello = \<lparr> sh_server_random = sd_server_random draws, sh_x25519_public = x_public,
            sh_session_id = sd_session_id draws \<rparr> in
      bindIO (liftIO (cryptoR (x25519_ephemeral_shared C (sd_x_secret draws) (ch_x25519_public client_hello)))) (\<lambda>x_shared.
      bindIO (writeIO Wire (write_server_hello server_hello)) (\<lambda>_.
      let view = \<lparr> tv_access_hello = fst proofs, tv_server_access_proof = fst (snd proofs),
            tv_client_access_proof = snd (snd proofs), tv_server_pk = server_public,
            tv_client_hello = client_hello, tv_server_hello = server_hello, tv_carrier = observed_carrier \<rparr> in
      returnIO \<lparr> ex_view = view, ex_x_shared = x_shared, ex_pq_shared = pq_shared,
        ex_pre_finished = pre_finished_transcript C magic view \<rparr>)))))))))"

definition server_finish ::
  "('k, 'z) session_crypto_scheme \<Rightarrow> authorized_clients \<Rightarrow> bytes \<Rightarrow> exchanged
    \<Rightarrow> (session_error, auth_session \<times> client_hello \<times> bytes) io" where
  "server_finish C clients access_key_id ex =
     (let pre_finished = ex_pre_finished ex; client_hello = tv_client_hello (ex_view ex);
          server_hello = tv_server_hello (ex_view ex) in
      bindIO (liftIO (cryptoR (derive_handshake_traffic_keys C (ex_x_shared ex) (ex_pq_shared ex)
        (ch_client_random client_hello) (sh_server_random server_hello) pre_finished False))) (\<lambda>handshake_keys.
      bindIO (readIO Wire (read_exact CLIENT_FINISHED_CIPHERTEXT_LEN)) (\<lambda>encrypted_client_finished.
      bindIO (authAeadIO (aead_session_decrypt C (aead_session_new handshake_keys) encrypted_client_finished
        (finished_aad CLIENT_FINISHED_AAD_DOMAIN pre_finished))) (\<lambda>(handshake_aead, client_finished_plaintext).
      bindIO (liftIO (authSR (client_finished_decode client_finished_plaintext))) (\<lambda>finished.
      bindIO (liftIO (authSR (verify_finished_for_key C clients pre_finished finished access_key_id))) (\<lambda>verified.
      let client_finished = client_finished_encode finished;
          server_finished = server_finished_encode (make_server_finished C verified pre_finished client_finished) in
      bindIO (aeadIO (aead_session_encrypt C handshake_aead server_finished
        (finished_aad SERVER_FINISHED_AAD_DOMAIN pre_finished))) (\<lambda>(_, encrypted_server_finished).
      bindIO (liftIO (ensure (length encrypted_server_finished = SERVER_FINISHED_CIPHERTEXT_LEN)
        FinishedLengthInvariant)) (\<lambda>_.
      bindIO (writeIO Wire (write_all encrypted_server_finished)) (\<lambda>_.
      let transcript = finished_transcript C pre_finished client_finished server_finished in
      bindIO (liftIO (cryptoR (derive_application_traffic_keys C (ex_x_shared ex) (ex_pq_shared ex) (vc_psk verified)
        (ch_client_random client_hello) (sh_server_random server_hello) transcript False))) (\<lambda>application_keys.
      returnIO (\<lparr> se_aead = aead_session_new application_keys,
                   se_padding_profile = ch_padding_profile client_hello, se_client_key_id = vc_key_id verified \<rparr>,
        client_hello, sh_session_id server_hello)))))))))))"

definition server_accept_bound ::
  "('k, 'z) session_crypto_scheme \<Rightarrow> u32 \<Rightarrow> server_draws \<Rightarrow> 'k server_state \<Rightarrow> authorized_clients
    \<Rightarrow> camouflage_mode \<Rightarrow> carrier_binding \<Rightarrow> (session_error, auth_session \<times> client_hello \<times> bytes) io" where
  "server_accept_bound C magic draws state clients observed_camouflage observed_carrier =
     bindIO (server_access_gate C magic draws clients observed_camouflage observed_carrier)
       (\<lambda>(access_hello, server_access_proof, client_access_proof, access_key_id).
     bindIO (server_key_exchange C magic draws state observed_camouflage observed_carrier
       (access_hello, server_access_proof, client_access_proof)) (\<lambda>ex.
     server_finish C clients access_key_id ex))"

definition server_accept ::
  "('k, 'z) session_crypto_scheme \<Rightarrow> u32 \<Rightarrow> server_draws \<Rightarrow> 'k server_state \<Rightarrow> authorized_clients
    \<Rightarrow> camouflage_mode \<Rightarrow> (session_error, auth_session \<times> client_hello \<times> bytes) io" where
  "server_accept C magic draws state clients observed_camouflage =
     server_accept_bound C magic draws state clients observed_camouflage DirectTcp"

section \<open>Pins are matched exactly\<close>

lemma pins_fold:
  "fold (\<lambda>(index, pin) matched.
      matched OR ((if ct_eq fp pin then 1 else 0) AND (if index < n then 1 else 0)))
    (enumerate k slots) (m :: u8) \<noteq> 0 \<longleftrightarrow> m \<noteq> 0 \<or> fp \<in> set (take (n - k) slots)"
proof (induction slots arbitrary: k m)
  case (Cons pin slots)
  show ?case
  proof (cases "k < n")
    case True
    then have "take (n - k) (pin # slots) = pin # take (n - Suc k) slots"
      by (simp add: take_Cons')
    with Cons [of "Suc k"] True show ?thesis
      by (auto simp: or_eq_zero ct_eq_iff)
  next
    case False
    with Cons [of "Suc k"] show ?thesis
      by simp
  qed
qed simp

lemma pins_matches_iff: "pins_matches p fp \<longleftrightarrow> fp \<in> set (pins_as_slice p)"
  using pins_fold [of fp "unat (ps_len p)" 0 "ps_slots p" 0]
  by (simp add: pins_matches_def pins_as_slice_def)

lemma pins_single_slice: "pins_as_slice (pins_single pin) = [pin]"
  by (simp add: pins_as_slice_def pins_single_def)

lemma check_pin_duplicates_iff:
  "check_pin_duplicates seen pins = Inr () \<longleftrightarrow> distinct pins \<and> set seen \<inter> set pins = {}"
  by (induction seen pins rule: check_pin_duplicates.induct) (auto simp: ct_eq_iff)

lemma pins_new_iff:
  "pins_new pins = Inr p \<longleftrightarrow> pins \<noteq> [] \<and> length pins \<le> MAX_SERVER_PINS \<and> distinct pins
     \<and> p = \<lparr> ps_slots = pins @ replicate (MAX_SERVER_PINS - length pins) (replicate 32 0),
             ps_len = word_of_nat (length pins) \<rparr>"
proof -
  have "bindR (check_pin_duplicates [] pins) (\<lambda>_. Inr q) = Inr p \<longleftrightarrow> distinct pins \<and> p = q" for q
    using check_pin_duplicates_iff [of "[]" pins] by (cases "check_pin_duplicates [] pins") auto
  then show ?thesis
    by (auto simp: pins_new_def not_less)
qed

lemma pins_new_slice: "pins_new pins = Inr p \<Longrightarrow> pins_as_slice p = pins"
  by (auto simp: pins_new_iff pins_as_slice_def MAX_SERVER_PINS_def unat_word_of_nat_8)

section \<open>The transcript determines what it commits to\<close>

lemma u32_length_inj:
  assumes "(word_of_nat n :: u32) = word_of_nat m" "n < 2 ^ 32" "m < 2 ^ 32"
  shows "n = m"
proof -
  from assms(1) have "unat (word_of_nat n :: u32) = unat (word_of_nat m :: u32)"
    by simp
  with assms(2,3) show ?thesis
    by (simp add: unat_of_nat)
qed

lemma transcript_field_inj:
  assumes "length a < 2 ^ 32" "length b < 2 ^ 32"
  shows "transcript_field t a @ x = transcript_field t' b @ y \<longleftrightarrow> t = t' \<and> a = b \<and> x = y"
    and "transcript_field t a = transcript_field t' b \<longleftrightarrow> t = t' \<and> a = b"
  using u32_length_inj [OF _ assms] by (auto simp: transcript_field_def)

definition view_typed :: "transcript_view \<Rightarrow> bool" where
  "view_typed v \<longleftrightarrow> client_hello_typed (tv_client_hello v) \<and> server_hello_typed (tv_server_hello v)
     \<and> length (tv_server_pk v) < 2 ^ 32 \<and> length (ch_mlkem_ciphertext (tv_client_hello v)) < 2 ^ 32
     \<and> length (tv_access_hello v) = 16 \<and> length (tv_server_access_proof v) = 64
     \<and> length (tv_client_access_proof v) = 64"

lemma canonical_transcript_inj:
  assumes "canonical_transcript magic v = canonical_transcript magic' v'" "view_typed v" "view_typed v'"
  shows "magic = magic' \<and> v = v'"
proof -
  have "length V3_SUITE < 2 ^ 32" "length (ascii_bytes ''client'') < 2 ^ 32" "length (ascii_bytes ''server'') < 2 ^ 32"
    by (simp_all add: V3_SUITE_def ascii_bytes_def)
  with assms show ?thesis
    by (cases v; cases v'; cases "tv_client_hello v"; cases "tv_client_hello v'"; cases "tv_server_hello v";
        cases "tv_server_hello v'")
      (simp add: canonical_transcript_def Let_def transcript_field_inj view_typed_def client_hello_typed_def
        server_hello_typed_def)
qed

section \<open>The access gate\<close>

lemma bindIO_eq_Inl:
  "bindIO m f inp = (out, Inl e) \<longleftrightarrow> m inp = (out, Inl e)
     \<or> (\<exists>out1 x r1 out2. m inp = (out1, Inr (x, r1)) \<and> f x r1 = (out2, Inl e) \<and> out = out1 @ out2)"
proof (cases "m inp")
  case (Pair o1 res)
  then show ?thesis
    by (cases res; cases "f (fst (projr res)) (snd (projr res))") (auto simp: bindIO_def)
qed

lemma lift_read_write_errors:
  "liftIO r inp = (out, Inl e) \<longleftrightarrow> out = [] \<and> r = Inl e"
  "readIO c p inp = (out, Inl e) \<longleftrightarrow> out = [] \<and> (\<exists>w. p inp = Inl w \<and> e = c w)"
  "writeIO c (write_all bs) inp \<noteq> (out, Inl e)"
  "returnIO x inp \<noteq> (out, Inl e)"
  by (auto simp: liftIO_def readIO_def writeIO_def write_all_def returnIO_def split: sum.splits)

lemmas io_errors = bindIO_eq_Inl lift_read_write_errors

definition server_proof_valid ::
  "('k, 'z) session_crypto_scheme \<Rightarrow> u32 \<Rightarrow> bytes \<Rightarrow> bytes \<Rightarrow> camouflage_mode \<Rightarrow> carrier_binding \<Rightarrow> server_access_proof \<Rightarrow> bool" where
  "server_proof_valid C magic psk key_id cam car sp \<longleftrightarrow>
     length (sap_challenge sp) = 32 \<and> length (sap_psk_mac sp) = 32
     \<and> sap_psk_mac sp = hmac_sign C psk (server_access_proof_message magic (sap_challenge sp) key_id cam car)"

definition client_proof_for ::
  "('k, 'z) session_crypto_scheme \<Rightarrow> u32 \<Rightarrow> bytes \<Rightarrow> bytes \<Rightarrow> camouflage_mode \<Rightarrow> carrier_binding \<Rightarrow> server_access_proof
    \<Rightarrow> bytes \<Rightarrow> bytes" where
  "client_proof_for C magic psk key_id cam car sp nonce = nonce @ hmac_sign C psk
     (client_access_proof_message magic (sap_challenge sp) (sap_psk_mac sp) key_id nonce cam car)"

lemma server_proof_valid_encode:
  assumes "server_proof_valid C magic psk key_id cam car sp"
  shows "length (server_access_proof_encode sp) = SERVER_ACCESS_PROOF_LEN"
    and "server_access_proof_decode (server_access_proof_encode sp) = Inr sp"
proof -
  have "length (sap_challenge sp) = 32" "length (sap_psk_mac sp) = 32"
    using assms unfolding server_proof_valid_def by blast+
  then show "length (server_access_proof_encode sp) = SERVER_ACCESS_PROOF_LEN"
    and "server_access_proof_decode (server_access_proof_encode sp) = Inr sp"
    by (simp_all add: server_access_proof_encode_def [of sp] auth_lengths server_access_proof_decode_iff)
qed

lemma client_gate_sound:
  assumes "mac_ok C" "client_access_gate C magic draws config carrier inp = (out, Inr (proofs, rest))"
  shows "cfg_camouflage config \<noteq> DnsChunk \<and> (\<exists>sp nonce. cd_access_nonce draws = Some nonce
      \<and> server_proof_valid C magic (cc_psk (cfg_credential config)) (cc_key_id (cfg_credential config))
          (cfg_camouflage config) carrier sp
      \<and> inp = fst proofs @ rest \<and> fst proofs = server_access_proof_encode sp
      \<and> snd proofs = client_proof_for C magic (cc_psk (cfg_credential config)) (cc_key_id (cfg_credential config))
          (cfg_camouflage config) carrier sp nonce
      \<and> out = cc_key_id (cfg_credential config) @ snd proofs)"
proof -
  from assms(2) obtain sap sp cp where cam: "cfg_camouflage config \<noteq> DnsChunk"
    and rd: "read_exact SERVER_ACCESS_PROOF_LEN inp = Inr (sap, rest)"
    and de: "server_access_proof_decode sap = Inr sp"
    and pr: "verify_server_access_and_prove C magic (cfg_credential config) sp (cfg_camouflage config) carrier
      (cd_access_nonce draws) = Inr cp"
    and out: "proofs = (sap, client_access_proof_encode cp)"
      "out = cc_key_id (cfg_credential config) @ client_access_proof_encode cp"
    unfolding client_access_gate_def Let_def by (auto simp: io_simps)
  from pr obtain nonce where
    "sap_psk_mac sp = hmac_sign C (cc_psk (cfg_credential config)) (server_access_proof_message magic
       (sap_challenge sp) (cc_key_id (cfg_credential config)) (cfg_camouflage config) carrier)"
    "cd_access_nonce draws = Some nonce"
    "client_access_proof_encode cp = client_proof_for C magic (cc_psk (cfg_credential config))
       (cc_key_id (cfg_credential config)) (cfg_camouflage config) carrier sp nonce"
    unfolding verify_server_access_iff [OF assms(1)]
    by (auto simp: client_access_proof_encode_def client_proof_for_def)
  with cam rd de out show ?thesis
    by (intro conjI exI [of _ sp] exI [of _ nonce])
      (simp_all add: server_access_proof_decode_iff server_proof_valid_def read_exact_iff)
qed

lemma client_gate_run:
  assumes "mac_ok C" "cfg_camouflage config \<noteq> DnsChunk" "cd_access_nonce draws = Some nonce"
    and "server_proof_valid C magic (cc_psk (cfg_credential config)) (cc_key_id (cfg_credential config))
          (cfg_camouflage config) carrier sp"
  defines "cap \<equiv> client_proof_for C magic (cc_psk (cfg_credential config)) (cc_key_id (cfg_credential config))
          (cfg_camouflage config) carrier sp nonce"
  shows "client_access_gate C magic draws config carrier (server_access_proof_encode sp @ rest)
    = (cc_key_id (cfg_credential config) @ cap, Inr ((server_access_proof_encode sp, cap), rest))"
proof -
  have rd: "read_exact SERVER_ACCESS_PROOF_LEN (server_access_proof_encode sp @ rest)
      = Inr (server_access_proof_encode sp, rest)"
    by (rule read_exact_append [OF server_proof_valid_encode(1) [OF assms(4)]])
  note de = server_proof_valid_encode(2) [OF assms(4)]
  have pr: "verify_server_access_and_prove C magic (cfg_credential config) sp (cfg_camouflage config) carrier
      (Some nonce) = Inr \<lparr> cap_client_nonce = nonce, cap_psk_mac = drop (length nonce) cap \<rparr>"
    unfolding verify_server_access_iff [OF assms(1)] cap_def client_proof_for_def
    using assms(4) by (simp add: server_proof_valid_def)
  show ?thesis
    using assms(2,3)
    by (simp add: client_access_gate_def Let_def io_run io_write io_read rd de pr returnIO_def
        client_access_proof_encode_def cap_def client_proof_for_def)
qed

lemma client_gate_error:
  assumes "client_access_gate C magic draws config carrier inp = (out, Inl e)"
  shows "out = [] \<or> out = cc_key_id (cfg_credential config)"
  using assms unfolding client_access_gate_def Let_def
  by (auto simp: io_errors io_simps)

definition server_draws_typed :: "server_draws \<Rightarrow> bool" where
  "server_draws_typed d \<longleftrightarrow> length (sd_challenge d) = 32 \<and> (\<forall>psk. sd_dummy_psk d = Some psk \<longrightarrow> length psk = 32)
     \<and> length (sd_server_random d) = 16 \<and> length (sd_session_id d) = 8"

text \<open>The server's flight for a secret.\<close>

definition server_flight ::
  "('k, 'z) session_crypto_scheme \<Rightarrow> u32 \<Rightarrow> server_draws \<Rightarrow> bytes \<Rightarrow> bytes \<Rightarrow> camouflage_mode \<Rightarrow> carrier_binding
    \<Rightarrow> server_access_proof" where
  "server_flight C magic draws psk key_id cam car = \<lparr> sap_challenge = sd_challenge draws,
     sap_psk_mac = hmac_sign C psk (server_access_proof_message magic (sd_challenge draws) key_id cam car) \<rparr>"

lemma server_flight_valid:
  "mac_ok C \<Longrightarrow> server_draws_typed draws \<Longrightarrow>
     server_proof_valid C magic psk key_id cam car (server_flight C magic draws psk key_id cam car)"
  by (simp add: server_proof_valid_def server_flight_def server_draws_typed_def mac_ok_def)

lemma begin_access_flight:
  assumes "select_ok C" "clients_ok clients" "server_draws_typed draws"
    and "begin_access C magic clients key_id (sd_challenge draws) cam car (sd_dummy_psk draws) = Inr (sp, pending)"
  obtains psk where "sp = server_flight C magic draws psk key_id cam car"
    and "pc_key_id pending = key_id" and "pc_psk pending = psk"
    and "pc_authorized pending \<longrightarrow> (\<exists>e \<in> set clients. ac_key_id e = key_id \<and> ac_psk e = psk)"
proof -
  from assms(4) obtain dummy where d: "sd_dummy_psk draws = Some dummy"
    by (auto simp: begin_access_def result_simps)
  with assms(3) have l: "length dummy = 32"
    by (simp add: server_draws_typed_def)
  show thesis
  proof (cases "key_id \<in> ac_key_id ` set clients")
    case True
    then obtain e where e: "e \<in> set clients" "key_id = ac_key_id e"
      by auto
    from begin_access_known [OF assms(1,2) e(1) l, of magic "sd_challenge draws" cam car] assms(4) d e
    show thesis
      by (intro that [of "ac_psk e"]) (auto simp: server_flight_def)
  next
    case False
    from begin_access_unknown [OF assms(1,2) False l, of magic "sd_challenge draws" cam car] assms(4) d
    show thesis
      by (intro that [of dummy]) (auto simp: server_flight_def)
  qed
qed

lemma server_gate_sound:
  assumes "mac_ok C" "select_ok C" "clients_ok clients" "server_draws_typed draws"
    and "server_access_gate C magic draws clients cam car inp = (out, Inr ((ah, sap, cap, kid), rest))"
  shows "cam \<noteq> DnsChunk \<and> kid = ah \<and> (\<exists>e \<in> set clients. \<exists>nonce. length nonce = 32 \<and> ac_key_id e = ah
    \<and> sap = server_access_proof_encode (server_flight C magic draws (ac_psk e) ah cam car)
    \<and> cap = client_proof_for C magic (ac_psk e) ah cam car (server_flight C magic draws (ac_psk e) ah cam car) nonce
    \<and> inp = ah @ cap @ rest \<and> out = sap)"
proof -
  from assms(5) obtain sp pending cp r1 where cam: "cam \<noteq> DnsChunk"
    and ah: "read_exact CLIENT_ACCESS_HELLO_LEN inp = Inr (ah, r1)"
    and ba: "begin_access C magic clients ah (sd_challenge draws) cam car (sd_dummy_psk draws) = Inr (sp, pending)"
    and cap: "read_exact CLIENT_ACCESS_PROOF_LEN r1 = Inr (cap, rest)"
    and de: "client_access_proof_decode cap = Inr cp" and pv: "pending_verify C magic pending sp cam car cp = Inr kid"
    and out: "sap = server_access_proof_encode sp" "out = sap"
    unfolding server_access_gate_def Let_def by (auto simp: io_simps)
  obtain psk where sp: "sp = server_flight C magic draws psk ah cam car"
    and pend: "pc_key_id pending = ah" "pc_psk pending = psk"
    and auth: "pc_authorized pending \<longrightarrow> (\<exists>e \<in> set clients. ac_key_id e = ah \<and> ac_psk e = psk)"
    by (rule begin_access_flight [OF assms(2-4) ba])
  from pv obtain kid: "kid = ah" and az: "pc_authorized pending"
    and mac: "cap_psk_mac cp = hmac_sign C psk (client_access_proof_message magic (sap_challenge sp)
      (sap_psk_mac sp) ah (cap_client_nonce cp) cam car)"
    unfolding pending_verify_iff [OF assms(1)] pend by blast
  from auth az obtain e where e: "e \<in> set clients" "ac_key_id e = ah" "ac_psk e = psk"
    by blast
  from de have len: "length (cap_client_nonce cp) = 32" and ce: "cap = cap_client_nonce cp @ cap_psk_mac cp"
    by (simp_all add: client_access_proof_decode_iff client_access_proof_encode_def)
  have "cap = client_proof_for C magic (ac_psk e) ah cam car (server_flight C magic draws (ac_psk e) ah cam car)
      (cap_client_nonce cp)"
    using ce mac e sp by (simp add: client_proof_for_def)
  moreover have "sap = server_access_proof_encode (server_flight C magic draws (ac_psk e) ah cam car)"
    using out sp e by simp
  moreover have "inp = ah @ cap @ rest"
    using ah cap by (simp add: read_exact_iff)
  ultimately show ?thesis
    using cam kid e(1,2) len out(2) by blast
qed

lemma server_gate_error:
  assumes "mac_ok C" "select_ok C" "clients_ok clients" "server_draws_typed draws"
    and "server_access_gate C magic draws clients cam car inp = (out, Inl e)"
  shows "out = [] \<or> length out = SERVER_ACCESS_PROOF_LEN"
proof -
  have flight: "length (server_access_proof_encode sp) = SERVER_ACCESS_PROOF_LEN"
    if "begin_access C magic clients ah (sd_challenge draws) cam car (sd_dummy_psk draws) = Inr (sp, pending)"
    for ah sp pending
    by (rule begin_access_flight [OF assms(2-4) that])
      (simp add: server_proof_valid_encode(1) [OF server_flight_valid [OF assms(1,4)]])
  from assms(5) show ?thesis
    unfolding server_access_gate_def Let_def
    by (auto simp: io_errors io_simps flight)
qed

lemma server_gate_run:
  assumes "mac_ok C" "select_ok C" "clients_ok clients" "server_draws_typed draws" "sd_dummy_psk draws = Some dummy"
    and "cam \<noteq> DnsChunk" "e \<in> set clients" "length nonce = 32"
  fixes magic car
  defines "sp \<equiv> server_flight C magic draws (ac_psk e) (ac_key_id e) cam car"
  defines "cap \<equiv> client_proof_for C magic (ac_psk e) (ac_key_id e) cam car sp nonce"
  shows "server_access_gate C magic draws clients cam car (ac_key_id e @ cap @ rest)
    = (server_access_proof_encode sp, Inr ((ac_key_id e, server_access_proof_encode sp, cap, ac_key_id e), rest))"
proof -
  have l: "length dummy = 32" and "length (ac_key_id e) = 16"
    using assms(3-5,7) by (auto simp: server_draws_typed_def clients_ok_def authorized_client_typed_def)
  then have r1: "read_exact CLIENT_ACCESS_HELLO_LEN (ac_key_id e @ cap @ rest) = Inr (ac_key_id e, cap @ rest)"
    by (simp add: auth_lengths)
  let ?cp = "\<lparr> cap_client_nonce = nonce, cap_psk_mac = drop (length nonce) cap \<rparr>"
  have cap: "cap = client_access_proof_encode ?cp" "length (cap_psk_mac ?cp) = 32"
    using assms(1) by (simp_all add: cap_def client_proof_for_def client_access_proof_encode_def mac_ok_def)
  have r2: "read_exact CLIENT_ACCESS_PROOF_LEN (cap @ rest) = Inr (cap, rest)"
    using cap assms(8) by (intro read_exact_append) (simp add: auth_lengths)
  have de: "client_access_proof_decode cap = Inr ?cp"
    using cap assms(8) by (simp add: client_access_proof_decode_iff)
  have ba: "begin_access C magic clients (ac_key_id e) (sd_challenge draws) cam car (Some dummy)
      = Inr (sp, \<lparr> pc_key_id = ac_key_id e, pc_psk = ac_psk e, pc_authorized = True \<rparr>)"
    using begin_access_known [OF assms(2,3,7) l] by (simp add: sp_def server_flight_def)
  have pv: "pending_verify C magic \<lparr> pc_key_id = ac_key_id e, pc_psk = ac_psk e, pc_authorized = True \<rparr> sp cam car ?cp
      = Inr (ac_key_id e)"
    unfolding pending_verify_iff [OF assms(1)] by (simp add: cap_def client_proof_for_def)
  show ?thesis
    using assms(5,6)
    by (simp add: server_access_gate_def Let_def io_run io_write io_read r1 r2 de ba pv returnIO_def)
qed

section \<open>The key exchange\<close>

definition honest_client_hello ::
  "('k, 'z) session_crypto_scheme \<Rightarrow> u32 \<Rightarrow> client_draws \<Rightarrow> client_config \<Rightarrow> bytes \<Rightarrow> client_hello" where
  "honest_client_hello C magic draws config pk =
     \<lparr> ch_magic = magic, ch_version = PROTO_VERSION, ch_client_random = cd_client_random draws,
       ch_x25519_public = x25519_public C (cd_x_secret draws),
       ch_mlkem_ciphertext = fst (mlkem_encap C pk (cd_kem_coins draws)),
       ch_camouflage = cfg_camouflage config, ch_padding_profile = cfg_padding_profile config \<rparr>"

definition honest_server_hello :: "('k, 'z) session_crypto_scheme \<Rightarrow> server_draws \<Rightarrow> server_hello" where
  "honest_server_hello C draws = \<lparr> sh_server_random = sd_server_random draws,
     sh_x25519_public = x25519_public C (sd_x_secret draws), sh_session_id = sd_session_id draws \<rparr>"

definition client_exchanged ::
  "('k, 'z) session_crypto_scheme \<Rightarrow> u32 \<Rightarrow> client_draws \<Rightarrow> client_config \<Rightarrow> carrier_binding \<Rightarrow> bytes \<times> bytes
    \<Rightarrow> bytes \<Rightarrow> server_hello \<Rightarrow> exchanged" where
  "client_exchanged C magic draws config car proofs pk sh =
     (let view = \<lparr> tv_access_hello = cc_key_id (cfg_credential config), tv_server_access_proof = fst proofs,
        tv_client_access_proof = snd proofs, tv_server_pk = pk,
        tv_client_hello = honest_client_hello C magic draws config pk, tv_server_hello = sh, tv_carrier = car \<rparr> in
      \<lparr> ex_view = view, ex_x_shared = x25519 C (cd_x_secret draws) (sh_x25519_public sh),
        ex_pq_shared = snd (mlkem_encap C pk (cd_kem_coins draws)),
        ex_pre_finished = pre_finished_transcript C magic view \<rparr>)"

definition server_exchanged ::
  "('k, 'z) session_crypto_scheme \<Rightarrow> u32 \<Rightarrow> server_draws \<Rightarrow> 'k server_state \<Rightarrow> carrier_binding
    \<Rightarrow> bytes \<times> bytes \<times> bytes \<Rightarrow> client_hello \<Rightarrow> exchanged" where
  "server_exchanged C magic draws state car proofs ch =
     (let view = \<lparr> tv_access_hello = fst proofs, tv_server_access_proof = fst (snd proofs),
        tv_client_access_proof = snd (snd proofs), tv_server_pk = st_public state, tv_client_hello = ch,
        tv_server_hello = honest_server_hello C draws, tv_carrier = car \<rparr> in
      \<lparr> ex_view = view, ex_x_shared = x25519 C (sd_x_secret draws) (ch_x25519_public ch),
        ex_pq_shared = mlkem_decap C (st_secret state) (ch_mlkem_ciphertext ch),
        ex_pre_finished = pre_finished_transcript C magic view \<rparr>)"

lemma client_exchange_sound:
  assumes "client_key_exchange C magic draws config pins car proofs inp = (out, Inr (ex, rest))"
  obtains pk sh where "length pk = MLKEM_PUBLIC_KEY_SIZE" and "mlkem_fingerprint C pk \<in> set (pins_as_slice pins)"
    and "mlkem_public_valid C pk" and "server_hello_typed sh" and "\<exists>b \<in> set (ex_x_shared ex). b \<noteq> 0"
    and "inp = be16 1184 @ pk @ server_hello_wire sh @ rest"
    and "ex = client_exchanged C magic draws config car proofs pk sh"
proof -
  from assms obtain pk sh x where pk: "length pk = MLKEM_PUBLIC_KEY_SIZE" "pins_matches pins (mlkem_fingerprint C pk)"
      "mlkem_public_from_bytes C pk = Inr pk" and sh: "server_hello_typed sh"
    and inp: "inp = be16 1184 @ pk @ server_hello_wire sh @ rest"
    and x: "x25519_ephemeral_shared C (cd_x_secret draws) (sh_x25519_public sh) = Inr x"
    and ex: "ex = client_exchanged C magic draws config car proofs pk sh \<lparr> ex_x_shared := x \<rparr>"
    unfolding client_key_exchange_def Let_def split_beta
    by (auto simp: io_simps codec_simps mlkem_public_from_bytes_def
      encapsulate_mlkem_def client_exchanged_def Let_def honest_client_hello_def split: if_splits)
  from x ex have ex': "ex = client_exchanged C magic draws config car proofs pk sh" "\<exists>b \<in> set (ex_x_shared ex). b \<noteq> 0"
    by (auto simp: ephemeral_shared_iff client_exchanged_def Let_def)
  with pk sh inp show thesis
    by (intro that [of pk sh]) (auto simp: pins_matches_iff mlkem_public_from_bytes_def split: if_splits)
qed

lemma client_exchange_run:
  assumes "length pk = MLKEM_PUBLIC_KEY_SIZE" "mlkem_fingerprint C pk \<in> set (pins_as_slice pins)"
    and "mlkem_public_valid C pk" "server_hello_typed sh"
    and "\<exists>b \<in> set (x25519 C (cd_x_secret draws) (sh_x25519_public sh)). b \<noteq> 0"
    and "length (fst (mlkem_encap C pk (cd_kem_coins draws))) = MLKEM_CIPHERTEXT_SIZE"
  shows "client_key_exchange C magic draws config pins car proofs (be16 1184 @ pk @ server_hello_wire sh @ rest)
    = (client_hello_wire (honest_client_hello C magic draws config pk),
       Inr (client_exchanged C magic draws config car proofs pk sh, rest))"
proof -
  have r1: "read_mlkem_public (be16 1184 @ pk @ server_hello_wire sh @ rest) = Inr (pk, server_hello_wire sh @ rest)"
    and r2: "read_server_hello (server_hello_wire sh @ rest) = Inr (sh, rest)"
    using assms(1,4) by (simp_all add: codec_simps)
  have x: "x25519_ephemeral_shared C (cd_x_secret draws) (sh_x25519_public sh)
      = Inr (x25519 C (cd_x_secret draws) (sh_x25519_public sh))"
    using assms(5) by (simp add: ephemeral_shared_iff)
  have w: "write_client_hello (honest_client_hello C magic draws config pk)
      = write_all (client_hello_wire (honest_client_hello C magic draws config pk))"
    using assms(6) by (simp add: write_client_hello_ok honest_client_hello_def)
  show ?thesis
    using assms(1-3) w [unfolded honest_client_hello_def]
    by (simp add: client_key_exchange_def Let_def split_beta io_run io_write io_read r1 r2 x pins_matches_iff
        mlkem_public_from_bytes_def cryptoR_def encapsulate_mlkem_def returnIO_def client_exchanged_def
        honest_client_hello_def)
qed

lemma server_exchange_sound:
  assumes "server_key_exchange C magic draws state cam car proofs inp = (out, Inr (ex, rest))"
  obtains ch where "length (st_public state) = MLKEM_PUBLIC_KEY_SIZE" and "client_hello_typed ch"
    and "length (ch_mlkem_ciphertext ch) = MLKEM_CIPHERTEXT_SIZE"
    and "ch_magic ch = magic" and "ch_version ch = PROTO_VERSION" and "ch_camouflage ch = cam"
    and "\<exists>b \<in> set (ex_x_shared ex). b \<noteq> 0" and "inp = client_hello_wire ch @ rest"
    and "ex = server_exchanged C magic draws state car proofs ch"
    and "out = be16 1184 @ st_public state @ server_hello_wire (honest_server_hello C draws)"
proof -
  from assms obtain ch x o1 where o1: "write_mlkem_public (st_public state) = (o1, Inr ())"
    and ch: "client_hello_typed ch" "length (ch_mlkem_ciphertext ch) = MLKEM_CIPHERTEXT_SIZE"
      "ch_magic ch = magic" "ch_version ch = PROTO_VERSION" "ch_camouflage ch = cam" "inp = client_hello_wire ch @ rest"
    and x: "x25519_ephemeral_shared C (sd_x_secret draws) (ch_x25519_public ch) = Inr x"
    and ex: "ex = server_exchanged C magic draws state car proofs ch \<lparr> ex_x_shared := x \<rparr>"
    and out: "out = o1 @ server_hello_wire (honest_server_hello C draws)"
    unfolding server_key_exchange_def Let_def
    by (auto simp: io_simps codec_simps mlkem_ciphertext_from_bytes_def decapsulate_mlkem_def server_exchanged_def
        Let_def honest_server_hello_def write_server_hello_ok write_all_def split: if_splits)
  from o1 have "length (st_public state) = MLKEM_PUBLIC_KEY_SIZE" "o1 = be16 1184 @ st_public state"
    by (auto simp: write_mlkem_public_def write_fail_def MLKEM_PUBLIC_KEY_SIZE_def write_blob16_def
        then_write_def write_all_def split: if_splits)
  moreover from x ex have "ex = server_exchanged C magic draws state car proofs ch"
      "\<exists>b \<in> set (ex_x_shared ex). b \<noteq> 0"
    by (auto simp: ephemeral_shared_iff server_exchanged_def Let_def)
  ultimately show thesis
    using that [of ch] ch out by simp
qed

lemma server_exchange_run:
  assumes "length (st_public state) = MLKEM_PUBLIC_KEY_SIZE" "client_hello_typed ch"
    and "length (ch_mlkem_ciphertext ch) = MLKEM_CIPHERTEXT_SIZE"
    and "ch_magic ch = magic" "ch_version ch = PROTO_VERSION" "ch_camouflage ch = cam"
    and "\<exists>b \<in> set (x25519 C (sd_x_secret draws) (ch_x25519_public ch)). b \<noteq> 0"
  shows "server_key_exchange C magic draws state cam car proofs (client_hello_wire ch @ rest)
    = (be16 1184 @ st_public state @ server_hello_wire (honest_server_hello C draws),
       Inr (server_exchanged C magic draws state car proofs ch, rest))"
proof -
  have r: "read_client_hello (client_hello_wire ch @ rest) = Inr (ch, rest)"
    using assms(2,3) by (simp add: codec_simps)
  have x: "x25519_ephemeral_shared C (sd_x_secret draws) (ch_x25519_public ch)
      = Inr (x25519 C (sd_x_secret draws) (ch_x25519_public ch))"
    using assms(7) by (simp add: ephemeral_shared_iff)
  show ?thesis
    using assms(3-6)
    by (simp add: server_key_exchange_def Let_def io_run io_write io_read r x write_mlkem_public_ok [OF assms(1)]
        write_server_hello_ok mlkem_ciphertext_from_bytes_def decapsulate_mlkem_def returnIO_def
        server_exchanged_def honest_server_hello_def)
qed

section \<open>The Finished records\<close>

definition client_session_keys ::
  "('k, 'z) session_crypto_scheme \<Rightarrow> exchanged \<Rightarrow> bytes \<Rightarrow> bytes \<Rightarrow> bytes \<Rightarrow> crypto_error + session_keys" where
  "client_session_keys C ex psk cf sf = derive_application_traffic_keys C (ex_x_shared ex) (ex_pq_shared ex) psk
     (ch_client_random (tv_client_hello (ex_view ex))) (sh_server_random (tv_server_hello (ex_view ex)))
     (finished_transcript C (ex_pre_finished ex) cf sf) True"

definition client_handshake_keys :: "('k, 'z) session_crypto_scheme \<Rightarrow> exchanged \<Rightarrow> crypto_error + session_keys" where
  "client_handshake_keys C ex = derive_handshake_traffic_keys C (ex_x_shared ex) (ex_pq_shared ex)
     (ch_client_random (tv_client_hello (ex_view ex))) (sh_server_random (tv_server_hello (ex_view ex)))
     (ex_pre_finished ex) True"

text \<open>The two Finished messages that close a transcript, and their encrypted records.\<close>

definition finished_records ::
  "('k, 'z) session_crypto_scheme \<Rightarrow> exchanged \<Rightarrow> bytes \<Rightarrow> bytes \<Rightarrow> bytes \<Rightarrow> bytes \<Rightarrow> bool" where
  "finished_records C ex cf sf ecf esf \<longleftrightarrow> (\<exists>hk. client_handshake_keys C ex = Inr hk
     \<and> aead_seal C (send_key hk) (nonce_from_counter 0) (finished_aad CLIENT_FINISHED_AAD_DOMAIN (ex_pre_finished ex)) cf
         = Some ecf
     \<and> aead_seal C (recv_key hk) (nonce_from_counter 0) (finished_aad SERVER_FINISHED_AAD_DOMAIN (ex_pre_finished ex)) sf
         = Some esf)"

lemma session_encrypt_iff:
  "aead_session_encrypt C s p a = (s', Inr c) \<longleftrightarrow>
     \<not> as_send_failed s \<and> unat (as_send_nonce s) + 1 < 2 ^ 64 \<and> s' = s \<lparr> as_send_nonce := as_send_nonce s + 1 \<rparr>
     \<and> aead_seal C (as_send s) (nonce_from_counter (as_send_nonce s)) a p = Some c"
  by (auto simp: aead_session_encrypt_def u64_checked_add_def split: option.splits)

lemma session_decrypt_iff:
  "aead_session_decrypt C s c a = (s', Inr p) \<longleftrightarrow>
     \<not> as_recv_failed s \<and> unat (as_recv_nonce s) + 1 < 2 ^ 64 \<and> s' = s \<lparr> as_recv_nonce := as_recv_nonce s + 1 \<rparr>
     \<and> aead_open C (as_recv s) (nonce_from_counter (as_recv_nonce s)) a c = Some p"
  by (auto simp: aead_session_decrypt_def u64_checked_add_def split: option.splits)

lemma aeadIO_eq [io_simps]:
  "aeadIO r inp = (out, Inr (y, rest)) \<longleftrightarrow> out = [] \<and> rest = inp \<and> r = (fst y, Inr (snd y))"
  "authAeadIO r inp = (out, Inr (y, rest)) \<longleftrightarrow> out = [] \<and> rest = inp \<and> r = (fst y, Inr (snd y))"
  by (auto simp: aeadIO_def authAeadIO_def liftIO_eq split: sum.splits prod.splits)

definition server_finished_for ::
  "('k, 'z) session_crypto_scheme \<Rightarrow> bytes \<Rightarrow> bytes \<Rightarrow> exchanged \<Rightarrow> bytes \<Rightarrow> bytes" where
  "server_finished_for C psk key_id ex cf = server_finished_encode
     \<lparr> sf_psk_mac = hmac_sign C psk (server_proof_message key_id (ex_pre_finished ex) cf) \<rparr>"

lemma server_finished_for_decode:
  assumes "mac_ok C"
  shows "server_finished_decode (server_finished_for C psk key_id ex cf) = Inr
      \<lparr> sf_psk_mac = hmac_sign C psk (server_proof_message key_id (ex_pre_finished ex) cf) \<rparr>"
    and "length (server_finished_for C psk key_id ex cf) = SERVER_FINISHED_LEN"
  using assms by (simp_all add: server_finished_decode_iff server_finished_for_def server_finished_encode_def
      mac_ok_def auth_lengths)

lemma client_finish_sound:
  assumes "mac_ok C" "aead_ok C" "client_finish C config ex inp = (out, Inr ((s, sid), rest))"
  obtains fin esf keys where
    "sign_finished C (cfg_credential config) (ex_pre_finished ex) = Inr fin"
    "finished_records C ex (client_finished_encode fin) (server_finished_for C (cc_psk (cfg_credential config))
       (cc_key_id (cfg_credential config)) ex (client_finished_encode fin)) out esf"
    "inp = esf @ rest"
    "client_session_keys C ex (cc_psk (cfg_credential config)) (client_finished_encode fin)
       (server_finished_for C (cc_psk (cfg_credential config)) (cc_key_id (cfg_credential config)) ex
         (client_finished_encode fin)) = Inr keys"
    "s = \<lparr> se_aead = aead_session_new keys, se_padding_profile = cfg_padding_profile config,
           se_client_key_id = cc_key_id (cfg_credential config) \<rparr>"
    "sid = sh_session_id (tv_server_hello (ex_view ex))"
proof -
  let ?pre = "ex_pre_finished ex" and ?cred = "cfg_credential config"
  from assms(3) obtain hk fin s1 esf s2 sfb sf keys where hk: "client_handshake_keys C ex = Inr hk"
    and fin: "sign_finished C ?cred ?pre = Inr fin"
    and enc: "aead_session_encrypt C (aead_session_new hk) (client_finished_encode fin)
      (finished_aad CLIENT_FINISHED_AAD_DOMAIN ?pre) = (s1, Inr out)"
    and rd: "read_exact SERVER_FINISHED_CIPHERTEXT_LEN inp = Inr (esf, rest)"
    and dec: "aead_session_decrypt C s1 esf (finished_aad SERVER_FINISHED_AAD_DOMAIN ?pre) = (s2, Inr sfb)"
    and sf: "server_finished_decode sfb = Inr sf"
      "verify_server_finished C ?cred ?pre (client_finished_encode fin) sf = Inr ()"
    and keys: "client_session_keys C ex (cc_psk ?cred) (client_finished_encode fin) (server_finished_encode sf) = Inr keys"
    and s: "s = \<lparr> se_aead = aead_session_new keys, se_padding_profile = cfg_padding_profile config,
           se_client_key_id = cc_key_id ?cred \<rparr>" "sid = sh_session_id (tv_server_hello (ex_view ex))"
    unfolding client_finish_def Let_def client_handshake_keys_def client_session_keys_def
    by (auto simp: io_simps write_all_def)
  have mac: "server_finished_encode sf
      = server_finished_for C (cc_psk ?cred) (cc_key_id ?cred) ex (client_finished_encode fin)"
    using sf(2) by (cases sf) (simp add: verify_server_finished_iff [OF assms(1)] server_finished_for_def)
  have "finished_records C ex (client_finished_encode fin) (server_finished_encode sf) out esf"
    using hk enc dec sf(1) assms(2)
    by (auto simp: finished_records_def session_encrypt_iff session_decrypt_iff aead_session_new_def aead_ok_def
        server_finished_decode_iff)
  with fin rd keys s show thesis
    unfolding mac by (intro that) (auto simp: read_exact_iff)
qed

lemma client_finish_run:
  assumes "mac_ok C" "aead_ok C" "sign_finished C (cfg_credential config) (ex_pre_finished ex) = Inr fin"
    and "length (client_finished_encode fin) = CLIENT_FINISHED_LEN"
  fixes sf
  defines "sf \<equiv> server_finished_for C (cc_psk (cfg_credential config)) (cc_key_id (cfg_credential config)) ex
    (client_finished_encode fin)"
  assumes "finished_records C ex (client_finished_encode fin) sf ecf esf"
    and "client_session_keys C ex (cc_psk (cfg_credential config)) (client_finished_encode fin) sf = Inr keys"
  shows "client_finish C config ex (esf @ rest) = (ecf, Inr ((\<lparr> se_aead = aead_session_new keys,
    se_padding_profile = cfg_padding_profile config, se_client_key_id = cc_key_id (cfg_credential config) \<rparr>,
    sh_session_id (tv_server_hello (ex_view ex))), rest))"
proof -
  let ?pre = "ex_pre_finished ex" and ?cred = "cfg_credential config"
  let ?aadc = "finished_aad CLIENT_FINISHED_AAD_DOMAIN ?pre" and ?aads = "finished_aad SERVER_FINISHED_AAD_DOMAIN ?pre"
  obtain hk where hk: "client_handshake_keys C ex = Inr hk"
    and ecf: "aead_seal C (send_key hk) (nonce_from_counter 0) ?aadc (client_finished_encode fin) = Some ecf"
    and esf: "aead_seal C (recv_key hk) (nonce_from_counter 0) ?aads sf = Some esf"
    using assms(6) unfolding finished_records_def by blast
  let ?s1 = "(aead_session_new hk) \<lparr> as_send_nonce := 1 \<rparr>"
  have enc: "aead_session_encrypt C (aead_session_new hk) (client_finished_encode fin) ?aadc = (?s1, Inr ecf)"
    using ecf by (simp add: session_encrypt_iff aead_session_new_def)
  have dec: "aead_session_decrypt C ?s1 esf ?aads = (?s1 \<lparr> as_recv_nonce := 1 \<rparr>, Inr sf)"
    using esf assms(2) by (simp add: session_decrypt_iff aead_session_new_def aead_ok_def)
  have len: "length ecf = CLIENT_FINISHED_CIPHERTEXT_LEN" "length esf = SERVER_FINISHED_CIPHERTEXT_LEN"
    using ecf esf assms(2,4) server_finished_for_decode(2) [OF assms(1)]
    by (auto simp: aead_ok_def CLIENT_FINISHED_CIPHERTEXT_LEN_def SERVER_FINISHED_CIPHERTEXT_LEN_def
        CHACHA20_POLY1305_TAG_LEN_def sf_def)
  have rd: "read_exact SERVER_FINISHED_CIPHERTEXT_LEN (esf @ rest) = Inr (esf, rest)"
    by (rule read_exact_append [OF len(2)])
  have ver: "verify_server_finished C ?cred ?pre (client_finished_encode fin)
      \<lparr> sf_psk_mac = hmac_sign C (cc_psk ?cred) (server_proof_message (cc_key_id ?cred) ?pre (client_finished_encode fin)) \<rparr>
      = Inr ()"
    by (simp add: verify_server_finished_iff [OF assms(1)])
  show ?thesis
    using hk assms(7) len(1) unfolding client_handshake_keys_def client_session_keys_def
    by (simp add: client_finish_def Let_def io_run io_write io_read rd assms(3) enc dec ver aeadIO_def authAeadIO_def
        server_finished_for_decode(1) [OF assms(1), folded sf_def] returnIO_def
        server_finished_for_def [symmetric] sf_def)
qed

lemma client_keys_exist:
  assumes "hkdf_ok C"
  obtains hk where "client_handshake_keys C ex = Inr hk"
    and "derive_handshake_traffic_keys C (ex_x_shared ex) (ex_pq_shared ex)
       (ch_client_random (tv_client_hello (ex_view ex))) (sh_server_random (tv_server_hello (ex_view ex)))
       (ex_pre_finished ex) False = Inr (mirror_keys hk)"
proof -
  obtain hk where "client_handshake_keys C ex = Inr hk"
    unfolding client_handshake_keys_def derive_handshake_traffic_keys_def by (rule traffic_keys_exist [OF assms])
  then show thesis
    by (intro that handshake_keys_mirror) (simp_all add: client_handshake_keys_def)
qed

lemma session_keys_exist:
  assumes "hkdf_ok C"
  obtains keys where "client_session_keys C ex psk cf sf = Inr keys"
    and "derive_application_traffic_keys C (ex_x_shared ex) (ex_pq_shared ex) psk
       (ch_client_random (tv_client_hello (ex_view ex))) (sh_server_random (tv_server_hello (ex_view ex)))
       (finished_transcript C (ex_pre_finished ex) cf sf) False = Inr (mirror_keys keys)"
proof -
  obtain keys where "client_session_keys C ex psk cf sf = Inr keys"
    unfolding client_session_keys_def derive_application_traffic_keys_def by (rule traffic_keys_exist [OF assms])
  then show thesis
    by (intro that application_keys_mirror) (simp_all add: client_session_keys_def)
qed

definition client_finished_valid ::
  "('k, 'z) session_crypto_scheme \<Rightarrow> authorized_client \<Rightarrow> exchanged \<Rightarrow> client_finished \<Rightarrow> bool" where
  "client_finished_valid C e ex fin \<longleftrightarrow> cf_key_id fin = ac_key_id e
     \<and> ed25519_verify C (ac_public_key e) (client_proof_message (ac_key_id e) (ex_pre_finished ex)) (cf_signature fin)
     \<and> cf_psk_mac fin = hmac_sign C (ac_psk e) (client_proof_message (ac_key_id e) (ex_pre_finished ex))"

lemma make_server_finished_eq:
  "server_finished_encode (make_server_finished C \<lparr> vc_key_id = key_id, vc_psk = psk \<rparr> (ex_pre_finished ex) cf)
     = server_finished_for C psk key_id ex cf"
  by (simp add: make_server_finished_def Let_def server_finished_for_def hmac_sha256_def)

lemma server_finish_sound:
  assumes "mac_ok C" "aead_ok C" "hkdf_ok C" "clients_sorted clients"
    and "server_finish C clients key_id ex inp = (out, Inr ((s, hello, sid), rest))"
  obtains e fin ecf keys where "e \<in> set clients" "ac_key_id e = key_id" "client_finished_valid C e ex fin"
    "finished_records C ex (client_finished_encode fin)
       (server_finished_for C (ac_psk e) key_id ex (client_finished_encode fin)) ecf out"
    "inp = ecf @ rest"
    "client_session_keys C ex (ac_psk e) (client_finished_encode fin)
       (server_finished_for C (ac_psk e) key_id ex (client_finished_encode fin)) = Inr keys"
    "s = \<lparr> se_aead = aead_session_new (mirror_keys keys), se_padding_profile = ch_padding_profile hello,
           se_client_key_id = key_id \<rparr>"
    "hello = tv_client_hello (ex_view ex)" "sid = sh_session_id (tv_server_hello (ex_view ex))"
proof -
  let ?pre = "ex_pre_finished ex"
  obtain hk where hk: "client_handshake_keys C ex = Inr hk" and hk': "derive_handshake_traffic_keys C (ex_x_shared ex)
      (ex_pq_shared ex) (ch_client_random (tv_client_hello (ex_view ex)))
      (sh_server_random (tv_server_hello (ex_view ex))) ?pre False = Inr (mirror_keys hk)"
    by (rule client_keys_exist [OF assms(3)])
  from assms(5) obtain s1 ecf s2 cfb fin v keys' where
    rd: "read_exact CLIENT_FINISHED_CIPHERTEXT_LEN inp = Inr (ecf, rest)"
    and dec: "aead_session_decrypt C (aead_session_new (mirror_keys hk)) ecf
      (finished_aad CLIENT_FINISHED_AAD_DOMAIN ?pre) = (s1, Inr cfb)"
    and fin: "client_finished_decode cfb = Inr fin" "verify_finished_for_key C clients ?pre fin key_id = Inr v"
    and enc: "aead_session_encrypt C s1 (server_finished_encode (make_server_finished C v ?pre (client_finished_encode fin)))
      (finished_aad SERVER_FINISHED_AAD_DOMAIN ?pre) = (s2, Inr out)"
    and keys': "derive_application_traffic_keys C (ex_x_shared ex) (ex_pq_shared ex) (vc_psk v)
       (ch_client_random (tv_client_hello (ex_view ex))) (sh_server_random (tv_server_hello (ex_view ex)))
       (finished_transcript C ?pre (client_finished_encode fin)
         (server_finished_encode (make_server_finished C v ?pre (client_finished_encode fin)))) False = Inr keys'"
    and s: "s = \<lparr> se_aead = aead_session_new keys', se_padding_profile = ch_padding_profile hello,
           se_client_key_id = vc_key_id v \<rparr>" "hello = tv_client_hello (ex_view ex)"
           "sid = sh_session_id (tv_server_hello (ex_view ex))"
    unfolding server_finish_def Let_def hk' by (auto simp: io_simps write_all_def)
  from fin(2) obtain e where e: "e \<in> set clients" "ac_key_id e = key_id" "client_finished_valid C e ex fin"
    and v: "v = \<lparr> vc_key_id = key_id, vc_psk = ac_psk e \<rparr>"
    unfolding verify_finished_iff [OF assms(1,4)] client_finished_valid_def by auto
  have rec: "finished_records C ex (client_finished_encode fin)
      (server_finished_for C (ac_psk e) key_id ex (client_finished_encode fin)) ecf out"
    using hk dec enc fin(1) assms(2) unfolding v make_server_finished_eq
    by (auto simp: finished_records_def session_encrypt_iff session_decrypt_iff aead_session_new_def aead_ok_def
        client_finished_decode_iff mirror_keys_def)
  obtain keys where "client_session_keys C ex (ac_psk e) (client_finished_encode fin)
       (server_finished_for C (ac_psk e) key_id ex (client_finished_encode fin)) = Inr keys" "keys' = mirror_keys keys"
    using session_keys_exist [OF assms(3)] keys' unfolding v make_server_finished_eq by (metis Inr_inject
      verified_client.select_convs(2))
  with e rec rd s v show thesis
    by (intro that [of e fin ecf keys]) (auto simp: read_exact_iff)
qed

end
