(* ===== verification/Session_Agreement.thy ===== *)
theory Session_Agreement
  imports Session_Handshake
begin

text \<open>
  The two roles of the handshake put together. An honest client and an honest server whose
  bytes reach each other both finish, with mirrored keys, the same session id and the same
  key id; a role that accepts has verified what the protocol promises about its peer; and
  a server whose client keys sign only client transcripts accepts only a transcript the
  client has seen, unless SHA-256 collides.
\<close>

section \<open>The honest run\<close>

lemma server_finish_run:
  assumes "mac_ok C" "aead_ok C" "hkdf_ok C" "clients_sorted clients" "e \<in> set clients"
    and "client_finished_valid C e ex fin" "client_finished_decode (client_finished_encode fin) = Inr fin"
    and "finished_records C ex (client_finished_encode fin)
      (server_finished_for C (ac_psk e) (ac_key_id e) ex (client_finished_encode fin)) ecf esf"
    and "client_session_keys C ex (ac_psk e) (client_finished_encode fin)
      (server_finished_for C (ac_psk e) (ac_key_id e) ex (client_finished_encode fin)) = Inr keys"
  shows "server_finish C clients (ac_key_id e) ex (ecf @ rest) = (esf, Inr ((\<lparr> se_aead = aead_session_new (mirror_keys keys),
    se_padding_profile = ch_padding_profile (tv_client_hello (ex_view ex)), se_client_key_id = ac_key_id e \<rparr>,
    tv_client_hello (ex_view ex), sh_session_id (tv_server_hello (ex_view ex))), rest))"
proof -
  let ?pre = "ex_pre_finished ex" and ?cf = "client_finished_encode fin"
  let ?aadc = "finished_aad CLIENT_FINISHED_AAD_DOMAIN ?pre" and ?aads = "finished_aad SERVER_FINISHED_AAD_DOMAIN ?pre"
  let ?sf = "server_finished_for C (ac_psk e) (ac_key_id e) ex ?cf"
  obtain hk where hk: "client_handshake_keys C ex = Inr hk"
    and hk': "derive_handshake_traffic_keys C (ex_x_shared ex) (ex_pq_shared ex)
       (ch_client_random (tv_client_hello (ex_view ex))) (sh_server_random (tv_server_hello (ex_view ex))) ?pre False
       = Inr (mirror_keys hk)"
    by (rule client_keys_exist [OF assms(3)])
  have ecf: "aead_seal C (send_key hk) (nonce_from_counter 0) ?aadc ?cf = Some ecf"
    and esf: "aead_seal C (recv_key hk) (nonce_from_counter 0) ?aads ?sf = Some esf"
    using assms(8) hk unfolding finished_records_def by auto
  let ?s1 = "(aead_session_new (mirror_keys hk)) \<lparr> as_recv_nonce := 1 \<rparr>"
  have dec: "aead_session_decrypt C (aead_session_new (mirror_keys hk)) ecf ?aadc = (?s1, Inr ?cf)"
    using ecf assms(2) by (simp add: session_decrypt_iff aead_session_new_def aead_ok_def mirror_keys_def)
  have enc: "aead_session_encrypt C ?s1 ?sf ?aads = (?s1 \<lparr> as_send_nonce := 1 \<rparr>, Inr esf)"
    using esf by (simp add: session_encrypt_iff aead_session_new_def mirror_keys_def)
  have len: "length ecf = CLIENT_FINISHED_CIPHERTEXT_LEN" "length esf = SERVER_FINISHED_CIPHERTEXT_LEN"
    using ecf esf assms(2,7) server_finished_for_decode(2) [OF assms(1)]
    by (auto simp: aead_ok_def CLIENT_FINISHED_CIPHERTEXT_LEN_def SERVER_FINISHED_CIPHERTEXT_LEN_def
        CHACHA20_POLY1305_TAG_LEN_def client_finished_decode_def split: if_splits)
  have rd: "read_exact CLIENT_FINISHED_CIPHERTEXT_LEN (ecf @ rest) = Inr (ecf, rest)"
    by (rule read_exact_append [OF len(1)])
  have ver: "verify_finished_for_key C clients ?pre fin (ac_key_id e) = Inr \<lparr> vc_key_id = ac_key_id e, vc_psk = ac_psk e \<rparr>"
    using assms(5,6) unfolding verify_finished_iff [OF assms(1,4)] client_finished_valid_def by auto
  have keys: "derive_application_traffic_keys C (ex_x_shared ex) (ex_pq_shared ex) (ac_psk e)
       (ch_client_random (tv_client_hello (ex_view ex))) (sh_server_random (tv_server_hello (ex_view ex)))
       (finished_transcript C ?pre ?cf ?sf) False = Inr (mirror_keys keys)"
    using assms(9) application_keys_mirror unfolding client_session_keys_def by blast
  show ?thesis
    using len(2)
    by (simp add: server_finish_def Let_def io_run io_write io_read hk' rd dec enc ver keys assms(7) aeadIO_def
        authAeadIO_def make_server_finished_eq returnIO_def)
qed

text \<open>
  What an honest pair brings: the credential is enrolled, the server's key pair is one and
  its fingerprint is pinned, the carrier is supported, the draws have their sizes and the
  X25519 secret is contributory.
\<close>

definition enrolled :: "client_credential \<Rightarrow> authorized_clients \<Rightarrow> bool" where
  "enrolled cred clients \<longleftrightarrow> (\<exists>e \<in> set clients. ac_key_id e = cc_key_id cred
     \<and> ac_public_key e = cc_public_key cred \<and> ac_psk e = cc_psk cred)"

definition client_draws_typed :: "client_draws \<Rightarrow> bool" where
  "client_draws_typed d \<longleftrightarrow> (\<exists>n. cd_access_nonce d = Some n \<and> length n = 32) \<and> length (cd_client_random d) = 16"

definition honest_setup ::
  "('k, 'z) session_crypto_scheme \<Rightarrow> client_draws \<Rightarrow> client_config \<Rightarrow> pin_slots \<Rightarrow> server_draws \<Rightarrow> 'k server_state
    \<Rightarrow> authorized_clients \<Rightarrow> bool" where
  "honest_setup C cd config pins sd state clients \<longleftrightarrow> primitives_ok C
     \<and> cfg_camouflage config \<noteq> DnsChunk \<and> credential_ok C (cfg_credential config)
     \<and> clients_ok clients \<and> enrolled (cfg_credential config) clients
     \<and> st_public state = mlkem_encapsulation_key C (st_secret state)
     \<and> mlkem_fingerprint C (st_public state) \<in> set (pins_as_slice pins)
     \<and> client_draws_typed cd \<and> server_draws_typed sd \<and> sd_dummy_psk sd \<noteq> None
     \<and> (\<exists>b \<in> set (x25519 C (cd_x_secret cd) (x25519_public C (sd_x_secret sd))). b \<noteq> 0)"

lemma honest_exchanged:
  assumes "exchange_ok C" "kem_ok C" "st_public state = mlkem_encapsulation_key C (st_secret state)"
  shows "server_exchanged C magic sd state car (cc_key_id (cfg_credential config), proofs)
      (honest_client_hello C magic cd config (st_public state))
    = client_exchanged C magic cd config car proofs (st_public state) (honest_server_hello C sd)"
  using assms by (simp add: server_exchanged_def client_exchanged_def Let_def honest_client_hello_def
      honest_server_hello_def exchange_ok_def kem_ok_def)

lemma honest_finished:
  assumes "primitives_ok C" "credential_ok C (cfg_credential config)" "length (cc_key_id (cfg_credential config)) = 16"
  obtains fin ecf esf keys where
    "sign_finished C (cfg_credential config) (ex_pre_finished ex) = Inr fin"
    "client_finished_decode (client_finished_encode fin) = Inr fin"
    "\<And>e. ac_key_id e = cc_key_id (cfg_credential config) \<Longrightarrow> ac_public_key e = cc_public_key (cfg_credential config) \<Longrightarrow>
      ac_psk e = cc_psk (cfg_credential config) \<Longrightarrow> client_finished_valid C e ex fin"
    "finished_records C ex (client_finished_encode fin) (server_finished_for C (cc_psk (cfg_credential config))
       (cc_key_id (cfg_credential config)) ex (client_finished_encode fin)) ecf esf"
    "client_session_keys C ex (cc_psk (cfg_credential config)) (client_finished_encode fin)
       (server_finished_for C (cc_psk (cfg_credential config)) (cc_key_id (cfg_credential config)) ex
         (client_finished_encode fin)) = Inr keys"
proof -
  note ok = primitives_okD [OF assms(1)]
  let ?cred = "cfg_credential config" and ?pre = "ex_pre_finished ex"
  let ?msg = "client_proof_message (cc_key_id ?cred) ?pre"
  let ?fin = "\<lparr> cf_key_id = cc_key_id ?cred, cf_signature = ed25519_sign C (cc_seed ?cred) ?msg,
    cf_psk_mac = hmac_sign C (cc_psk ?cred) ?msg \<rparr>"
  let ?cf = "client_finished_encode ?fin" and ?sf = "server_finished_for C (cc_psk ?cred) (cc_key_id ?cred) ex
    (client_finished_encode ?fin)"
  have sig: "length (ed25519_sign C (cc_seed ?cred) ?msg) = 64"
    "ed25519_verify C (cc_public_key ?cred) ?msg (ed25519_sign C (cc_seed ?cred) ?msg)"
    using assms(2) ok(5) unfolding credential_ok_def signature_ok_def by blast+
  have dec: "client_finished_decode ?cf = Inr ?fin"
    using sig(1) assms(3) ok(2) by (simp add: client_finished_decode_iff mac_ok_def)
  obtain hk where hk: "client_handshake_keys C ex = Inr hk"
    by (rule client_keys_exist [OF ok(4)])
  have "length ?cf \<le> 65536" "length ?sf \<le> 65536"
    using dec server_finished_for_decode(2) [OF ok(2)]
    by (auto simp: client_finished_decode_def auth_lengths split: if_splits)
  then obtain ecf esf where "finished_records C ex ?cf ?sf ecf esf"
    using ok(3) hk unfolding aead_ok_def finished_records_def by (metis not_None_eq Inr_inject)
  moreover obtain keys where "client_session_keys C ex (cc_psk ?cred) ?cf ?sf = Inr keys"
    by (rule session_keys_exist [OF ok(4)])
  ultimately show thesis
    using sig(2) dec by (intro that [of ?fin ecf esf keys] sign_finished_ok assms(2) ok(5))
      (simp_all add: client_finished_valid_def)
qed

lemma honest_handshake:
  assumes "honest_setup C cd config pins sd state clients"
  obtains c2s s2c keys where
    "\<And>rest. client_connect_pins_bound C magic cd config pins car (s2c @ rest) = (c2s,
       Inr ((\<lparr> se_aead = aead_session_new keys, se_padding_profile = cfg_padding_profile config,
         se_client_key_id = cc_key_id (cfg_credential config) \<rparr>, sd_session_id sd), rest))"
    "\<And>rest. server_accept_bound C magic sd state clients (cfg_camouflage config) car (c2s @ rest) = (s2c,
       Inr ((\<lparr> se_aead = aead_session_new (mirror_keys keys), se_padding_profile = cfg_padding_profile config,
         se_client_key_id = cc_key_id (cfg_credential config) \<rparr>,
         honest_client_hello C magic cd config (st_public state), sd_session_id sd), rest))"
proof -
  let ?cred = "cfg_credential config" and ?cam = "cfg_camouflage config" and ?pk = "st_public state"
  have prim: "primitives_ok C" and cam: "?cam \<noteq> DnsChunk" and cred: "credential_ok C ?cred"
    and clients: "clients_ok clients" and enr: "enrolled ?cred clients"
    and pk: "?pk = mlkem_encapsulation_key C (st_secret state)"
    and pin: "mlkem_fingerprint C ?pk \<in> set (pins_as_slice pins)"
    and cdt: "client_draws_typed cd" and sdt: "server_draws_typed sd"
    and contr: "\<exists>b \<in> set (x25519 C (cd_x_secret cd) (x25519_public C (sd_x_secret sd))). b \<noteq> 0"
    using assms unfolding honest_setup_def by blast+
  obtain dummy where dummy: "sd_dummy_psk sd = Some dummy"
    using assms unfolding honest_setup_def by blast
  note ok = primitives_okD [OF prim]
  obtain e where e: "e \<in> set clients" "ac_key_id e = cc_key_id ?cred" "ac_public_key e = cc_public_key ?cred"
    "ac_psk e = cc_psk ?cred"
    using enr unfolding enrolled_def by blast
  have kid: "length (cc_key_id ?cred) = 16" and srt: "clients_sorted clients"
    using clients e(1,2) by (auto simp: clients_ok_def authorized_client_typed_def)
  obtain nonce where nonce: "cd_access_nonce cd = Some nonce" "length nonce = 32"
    using cdt unfolding client_draws_typed_def by blast
  let ?sp = "server_flight C magic sd (cc_psk ?cred) (cc_key_id ?cred) ?cam car"
  let ?sap = "server_access_proof_encode ?sp"
  let ?cap = "client_proof_for C magic (cc_psk ?cred) (cc_key_id ?cred) ?cam car ?sp nonce"
  let ?ch = "honest_client_hello C magic cd config ?pk" and ?sh = "honest_server_hello C sd"
  let ?ex = "client_exchanged C magic cd config car (?sap, ?cap) ?pk ?sh"
  obtain fin ecf esf keys where fin: "sign_finished C ?cred (ex_pre_finished ?ex) = Inr fin"
    "client_finished_decode (client_finished_encode fin) = Inr fin" "client_finished_valid C e ?ex fin"
    and rec: "finished_records C ?ex (client_finished_encode fin)
      (server_finished_for C (cc_psk ?cred) (cc_key_id ?cred) ?ex (client_finished_encode fin)) ecf esf"
    and keys: "client_session_keys C ?ex (cc_psk ?cred) (client_finished_encode fin)
      (server_finished_for C (cc_psk ?cred) (cc_key_id ?cred) ?ex (client_finished_encode fin)) = Inr keys"
    using honest_finished [OF prim cred kid, of ?ex] e(2-4) by metis
  have len: "length (client_finished_encode fin) = CLIENT_FINISHED_LEN"
    using fin(2) by (simp add: client_finished_decode_def split: if_splits)
  have kem: "length ?pk = MLKEM_PUBLIC_KEY_SIZE" "mlkem_public_valid C ?pk"
    "length (fst (mlkem_encap C ?pk (cd_kem_coins cd))) = MLKEM_CIPHERTEXT_SIZE"
    using ok(7) pk by (simp_all add: kem_ok_def Let_def)
  have typed: "server_hello_typed ?sh" "client_hello_typed ?ch"
    using sdt cdt ok(6) by (simp_all add: server_hello_typed_def client_hello_typed_def honest_server_hello_def
        honest_client_hello_def server_draws_typed_def client_draws_typed_def exchange_ok_def)
  have contr': "\<exists>b \<in> set (x25519 C (sd_x_secret sd) (ch_x25519_public ?ch)). b \<noteq> 0"
    using contr ok(6) by (simp add: honest_client_hello_def exchange_ok_def)
  note cgate = client_gate_run [OF ok(2) cam nonce(1) server_flight_valid [OF ok(2) sdt], of magic car]
  note sgate = server_gate_run [OF ok(2,8) clients sdt dummy cam e(1) nonce(2), of magic car, unfolded e(2,4)]
  have contr2: "\<exists>b \<in> set (x25519 C (cd_x_secret cd) (sh_x25519_public ?sh)). b \<noteq> 0"
    using contr by (simp add: honest_server_hello_def)
  note cex = client_exchange_run [OF kem(1) pin kem(2) typed(1) contr2 kem(3)]
  have ch: "length (ch_mlkem_ciphertext ?ch) = MLKEM_CIPHERTEXT_SIZE" "ch_magic ?ch = magic" "ch_version ?ch = PROTO_VERSION"
    "ch_camouflage ?ch = ?cam"
    using kem(3) by (simp_all add: honest_client_hello_def)
  note sex = server_exchange_run [OF kem(1) typed(2) ch contr', of car "(cc_key_id ?cred, ?sap, ?cap)",
      unfolded honest_exchanged [OF ok(6,7) pk]]
  note cfin = client_finish_run [OF ok(2,3) fin(1) len rec keys]
  note sfin = server_finish_run [OF ok(2,3,4) srt e(1) fin(3,2), unfolded e(2,4), OF rec keys]
  have view: "tv_client_hello (ex_view ?ex) = ?ch" "sh_session_id (tv_server_hello (ex_view ?ex)) = sd_session_id sd"
    "ch_padding_profile ?ch = cfg_padding_profile config"
    by (simp_all add: client_exchanged_def Let_def honest_server_hello_def honest_client_hello_def)
  show thesis
  proof (rule that)
    fix rest
    show "client_connect_pins_bound C magic cd config pins car
        ((?sap @ (be16 1184 @ ?pk @ server_hello_wire ?sh) @ esf) @ rest)
      = ((cc_key_id ?cred @ ?cap) @ client_hello_wire ?ch @ ecf,
         Inr ((\<lparr> se_aead = aead_session_new keys, se_padding_profile = cfg_padding_profile config,
           se_client_key_id = cc_key_id ?cred \<rparr>, sd_session_id sd), rest))"
      by (simp add: client_connect_pins_bound_def bindIO_def cgate cex cfin view)
    show "server_accept_bound C magic sd state clients ?cam car
        (((cc_key_id ?cred @ ?cap) @ client_hello_wire ?ch @ ecf) @ rest)
      = (?sap @ (be16 1184 @ ?pk @ server_hello_wire ?sh) @ esf,
         Inr ((\<lparr> se_aead = aead_session_new (mirror_keys keys), se_padding_profile = cfg_padding_profile config,
           se_client_key_id = cc_key_id ?cred \<rparr>, ?ch, sd_session_id sd), rest))"
      by (simp add: server_accept_bound_def bindIO_def sgate sex sfin view)
  qed
qed

lemma honest_streams:
  assumes "aead_ok C" "list_all outbound_ok ms" "length ms < 2 ^ 64"
    and "se_aead a = aead_session_new keys" "se_aead b = aead_session_new (mirror_keys keys)"
  shows "recv_seq C (length ms) (snd (session_split b)) (snd (send_seq C (fst (session_split a)) ms) @ rest)
      = map (delivered (se_padding_profile a)) ms"
    and "recv_seq C (length ms) (snd (session_split a)) (snd (send_seq C (fst (session_split b)) ms) @ rest)
      = map (delivered (se_padding_profile b)) ms"
  using stream_delivered [OF assms(1,2), of "fst (session_split a)" "snd (session_split b)" rest]
    stream_delivered [OF assms(1,2), of "fst (session_split b)" "snd (session_split a)" rest] assms(3-)
  by (simp_all add: session_split_def aead_session_split_def aead_session_new_def mirror_keys_def)

section \<open>What an accepting role has verified\<close>

text \<open>
  \<open>client_completed\<close>: the client's Finished record carries its signature on the transcript, the
  server's record the MAC that only a holder of the secret computes, and the session holds the
  keys derived from both. \<open>server_completed\<close> is the server's side for an enrolled client.
\<close>

definition client_completed ::
  "('k, 'z) session_crypto_scheme \<Rightarrow> client_config \<Rightarrow> exchanged \<Rightarrow> bytes \<Rightarrow> bytes \<Rightarrow> auth_session \<Rightarrow> bool" where
  "client_completed C config ex ecf esf s \<longleftrightarrow> (\<exists>fin keys.
     let cred = cfg_credential config; cf = client_finished_encode fin;
         sf = server_finished_for C (cc_psk cred) (cc_key_id cred) ex cf in
     sign_finished C cred (ex_pre_finished ex) = Inr fin \<and> finished_records C ex cf sf ecf esf
     \<and> client_session_keys C ex (cc_psk cred) cf sf = Inr keys
     \<and> s = \<lparr> se_aead = aead_session_new keys, se_padding_profile = cfg_padding_profile config,
             se_client_key_id = cc_key_id cred \<rparr>)"

definition server_completed ::
  "('k, 'z) session_crypto_scheme \<Rightarrow> authorized_client \<Rightarrow> exchanged \<Rightarrow> bytes \<Rightarrow> bytes \<Rightarrow> auth_session \<Rightarrow> bool" where
  "server_completed C e ex ecf esf s \<longleftrightarrow> (\<exists>fin keys.
     let cf = client_finished_encode fin; sf = server_finished_for C (ac_psk e) (ac_key_id e) ex cf in
     client_finished_valid C e ex fin \<and> finished_records C ex cf sf ecf esf
     \<and> client_session_keys C ex (ac_psk e) cf sf = Inr keys
     \<and> s = \<lparr> se_aead = aead_session_new (mirror_keys keys),
             se_padding_profile = ch_padding_profile (tv_client_hello (ex_view ex)), se_client_key_id = ac_key_id e \<rparr>)"

lemma client_connect_sound:
  assumes "mac_ok C" "aead_ok C"
    and "client_connect_pins_bound C magic draws config pins car inp = (out, Inr ((s, sid), rest))"
  shows "\<exists>sp nonce pk sh ecf esf. let cred = cfg_credential config;
       cap = client_proof_for C magic (cc_psk cred) (cc_key_id cred) (cfg_camouflage config) car sp nonce;
       ex = client_exchanged C magic draws config car (server_access_proof_encode sp, cap) pk sh in
     server_proof_valid C magic (cc_psk cred) (cc_key_id cred) (cfg_camouflage config) car sp
     \<and> mlkem_fingerprint C pk \<in> set (pins_as_slice pins)
     \<and> inp = server_access_proof_encode sp @ (be16 1184 @ pk @ server_hello_wire sh) @ esf @ rest
     \<and> client_completed C config ex ecf esf s \<and> sid = sh_session_id sh"
proof -
  let ?cred = "cfg_credential config"
  from assms(3) obtain o1 o2 o3 proofs r1 ex r2 where
    gate: "client_access_gate C magic draws config car inp = (o1, Inr (proofs, r1))"
    and kex: "client_key_exchange C magic draws config pins car proofs r1 = (o2, Inr (ex, r2))"
    and fin: "client_finish C config ex r2 = (o3, Inr ((s, sid), rest))"
    unfolding client_connect_pins_bound_def by (auto simp: bindIO_eq_Inr)
  from client_gate_sound [OF assms(1) gate] obtain sp nonce where
    sp: "server_proof_valid C magic (cc_psk ?cred) (cc_key_id ?cred) (cfg_camouflage config) car sp"
    "inp = fst proofs @ r1" and proofs: "proofs = (server_access_proof_encode sp,
      client_proof_for C magic (cc_psk ?cred) (cc_key_id ?cred) (cfg_camouflage config) car sp nonce)"
    by (metis prod.collapse)
  obtain pk sh where pk: "mlkem_fingerprint C pk \<in> set (pins_as_slice pins)"
    "r1 = be16 1184 @ pk @ server_hello_wire sh @ r2" and ex: "ex = client_exchanged C magic draws config car proofs pk sh"
    by (rule client_exchange_sound [OF kex])
  have "\<exists>esf. r2 = esf @ rest \<and> client_completed C config ex o3 esf s"
    by (rule client_finish_sound [OF assms(1,2) fin]) (auto simp: client_completed_def Let_def)
  then obtain esf where esf: "r2 = esf @ rest" "client_completed C config ex o3 esf s"
    by blast
  have "sid = sh_session_id (tv_server_hello (ex_view ex))"
    by (rule client_finish_sound [OF assms(1,2) fin])
  then have "sid = sh_session_id sh"
    by (simp add: ex client_exchanged_def Let_def)
  with sp pk esf show ?thesis
    unfolding Let_def ex proofs
    by (intro exI [of _ sp] exI [of _ nonce] exI [of _ pk] exI [of _ sh] exI [of _ o3] exI [of _ esf]) simp
qed

lemma server_accept_sound:
  assumes "primitives_ok C" "clients_ok clients" "server_draws_typed draws"
    and "server_accept_bound C magic draws state clients cam car inp = (out, Inr ((s, hello, sid), rest))"
  shows "\<exists>e \<in> set clients. \<exists>nonce ecf esf. let sp = server_flight C magic draws (ac_psk e) (ac_key_id e) cam car;
       sap = server_access_proof_encode sp;
       cap = client_proof_for C magic (ac_psk e) (ac_key_id e) cam car sp nonce;
       ex = server_exchanged C magic draws state car (ac_key_id e, sap, cap) hello in
     length nonce = 32 \<and> client_hello_typed hello \<and> length (ch_mlkem_ciphertext hello) = MLKEM_CIPHERTEXT_SIZE
     \<and> length (st_public state) = MLKEM_PUBLIC_KEY_SIZE
     \<and> ch_magic hello = magic \<and> ch_version hello = PROTO_VERSION \<and> ch_camouflage hello = cam
     \<and> inp = (ac_key_id e @ cap) @ client_hello_wire hello @ ecf @ rest
     \<and> out = sap @ (be16 1184 @ st_public state @ server_hello_wire (honest_server_hello C draws)) @ esf
     \<and> server_completed C e ex ecf esf s \<and> sid = sd_session_id draws"
proof -
  note ok = primitives_okD [OF assms(1)]
  from assms(4) obtain o1 o2 o3 ah sap cap kid r1 ex r2 where
    gate: "server_access_gate C magic draws clients cam car inp = (o1, Inr ((ah, sap, cap, kid), r1))"
    and kex: "server_key_exchange C magic draws state cam car (ah, sap, cap) r1 = (o2, Inr (ex, r2))"
    and fin: "server_finish C clients kid ex r2 = (o3, Inr ((s, hello, sid), rest))"
    and out: "out = o1 @ o2 @ o3"
    unfolding server_accept_bound_def by (auto simp: bindIO_eq_Inr)
  from server_gate_sound [OF ok(2,8) assms(2,3) gate] obtain e nonce where e: "e \<in> set clients" "ac_key_id e = ah"
    and kid: "kid = ah" and nonce: "length nonce = 32"
    and sap: "sap = server_access_proof_encode (server_flight C magic draws (ac_psk e) ah cam car)"
    and cap: "cap = client_proof_for C magic (ac_psk e) ah cam car (server_flight C magic draws (ac_psk e) ah cam car) nonce"
    and io: "inp = ah @ cap @ r1" "o1 = sap"
    by blast
  obtain ch where pk: "length (st_public state) = MLKEM_PUBLIC_KEY_SIZE" and ch: "client_hello_typed ch"
    "length (ch_mlkem_ciphertext ch) = MLKEM_CIPHERTEXT_SIZE" "ch_magic ch = magic" "ch_version ch = PROTO_VERSION"
    "ch_camouflage ch = cam" and r1: "r1 = client_hello_wire ch @ r2"
    and ex: "ex = server_exchanged C magic draws state car (ah, sap, cap) ch"
    and o2: "o2 = be16 1184 @ st_public state @ server_hello_wire (honest_server_hello C draws)"
    by (rule server_exchange_sound [OF kex])
  have srt: "clients_sorted clients"
    using assms(2) by (simp add: clients_ok_def)
  obtain e' fin ecf keys where e': "e' \<in> set clients" "ac_key_id e' = kid" and
    comp: "server_completed C e' ex ecf o3 s" and r2: "r2 = ecf @ rest"
    and hello: "hello = tv_client_hello (ex_view ex)" "sid = sh_session_id (tv_server_hello (ex_view ex))"
    by (rule server_finish_sound [OF ok(2-4) srt fin]) (auto simp: server_completed_def Let_def)
  have "e' = e"
    using clients_sorted_unique [OF srt] e e' kid by blast
  moreover have "hello = ch" "sid = sd_session_id draws"
    using hello by (simp_all add: ex server_exchanged_def Let_def honest_server_hello_def)
  ultimately show ?thesis
    using e(1) comp nonce pk ch r1 r2 o2 out io unfolding Let_def ex sap cap e(2) [symmetric]
    by (intro bexI [of _ e] exI [of _ nonce] exI [of _ ecf] exI [of _ o3]) simp_all
qed

text \<open>A server reveals more than its access proof only to a proof of an enrolled secret.\<close>

lemma server_output_gated:
  assumes "mac_ok C" "select_ok C" "clients_ok clients" "server_draws_typed draws"
    and "fst (server_accept_bound C magic draws state clients cam car inp) = out" "length out > SERVER_ACCESS_PROOF_LEN"
  shows "\<exists>e \<in> set clients. \<exists>nonce rest. length nonce = 32 \<and> inp = ac_key_id e @ client_proof_for C magic (ac_psk e)
    (ac_key_id e) cam car (server_flight C magic draws (ac_psk e) (ac_key_id e) cam car) nonce @ rest"
proof (cases "server_access_gate C magic draws clients cam car inp")
  case (Pair o1 res)
  show ?thesis
  proof (cases res)
    case (Inl err)
    then have "out = o1"
      using assms(5) Pair by (simp add: server_accept_bound_def bindIO_def)
    with server_gate_error [OF assms(1-4)] Pair Inl assms(6) show ?thesis
      by fastforce
  next
    case (Inr v)
    then obtain ah sap cap kid rest where
      "server_access_gate C magic draws clients cam car inp = (o1, Inr ((ah, sap, cap, kid), rest))"
      using Pair by (cases v) auto
    from server_gate_sound [OF assms(1-4) this] show ?thesis
      by blast
  qed
qed

end
