(* ===== verification/Session_Sample.thy ===== *)
theory Session_Sample
  imports Client_Allowlist Session_Agreement
begin

text \<open>
  Concrete instances of the parameters of the session layer: a \<open>session_crypto\<close> that satisfies
  \<open>primitives_ok\<close>, document functions that satisfy \<open>documents_ok\<close>, and an honest client and
  server over them.
\<close>

section \<open>Primitives\<close>

definition pad32 :: "bytes \<Rightarrow> bytes" where
  "pad32 b = take 32 (b @ replicate 32 7)"

lemma length_pad32 [simp]: "length (pad32 b) = 32"
  by (simp add: pad32_def)

definition sample_hash :: "bytes \<Rightarrow> bytes" where
  "sample_hash m = take 32 (rev m @ replicate 32 7)"

lemma length_sample_hash [simp]: "length (sample_hash m) = 32"
  by (simp add: sample_hash_def)

definition sample_tag :: "bytes \<Rightarrow> bytes" where
  "sample_tag k = take 16 (k @ replicate 16 0)"

lemma length_sample_tag [simp]: "length (sample_tag k) = 16"
  by (simp add: sample_tag_def)

definition sample_crypto :: "unit session_crypto" where
  "sample_crypto = \<lparr>
     sha256 = sample_hash, ed25519_verify = (\<lambda>pk m sig. sig = replicate 64 9), x25519 = (\<lambda>a b. replicate 32 1),
     hmac_sign = (\<lambda>k m. pad32 k), hmac_verify = (\<lambda>k m t. t = pad32 k),
     hkdf = (\<lambda>s i d n. Some (take n (i @ replicate n 0))),
     ed25519_public = (\<lambda>seed. Some (pad32 seed)), ed25519_sign = (\<lambda>seed m. replicate 64 9),
     x25519_public = pad32,
     aead_seal = (\<lambda>k n a p. Some (p @ sample_tag k)),
     aead_open = (\<lambda>k n a c. if length c \<ge> 16 \<and> drop (length c - 16) c = sample_tag k
       then Some (take (length c - 16) c) else None),
     mlkem_public_valid = (\<lambda>b. True), mlkem_encap = (\<lambda>pk coins. (replicate 1088 0, replicate 32 2)),
     mlkem_decap = (\<lambda>sk c. replicate 32 2), mlkem_encapsulation_key = (\<lambda>sk. replicate 1184 3),
     mlkem_from_seed = (\<lambda>seed. ()), mlkem_to_seed = (\<lambda>sk. Some (replicate 64 4)),
     mlkem_from_expanded = (\<lambda>b. Some ()), mlkem_to_expanded = (\<lambda>sk. replicate 2400 5),
     ct_select = (\<lambda>a b c. if c then b else a), ct_array_eq = (=) \<rparr>"

definition sample_cred :: client_credential where
  "sample_cred = \<lparr> cc_seed = replicate 32 5, cc_public_key = replicate 32 5, cc_psk = replicate 32 6,
     cc_key_id = derive_key_id sample_crypto (replicate 32 5) \<rparr>"

lemma sample_open_iff:
  "(if length c \<ge> 16 \<and> drop (length c - 16) c = sample_tag k then Some (take (length c - 16) c) else None) = Some p
     \<longleftrightarrow> p @ sample_tag k = c"
proof
  assume "p @ sample_tag k = c"
  then show "(if length c \<ge> 16 \<and> drop (length c - 16) c = sample_tag k then Some (take (length c - 16) c) else None)
      = Some p"
    by auto
next
  assume "(if length c \<ge> 16 \<and> drop (length c - 16) c = sample_tag k then Some (take (length c - 16) c) else None)
      = Some p"
  then show "p @ sample_tag k = c"
    by (metis append_take_drop_id option.distinct(1) option.inject)
qed

lemma sample_aead_ok: "aead_ok sample_crypto"
  using sample_open_iff by (simp add: aead_ok_def sample_crypto_def)

lemma sample_primitives_ok: "primitives_ok sample_crypto"
  using sample_aead_ok
  by (auto simp: primitives_ok_def mac_ok_def hkdf_ok_def signature_ok_def exchange_ok_def kem_ok_def select_ok_def
      sample_crypto_def MLKEM_PUBLIC_KEY_SIZE_def MLKEM_CIPHERTEXT_SIZE_def MLKEM_SEED_SIZE_def
      MLKEM_LEGACY_EXPANDED_SECRET_SIZE_def)

section \<open>Documents\<close>

definition hex_digits :: string where "hex_digits = ''0123456789abcdef''"

definition hex_digit :: "nat \<Rightarrow> char" where "hex_digit n = hex_digits ! n"

definition hex_value :: "char \<Rightarrow> nat" where
  "hex_value c = length (takeWhile (\<lambda>d. d \<noteq> c) hex_digits)"

fun sample_hex :: "bytes \<Rightarrow> string" where
  "sample_hex [] = []"
| "sample_hex (b # bs) = hex_digit (unat b div 16) # hex_digit (unat b mod 16) # sample_hex bs"

fun sample_unhex :: "string \<Rightarrow> bytes" where
  "sample_unhex (c # d # s) = word_of_nat (16 * hex_value c + hex_value d) # sample_unhex s"
| "sample_unhex _ = []"

lemma hex_digits_all:
  "list_all (\<lambda>n. hex_value (hex_digit n) = n \<and> canonical_hex_char (hex_digit n)) [0..<16]"
  by code_simp

lemma hex_digit_value:
  assumes "n < 16"
  shows "hex_value (hex_digit n) = n" and "canonical_hex_char (hex_digit n)"
  using hex_digits_all assms by (auto simp: list_all_iff)

lemma hex_value_digit:
  assumes "canonical_hex_char c"
  shows "hex_value c < 16" and "hex_digit (hex_value c) = c"
  using assms by (auto simp: hex_value_def hex_digit_def hex_digits_def canonical_hex_char_def)

lemma sample_hex_ok:
  "length (sample_hex b) = 2 * length b" "list_all canonical_hex_char (sample_hex b)" "sample_unhex (sample_hex b) = b"
proof -
  have n: "unat x div 16 < 16" "unat x mod 16 < 16" "16 * (unat x div 16) + unat x mod 16 = unat x" for x :: u8
  proof -
    have "unat x < 2 ^ LENGTH(8)"
      by (rule unsigned_less)
    then show "unat x div 16 < 16" "unat x mod 16 < 16" "16 * (unat x div 16) + unat x mod 16 = unat x"
      by simp_all
  qed
  show "length (sample_hex b) = 2 * length b" "list_all canonical_hex_char (sample_hex b)" "sample_unhex (sample_hex b) = b"
    by (induction b) (simp_all add: hex_digit_value n)
qed

lemma sample_hex_onto:
  assumes "length s = n * 2" "list_all canonical_hex_char s"
  shows "length (sample_unhex s) = n \<and> sample_hex (sample_unhex s) = s"
  using assms
proof (induction s arbitrary: n rule: sample_unhex.induct)
  case (1 c d s)
  then have v: "16 * hex_value c + hex_value d < 256" "hex_value d < 16"
    using hex_value_digit(1) [of c] hex_value_digit(1) [of d] by auto
  have u: "unat (word_of_nat (16 * hex_value c + hex_value d) :: u8) = 16 * hex_value c + hex_value d"
    using v(1) by (simp only: unat_of_nat) simp
  from 1 v(2) show ?case
    by (cases n) (auto simp: u hex_value_digit simp del: of_nat_add of_nat_mult)
qed auto

text \<open>The fields of an entry have fixed widths, so that a document is their concatenation.\<close>

definition entry_text :: "allowlist_entry \<Rightarrow> string" where
  "entry_text e = ae_key_id e @ ae_ed25519_public_key e @ ae_psk e"

function split_entries :: "string \<Rightarrow> allowlist_entry list" where
  "split_entries s = (if s = [] then [] else
     \<lparr> ae_key_id = take 32 s, ae_ed25519_public_key = take 64 (drop 32 s), ae_psk = take 64 (drop 96 s) \<rparr>
       # split_entries (drop 160 s))"
  by pat_completeness auto
termination
  by (relation "measure length") auto

declare split_entries.simps [simp del]

definition sample_docs :: auth_documents where
  "sample_docs = \<lparr> hex_encode = sample_hex, hex_decode_to_slice = (\<lambda>n s. Some (sample_unhex s)),
     parse_credential = (\<lambda>s. Some \<lparr> cdf_schema = IDENTITY_SCHEMA, cdf_key_id = take 32 s,
       cdf_ed25519_public_key = take 64 (drop 32 s), cdf_ed25519_seed = take 64 (drop 96 s), cdf_psk = drop 160 s \<rparr>),
     print_credential = (\<lambda>d. Some (cdf_key_id d @ cdf_ed25519_public_key d @ cdf_ed25519_seed d @ cdf_psk d)),
     parse_enrollment = (\<lambda>s. Some \<lparr> ef_schema = ENROLLMENT_SCHEMA, ef_key_id = take 32 s,
       ef_ed25519_public_key = take 64 (drop 32 s), ef_psk = drop 96 s \<rparr>),
     print_enrollment = (\<lambda>d. Some (ef_key_id d @ ef_ed25519_public_key d @ ef_psk d)),
     parse_allowlist = (\<lambda>s. Some \<lparr> al_schema = ALLOWLIST_SCHEMA, al_clients = split_entries s \<rparr>),
     print_allowlist = (\<lambda>d. Some (concat (map entry_text (al_clients d)))) \<rparr>"

lemma hex_chars_ascii: "list_all (\<lambda>c. char_code c < 128) ''0123456789abcdef''"
  by code_simp

lemma hex_utf8: "list_all canonical_hex_char s \<Longrightarrow> utf8_valid s"
  using hex_chars_ascii unfolding canonical_hex_char_def list_all_iff by (blast intro: utf8_valid_ascii)

lemma split_entries_concat:
  assumes "\<forall>e \<in> set clients. authorized_client_typed e"
  shows "split_entries (concat (map (entry_text \<circ> entry_document sample_docs) clients))
      = map (entry_document sample_docs) clients
    \<and> length (concat (map (entry_text \<circ> entry_document sample_docs) clients)) = 160 * length clients
    \<and> list_all canonical_hex_char (concat (map (entry_text \<circ> entry_document sample_docs) clients))"
  using assms
proof (induction clients)
  case (Cons e clients)
  let ?t = "entry_text (entry_document sample_docs e)" and ?r = "concat (map (entry_text \<circ> entry_document sample_docs) clients)"
  have len: "length (sample_hex (ac_key_id e)) = 32" "length (sample_hex (ac_public_key e)) = 64"
    "length (sample_hex (ac_psk e)) = 64"
    using Cons.prems by (simp_all add: authorized_client_typed_def sample_hex_ok)
  have t: "?t = sample_hex (ac_key_id e) @ sample_hex (ac_public_key e) @ sample_hex (ac_psk e)" "?t \<noteq> []"
    using len by (auto simp: entry_text_def entry_document_def sample_docs_def)
  have "split_entries (?t @ r) = entry_document sample_docs e # split_entries r" for r
    unfolding t using len
    by (subst split_entries.simps) (auto simp: entry_document_def sample_docs_def)
  with Cons len t show ?case
    by (simp add: sample_hex_ok)
qed (simp add: split_entries.simps)

lemma sample_documents_ok: "documents_ok sample_docs"
proof -
  have hex: "canonical_hex (length b) (sample_hex b)" for b
    by (simp add: canonical_hex_def sample_hex_ok)
  have onto: "canonical_hex n s \<Longrightarrow> \<exists>b. length b = n \<and> sample_hex b = s" for n s
    using sample_hex_onto [of s n] unfolding canonical_hex_def by blast
  have cred: "printed (print_credential sample_docs) (parse_credential sample_docs) 1024 (credential_document sample_docs cred)"
    if "credential_typed cred" for cred
    using that by (auto simp: printed_def sample_docs_def credential_document_def credential_typed_def sample_hex_ok
        intro!: hex_utf8)
  have enr: "printed (print_enrollment sample_docs) (parse_enrollment sample_docs) 1024 (enrollment_document sample_docs e)"
    if "enrollment_typed e" for e
    using that by (auto simp: printed_def sample_docs_def enrollment_document_def enrollment_typed_def sample_hex_ok
        intro!: hex_utf8)
  have al: "printed (print_allowlist sample_docs) (parse_allowlist sample_docs) (128 + 256 * length clients)
      (allowlist_document sample_docs clients)" if "\<forall>e \<in> set clients. authorized_client_typed e" for clients
    using split_entries_concat [OF that] hex_utf8 unfolding printed_def
    by (intro exI [of _ "concat (map (entry_text \<circ> entry_document sample_docs) clients)"])
      (auto simp: sample_docs_def allowlist_document_def)
  show ?thesis
    unfolding documents_ok_def using hex onto cred enr al by (simp add: sample_docs_def sample_hex_ok)
qed

end
