(* ===== verification/Session_Properties.thy ===== *)
theory Session_Properties
  imports Session_Sample
begin

text \<open>
  What the inner protocol guarantees: the handshake, the record stream, the wire codecs and
  the client allowlist, each with a witness at concrete parties.
\<close>

section \<open>A concrete pair\<close>

definition sample_client :: authorized_client where
  "sample_client = \<lparr> ac_key_id = cc_key_id sample_cred, ac_public_key = replicate 32 5, ac_psk = replicate 32 6 \<rparr>"

definition sample_config :: client_config where
  "sample_config = \<lparr> cfg_camouflage = H2Chunk, cfg_padding_profile = Balanced,
     cfg_server_fingerprint = mlkem_fingerprint sample_crypto (replicate 1184 3), cfg_credential = sample_cred \<rparr>"

definition sample_cd :: client_draws where
  "sample_cd = \<lparr> cd_access_nonce = Some (replicate 32 1), cd_x_secret = [1], cd_kem_coins = [2],
     cd_client_random = replicate 16 2 \<rparr>"

definition sample_sd :: server_draws where
  "sample_sd = \<lparr> sd_challenge = replicate 32 8, sd_dummy_psk = Some (replicate 32 4), sd_x_secret = [3],
     sd_server_random = replicate 16 3, sd_session_id = replicate 8 1 \<rparr>"

definition sample_state :: "unit server_state" where
  "sample_state = \<lparr> st_public = replicate 1184 3, st_secret = () \<rparr>"

definition sample_pins :: pin_slots where
  "sample_pins = pins_single (cfg_server_fingerprint sample_config)"

definition sample_message :: outbound where
  "sample_message = (7, FLAG_DATA, [1, 2, 3], 5, (\<lambda>n. replicate n 1))"

lemmas sample_defs = sample_cred_def sample_client_def sample_config_def sample_cd_def sample_sd_def sample_state_def
  sample_pins_def

lemma sample_honest: "honest_setup sample_crypto sample_cd sample_config sample_pins sample_sd sample_state [sample_client]"
proof -
  have "length (derive_key_id sample_crypto (replicate 32 5)) = 16"
    by (simp add: sample_crypto_def)
  moreover have "mlkem_encapsulation_key sample_crypto () = replicate 1184 3"
    "x25519 sample_crypto a b = replicate 32 1" "ed25519_public sample_crypto seed = Some (pad32 seed)" for a b seed
    by (simp_all add: sample_crypto_def)
  moreover have "pad32 (replicate 32 5) = replicate 32 5"
    by (simp add: pad32_def)
  ultimately show ?thesis
    unfolding honest_setup_def using sample_primitives_ok
    by (simp add: sample_defs credential_ok_def clients_ok_def clients_sorted_def authorized_client_typed_def
        enrolled_def pins_single_slice client_draws_typed_def server_draws_typed_def MAX_AUTHORIZED_CLIENTS_def)
qed

lemma sample_run:
  obtains c2s s2c cs ss where
    "client_connect_pins_bound sample_crypto 9 sample_cd sample_config sample_pins DirectTcp s2c
      = (c2s, Inr ((cs, replicate 8 1), []))"
    "server_accept_bound sample_crypto 9 sample_sd sample_state [sample_client] H2Chunk DirectTcp c2s
      = (s2c, Inr ((ss, honest_client_hello sample_crypto 9 sample_cd sample_config (replicate 1184 3),
          replicate 8 1), []))"
proof (rule honest_handshake [OF sample_honest, of 9 DirectTcp])
  fix c2s s2c keys
  assume "\<And>rest. client_connect_pins_bound sample_crypto 9 sample_cd sample_config sample_pins DirectTcp (s2c @ rest)
      = (c2s, Inr ((\<lparr> se_aead = aead_session_new keys, se_padding_profile = cfg_padding_profile sample_config,
         se_client_key_id = cc_key_id (cfg_credential sample_config) \<rparr>, sd_session_id sample_sd), rest))"
    and "\<And>rest. server_accept_bound sample_crypto 9 sample_sd sample_state [sample_client] (cfg_camouflage sample_config)
        DirectTcp (c2s @ rest)
      = (s2c, Inr ((\<lparr> se_aead = aead_session_new (mirror_keys keys),
         se_padding_profile = cfg_padding_profile sample_config,
         se_client_key_id = cc_key_id (cfg_credential sample_config) \<rparr>,
         honest_client_hello sample_crypto 9 sample_cd sample_config (st_public sample_state), sd_session_id sample_sd), rest))"
  from this(1) [of "[]"] this(2) [of "[]"] show thesis
    by (intro that) (auto simp: sample_sd_def sample_config_def sample_state_def)
qed

lemma sample_parts:
  "mac_ok sample_crypto" "aead_ok sample_crypto" "select_ok sample_crypto" "clients_ok [sample_client]"
  "server_draws_typed sample_sd"
  using sample_honest by (simp_all add: honest_setup_def primitives_ok_def)

lemma sample_message_ok: "outbound_ok sample_message"
  by (simp add: sample_message_def outbound_ok_def MAX_FRAME_PAYLOAD_def fill_ok_def)

section \<open>The handshake\<close>

text \<open>C19. An honest client and an honest server whose bytes reach each other both finish the
  handshake with the same session id and the key id of the client's credential; every sequence
  of messages either of them then sends is received complete, in order and unaltered, up to the
  length of the nonce counter.\<close>

theorem honest_session:
  assumes "honest_setup C cd config pins sd state clients"
    and "list_all outbound_ok up" "list_all outbound_ok down" "length up < 2 ^ 64" "length down < 2 ^ 64"
  shows "\<exists>c2s s2c cs ss.
    client_connect_pins_bound C magic cd config pins car s2c = (c2s, Inr ((cs, sd_session_id sd), []))
    \<and> server_accept_bound C magic sd state clients (cfg_camouflage config) car c2s
        = (s2c, Inr ((ss, honest_client_hello C magic cd config (st_public state), sd_session_id sd), []))
    \<and> se_client_key_id cs = cc_key_id (cfg_credential config) \<and> se_client_key_id ss = se_client_key_id cs
    \<and> recv_seq C (length up) (snd (session_split ss)) (snd (send_seq C (fst (session_split cs)) up))
        = map (delivered (cfg_padding_profile config)) up
    \<and> recv_seq C (length down) (snd (session_split cs)) (snd (send_seq C (fst (session_split ss)) down))
        = map (delivered (cfg_padding_profile config)) down"
proof -
  have aead: "aead_ok C"
    using assms(1) by (simp add: honest_setup_def primitives_ok_def)
  obtain c2s s2c keys where c: "\<And>rest. client_connect_pins_bound C magic cd config pins car (s2c @ rest) = (c2s,
       Inr ((\<lparr> se_aead = aead_session_new keys, se_padding_profile = cfg_padding_profile config,
         se_client_key_id = cc_key_id (cfg_credential config) \<rparr>, sd_session_id sd), rest))"
    and s: "\<And>rest. server_accept_bound C magic sd state clients (cfg_camouflage config) car (c2s @ rest) = (s2c,
       Inr ((\<lparr> se_aead = aead_session_new (mirror_keys keys), se_padding_profile = cfg_padding_profile config,
         se_client_key_id = cc_key_id (cfg_credential config) \<rparr>,
         honest_client_hello C magic cd config (st_public state), sd_session_id sd), rest))"
    by (rule honest_handshake [OF assms(1), of magic car]) blast
  let ?cs = "\<lparr> se_aead = aead_session_new keys, se_padding_profile = cfg_padding_profile config,
    se_client_key_id = cc_key_id (cfg_credential config) \<rparr>"
  let ?ss = "\<lparr> se_aead = aead_session_new (mirror_keys keys), se_padding_profile = cfg_padding_profile config,
    se_client_key_id = cc_key_id (cfg_credential config) \<rparr>"
  have "recv_seq C (length up) (snd (session_split ?ss)) (snd (send_seq C (fst (session_split ?cs)) up))
      = map (delivered (cfg_padding_profile config)) up"
    using honest_streams(1) [OF aead assms(2,4), of ?cs keys ?ss "[]"] by simp
  moreover have "recv_seq C (length down) (snd (session_split ?cs)) (snd (send_seq C (fst (session_split ?ss)) down))
      = map (delivered (cfg_padding_profile config)) down"
    using honest_streams(2) [OF aead assms(3,5), of ?cs keys ?ss "[]"] by simp
  ultimately show ?thesis
    using c [of "[]"] s [of "[]"]
    by (intro exI [of _ c2s] exI [of _ s2c] exI [of _ ?cs] exI [of _ ?ss]) simp
qed

lemma honest_session_witness:
  "\<exists>c2s s2c cs ss.
    client_connect_pins_bound sample_crypto 9 sample_cd sample_config sample_pins DirectTcp s2c
        = (c2s, Inr ((cs, replicate 8 1), []))
    \<and> server_accept_bound sample_crypto 9 sample_sd sample_state [sample_client] H2Chunk DirectTcp c2s
        = (s2c, Inr ((ss, honest_client_hello sample_crypto 9 sample_cd sample_config (replicate 1184 3),
            replicate 8 1), []))
    \<and> recv_seq sample_crypto 1 (snd (session_split ss))
        (snd (send_seq sample_crypto (fst (session_split cs)) [sample_message]))
        = [delivered Balanced sample_message]"
  using honest_session [OF sample_honest, of "[sample_message]" "[]" 9 DirectTcp] sample_message_ok
  by (auto simp: sample_sd_def sample_config_def sample_state_def)

text \<open>C20. A client that accepts a server has verified, for bytes it read: the server's access
  proof under the shared secret for this key id, camouflage and carrier; an ML-KEM key whose
  fingerprint is pinned; and a Finished record, encrypted under the handshake keys, with the MAC
  of the shared secret over the whole transcript and the client's own Finished message. Its
  session has the keys of exactly that transcript.\<close>

theorem client_authenticates_server:
  assumes "mac_ok C" "aead_ok C"
    and "client_connect_pins_bound C magic draws config pins car inp = (out, Inr ((s, sid), rest))"
  shows "\<exists>sp nonce pk sh ecf esf. let cred = cfg_credential config;
       cap = client_proof_for C magic (cc_psk cred) (cc_key_id cred) (cfg_camouflage config) car sp nonce;
       ex = client_exchanged C magic draws config car (server_access_proof_encode sp, cap) pk sh in
     server_proof_valid C magic (cc_psk cred) (cc_key_id cred) (cfg_camouflage config) car sp
     \<and> mlkem_fingerprint C pk \<in> set (pins_as_slice pins)
     \<and> inp = server_access_proof_encode sp @ (be16 1184 @ pk @ server_hello_wire sh) @ esf @ rest
     \<and> client_completed C config ex ecf esf s \<and> sid = sh_session_id sh"
  using client_connect_sound [OF assms] .

lemma client_authenticates_server_witness:
  "\<exists>inp out s pk. client_connect_pins_bound sample_crypto 9 sample_cd sample_config sample_pins DirectTcp inp
      = (out, Inr ((s, replicate 8 1), []))
    \<and> mlkem_fingerprint sample_crypto pk = cfg_server_fingerprint sample_config"
proof -
  obtain c2s s2c cs ss where
    "client_connect_pins_bound sample_crypto 9 sample_cd sample_config sample_pins DirectTcp s2c
      = (c2s, Inr ((cs, replicate 8 1), []))"
    by (rule sample_run)
  with client_authenticates_server [OF sample_parts(1,2) this] show ?thesis
    by (auto simp: Let_def sample_pins_def pins_single_slice)
qed

text \<open>C21. A server that accepts a client has verified, for an entry of its allowlist: the access
  proof under that entry's secret for this connection's challenge, a hello with this build's
  magic, version and observed camouflage, and a Finished record with the entry's signature and
  MAC over the whole transcript. The session carries that entry's key id and the session id the
  server drew.\<close>

theorem server_authenticates_client:
  assumes "primitives_ok C" "clients_ok clients" "server_draws_typed draws"
    and "server_accept_bound C magic draws state clients cam car inp = (out, Inr ((s, hello, sid), rest))"
  shows "\<exists>e \<in> set clients. \<exists>nonce ecf esf. let sp = server_flight C magic draws (ac_psk e) (ac_key_id e) cam car;
       sap = server_access_proof_encode sp;
       cap = client_proof_for C magic (ac_psk e) (ac_key_id e) cam car sp nonce;
       ex = server_exchanged C magic draws state car (ac_key_id e, sap, cap) hello in
     inp = (ac_key_id e @ cap) @ client_hello_wire hello @ ecf @ rest
     \<and> ch_magic hello = magic \<and> ch_version hello = PROTO_VERSION \<and> ch_camouflage hello = cam
     \<and> server_completed C e ex ecf esf s \<and> se_client_key_id s = ac_key_id e \<and> sid = sd_session_id draws"
proof -
  from server_accept_sound [OF assms] obtain e nonce ecf esf where e: "e \<in> set clients"
    "let sp = server_flight C magic draws (ac_psk e) (ac_key_id e) cam car;
       sap = server_access_proof_encode sp;
       cap = client_proof_for C magic (ac_psk e) (ac_key_id e) cam car sp nonce;
       ex = server_exchanged C magic draws state car (ac_key_id e, sap, cap) hello in
     inp = (ac_key_id e @ cap) @ client_hello_wire hello @ ecf @ rest
     \<and> ch_magic hello = magic \<and> ch_version hello = PROTO_VERSION \<and> ch_camouflage hello = cam
     \<and> server_completed C e ex ecf esf s \<and> sid = sd_session_id draws"
    unfolding Let_def by blast
  then show ?thesis
    unfolding Let_def
    by (intro bexI [of _ e] exI [of _ nonce] exI [of _ ecf] exI [of _ esf]) (auto simp: server_completed_def Let_def)
qed

lemma server_authenticates_client_witness:
  "\<exists>inp out s hello sid. server_accept_bound sample_crypto 9 sample_sd sample_state [sample_client] H2Chunk DirectTcp inp
      = (out, Inr ((s, hello, sid), [])) \<and> se_client_key_id s = cc_key_id sample_cred \<and> sid = replicate 8 1"
proof -
  obtain c2s s2c cs ss where run:
    "server_accept_bound sample_crypto 9 sample_sd sample_state [sample_client] H2Chunk DirectTcp c2s
      = (s2c, Inr ((ss, honest_client_hello sample_crypto 9 sample_cd sample_config (replicate 1184 3),
          replicate 8 1), []))"
    by (rule sample_run)
  with server_authenticates_client [OF sample_primitives_ok sample_parts(4,5) run] show ?thesis
    by (auto simp: Let_def sample_client_def)
qed

text \<open>C22. Whatever a peer sends, a server writes nothing beyond its 64-byte access proof unless the
  peer's bytes start with an enrolled key id and a valid access proof of that entry's secret for
  the challenge of this connection: its ML-KEM key and hello are hidden from everyone else.\<close>

theorem access_gate_hides_server:
  assumes "mac_ok C" "select_ok C" "clients_ok clients" "server_draws_typed draws"
    and "length (fst (server_accept_bound C magic draws state clients cam car inp)) > SERVER_ACCESS_PROOF_LEN"
  shows "\<exists>e \<in> set clients. \<exists>nonce rest. length nonce = 32 \<and> inp = ac_key_id e @ client_proof_for C magic (ac_psk e)
    (ac_key_id e) cam car (server_flight C magic draws (ac_psk e) (ac_key_id e) cam car) nonce @ rest"
  using server_output_gated [OF assms(1-4) refl assms(5)] .

lemma access_gate_hides_server_witness:
  "\<exists>inp. length (fst (server_accept_bound sample_crypto 9 sample_sd sample_state [sample_client] H2Chunk DirectTcp inp)) > 64
    \<and> (\<exists>nonce rest. inp = ac_key_id sample_client @ client_proof_for sample_crypto 9 (replicate 32 6)
         (ac_key_id sample_client) H2Chunk DirectTcp (server_flight sample_crypto 9 sample_sd (replicate 32 6)
         (ac_key_id sample_client) H2Chunk DirectTcp) nonce @ rest)"
proof -
  obtain c2s s2c cs ss where run:
    "server_accept_bound sample_crypto 9 sample_sd sample_state [sample_client] H2Chunk DirectTcp c2s
      = (s2c, Inr ((ss, honest_client_hello sample_crypto 9 sample_cd sample_config (replicate 1184 3),
          replicate 8 1), []))"
    by (rule sample_run)
  from server_accept_sound [OF sample_primitives_ok sample_parts(4,5) run]
  have "length s2c > 64"
    by (auto simp: Let_def sample_state_def)
  then have "length (fst (server_accept_bound sample_crypto 9 sample_sd sample_state [sample_client] H2Chunk DirectTcp c2s)) > 64"
    by (simp add: run)
  with access_gate_hides_server [OF sample_parts(1,3,4,5), of 9 sample_state H2Chunk DirectTcp c2s] show ?thesis
    by (auto simp: auth_lengths sample_client_def)
qed

text \<open>C23. The message a client signs in its Finished record determines the handshake: two
  handshakes with the same signed message have the same key id and agree on the build magic, the
  server key, both hellos, both access proofs and the carrier, or exhibit two different
  transcripts with the same SHA-256 hash.\<close>

theorem transcript_agreement:
  assumes "client_proof_message k (pre_finished_transcript C magic v)
      = client_proof_message k' (pre_finished_transcript C magic' v')"
    and "length k = 16" "length k' = 16" "view_typed v" "view_typed v'"
  shows "k = k' \<and> (magic = magic' \<and> v = v'
    \<or> canonical_transcript magic v \<noteq> canonical_transcript magic' v'
      \<and> sha256 C (canonical_transcript magic v) = sha256 C (canonical_transcript magic' v'))"
  using client_proof_message_inj [OF assms(1-3)] canonical_transcript_inj [OF _ assms(4,5), of magic magic']
  by (auto simp: pre_finished_transcript_def)

definition sample_view :: "u8 \<Rightarrow> transcript_view" where
  "sample_view b = \<lparr> tv_access_hello = replicate 16 b, tv_server_access_proof = replicate 64 0,
     tv_client_access_proof = replicate 64 0, tv_server_pk = replicate 1184 3,
     tv_client_hello = honest_client_hello sample_crypto 9 sample_cd sample_config (replicate 1184 3),
     tv_server_hello = honest_server_hello sample_crypto sample_sd, tv_carrier = DirectTcp \<rparr>"

lemma sample_view_typed: "view_typed (sample_view b)"
  by (simp add: view_typed_def sample_view_def client_hello_typed_def server_hello_typed_def honest_client_hello_def
      honest_server_hello_def sample_cd_def sample_sd_def sample_crypto_def)

lemma sample_views_collide:
  "pre_finished_transcript sample_crypto 9 (sample_view b) = pre_finished_transcript sample_crypto 9 (sample_view b')"
  by (simp add: pre_finished_transcript_def canonical_transcript_def Let_def sample_crypto_def sample_hash_def
      sample_view_def transcript_field_def)

lemma transcript_agreement_witness:
  "canonical_transcript 9 (sample_view 0) \<noteq> canonical_transcript 9 (sample_view 1)
    \<and> sha256 sample_crypto (canonical_transcript 9 (sample_view 0))
        = sha256 sample_crypto (canonical_transcript 9 (sample_view 1))"
proof -
  have "sample_view 0 \<noteq> sample_view 1"
    by (simp add: sample_view_def)
  then show ?thesis
    using transcript_agreement [of "replicate 16 0" sample_crypto 9 "sample_view 0" "replicate 16 0" 9
        "sample_view 1"] sample_view_typed sample_views_collide [of 0 1]
    by simp
qed

section \<open>The record stream\<close>

text \<open>C24. Whatever bytes are presented to successive \<open>recv\<close> calls, what the receiver accepts is a
  prefix of what the sender sent, in order: records are not replayed, reordered or dropped from
  the middle, also after errors. The AEAD opens what it sealed (\<open>aead_ok\<close>), and the presented
  frames contain no forgery: one that opens under the session key was sealed by the sender in
  this run, under the counter and the header at which it opens (\<open>unforged\<close>, the ciphertext
  integrity that AES-256-GCM is used for).\<close>

theorem frames_received_in_order:
  assumes "aead_ok C" "unforged C t ms inps" "list_all outbound_ok ms"
    and "\<not> tx_failed (stx_aead t)" "unat (tx_nonce (stx_aead t)) + length ms < 2 ^ 64"
    and "rx_cipher (srx_aead r) = tx_cipher (stx_aead t)" "rx_nonce (srx_aead r) = tx_nonce (stx_aead t)"
  shows "\<exists>k. recv_calls C r inps = take k (map (delivered (stx_padding_profile t)) ms)"
  using recv_calls_in_order [OF assms(1,3-6), of 0 inps] assms(2,7) by simp

text \<open>An AEAD that binds its nonce: the tag is the nonce, padded to sixteen bytes.\<close>

definition nonce_crypto :: "unit session_crypto" where
  "nonce_crypto = sample_crypto \<lparr>
     aead_seal := (\<lambda>k n a p. Some (p @ sample_tag n)),
     aead_open := (\<lambda>k n a c. if length c \<ge> 16 \<and> drop (length c - 16) c = sample_tag n
       then Some (take (length c - 16) c) else None) \<rparr>"

lemma nonce_crypto_aead: "aead_ok nonce_crypto"
  using sample_open_iff by (simp add: aead_ok_def nonce_crypto_def)

definition sample_wire :: bytes where
  "sample_wire = frame_wire (sent_frame Balanced sample_message ([1, 2, 3] @ sample_tag (replicate 32 7)))"

definition sample_rx :: session_rx where
  "sample_rx = \<lparr> srx_aead = \<lparr> rx_cipher = replicate 32 7, rx_nonce = 0, rx_failed = False \<rparr> \<rparr>"

definition sample_tx :: "u64 \<Rightarrow> aead_tx" where
  "sample_tx n = \<lparr> tx_cipher = replicate 32 7, tx_nonce = n, tx_failed = False \<rparr>"

definition sample_sender :: session_tx where
  "sample_sender = \<lparr> stx_aead = sample_tx 0, stx_padding_profile = Balanced \<rparr>"

definition nonce_wire :: bytes where
  "nonce_wire = snd (send_seq nonce_crypto sample_sender [sample_message])"

lemma nonce_wire_frame:
  "nonce_wire = frame_wire (sent_frame Balanced sample_message ([1, 2, 3] @ sample_tag (nonce_from_counter 0)))"
proof -
  obtain stream flags payload d where m: "sample_message = (stream, flags, payload, d)"
    by (cases sample_message)
  have st: "\<not> tx_failed (stx_aead sample_sender)" "unat (tx_nonce (stx_aead sample_sender)) + 1 < 2 ^ 64"
    by (simp_all add: sample_sender_def sample_tx_def)
  obtain c t' w where c: "aead_seal nonce_crypto (tx_cipher (stx_aead sample_sender))
      (nonce_from_counter (tx_nonce (stx_aead sample_sender)))
      (sent_aad (stx_padding_profile sample_sender) sample_message) payload = Some c"
    and send: "tx_send nonce_crypto d sample_sender stream flags payload
      = (t', frame_wire (sent_frame (stx_padding_profile sample_sender) sample_message c), w)"
    using tx_send_ok [OF nonce_crypto_aead sample_message_ok m st] by blast
  have "c = [1, 2, 3] @ sample_tag (nonce_from_counter 0)"
    using c m by (simp add: nonce_crypto_def sample_message_def sample_sender_def sample_tx_def)
  with send show ?thesis
    by (simp add: nonce_wire_def m sample_sender_def)
qed

lemma sample_tag_nonce: "sample_tag (nonce_from_counter n) = sample_tag (nonce_from_counter m) \<longleftrightarrow> n = m"
  by (auto simp: sample_tag_def NONCE_SIZE_def)

lemma nonce_wire_unforged:
  "unforged nonce_crypto sample_sender [sample_message] [nonce_wire, nonce_wire]"
proof -
  let ?c = "[1, 2, 3] @ sample_tag (nonce_from_counter 0)"
  let ?f = "sent_frame Balanced sample_message ?c"
  have "read_frame nonce_wire = Inr (?f, [])"
    using sent_frame_ok [OF sample_message_ok, of ?c Balanced]
    by (simp add: nonce_wire_frame read_frame_iff sample_message_def)
  moreover have "sealed_by_sender nonce_crypto sample_sender [sample_message] 0
      (sent_aad Balanced sample_message) ?c"
    by (simp add: sealed_by_sender_def sample_sender_def sample_tx_def sample_message_def
        aead_tx_encrypt_def u64_checked_add_def nonce_crypto_def)
  moreover have "frame_aad (fr_stream_id ?f) (fr_flags ?f) (length (fr_payload ?f)) (fr_padding ?f)
      = sent_aad Balanced sample_message"
    by (simp add: sent_frame_def sent_aad_def sample_message_def)
  moreover have "fr_payload ?f = ?c"
    by (simp add: sent_frame_def sample_message_def)
  moreover have "aead_open nonce_crypto k (nonce_from_counter n) a ?c \<noteq> None \<longleftrightarrow> n = 0" for k n a
    by (auto simp: nonce_crypto_def sample_tag_nonce)
  ultimately show ?thesis
    by (auto simp: unforged_def Let_def)
qed

lemma frames_received_in_order_witness:
  "aead_ok nonce_crypto
   \<and> length (recv_calls nonce_crypto sample_rx [nonce_wire, nonce_wire]) \<le> 1"
  using frames_received_in_order [OF nonce_crypto_aead nonce_wire_unforged, of sample_rx]
    nonce_crypto_aead sample_message_ok
  by (auto simp: sample_rx_def sample_sender_def sample_tx_def)

text \<open>C25. Over any sequence of calls on one direction, the \<open>i\<close>-th record is sealed (or opened) under
  the nonce of the counter's \<open>i\<close>-th successor and no other; these nonces are pairwise different,
  that of a failing call included, and the counter never wraps; and after the first failure every
  later call is refused as poisoned.\<close>

theorem nonces_fresh_and_poisoned:
  "(\<exists>k. counter_run (\<lambda>i nonce. aead_seal C (tx_cipher t) nonce (snd (rs ! i)) (fst (rs ! i))) (tx_failed t)
       (SendPoisoned, SendNonceOverflow, EncryptFailed) (tx_nonce t) (tx_encrypts C t rs) k
     \<and> distinct (map (\<lambda>i. nonce_from_counter (tx_nonce t + word_of_nat i)) [0..<Suc k]))
   \<and> (\<exists>k. counter_run (\<lambda>i nonce. aead_open C (rx_cipher r) nonce (snd (qs ! i)) (fst (qs ! i))) (rx_failed r)
       (RecvPoisoned, RecvNonceOverflow, DecryptFailed) (rx_nonce r) (rx_decrypts C r qs) k
     \<and> distinct (map (\<lambda>i. nonce_from_counter (rx_nonce r + word_of_nat i)) [0..<Suc k]))"
  using tx_encrypts_run [of C t rs] rx_decrypts_run [of C r qs] by (fast intro: counter_run_nonces)

definition sample_records :: "(bytes \<times> bytes) list" where
  "sample_records = [([1], []), ([2], []), ([3], [])]"

lemma nonces_fresh_and_poisoned_witness:
  "tx_encrypts nonce_crypto (sample_tx 0xfffffffffffffffe) sample_records
     = [Inr ([1] @ sample_tag (nonce_from_counter 0xfffffffffffffffe)), Inl SendNonceOverflow, Inl SendPoisoned]
   \<and> (\<exists>k. counter_run (\<lambda>i nonce. aead_seal nonce_crypto (tx_cipher (sample_tx 0xfffffffffffffffe)) nonce
        (snd (sample_records ! i)) (fst (sample_records ! i)))
       (tx_failed (sample_tx 0xfffffffffffffffe))
       (SendPoisoned, SendNonceOverflow, EncryptFailed) (tx_nonce (sample_tx 0xfffffffffffffffe))
       (tx_encrypts nonce_crypto (sample_tx 0xfffffffffffffffe) sample_records) k)"
proof
  show "tx_encrypts nonce_crypto (sample_tx 0xfffffffffffffffe) sample_records
     = [Inr ([1] @ sample_tag (nonce_from_counter 0xfffffffffffffffe)), Inl SendNonceOverflow, Inl SendPoisoned]"
    by (simp add: aead_tx_encrypt_def sample_tx_def sample_records_def u64_checked_add_def nonce_crypto_def)
qed (use nonces_fresh_and_poisoned [of nonce_crypto "sample_tx 0xfffffffffffffffe"
    sample_records "srx_aead sample_rx" "[]"] in blast)

section \<open>Wire codecs\<close>

text \<open>C26. Frames and hello messages have exactly one encoding: a reader accepts exactly the bytes the
  writer emits for a well-formed value, and leaves the rest of the stream untouched.\<close>

theorem message_codecs_exact:
  "(read_frame bs = Inr (f, r) \<longleftrightarrow> frame_ok f \<and> bs = frame_wire f @ r)
   \<and> (frame_ok f \<longrightarrow> write_frame (f \<lparr> fr_padding := wire_padding (fr_padding f) \<rparr>) = write_all (frame_wire f))
   \<and> (read_client_hello bs = Inr (ch, r) \<longleftrightarrow> client_hello_typed ch
        \<and> length (ch_mlkem_ciphertext ch) = MLKEM_CIPHERTEXT_SIZE \<and> bs = client_hello_wire ch @ r)
   \<and> (length (ch_mlkem_ciphertext ch) = MLKEM_CIPHERTEXT_SIZE \<longrightarrow>
        write_client_hello ch = write_all (client_hello_wire ch))
   \<and> (read_server_hello bs = Inr (sh, r) \<longleftrightarrow> server_hello_typed sh \<and> bs = server_hello_wire sh @ r)
   \<and> write_server_hello sh = write_all (server_hello_wire sh)"
  by (simp add: read_frame_iff write_frame_ok frame_ok_def read_client_hello_iff write_client_hello_ok
      read_server_hello_iff write_server_hello_ok)

lemma message_codecs_exact_witness:
  "read_frame (sample_wire @ [9]) = Inr (sent_frame Balanced sample_message ([1, 2, 3] @ sample_tag (replicate 32 7)), [9])
   \<and> write_client_hello (honest_client_hello sample_crypto 9 sample_cd sample_config [])
      = write_all (client_hello_wire (honest_client_hello sample_crypto 9 sample_cd sample_config []))"
proof -
  have "frame_ok (sent_frame Balanced sample_message ([1, 2, 3] @ sample_tag (replicate 32 7)))"
    using sent_frame_ok [OF sample_message_ok] by (simp add: sample_message_def)
  moreover have "length (ch_mlkem_ciphertext (honest_client_hello sample_crypto 9 sample_cd sample_config []))
      = MLKEM_CIPHERTEXT_SIZE"
    by (simp add: honest_client_hello_def sample_crypto_def MLKEM_CIPHERTEXT_SIZE_def)
  ultimately show ?thesis
    using message_codecs_exact [of "sample_wire @ [9]"
        "sent_frame Balanced sample_message ([1, 2, 3] @ sample_tag (replicate 32 7))" "[9]"
        "honest_client_hello sample_crypto 9 sample_cd sample_config []"] by (simp add: sample_wire_def)
qed

text \<open>C27. Variable-length integers are canonical and bounded: every \<open>u64\<close> has one encoding of one to
  ten bytes, the reader accepts exactly those, and it never looks past ten bytes.\<close>

theorem uvarint_canonical:
  "(read_uvarint bs = Inr (v, r) \<longleftrightarrow> bs = write_uvarint v @ r)
   \<and> 1 \<le> length (write_uvarint v) \<and> length (write_uvarint v) \<le> 10
   \<and> read_uvarint bs = (case read_uvarint (take 10 bs) of Inl e \<Rightarrow> Inl e | Inr (w, q) \<Rightarrow> Inr (w, q @ drop 10 bs))"
proof -
  have "unat v < 2 ^ LENGTH(64)"
    by (rule unsigned_less)
  then have "unat v < 128 ^ Suc 9"
    by simp
  then have "length (write_uvarint v) \<le> Suc 9"
    by (rule length_write_uvarint)
  moreover have "write_uvarint v \<noteq> []"
    by (subst write_uvarint.simps) simp
  ultimately show ?thesis
    using read_uvarint_iff [of bs v r] read_uvarint_bounded [of 10 0 0 bs] by (simp add: read_uvarint_def Suc_le_eq)
qed

text \<open>C28. A message of admissible size is sent as one frame of at most 66,061 bytes whose size is
  exactly what \<open>send\<close> reports to the volume accounting: the 64-bit estimate never wraps, the header
  and the padding are within the receiver's limits, and one frame consumes one nonce.\<close>

theorem sent_frames_bounded:
  assumes "aead_ok C" "outbound_ok (stream, flags, payload, d)" "\<not> tx_failed (stx_aead t)"
    and "unat (tx_nonce (stx_aead t)) + 1 < 2 ^ 64"
  shows "\<exists>out wire. tx_send C d t stream flags payload
      = (t \<lparr> stx_aead := stx_aead t \<lparr> tx_nonce := tx_nonce (stx_aead t) + 1 \<rparr> \<rparr>, out, Inr wire)
    \<and> unat wire = length out \<and> length payload + 16 < length out
    \<and> length out \<le> 2 + MAX_FRAME_HEADER + MAX_FRAME_PAYLOAD + (2 + MAX_PADDING)"
proof -
  let ?m = "(stream, flags, payload, d)"
  obtain c wire where send: "tx_send C d t stream flags payload
       = (t \<lparr> stx_aead := stx_aead t \<lparr> tx_nonce := tx_nonce (stx_aead t) + 1 \<rparr> \<rparr>,
          frame_wire (sent_frame (stx_padding_profile t) ?m c), Inr wire)"
    and wire: "unat wire = length (frame_wire (sent_frame (stx_padding_profile t) ?m c))"
    and lc: "length c = length payload + 16"
    by (rule tx_send_ok [OF assms(1,2) refl assms(3,4)])
  let ?f = "sent_frame (stx_padding_profile t) ?m c"
  have pay: "length (fr_payload ?f) \<le> MAX_FRAME_PAYLOAD" "fr_payload ?f = c"
    using assms(2) lc by (simp_all add: sent_frame_def outbound_ok_def)
  have pad: "length (wire_padding (fr_padding ?f)) \<le> 2 + MAX_PADDING"
    using sent_padding_bound [OF assms(2), of "stx_padding_profile t"]
    by (simp add: sent_frame_def wire_padding_length)
  have "length (frame_header ?f) \<le> MAX_FRAME_HEADER"
    by (rule frame_header_bound [OF pay(1)])
  with pay pad have "length payload + 16 < length (frame_wire ?f)
      \<and> length (frame_wire ?f) \<le> 2 + MAX_FRAME_HEADER + MAX_FRAME_PAYLOAD + (2 + MAX_PADDING)"
    using lc by (simp add: frame_wire_def)
  with send wire show ?thesis
    by blast
qed

lemma sent_frames_bounded_witness:
  "\<exists>out wire. tx_send sample_crypto (5, (\<lambda>n. replicate n 1))
       \<lparr> stx_aead = sample_tx 0, stx_padding_profile = Balanced \<rparr> 7 FLAG_DATA [1, 2, 3]
      = (\<lparr> stx_aead = sample_tx 1, stx_padding_profile = Balanced \<rparr>, out, Inr wire) \<and> unat wire = length out"
  using sent_frames_bounded [OF sample_parts(2) sample_message_ok [unfolded sample_message_def],
      of "\<lparr> stx_aead = sample_tx 0, stx_padding_profile = Balanced \<rparr>"]
  by (auto simp: sample_tx_def)

end
