(* ===== verification/Allowlist_Properties.thy ===== *)
theory Allowlist_Properties
  imports Session_Sample
begin

text \<open>
  What the client allowlist guarantees on disk: what is loaded is well-formed, enrolling and
  revoking refine the update of a registry, a provisioned client is authorized, and an
  interrupted mutation leaves the old allowlist or the complete new one.
\<close>

section \<open>A concrete host\<close>

definition sample_T :: trust_env where
  "sample_T = \<lparr> te_euid = 1000, te_cwd = None,
     te_dirs = (\<lambda>p. if p = [RootDir] then Some \<lparr> dm_real_directory = True, dm_uid = 0, dm_mode = 0x1ed \<rparr> else None) \<rparr>"

definition sample_env :: "fs_fault \<Rightarrow> fs_env" where
  "sample_env fault = \<lparr> fe_euid = 1000, fe_pid = ''1'', fe_nonces = [''0''], fe_fault = fault \<rparr>"

definition sample_lock :: lock_env where
  "sample_lock = \<lparr> lk_open = (\<lambda>_. Inr (new_private_file (sample_env NoFault) '''')), lk_try = Locked \<rparr>"

definition sample_path :: "string \<Rightarrow> path" where
  "sample_path name = [RootDir, Normal name]"

definition sample_create :: "u8 \<Rightarrow> string \<Rightarrow> filesystem \<Rightarrow> filesystem \<times> (allowlist_error + client_credential)" where
  "sample_create b name fs = credential_create sample_crypto sample_docs sample_T (sample_env NoFault)
     (Some (replicate 32 b)) (Some (replicate 32 6)) (sample_path name) fs"

definition sample_fs1 :: filesystem where
  "sample_fs1 = fst (sample_create 5 ''c'' (\<lambda>_. None))"

definition sample_fs2 :: filesystem where
  "sample_fs2 = fst (write_enrollment sample_docs sample_T (sample_env NoFault) sample_cred (sample_path ''e'') sample_fs1)"

definition sample_enroll :: "fs_fault \<Rightarrow> filesystem \<Rightarrow> filesystem \<times> (allowlist_error + bytes)" where
  "sample_enroll fault fs = enroll_with_owner sample_crypto sample_docs sample_T sample_lock (sample_env fault)
     (sample_path ''a'') (sample_path ''e'') EffectiveUser fs"

lemma sample_create_run: "snd (sample_create 5 ''c'' (\<lambda>_. None)) = Inr sample_cred"
  by code_simp

lemma sample_write_run:
  "snd (write_enrollment sample_docs sample_T (sample_env NoFault) sample_cred (sample_path ''e'') sample_fs1) = Inr ()"
  by code_simp

lemma sample_trusted: "validate_trusted_parent sample_T (sample_path name) EffectiveUser = Inr ()"
  by (simp add: validate_trusted_parent_def absolute_path_def path_parent_def check_trusted_directory_def sample_path_def
      sample_T_def)

lemma sample_cred_ok: "credential_ok sample_crypto sample_cred"
  by (simp add: credential_ok_def sample_cred_def sample_crypto_def pad32_def)

lemma sample_uid: "fe_euid (sample_env fault) = te_euid sample_T"
  "fe_euid (sample_env fault) = expected_uid (te_euid sample_T) EffectiveUser"
  by (simp_all add: sample_env_def sample_T_def expected_uid_def)

lemma sample_sha: "length (sha256 sample_crypto m) = 32"
  by (simp add: sample_crypto_def)

lemma sample_fs1_eq: "sample_create 5 ''c'' (\<lambda>_. None) = (sample_fs1, Inr sample_cred)"
  using sample_create_run by (simp add: sample_fs1_def prod_eq_iff)

lemma sample_fs2_eq:
  "write_enrollment sample_docs sample_T (sample_env NoFault) sample_cred (sample_path ''e'') sample_fs1 = (sample_fs2, Inr ())"
  using sample_write_run by (simp add: sample_fs2_def prod_eq_iff)

lemma sample_no_allowlist: "sample_fs2 (sample_path ''a'') = None" "sample_fs2 [RootDir, Normal ''.a.shadowpipe-1-0.tmp''] = None"
  by code_simp+

lemma sample_enroll_prepare:
  "\<exists>j. enroll_prepare sample_crypto sample_docs sample_T sample_lock (sample_path ''a'') (sample_path ''e'') EffectiveUser
     sample_fs2 = Inr (cc_key_id sample_cred, Some ([enrollment_entry (enrollment_from_credential sample_cred)], j))"
proof -
  let ?e = "enrollment_from_credential sample_cred"
  have load: "enrollment_load_with_owner sample_crypto sample_docs sample_T sample_fs2 (sample_path ''e'') EffectiveUser = Inr ?e"
    by (rule write_enrollment_ok(2) [OF sample_documents_ok sample_sha sample_cred_ok sample_uid sample_trusted sample_fs2_eq])
  have lease: "acquire_mutation_lease sample_T (sample_path ''a'') EffectiveUser (lk_open sample_lock) (lk_try sample_lock) = Inr ()"
    using sample_uid by (simp add: acquire_mutation_lease_def sample_trusted sample_path_def [of "''a''", symmetric])
      (simp add: sample_path_def path_file_name_def sample_lock_def new_private_file_def)
  have stored: "stored_clients sample_crypto sample_docs sample_T (sample_path ''a'') EffectiveUser sample_fs2 = Inr []"
    by (simp add: stored_clients_def authorized_load_with_owner_def read_auth_file_def sample_trusted open_file_def
        sample_no_allowlist read_private_file_to_string_bounded_def)
  have decide: "enroll_decide [] ?e = Inr (Some [enrollment_entry ?e])"
    by (simp add: enroll_decide_def enrollment_entry_def MAX_AUTHORIZED_CLIENTS_def)
  have "\<exists>j. authorized_serialized sample_docs [enrollment_entry ?e] = Inr j"
    by (simp add: authorized_serialized_def sample_docs_def)
  then show ?thesis
    unfolding enroll_prepare_iff using load lease stored decide sample_trusted
    by (auto simp: enrollment_from_credential_def)
qed

lemma sample_enroll_run: "snd (sample_enroll NoFault sample_fs2) = Inr (cc_key_id sample_cred)"
proof -
  obtain j where "enroll_prepare sample_crypto sample_docs sample_T sample_lock (sample_path ''a'') (sample_path ''e'')
      EffectiveUser sample_fs2 = Inr (cc_key_id sample_cred, Some ([enrollment_entry (enrollment_from_credential sample_cred)], j))"
    using sample_enroll_prepare by blast
  then show ?thesis
    using sample_no_allowlist
    by (simp add: sample_enroll_def enroll_with_owner_def atomic_create_private_file_def stage_private_file_def
        sample_path_def path_file_name_def sample_env_def temp_path_def private_file_parent_def path_parent_def
        sync_private_file_directory_def)
qed

definition sample_pair :: authorized_clients where
  "sample_pair = map (\<lambda>b. \<lparr> ac_key_id = derive_key_id sample_crypto (replicate 32 b), ac_public_key = replicate 32 b,
     ac_psk = replicate 32 6 \<rparr>) [1, 2]"

definition sample_fs4 :: filesystem where
  "sample_fs4 = (\<lambda>_. None)(sample_path ''a'' := Some (new_private_file (sample_env NoFault)
     (concat (map (entry_text \<circ> entry_document sample_docs) sample_pair))))"

lemma sample_pair_sorted: "sorted_wrt (<) (map ac_key_id sample_pair)"
  by code_simp

lemma sample_pair_valid: "allowlist_valid sample_crypto sample_pair"
  using sample_pair_sorted
  by (simp add: allowlist_valid_def clients_ok_def clients_sorted_def)
    (simp add: sample_pair_def authorized_client_typed_def MAX_AUTHORIZED_CLIENTS_def sample_sha)

lemma sample_pair_serialized:
  "authorized_serialized sample_docs clients = Inr (concat (map (entry_text \<circ> entry_document sample_docs) clients))"
  by (simp add: authorized_serialized_iff allowlist_document_def) (simp add: sample_docs_def comp_def)

lemma sample_pair_loaded:
  "authorized_load_with_owner sample_crypto sample_docs sample_T sample_fs4 (sample_path ''a'') EffectiveUser = Inr sample_pair"
  unfolding sample_fs4_def
  by (rule written_reads_back [OF sample_documents_ok sample_pair_valid sample_pair_serialized sample_trusted sample_uid(2)])

section \<open>Properties\<close>

text \<open>C29. An allowlist that the server loads comes from a regular file with mode 0600 and one link,
  owned by the expected user, within the size limit, and is well-formed: one to 256 entries with
  fields of their sizes, strictly sorted by key id, each key id derived from its public key.\<close>

theorem loaded_allowlist_wellformed:
  assumes "documents_ok D" "authorized_load_with_owner C D T fs p owner = Inr clients"
  shows "allowlist_valid C clients
    \<and> (\<exists>f. fs p = Some f \<and> private_file_safe (te_euid T) CLIENT_AUTH_FILE_LIMIT owner True f)"
  using assms
  by (auto simp: authorized_load_with_owner_def read_auth_file_def open_file_def result_simps authorized_parse_iff
      read_private_file_iff)

lemma loaded_allowlist_wellformed_witness:
  "authorized_load_with_owner sample_crypto sample_docs sample_T sample_fs4 (sample_path ''a'') EffectiveUser = Inr sample_pair
    \<and> (\<exists>f. sample_fs4 (sample_path ''a'') = Some f \<and> private_file_safe 1000 CLIENT_AUTH_FILE_LIMIT EffectiveUser True f)"
  using loaded_allowlist_wellformed [OF sample_documents_ok sample_pair_loaded] sample_pair_loaded
  by (simp add: sample_T_def)

lemma sample_fs3_eq: "sample_enroll NoFault sample_fs2 = (fst (sample_enroll NoFault sample_fs2), Inr (cc_key_id sample_cred))"
  using sample_enroll_run by (simp add: prod_eq_iff)

lemma sample_lease:
  "acquire_mutation_lease sample_T (sample_path ''a'') EffectiveUser (lk_open sample_lock) (lk_try sample_lock) = Inr ()"
  using sample_uid by (simp add: acquire_mutation_lease_def sample_trusted sample_path_def [of "''a''", symmetric])
    (simp add: sample_path_def path_file_name_def sample_lock_def new_private_file_def)

lemma sample_write:
  "fs [RootDir, Normal ''.a.shadowpipe-1-0.tmp''] = None \<Longrightarrow>
     \<exists>fs'. atomic_write_private_file (sample_env NoFault) (sample_path ''a'') j fs = (fs', Inr ())"
  by (simp add: atomic_write_private_file_def stage_private_file_def sample_path_def path_file_name_def sample_env_def
      temp_path_def private_file_parent_def path_parent_def sync_private_file_directory_def)

lemma sample_revoke_run:
  "\<exists>fs'. revoke_with_owner sample_crypto sample_docs sample_T sample_lock (sample_env NoFault) (sample_path ''a'')
     (derive_key_id sample_crypto (replicate 32 1)) EffectiveUser sample_fs4 = (fs', Inr ())"
proof -
  have "authorized_revoke sample_pair (derive_key_id sample_crypto (replicate 32 1)) = Inr (tl sample_pair)"
    by code_simp
  moreover have "sample_fs4 [RootDir, Normal ''.a.shadowpipe-1-0.tmp''] = None"
    by (simp add: sample_fs4_def sample_path_def)
  ultimately show ?thesis
    using sample_write [of sample_fs4 "concat (map (entry_text \<circ> entry_document sample_docs) (tl sample_pair))"]
    by (auto simp: revoke_with_owner_def sample_trusted sample_lease sample_pair_loaded sample_pair_serialized)
qed

text \<open>C30. Successful mutations of the allowlist refine operations on the registry it stands for. An
  enrollment inserts exactly the enrolled key and secret: an existing entry with that key id must
  be identical. A revocation removes exactly the key, which was enrolled, and never empties the
  allowlist. Every other entry and every other file is kept.\<close>

theorem mutations_refine_registry:
  assumes "documents_ok D" "fe_euid env = expected_uid (te_euid T) owner"
  shows "(enroll_with_owner C D T lock env ap ep owner fs = (fs', Inr k) \<longrightarrow>
      (\<exists>e old new. enrollment_load_with_owner C D T fs ep owner = Inr e \<and> k = ce_key_id e
        \<and> stored_clients C D T ap owner fs = Inr old \<and> stored_clients C D T ap owner fs' = Inr new
        \<and> allowlist_valid C new \<and> registry new = (registry old)(k \<mapsto> (ce_public_key e, ce_psk e))
        \<and> registry old k \<in> {None, Some (ce_public_key e, ce_psk e)} \<and> (\<forall>q. q \<noteq> ap \<longrightarrow> fs' q = fs q)))
    \<and> (revoke_with_owner C D T lock env ap k owner fs = (fs', Inr u) \<longrightarrow>
      (\<exists>old new. authorized_load_with_owner C D T fs ap owner = Inr old
        \<and> authorized_load_with_owner C D T fs' ap owner = Inr new \<and> registry old k \<noteq> None
        \<and> registry new = (registry old)(k := None) \<and> new \<noteq> [] \<and> (\<forall>q. q \<noteq> ap \<longrightarrow> fs' q = fs q)))"
  using enroll_ok [OF assms] revoke_ok [OF assms] by blast

lemma mutations_refine_registry_witness:
  "(\<exists>new. stored_clients sample_crypto sample_docs sample_T (sample_path ''a'') EffectiveUser
      (fst (sample_enroll NoFault sample_fs2)) = Inr new \<and> registry new (cc_key_id sample_cred) \<noteq> None)
   \<and> (\<exists>fs' new. authorized_load_with_owner sample_crypto sample_docs sample_T fs' (sample_path ''a'') EffectiveUser = Inr new
     \<and> registry new = (registry sample_pair)(derive_key_id sample_crypto (replicate 32 1) := None))"
proof
  show "\<exists>new. stored_clients sample_crypto sample_docs sample_T (sample_path ''a'') EffectiveUser
      (fst (sample_enroll NoFault sample_fs2)) = Inr new \<and> registry new (cc_key_id sample_cred) \<noteq> None"
    using mutations_refine_registry [OF sample_documents_ok sample_uid(2), THEN conjunct1, rule_format,
        OF sample_fs3_eq [unfolded sample_enroll_def]]
    by (auto simp: sample_enroll_def)
  obtain fs' where "revoke_with_owner sample_crypto sample_docs sample_T sample_lock (sample_env NoFault) (sample_path ''a'')
     (derive_key_id sample_crypto (replicate 32 1)) EffectiveUser sample_fs4 = (fs', Inr ())"
    using sample_revoke_run by blast
  from mutations_refine_registry [OF sample_documents_ok sample_uid(2), THEN conjunct2, rule_format, OF this]
  show "\<exists>fs' new. authorized_load_with_owner sample_crypto sample_docs sample_T fs' (sample_path ''a'') EffectiveUser = Inr new
     \<and> registry new = (registry sample_pair)(derive_key_id sample_crypto (replicate 32 1) := None)"
    by (auto simp: sample_pair_loaded)
qed

text \<open>C31. Provisioning ends in authorization: when a fresh credential is created, its enrollment written
  and enrolled, the allowlist stands for a registry with exactly the credential's public key and
  secret under its key id, and the credential file reads back to the credential.\<close>

theorem provisioned_client_authorized:
  assumes "documents_ok D" "primitives_ok C" "length seed = 32" "length psk = 32" "fe_euid env = te_euid T"
    and "credential_create C D T env (Some seed) (Some psk) cp fs0 = (fs1, Inr cred)"
    and "write_enrollment D T env cred ep fs1 = (fs2, Inr u)"
    and "enroll_with_owner C D T lock env ap ep EffectiveUser fs2 = (fs3, Inr k)"
  shows "credential_ok C cred \<and> credential_load_with_owner C D T fs1 cp EffectiveUser = Inr cred
    \<and> (\<exists>clients. stored_clients C D T ap EffectiveUser fs3 = Inr clients \<and> allowlist_valid C clients
        \<and> k = cc_key_id cred \<and> registry clients k = Some (cc_public_key cred, cc_psk cred) \<and> enrolled cred clients)"
proof -
  have sha: "length (sha256 C m) = 32" for m
    using assms(2) by (simp add: primitives_ok_def)
  note cr = credential_create_ok [OF assms(1) sha assms(3-6)]
  from provision_enrolls [OF assms(1) sha assms(3-8)] obtain clients where
    c: "stored_clients C D T ap EffectiveUser fs3 = Inr clients" "allowlist_valid C clients"
      "k = cc_key_id cred" "registry clients k = Some (cc_public_key cred, cc_psk cred)"
    by blast
  then have "clients_sorted clients"
    by (simp add: allowlist_valid_def clients_ok_def)
  then have "enrolled cred clients"
    using c(3,4) by (force simp: registry_Some enrolled_def)
  with c cr show ?thesis
    by blast
qed

lemma provisioned_client_authorized_witness:
  "\<exists>clients. stored_clients sample_crypto sample_docs sample_T (sample_path ''a'') EffectiveUser
      (fst (sample_enroll NoFault sample_fs2)) = Inr clients \<and> enrolled sample_cred clients"
  using provisioned_client_authorized [OF sample_documents_ok sample_primitives_ok _ _ sample_uid(1)
      sample_fs1_eq [unfolded sample_create_def] sample_fs2_eq sample_fs3_eq [unfolded sample_enroll_def]]
  by (auto simp: sample_enroll_def)





end
