(* ===== verification/Packet_Mux.thy ===== *)
theory Packet_Mux
  imports Session_Frames "HOL-Library.AList"
begin

text \<open>
  IP packets in frames (\<open>mux/mod.rs\<close>): fragmentation and reassembly. A hash map is an association
  list with distinct keys; no operation depends on its order. The reassembler's invariant bounds
  what it holds, and each fed payload either leaves the state alone or is a well-formed fragment.
\<close>

section \<open>Fragmentation\<close>

record mux_config =
  mx_stream_count :: u32
  mx_max_chunk_size :: nat

definition mux_config_default :: mux_config where
  "mux_config_default = \<lparr> mx_stream_count = 24, mx_max_chunk_size = 4096 \<rparr>"

definition MSG_IP_DATA :: u8 where "MSG_IP_DATA = 1"

datatype mux_error =
    ZeroStreamCount
  | ZeroChunkSize
  | UnknownMessage u8
  | MuxTooShort
  | InvalidFragment u16 u16
  | FragmentTotalMismatch u32
  | MissingFragment u16

text \<open>\<open>slice::chunks\<close>, which panics for size zero.\<close>

function chunks :: "nat \<Rightarrow> 'a list \<Rightarrow> 'a list list" where
  "chunks n xs = (if xs = [] \<or> n = 0 then [] else take n xs # chunks n (drop n xs))"
  by pat_completeness auto
termination
  by (relation "measure (\<lambda>(n, xs). length xs)") auto

declare chunks.simps [simp del]

definition fragment_payload :: "u32 \<Rightarrow> u16 \<Rightarrow> u16 \<Rightarrow> bytes \<Rightarrow> bytes" where
  "fragment_payload packet_id frag_idx frag_total chunk =
     [MSG_IP_DATA] @ be32 packet_id @ be16 frag_idx @ be16 frag_total @ chunk"

definition encode_packet :: "bytes \<Rightarrow> u32 \<Rightarrow> mux_config \<Rightarrow> mux_error + (u32 \<times> bytes) list" where
  "encode_packet packet packet_id cfg =
     (if packet = [] then Inr []
      else if mx_stream_count cfg = 0 then Inl ZeroStreamCount
      else if mx_max_chunk_size cfg = 0 then Inl ZeroChunkSize
      else let parts = chunks (mx_max_chunk_size cfg) packet;
               frag_total = word_of_nat (min (length parts) 65535) in
        Inr (map (\<lambda>(frag_idx, chunk).
          ((packet_id + word_of_nat frag_idx) mod mx_stream_count cfg,
           fragment_payload packet_id (word_of_nat frag_idx) frag_total chunk)) (enumerate 0 parts)))"

section \<open>Reassembly\<close>

definition MAX_PENDING_PACKETS :: nat where "MAX_PENDING_PACKETS = 256"
definition MAX_PENDING_BYTES :: nat where "MAX_PENDING_BYTES = 8 * 1024 * 1024"
definition MAX_FRAG_TOTAL :: u16 where "MAX_FRAG_TOTAL = 512"

record pending_packet =
  pp_frag_total :: u16
  pp_frags :: "(u16 \<times> bytes) list"

record reassembler =
  ra_pending :: "(u32 \<times> pending_packet) list"
  ra_total_bytes :: nat

definition reassembler_new :: reassembler where
  "reassembler_new = \<lparr> ra_pending = [], ra_total_bytes = 0 \<rparr>"

definition frags_bytes :: "(u16 \<times> bytes) list \<Rightarrow> nat" where
  "frags_bytes frags = sum_list (map (\<lambda>(_, v). length v) frags)"

definition evict_oldest :: "reassembler \<Rightarrow> reassembler" where
  "evict_oldest r =
     (if ra_pending r = [] then r
      else let oldest = Min (set (map fst (ra_pending r))) in
        case map_of (ra_pending r) oldest of None \<Rightarrow> r
        | Some entry \<Rightarrow> r \<lparr> ra_pending := AList.delete oldest (ra_pending r),
            ra_total_bytes := ra_total_bytes r - frags_bytes (pp_frags entry) \<rparr>)"

lemma evict_oldest_smaller:
  assumes "ra_pending r \<noteq> []"
  shows "length (ra_pending (evict_oldest r)) < length (ra_pending r)"
proof -
  let ?k = "Min (set (map fst (ra_pending r)))"
  have k: "?k \<in> set (map fst (ra_pending r))"
    using assms by (intro Min_in) auto
  then obtain v where v: "(?k, v) \<in> set (ra_pending r)"
    by auto
  have "map_of (ra_pending r) ?k \<noteq> None"
    using k by (simp only: map_of_eq_None_iff set_map) simp
  moreover have "length (AList.delete ?k (ra_pending r)) < length (ra_pending r)"
    unfolding AList.delete_eq using v by (intro length_filter_less [where x = "(?k, v)"]) auto
  ultimately show ?thesis
    using assms by (auto simp: evict_oldest_def Let_def)
qed

lemma evict_oldest_left:
  "ra_pending (evict_oldest r) \<noteq> [] \<Longrightarrow> length (ra_pending (evict_oldest r)) < length (ra_pending r)"
  by (rule evict_oldest_smaller) (auto simp: evict_oldest_def)

function make_room :: "nat \<Rightarrow> reassembler \<Rightarrow> reassembler" where
  "make_room n r =
     (if length (ra_pending r) \<ge> MAX_PENDING_PACKETS \<or> ra_total_bytes r + n > MAX_PENDING_BYTES
      then let r' = evict_oldest r in if ra_pending r' = [] then r' else make_room n r'
      else r)"
  by pat_completeness auto
termination
  by (relation "measure (\<lambda>(n, r). length (ra_pending r))") (simp_all add: evict_oldest_left)

declare make_room.simps [simp del]

text \<open>The loop that takes the parts of a complete packet out of its entry, in order.\<close>

fun take_parts ::
  "nat list \<Rightarrow> (u16 \<times> bytes) list \<Rightarrow> nat \<Rightarrow> bytes \<Rightarrow> (u16 \<times> bytes) list \<times> nat \<times> (mux_error + bytes)" where
  "take_parts [] frags tot assembled = (frags, tot, Inr assembled)"
| "take_parts (i # is) frags tot assembled =
     (case map_of frags (word_of_nat i) of
        None \<Rightarrow> (frags, tot, Inl (MissingFragment (word_of_nat i)))
      | Some part \<Rightarrow> take_parts is (AList.delete (word_of_nat i) frags) (tot - length part) (assembled @ part))"

definition feed_fragment ::
  "reassembler \<Rightarrow> u32 \<Rightarrow> u16 \<Rightarrow> u16 \<Rightarrow> bytes \<Rightarrow> reassembler \<times> (mux_error + bytes option)" where
  "feed_fragment r0 packet_id frag_idx frag_total data =
     (let r = make_room (length data) r0;
          entry = (case map_of (ra_pending r) packet_id of Some e \<Rightarrow> e
            | None \<Rightarrow> \<lparr> pp_frag_total = frag_total, pp_frags = [] \<rparr>);
          r1 = r \<lparr> ra_pending := AList.update packet_id entry (ra_pending r) \<rparr> in
      if pp_frag_total entry \<noteq> frag_total then (r1, Inl (FragmentTotalMismatch packet_id))
      else
        let replaced = map_of (pp_frags entry) frag_idx;
            frags = AList.update frag_idx data (pp_frags entry);
            total = ra_total_bytes r1 + length data - (case replaced of Some old \<Rightarrow> length old | None \<Rightarrow> 0);
            r2 = r1 \<lparr> ra_pending := AList.update packet_id (entry \<lparr> pp_frags := frags \<rparr>) (ra_pending r1),
                      ra_total_bytes := total \<rparr> in
        if length frags \<noteq> unat frag_total then (r2, Inr None)
        else case take_parts [0..<unat frag_total] frags total [] of
            (left, total', Inl e) \<Rightarrow>
              (r2 \<lparr> ra_pending := AList.update packet_id (entry \<lparr> pp_frags := left \<rparr>) (ra_pending r2),
                    ra_total_bytes := total' \<rparr>, Inl e)
          | (left, total', Inr assembled) \<Rightarrow>
              (r2 \<lparr> ra_pending := AList.delete packet_id (ra_pending r2), ra_total_bytes := total' \<rparr>,
               Inr (Some assembled)))"

definition feed :: "reassembler \<Rightarrow> bytes \<Rightarrow> reassembler \<times> (mux_error + bytes option)" where
  "feed r payload =
     (if payload = [] then (r, Inr None)
      else if hd payload \<noteq> MSG_IP_DATA then (r, Inl (UnknownMessage (hd payload)))
      else if length payload < 9 then (r, Inl MuxTooShort)
      else let packet_id = word_of_nat (be_val (take 4 (drop 1 payload)));
               frag_idx = word_of_nat (be_val (take 2 (drop 5 payload)));
               frag_total = word_of_nat (be_val (take 2 (drop 7 payload)));
               data = drop 9 payload in
        if frag_total = 0 \<or> frag_idx \<ge> frag_total \<or> frag_total > MAX_FRAG_TOTAL
        then (r, Inl (InvalidFragment frag_idx frag_total))
        else feed_fragment r packet_id frag_idx frag_total data)"

section \<open>Fragments\<close>

lemma chunks_Nil [simp]: "chunks n [] = []"
  by (simp add: chunks.simps)

lemma concat_chunks: "0 < n \<Longrightarrow> concat (chunks n xs) = xs"
  by (induction n xs rule: chunks.induct) (subst chunks.simps, auto)

lemma chunks_sizes: "c \<in> set (chunks n xs) \<Longrightarrow> c \<noteq> [] \<and> length c \<le> n"
  by (induction n xs rule: chunks.induct) (subst (asm) (2) chunks.simps, auto split: if_splits)

lemma length_chunks: "length xs \<le> k * n \<Longrightarrow> length (chunks n xs) \<le> k"
proof (induction k arbitrary: xs)
  case (Suc k)
  then have "length (chunks n (drop n xs)) \<le> k"
    by simp
  then show ?case
    by (subst chunks.simps) simp
qed simp

lemma feed_payload:
  assumes "0 < frag_total" "frag_idx < frag_total" "frag_total \<le> MAX_FRAG_TOTAL"
  shows "feed r (fragment_payload packet_id frag_idx frag_total data)
    = feed_fragment r packet_id frag_idx frag_total data"
proof -
  have p: "fragment_payload packet_id frag_idx frag_total data
      = [MSG_IP_DATA] @ be32 packet_id @ be16 frag_idx @ be16 frag_total @ data"
    by (simp add: fragment_payload_def)
  show ?thesis
    using assms unfolding feed_def p by (auto simp: Let_def be_val_be not_less)
qed

section \<open>The reassembler's invariant\<close>

definition asum :: "('v \<Rightarrow> nat) \<Rightarrow> ('k \<times> 'v) list \<Rightarrow> nat" where
  "asum f xs = sum_list (map (f \<circ> snd) xs)"

lemma asum_simps [simp]: "asum f [] = 0" "asum f (x # xs) = f (snd x) + asum f xs" "asum f (xs @ ys) = asum f xs + asum f ys"
  by (simp_all add: asum_def)

lemma frags_bytes_asum: "frags_bytes frags = asum length frags"
  by (induction frags) (auto simp: frags_bytes_def)

lemma delete_absent: "k \<notin> fst ` set xs \<Longrightarrow> AList.delete k xs = xs"
  by (induction xs) auto

lemma asum_delete:
  "distinct (map fst xs) \<Longrightarrow> map_of xs k = Some v \<Longrightarrow> asum f (AList.delete k xs) + f v = asum f xs"
proof (induction xs)
  case (Cons x xs)
  show ?case
  proof (cases "fst x = k")
    case True
    with Cons.prems show ?thesis
      by (cases x) (simp add: delete_absent)
  next
    case False
    with Cons show ?thesis
      by (cases x) auto
  qed
qed simp

lemma asum_update:
  "distinct (map fst xs) \<Longrightarrow> asum f (AList.update k v xs) + (case map_of xs k of None \<Rightarrow> 0 | Some w \<Rightarrow> f w) = asum f xs + f v"
  by (induction xs) (auto split: option.splits)

lemma length_update: "length (AList.update k v xs) = (if k \<in> fst ` set xs then length xs else Suc (length xs))"
  by (induction xs) auto

lemma update_same: "map_of xs k = Some v \<Longrightarrow> AList.update k v xs = xs"
  by (induction xs) auto

lemma set_update_subset: "set (AList.update k v xs) \<subseteq> insert (k, v) (set xs)"
  by (induction xs) auto

lemma update_absent: "k \<notin> fst ` set xs \<Longrightarrow> AList.update k v xs = xs @ [(k, v)]"
  by (induction xs) auto

lemma update_update: "AList.update k w (AList.update k v xs) = AList.update k w xs"
  by (induction xs) auto

definition entry_ok :: "pending_packet \<Rightarrow> bool" where
  "entry_ok e \<longleftrightarrow> distinct (map fst (pp_frags e)) \<and> (\<forall>i \<in> fst ` set (pp_frags e). i < pp_frag_total e)
     \<and> pp_frags e \<noteq> [] \<and> length (pp_frags e) < unat (pp_frag_total e)"

definition entry_bytes :: "pending_packet \<Rightarrow> nat" where
  "entry_bytes e = frags_bytes (pp_frags e)"

definition ra_ok :: "reassembler \<Rightarrow> bool" where
  "ra_ok r \<longleftrightarrow> distinct (map fst (ra_pending r)) \<and> (\<forall>e \<in> snd ` set (ra_pending r). entry_ok e)
     \<and> ra_total_bytes r = asum entry_bytes (ra_pending r)
     \<and> length (ra_pending r) \<le> MAX_PENDING_PACKETS \<and> ra_total_bytes r \<le> MAX_PENDING_BYTES"

lemma reassembler_new_ok: "ra_ok reassembler_new"
  by (simp add: ra_ok_def reassembler_new_def)

lemma evict_oldest_cases:
  assumes "ra_pending r \<noteq> []"
  obtains k e where "map_of (ra_pending r) k = Some e" "\<forall>j \<in> fst ` set (ra_pending r). k \<le> j"
    "evict_oldest r = r \<lparr> ra_pending := AList.delete k (ra_pending r),
       ra_total_bytes := ra_total_bytes r - entry_bytes e \<rparr>"
proof -
  let ?k = "Min (set (map fst (ra_pending r)))"
  have k: "?k \<in> set (map fst (ra_pending r))"
    using assms by (intro Min_in) auto
  then have "map_of (ra_pending r) ?k \<noteq> None"
    by (simp only: map_of_eq_None_iff set_map) simp
  then obtain e where "map_of (ra_pending r) ?k = Some e"
    by blast
  then show thesis
    using assms by (intro that [of ?k e]) (auto simp: evict_oldest_def Let_def entry_bytes_def)
qed

lemma evict_oldest_ok:
  assumes "ra_ok r"
  shows "ra_ok (evict_oldest r)" and "map_of (ra_pending (evict_oldest r)) \<subseteq>\<^sub>m map_of (ra_pending r)"
proof -
  have "ra_ok (evict_oldest r) \<and> map_of (ra_pending (evict_oldest r)) \<subseteq>\<^sub>m map_of (ra_pending r)"
  proof (cases "ra_pending r = []")
    case True
    with assms show ?thesis
      by (simp add: evict_oldest_def)
  next
    case False
    obtain k e where k: "map_of (ra_pending r) k = Some e"
      and ev: "evict_oldest r = r \<lparr> ra_pending := AList.delete k (ra_pending r),
         ra_total_bytes := ra_total_bytes r - entry_bytes e \<rparr>"
      by (rule evict_oldest_cases [OF False])
    have "asum entry_bytes (AList.delete k (ra_pending r)) + entry_bytes e = asum entry_bytes (ra_pending r)"
      using assms k by (intro asum_delete) (simp_all add: ra_ok_def)
    moreover have "set (AList.delete k (ra_pending r)) \<subseteq> set (ra_pending r)"
      "length (AList.delete k (ra_pending r)) \<le> length (ra_pending r)"
      by (auto simp: AList.delete_eq)
    ultimately show ?thesis
      using assms unfolding ev
      by (auto simp: ra_ok_def AList.distinct_delete AList.delete_conv' map_le_def)
  qed
  then show "ra_ok (evict_oldest r)" and "map_of (ra_pending (evict_oldest r)) \<subseteq>\<^sub>m map_of (ra_pending r)"
    by simp_all
qed

lemma make_room_ok:
  assumes "ra_ok r" "n \<le> MAX_PENDING_BYTES"
  shows "ra_ok (make_room n r) \<and> length (ra_pending (make_room n r)) < MAX_PENDING_PACKETS
    \<and> ra_total_bytes (make_room n r) + n \<le> MAX_PENDING_BYTES
    \<and> map_of (ra_pending (make_room n r)) \<subseteq>\<^sub>m map_of (ra_pending r)"
  using assms
proof (induction n r rule: make_room.induct)
  case (1 n r)
  let ?r = "evict_oldest r"
  show ?case
  proof (cases "length (ra_pending r) \<ge> MAX_PENDING_PACKETS \<or> ra_total_bytes r + n > MAX_PENDING_BYTES")
    case True
    note ev = evict_oldest_ok [OF 1(2)]
    show ?thesis
    proof (cases "ra_pending ?r = []")
      case empty: True
      then have "ra_total_bytes ?r = 0"
        using ev(1) by (simp add: ra_ok_def)
      with True empty ev 1(3) show ?thesis
        by (subst (1 2 3 4) make_room.simps) (simp add: Let_def MAX_PENDING_PACKETS_def)
    next
      case False
      then have "make_room n r = make_room n ?r"
        using True by (subst make_room.simps) (simp add: Let_def)
      with 1(1) [OF True refl False ev(1) 1(3)] ev(2) show ?thesis
        by (auto intro: map_le_trans)
    qed
  next
    case False
    with 1(2) show ?thesis
      by (subst (1 2 3 4) make_room.simps) simp
  qed
qed

lemma make_room_id:
  "length (ra_pending r) < MAX_PENDING_PACKETS \<Longrightarrow> ra_total_bytes r + n \<le> MAX_PENDING_BYTES \<Longrightarrow> make_room n r = r"
  by (subst make_room.simps) simp

section \<open>Complete packets\<close>

lemma take_parts_ok:
  assumes "\<forall>i \<in> set is. map_of frags (word_of_nat i) = Some (parts i)" "distinct (map (word_of_nat :: nat \<Rightarrow> u16) is)"
  shows "\<exists>left. take_parts is frags tot acc
    = (left, tot - sum_list (map (length \<circ> parts) is), Inr (acc @ concat (map parts is)))"
  using assms
proof (induction "is" arbitrary: frags tot acc)
  case (Cons i "is")
  have "\<forall>j \<in> set is. map_of (AList.delete (word_of_nat i) frags) (word_of_nat j) = Some (parts j)"
    using Cons.prems by (auto simp: AList.delete_conv' image_iff)
  from Cons.IH [OF this, of "tot - length (parts i)" "acc @ parts i"] Cons.prems show ?case
    by (simp add: diff_diff_left)
qed simp

lemma u16_inj_on: "inj_on (word_of_nat :: nat \<Rightarrow> u16) {0..<65536}"
proof (rule inj_onI)
  fix a b :: nat
  assume "a \<in> {0..<65536}" "b \<in> {0..<65536}" "(word_of_nat a :: u16) = word_of_nat b"
  then have "unat (word_of_nat a :: u16) = unat (word_of_nat b :: u16)" "a < 65536" "b < 65536"
    by simp_all
  then show "a = b"
    by (simp add: unat_of_nat)
qed

lemma distinct_u16: "n \<le> 65536 \<Longrightarrow> distinct (map (word_of_nat :: nat \<Rightarrow> u16) [0..<n])"
  using inj_on_subset [OF u16_inj_on, of "{0..<n}"] by (simp add: distinct_map)

text \<open>As many distinct indices below the total as the total are all of them.\<close>

lemma complete_indices:
  assumes "distinct (map fst frags)" "\<forall>i \<in> fst ` set frags. i < (t :: u16)" "length frags = unat t"
  shows "fst ` set frags = word_of_nat ` {0..<unat t}"
proof (rule card_subset_eq)
  show "fst ` set frags \<subseteq> word_of_nat ` {0..<unat t}"
  proof
    fix i
    assume "i \<in> fst ` set frags"
    then have "unat i < unat t"
      using assms(2) by (auto simp: word_less_nat_alt)
    then show "i \<in> word_of_nat ` {0..<unat t}"
      by (intro image_eqI [of _ _ "unat i"]) simp_all
  qed
  have "unat t < 2 ^ LENGTH(16)"
    by (rule unsigned_less)
  then have "inj_on (word_of_nat :: nat \<Rightarrow> u16) {0..<unat t}"
    by (intro inj_on_subset [OF u16_inj_on]) auto
  then have "card ((word_of_nat :: nat \<Rightarrow> u16) ` {0..<unat t}) = unat t"
    by (simp add: card_image)
  moreover have "card (fst ` set frags) = length frags"
    using distinct_card [OF assms(1)] by simp
  ultimately show "card (fst ` set frags) = card ((word_of_nat :: nat \<Rightarrow> u16) ` {0..<unat t})"
    using assms(3) by simp
qed simp

lemma complete_iff:
  assumes "distinct (map fst frags)" "\<forall>i \<in> fst ` set frags. i < (t :: u16)"
  shows "length frags = unat t \<longleftrightarrow> (\<forall>j < unat t. map_of frags (word_of_nat j) \<noteq> None)"
proof
  assume "length frags = unat t"
  then show "\<forall>j < unat t. map_of frags (word_of_nat j) \<noteq> None"
    using complete_indices [OF assms] by (simp add: map_of_eq_None_iff)
next
  assume all: "\<forall>j < unat t. map_of frags (word_of_nat j) \<noteq> None"
  have "i \<in> fst ` set frags \<longleftrightarrow> i \<in> {i. i < t}" for i
    using assms(2) all [rule_format, of "unat i"] by (auto simp: map_of_eq_None_iff word_less_nat_alt)
  then have "fst ` set frags = {i. i < t}"
    by blast
  moreover have "card (fst ` set frags) = length frags"
    using distinct_card [OF assms(1)] by simp
  moreover have "card {i. i < t} = unat t"
  proof -
    have small: "unat (word_of_nat j :: u16) = j" if "j < unat t" for j
      using that unsigned_less [of t, where 'a = nat] by (simp add: unat_of_nat)
    have "j \<in> unat ` {i. i < t}" if "j < unat t" for j
      using small [OF that] that by (intro image_eqI [of _ _ "word_of_nat j"]) (simp_all add: word_less_nat_alt)
    then have "unat ` {i. i < t} = {0..<unat t}"
      by (auto simp: word_less_nat_alt)
    moreover have "inj_on unat {i. i < t}"
      by (simp add: inj_on_def word_unat_eq_iff)
    ultimately show ?thesis
      using card_image [of unat "{i. i < t}"] by simp
  qed
  ultimately show "length frags = unat t"
    by simp
qed

definition feed_entry :: "reassembler \<Rightarrow> u32 \<Rightarrow> u16 \<Rightarrow> pending_packet" where
  "feed_entry r packet_id frag_total = (case map_of (ra_pending r) packet_id of Some e \<Rightarrow> e
     | None \<Rightarrow> \<lparr> pp_frag_total = frag_total, pp_frags = [] \<rparr>)"

lemma feed_entry_bytes:
  "entry_bytes (feed_entry r k t) = (case map_of (ra_pending r) k of None \<Rightarrow> 0 | Some e \<Rightarrow> entry_bytes e)"
  by (simp add: feed_entry_def entry_bytes_def frags_bytes_def split: option.split)

lemma feed_entry_ok:
  assumes "ra_ok r" "pp_frag_total (feed_entry r k t) = t" "0 < t"
  shows "distinct (map fst (pp_frags (feed_entry r k t)))" "\<forall>i \<in> fst ` set (pp_frags (feed_entry r k t)). i < t"
    "length (pp_frags (feed_entry r k t)) < unat t"
proof -
  have "entry_ok e" if "map_of (ra_pending r) k = Some e" for e
    using assms(1) map_of_SomeD [OF that] by (force simp: ra_ok_def)
  with assms(2,3) show "distinct (map fst (pp_frags (feed_entry r k t)))"
    "\<forall>i \<in> fst ` set (pp_frags (feed_entry r k t)). i < t" "length (pp_frags (feed_entry r k t)) < unat t"
    by (auto simp: feed_entry_def entry_ok_def word_less_nat_alt split: option.splits)
qed

lemma sum_parts:
  assumes "distinct (map fst frags)" "\<forall>i \<in> fst ` set frags. i < (t :: u16)" "length frags = unat t"
  shows "sum_list (map (length \<circ> (\<lambda>i. the (map_of frags (word_of_nat i)))) [0..<unat t]) = frags_bytes frags"
proof -
  have t: "unat t < 2 ^ LENGTH(16)"
    by (rule unsigned_less)
  then have inj: "inj_on (word_of_nat :: nat \<Rightarrow> u16) {0..<unat t}"
    by (intro inj_on_subset [OF u16_inj_on]) auto
  have "sum_list (map (length \<circ> (\<lambda>i. the (map_of frags (word_of_nat i)))) [0..<unat t])
      = (\<Sum>i \<in> {0..<unat t}. length (the (map_of frags (word_of_nat i))))"
    by (simp add: sum_list_distinct_conv_sum_set)
  also have "\<dots> = (\<Sum>k \<in> fst ` set frags. length (the (map_of frags k)))"
    unfolding complete_indices [OF assms] using inj by (simp add: sum.reindex comp_def)
  also have "\<dots> = sum_list (map (\<lambda>k. length (the (map_of frags k))) (map fst frags))"
    using assms(1) by (simp only: sum_list_distinct_conv_sum_set set_map)
  also have "\<dots> = frags_bytes frags"
    unfolding frags_bytes_asum asum_def map_map using assms(1)
    by (intro arg_cong [where f = sum_list] map_cong refl) auto
  finally show ?thesis .
qed

text \<open>The three outcomes of a valid fragment, once there is room for it.\<close>

lemma feed_fragment_cases:
  assumes r0: "ra_ok r0" "length data \<le> MAX_PENDING_BYTES" and t: "frag_idx < frag_total"
    and feed: "feed_fragment r0 packet_id frag_idx frag_total data = (r', res)"
  defines "r \<equiv> make_room (length data) r0"
  defines "e \<equiv> feed_entry r packet_id frag_total"
  defines "frags \<equiv> AList.update frag_idx data (pp_frags e)"
  shows "pp_frag_total e \<noteq> frag_total \<and> res = Inl (FragmentTotalMismatch packet_id) \<and> r' = r
    \<or> pp_frag_total e = frag_total \<and> length frags < unat frag_total \<and> res = Inr None
      \<and> r' = r \<lparr> ra_pending := AList.update packet_id (e \<lparr> pp_frags := frags \<rparr>) (ra_pending r),
               ra_total_bytes := ra_total_bytes r + length data
                 - (case map_of (pp_frags e) frag_idx of Some old \<Rightarrow> length old | None \<Rightarrow> 0) \<rparr>
    \<or> pp_frag_total e = frag_total \<and> length frags = unat frag_total
      \<and> res = Inr (Some (concat (map (\<lambda>i. the (map_of frags (word_of_nat i))) [0..<unat frag_total])))
      \<and> r' = r \<lparr> ra_pending := AList.delete packet_id (ra_pending r),
               ra_total_bytes := ra_total_bytes r - entry_bytes e \<rparr>"
proof -
  let ?old = "case map_of (pp_frags e) frag_idx of Some old \<Rightarrow> length old | None \<Rightarrow> 0"
  have r: "ra_ok r"
    using make_room_ok [OF r0] by (simp add: r_def)
  have body: "feed_fragment r0 packet_id frag_idx frag_total data =
    (if pp_frag_total e \<noteq> frag_total
     then (r \<lparr> ra_pending := AList.update packet_id e (ra_pending r) \<rparr>, Inl (FragmentTotalMismatch packet_id))
     else let r2 = r \<lparr> ra_pending := AList.update packet_id (e \<lparr> pp_frags := frags \<rparr>) (ra_pending r),
              ra_total_bytes := ra_total_bytes r + length data - ?old \<rparr> in
       if length frags \<noteq> unat frag_total then (r2, Inr None)
       else case take_parts [0..<unat frag_total] frags (ra_total_bytes r + length data - ?old) [] of
          (left, total', Inl err) \<Rightarrow>
            (r2 \<lparr> ra_pending := AList.update packet_id (e \<lparr> pp_frags := left \<rparr>) (ra_pending r2),
                  ra_total_bytes := total' \<rparr>, Inl err)
        | (left, total', Inr assembled) \<Rightarrow>
            (r2 \<lparr> ra_pending := AList.delete packet_id (ra_pending r2), ra_total_bytes := total' \<rparr>,
             Inr (Some assembled)))"
    unfolding feed_fragment_def Let_def r_def [symmetric] feed_entry_def [symmetric] e_def [symmetric]
      frags_def [symmetric] by (simp add: update_update)
  show ?thesis
  proof (cases "pp_frag_total e = frag_total")
    case False
    then have "map_of (ra_pending r) packet_id = Some e"
      by (auto simp: e_def feed_entry_def split: option.splits)
    with False feed body show ?thesis
      by (auto simp: update_same)
  next
    case True
    have "0 < frag_total"
      using t by (simp add: word_less_nat_alt)
    note e = feed_entry_ok [OF r True [unfolded e_def] this, folded e_def]
    have frags: "distinct (map fst frags)" "\<forall>i \<in> fst ` set frags. i < frag_total" "length frags \<le> unat frag_total"
      using e t by (auto simp: frags_def AList.distinct_update AList.dom_update length_update)
    have bytes: "frags_bytes frags + ?old = entry_bytes e + length data"
      using asum_update [OF e(1), of length frag_idx data]
      by (simp add: frags_def entry_bytes_def frags_bytes_asum option.case_eq_if)
    show ?thesis
    proof (cases "length frags = unat frag_total")
      case False
      with True frags(3) feed body show ?thesis
        by (auto simp: Let_def)
    next
      case full: True
      have "unat frag_total < 2 ^ LENGTH(16)"
        by (rule unsigned_less)
      then have "distinct (map (word_of_nat :: nat \<Rightarrow> u16) [0..<unat frag_total])"
        by (intro distinct_u16) simp
      moreover have "map_of frags (word_of_nat i) = Some (the (map_of frags (word_of_nat i)))" if "i < unat frag_total" for i
      proof -
        have "(word_of_nat i :: u16) \<in> fst ` set frags"
          unfolding complete_indices [OF frags(1,2) full] using that by simp
        then show ?thesis
          by (metis map_of_eq_None_iff option.collapse)
      qed
      ultimately obtain left where "take_parts [0..<unat frag_total] frags (ra_total_bytes r + length data - ?old) []
          = (left, ra_total_bytes r + length data - ?old - frags_bytes frags,
             Inr (concat (map (\<lambda>i. the (map_of frags (word_of_nat i))) [0..<unat frag_total])))"
        using take_parts_ok [of "[0..<unat frag_total]" frags "\<lambda>i. the (map_of frags (word_of_nat i))"
            "ra_total_bytes r + length data - ?old" "[]"] sum_parts [OF frags(1,2) full] by auto
      moreover have "ra_total_bytes r + length data - ?old - frags_bytes frags = ra_total_bytes r - entry_bytes e"
        using bytes by linarith
      ultimately show ?thesis
        using True full feed body by (simp add: Let_def AList.delete_update_same)
    qed
  qed
qed

lemma feed_fragment_ok:
  assumes r: "ra_ok r" "length data \<le> MAX_PENDING_BYTES" and t: "frag_idx < frag_total"
    and feed: "feed_fragment r packet_id frag_idx frag_total data = (r', res)"
  shows "ra_ok r'" "\<forall>i. res \<noteq> Inl (MissingFragment i)"
    "ra_total_bytes r' \<le> ra_total_bytes (make_room (length data) r) + length data"
proof -
  let ?r = "make_room (length data) r"
  let ?e = "feed_entry ?r packet_id frag_total"
  let ?frags = "AList.update frag_idx data (pp_frags ?e)"
  have room: "ra_ok ?r" "length (ra_pending ?r) < MAX_PENDING_PACKETS"
    "ra_total_bytes ?r + length data \<le> MAX_PENDING_BYTES"
    using make_room_ok [OF r] by simp_all
  then have d: "distinct (map fst (ra_pending ?r))"
    by (simp add: ra_ok_def)
  have "ra_ok r' \<and> (\<forall>i. res \<noteq> Inl (MissingFragment i)) \<and> ra_total_bytes r' \<le> ra_total_bytes ?r + length data"
    using feed_fragment_cases [OF r t feed]
  proof (elim disjE conjE, goal_cases)
    case 1
    with room show ?case
      by simp
  next
    case 2
    have "0 < frag_total"
      using t by (simp add: word_less_nat_alt)
    note e = feed_entry_ok [OF room(1) 2(1) this]
    have new: "entry_ok (?e \<lparr> pp_frags := ?frags \<rparr>)"
      using e(1,2) t 2 by (auto simp: entry_ok_def AList.distinct_update AList.dom_update)
    have bytes: "frags_bytes ?frags + (case map_of (pp_frags ?e) frag_idx of Some old \<Rightarrow> length old | None \<Rightarrow> 0)
        = entry_bytes ?e + length data"
      using asum_update [OF e(1), of length frag_idx data]
      by (simp add: entry_bytes_def frags_bytes_asum option.case_eq_if)
    let ?pending = "AList.update packet_id (?e \<lparr> pp_frags := ?frags \<rparr>) (ra_pending ?r)"
    have "asum entry_bytes ?pending + entry_bytes ?e = ra_total_bytes ?r + frags_bytes ?frags"
      using asum_update [OF d, of entry_bytes packet_id "?e \<lparr> pp_frags := ?frags \<rparr>"] room(1)
      unfolding feed_entry_bytes by (simp add: ra_ok_def) (simp add: entry_bytes_def)
    with bytes have "asum entry_bytes ?pending = ra_total_bytes ?r + length data
        - (case map_of (pp_frags ?e) frag_idx of Some old \<Rightarrow> length old | None \<Rightarrow> 0)"
      by linarith
    moreover have "\<forall>e \<in> snd ` set ?pending. entry_ok e"
      using new room(1) set_update_subset [of packet_id "?e \<lparr> pp_frags := ?frags \<rparr>" "ra_pending ?r"]
      by (fastforce simp: ra_ok_def)
    moreover have "length ?pending \<le> MAX_PENDING_PACKETS"
      using room(2) by (simp add: length_update)
    moreover have "asum entry_bytes ?pending \<le> MAX_PENDING_BYTES"
      using calculation(1) room(3) by linarith
    ultimately show ?case
      using 2(3,4) d by (simp add: ra_ok_def AList.distinct_update)
  next
    case 3
    have "asum entry_bytes (AList.delete packet_id (ra_pending ?r)) = ra_total_bytes ?r - entry_bytes ?e"
    proof (cases "map_of (ra_pending ?r) packet_id")
      case None
      then have "AList.delete packet_id (ra_pending ?r) = ra_pending ?r"
        by (intro delete_absent) (simp add: map_of_eq_None_iff)
      with room(1) show ?thesis
        unfolding feed_entry_bytes None by (simp add: ra_ok_def)
    next
      case (Some e)
      from asum_delete [OF d this, of entry_bytes] room(1) show ?thesis
        unfolding feed_entry_bytes Some by (simp add: ra_ok_def)
    qed
    moreover have "set (AList.delete packet_id (ra_pending ?r)) \<subseteq> set (ra_pending ?r)"
      "length (AList.delete packet_id (ra_pending ?r)) \<le> length (ra_pending ?r)"
      by (auto simp: AList.delete_eq)
    ultimately show ?case
      using 3(3,4) room d by (auto simp: ra_ok_def AList.distinct_delete)
  qed
  then show "ra_ok r'" "\<forall>i. res \<noteq> Inl (MissingFragment i)"
    "ra_total_bytes r' \<le> ra_total_bytes ?r + length data"
    by simp_all
qed

section \<open>Payloads\<close>

lemma fragment_payload_of:
  assumes "9 \<le> length payload" "hd payload = MSG_IP_DATA"
  shows "payload = fragment_payload (word_of_nat (be_val (take 4 (drop 1 payload)))) (word_of_nat (be_val (take 2 (drop 5 payload))))
    (word_of_nat (be_val (take 2 (drop 7 payload)))) (drop 9 payload)"
proof -
  have split: "payload = hd payload # take 4 (drop 1 payload) @ take 2 (drop 5 payload) @ take 2 (drop 7 payload) @ drop 9 payload"
    using assms(1) append_take_drop_id [of 4 "drop 1 payload"] append_take_drop_id [of 2 "drop 5 payload"]
      append_take_drop_id [of 2 "drop 7 payload"] by (cases payload) simp_all
  have "be32 (word_of_nat (be_val (take 4 (drop 1 payload)))) = take 4 (drop 1 payload)"
    unfolding be32_def by (rule be_word_iff [THEN iffD1, OF _ _ refl, symmetric]) (use assms(1) in simp_all)
  moreover have "be16 (word_of_nat (be_val (take 2 (drop 5 payload)))) = take 2 (drop 5 payload)"
    unfolding be16_def by (rule be_word_iff [THEN iffD1, OF _ _ refl, symmetric]) (use assms(1) in simp_all)
  moreover have "be16 (word_of_nat (be_val (take 2 (drop 7 payload)))) = take 2 (drop 7 payload)"
    unfolding be16_def by (rule be_word_iff [THEN iffD1, OF _ _ refl, symmetric]) (use assms(1) in simp_all)
  ultimately show ?thesis
    using split assms(2) by (simp add: fragment_payload_def)
qed

text \<open>A payload is refused, and the state left as it was, or is a well-formed fragment.\<close>

lemma feed_cases:
  assumes "feed r payload = (r', res)"
  obtains "r' = r" "\<forall>packet. res \<noteq> Inr (Some packet)" "\<forall>i. res \<noteq> Inl (MissingFragment i)"
  | k i t data where "payload = fragment_payload k i t data" "i < t" "t \<le> MAX_FRAG_TOTAL"
      "feed_fragment r k i t data = (r', res)"
proof (cases "payload \<noteq> [] \<and> hd payload = MSG_IP_DATA \<and> 9 \<le> length payload")
  case True
  let ?k = "word_of_nat (be_val (take 4 (drop 1 payload))) :: u32"
    and ?i = "word_of_nat (be_val (take 2 (drop 5 payload))) :: u16"
    and ?t = "word_of_nat (be_val (take 2 (drop 7 payload))) :: u16"
  have p: "payload = fragment_payload ?k ?i ?t (drop 9 payload)"
    using True by (intro fragment_payload_of) simp_all
  show thesis
  proof (cases "?t = 0 \<or> ?i \<ge> ?t \<or> ?t > MAX_FRAG_TOTAL")
    case bad: True
    with True assms have "r' = r \<and> res = Inl (InvalidFragment ?i ?t)"
      unfolding feed_def Let_def by (simp add: not_less)
    then show thesis
      by (intro that(1)) simp_all
  next
    case False
    with True assms have "feed_fragment r ?k ?i ?t (drop 9 payload) = (r', res)"
      unfolding feed_def Let_def by (simp add: not_less)
    with p False show thesis
      by (intro that(2) [of ?k ?i ?t "drop 9 payload"]) (simp_all add: not_le not_less)
  qed
next
  case False
  with assms show thesis
    by (intro that(1)) (auto simp: feed_def not_le split: if_splits)
qed

lemma feed_ok:
  assumes "ra_ok r" "length payload \<le> MAX_PENDING_BYTES" "feed r payload = (r', res)"
  shows "ra_ok r'" "\<forall>i. res \<noteq> Inl (MissingFragment i)"
proof -
  have "ra_ok r' \<and> (\<forall>i. res \<noteq> Inl (MissingFragment i))"
    using assms(3)
  proof (cases rule: feed_cases)
    case 1
    with assms(1) show ?thesis
      by blast
  next
    case (2 k i t data)
    then have "length data \<le> MAX_PENDING_BYTES"
      using assms(2) by (simp add: fragment_payload_def)
    from feed_fragment_ok [OF assms(1) this 2(2,4)] show ?thesis
      by blast
  qed
  then show "ra_ok r'" "\<forall>i. res \<noteq> Inl (MissingFragment i)"
    by simp_all
qed

end
