(* ===== verification/Std_Collections.thy ===== *)
theory Std_Collections
  imports Prelude "HOL-Library.Product_Lexorder"
begin

text \<open>
  Collections and arithmetic of the Rust standard library used by the endpoint coordinator and
  the later components: a \<open>BTreeMap\<close> is an association list with strictly increasing keys, so
  that iterating it is iterating the list, a \<open>BTreeSet\<close> is a strictly increasing list, and
  saturating operations stop at the bounds of the word.
\<close>

section \<open>Saturating arithmetic\<close>

definition sat_add :: "'a::len word \<Rightarrow> 'a word \<Rightarrow> 'a word" where
  "sat_add a b = (if unat a + unat b < 2 ^ LENGTH('a) then a + b else - 1)"

definition sat_sub :: "'a::len word \<Rightarrow> 'a word \<Rightarrow> 'a word" where
  "sat_sub a b = (if b \<le> a then a - b else 0)"

definition sat_mul :: "'a::len word \<Rightarrow> 'a word \<Rightarrow> 'a word" where
  "sat_mul a b = (if unat a * unat b < 2 ^ LENGTH('a) then a * b else - 1)"

definition u32_checked_add :: "u32 \<Rightarrow> u32 \<Rightarrow> u32 option" where
  "u32_checked_add a b = (if unat a + unat b < 2 ^ 32 then Some (a + b) else None)"

definition u32_checked_sub :: "u32 \<Rightarrow> u32 \<Rightarrow> u32 option" where
  "u32_checked_sub a b = (if b \<le> a then Some (a - b) else None)"

definition clamp :: "'a :: linorder \<Rightarrow> 'a \<Rightarrow> 'a \<Rightarrow> 'a" where
  "clamp x lo hi = (if x < lo then lo else if x > hi then hi else x)"

lemma clamp_bounds: "lo \<le> hi \<Longrightarrow> lo \<le> clamp x lo hi \<and> clamp x lo hi \<le> (hi :: 'a :: linorder)"
  by (auto simp: clamp_def)

lemma unat_max_word: "unat (- 1 :: 'a::len word) = 2 ^ LENGTH('a) - 1"
  by (simp add: unsigned_minus_1_eq_mask mask_eq_exp_minus_1)

lemma unat_sat_add: "unat (sat_add a (b :: 'a::len word)) = min (unat a + unat b) (2 ^ LENGTH('a) - 1)"
  by (auto simp: sat_add_def unat_word_ariths unat_max_word)

lemma unat_sat_sub: "unat (sat_sub a b) = unat a - unat b"
  by (simp add: sat_sub_def unat_sub word_le_nat_alt)

lemma unat_sat_mul: "unat (sat_mul a (b :: 'a::len word)) = min (unat a * unat b) (2 ^ LENGTH('a) - 1)"
  by (auto simp: sat_mul_def unat_word_ariths unat_max_word)

lemma u32_checked_add_Some: "u32_checked_add a b = Some c \<Longrightarrow> unat c = unat a + unat b"
  by (auto simp: u32_checked_add_def unat_word_ariths split: if_splits)

lemma u32_checked_sub_Some: "u32_checked_sub a b = Some c \<Longrightarrow> unat c + unat b = unat a"
  by (auto simp: u32_checked_sub_def unat_sub word_le_nat_alt split: if_splits)

section \<open>Ordered maps\<close>

fun bt_insert :: "'k::linorder \<Rightarrow> 'v \<Rightarrow> ('k \<times> 'v) list \<Rightarrow> ('k \<times> 'v) list" where
  "bt_insert k v [] = [(k, v)]"
| "bt_insert k v ((j, w) # m) =
     (if k < j then (k, v) # (j, w) # m else if k = j then (k, v) # m else (j, w) # bt_insert k v m)"

definition bt_remove :: "'k \<Rightarrow> ('k \<times> 'v) list \<Rightarrow> ('k \<times> 'v) list" where
  "bt_remove k m = filter (\<lambda>(j, _). j \<noteq> k) m"

text \<open>\<open>get_mut\<close> on a key that may be absent.\<close>

definition bt_update :: "'k \<Rightarrow> ('v \<Rightarrow> 'v) \<Rightarrow> ('k \<times> 'v) list \<Rightarrow> ('k \<times> 'v) list" where
  "bt_update k f m = map (\<lambda>(j, v). (j, if j = k then f v else v)) m"

definition bt_retain :: "('v \<Rightarrow> bool) \<Rightarrow> ('k \<times> 'v) list \<Rightarrow> ('k \<times> 'v) list" where
  "bt_retain P m = filter (\<lambda>(_, v). P v) m"

definition bt_keys :: "('k \<times> 'v) list \<Rightarrow> 'k list" where
  "bt_keys m = map fst m"

definition bt_ok :: "('k::linorder \<times> 'v) list \<Rightarrow> bool" where
  "bt_ok m \<longleftrightarrow> sorted_wrt (<) (bt_keys m)"

definition bts_of_list :: "'a::linorder list \<Rightarrow> 'a list" where
  "bts_of_list xs = sort (remdups xs)"

named_theorems btree_simps

lemma bt_keys_simps [simp]: "bt_keys [] = []" "bt_keys (x # m) = fst x # bt_keys m"
  by (simp_all add: bt_keys_def)

lemma bt_ok_simps [simp]: "bt_ok []" "bt_ok ((k, v) # m) \<longleftrightarrow> (\<forall>j \<in> set (bt_keys m). k < j) \<and> bt_ok m"
  by (simp_all add: bt_ok_def)

lemma map_of_None_keys: "map_of m k = None \<longleftrightarrow> k \<notin> set (bt_keys m)"
  by (simp add: bt_keys_def map_of_eq_None_iff)

lemma map_of_Some_keys: "map_of m k = Some v \<Longrightarrow> k \<in> set (bt_keys m)"
  using map_of_None_keys [of m k] by simp

lemma bt_keys_Some: "k \<in> set (bt_keys m) \<longleftrightarrow> (\<exists>v. map_of m k = Some v)"
  using map_of_None_keys [of m k] by (cases "map_of m k") auto

lemma bt_ok_distinct: "bt_ok m \<Longrightarrow> distinct (bt_keys m)"
  by (simp add: bt_ok_def strict_sorted_iff)

lemma set_bt: "bt_ok m \<Longrightarrow> (k, v) \<in> set m \<longleftrightarrow> map_of m k = Some v"
  using bt_ok_distinct [of m] by (simp add: bt_keys_def)

lemma map_of_bt_insert [btree_simps]: "map_of (bt_insert k v m) = (map_of m)(k \<mapsto> v)"
  by (induction k v m rule: bt_insert.induct) (auto simp: fun_eq_iff)

lemma set_keys_bt_insert [btree_simps]: "set (bt_keys (bt_insert k v m)) = insert k (set (bt_keys m))"
  by (induction k v m rule: bt_insert.induct) auto

lemma bt_ok_insert [btree_simps]: "bt_ok m \<Longrightarrow> bt_ok (bt_insert k v m)"
  by (induction k v m rule: bt_insert.induct) (auto simp: set_keys_bt_insert)

lemma map_of_bt_remove [btree_simps]: "map_of (bt_remove k m) = (map_of m)(k := None)"
  by (induction m) (auto simp: bt_remove_def fun_eq_iff)

lemma set_keys_bt_remove [btree_simps]: "set (bt_keys (bt_remove k m)) = set (bt_keys m) - {k}"
  by (auto simp: bt_remove_def bt_keys_def)

lemma bt_ok_filter: "bt_ok m \<Longrightarrow> bt_ok (filter P m)"
  unfolding bt_ok_def bt_keys_def sorted_wrt_map by (rule sorted_wrt_filter)

lemma bt_ok_remove [btree_simps]: "bt_ok m \<Longrightarrow> bt_ok (bt_remove k m)"
  unfolding bt_remove_def by (rule bt_ok_filter)

lemma bt_keys_update [btree_simps]: "bt_keys (bt_update k f m) = bt_keys m"
  by (induction m) (auto simp: bt_update_def)

lemma bt_ok_update [btree_simps]: "bt_ok (bt_update k f m) = bt_ok m"
  by (simp add: bt_ok_def bt_keys_update)

lemma map_of_bt_update [btree_simps]: "map_of (bt_update k f m) = (map_of m)(k := map_option f (map_of m k))"
  by (induction m) (auto simp: bt_update_def fun_eq_iff)

lemma bt_ok_retain [btree_simps]: "bt_ok m \<Longrightarrow> bt_ok (bt_retain P m)"
  unfolding bt_retain_def by (rule bt_ok_filter)

lemma map_of_bt_retain [btree_simps]:
  "bt_ok m \<Longrightarrow> map_of (bt_retain P m) k = (case map_of m k of None \<Rightarrow> None | Some v \<Rightarrow> if P v then Some v else None)"
proof (induction m)
  case (Cons x m)
  obtain j v where x: "x = (j, v)"
    by force
  with Cons.prems have "map_of m j = None"
    by (auto simp: map_of_None_keys)
  with Cons x show ?case
    by (auto simp: bt_retain_def split: option.splits)
qed (simp add: bt_retain_def)

lemma bts_of_list [simp]: "set (bts_of_list xs) = set xs" "sorted_wrt (<) (bts_of_list xs)"
  by (simp_all add: bts_of_list_def strict_sorted_iff)

text \<open>Two ordered maps with the same lookups are the same list.\<close>

lemma bt_eqI: "bt_ok m \<Longrightarrow> bt_ok m' \<Longrightarrow> map_of m = map_of m' \<Longrightarrow> m = m'"
proof -
  assume ok: "bt_ok m" "bt_ok m'" and eq: "map_of m = map_of m'"
  have "set m = set m'"
    using set_bt [OF ok(1)] set_bt [OF ok(2)] eq by auto
  moreover have "sorted (map fst m)" "sorted (map fst m')" "distinct (map fst m)" "distinct (map fst m')"
    using ok by (simp_all add: bt_ok_def bt_keys_def strict_sorted_iff)
  ultimately show "m = m'"
    by (metis map_sorted_distinct_set_unique distinct_map inj_on_Un sup.idem)
qed

end
