(* ===== verification/Tunnel_Profile.thy ===== *)
theory Tunnel_Profile
  imports Packet_Mux Std_Collections
begin

text \<open>
  The parameters of a tunnel derived from a profile seed (\<open>profile.rs\<close>), the byte budget of a
  connection (\<open>volume_guard.rs\<close>) and the checksums of packets handed to the tunnel device
  (\<open>packet/mod.rs\<close>).
\<close>

section \<open>The connection budget\<close>

definition DEFAULT_THRESHOLD :: u64 where "DEFAULT_THRESHOLD = 8192"

record volume_guard_config =
  vg_threshold :: u64
  vg_enabled :: bool

definition volume_guard_config_default :: volume_guard_config where
  "volume_guard_config_default = \<lparr> vg_threshold = DEFAULT_THRESHOLD, vg_enabled = True \<rparr>"

record volume_guard =
  vg_config :: volume_guard_config
  vg_sent :: u64
  vg_recv :: u64

datatype rotate_signal = RotateSignal

definition volume_guard_new :: "volume_guard_config \<Rightarrow> volume_guard" where
  "volume_guard_new config = \<lparr> vg_config = config, vg_sent = 0, vg_recv = 0 \<rparr>"

definition volume_guard_disabled :: volume_guard where
  "volume_guard_disabled = volume_guard_new (volume_guard_config_default \<lparr> vg_enabled := False \<rparr>)"

text \<open>The counters are atomics, whose addition wraps.\<close>

definition record_sent :: "volume_guard \<Rightarrow> u64 \<Rightarrow> volume_guard \<times> (rotate_signal + unit)" where
  "record_sent g wire_bytes =
     (if \<not> vg_enabled (vg_config g) then (g, Inr ())
      else let total = vg_sent g + wire_bytes; g' = g \<lparr> vg_sent := total \<rparr> in
        if total \<ge> vg_threshold (vg_config g) then (g', Inl RotateSignal) else (g', Inr ()))"

definition record_recv :: "volume_guard \<Rightarrow> u64 \<Rightarrow> volume_guard \<times> (rotate_signal + unit)" where
  "record_recv g wire_bytes =
     (if \<not> vg_enabled (vg_config g) then (g, Inr ())
      else let total = vg_recv g + wire_bytes; g' = g \<lparr> vg_recv := total \<rparr> in
        if total \<ge> vg_threshold (vg_config g) then (g', Inl RotateSignal) else (g', Inr ()))"

section \<open>Profiles\<close>

text \<open>The pacer's parameters are floating-point numbers that no derivation changes: \<open>'p\<close>.\<close>

record 'p tunnel_profile =
  tp_mux :: mux_config
  tp_volume_guard :: volume_guard_config
  tp_pacer :: 'p

definition tunnel_profile_default :: "'p \<Rightarrow> 'p tunnel_profile" where
  "tunnel_profile_default pacer = \<lparr> tp_mux = \<lparr> mx_stream_count = 24, mx_max_chunk_size = 1024 \<rparr>,
     tp_volume_guard = \<lparr> vg_threshold = DEFAULT_THRESHOLD, vg_enabled = True \<rparr>, tp_pacer = pacer \<rparr>"

definition PROFILE_INFO :: bytes where "PROFILE_INFO = ascii_bytes ''zatmenie-profile-v1''"

text \<open>HKDF without a salt extracts with a salt of 32 zero bytes (RFC 5869).\<close>

definition derive_profile :: "('k, 'z) session_crypto_scheme \<Rightarrow> 'p \<Rightarrow> bytes \<Rightarrow> 'p tunnel_profile" where
  "derive_profile C pacer seed =
     (if seed = [] then tunnel_profile_default pacer
      else case hkdf C (replicate 32 0) seed PROFILE_INFO 32 of None \<Rightarrow> tunnel_profile_default pacer
      | Some material \<Rightarrow>
          let stream_count = 16 + ucast (material ! 0) mod 17;
              max_chunk_size = clamp (512 + unat (material ! 1) * 8) 512 2048;
              threshold = clamp (6000 + ucast (material ! 2) * 16) 6000 10000 in
          \<lparr> tp_mux = \<lparr> mx_stream_count = stream_count, mx_max_chunk_size = max_chunk_size \<rparr>,
            tp_volume_guard = \<lparr> vg_threshold = threshold, vg_enabled = True \<rparr>, tp_pacer = pacer \<rparr>)"

section \<open>Checksums\<close>

fun words_sum :: "bytes \<Rightarrow> u32" where
  "words_sum (a # b # rest) = ucast (word_of_nat (256 * unat a + unat b) :: u16) + words_sum rest"
| "words_sum [b] = push_bit 8 (ucast b)"
| "words_sum [] = 0"

lemma unat_carry: "unat ((s AND 0xffff) + drop_bit 16 (s :: u32)) = unat s mod 65536 + unat s div 65536"
proof -
  have "s AND 0xffff = take_bit 16 s"
    using take_bit_eq_mask [of 16 s] by (simp add: mask_eq_exp_minus_1)
  then have low: "unat (s AND 0xffff) = unat s mod 65536"
    by (simp add: take_bit_eq_mod unat_mod)
  have high: "unat (drop_bit 16 s) = unat s div 65536"
    by (simp add: drop_bit_eq_div unat_div)
  have "unat s < 2 ^ LENGTH(32)"
    by (rule unsigned_less)
  then have "unat s div 65536 < 65536"
    by (simp add: div_less_iff_less_mult)
  then have "unat s mod 65536 + unat s div 65536 < 2 ^ LENGTH(32)"
    using mod_less_divisor [of 65536 "unat s"] by simp
  then show ?thesis
    unfolding unat_word_ariths low high by simp
qed

lemma carry_less: "65535 < n \<Longrightarrow> n mod 65536 + n div 65536 < (n :: nat)"
proof -
  assume "65535 < n"
  then have "0 < n div 65536"
    by (simp add: div_greater_zero_iff)
  with div_mult_mod_eq [of n 65536] show ?thesis
    by linarith
qed

function fold_carries :: "u32 \<Rightarrow> u32" where
  "fold_carries s = (if s > 0xffff then fold_carries ((s AND 0xffff) + drop_bit 16 s) else s)"
  by pat_completeness auto
termination
  by (relation "measure unat") (auto simp: unat_carry carry_less word_less_nat_alt)

definition checksum16 :: "bytes \<Rightarrow> u16" where
  "checksum16 data = ucast (NOT (fold_carries (words_sum data)))"

declare fold_carries.simps [simp del]

text \<open>\<open>packet[i..]\<close> updated in place: two bytes written big-endian at an offset.\<close>

definition put_be16 :: "nat \<Rightarrow> u16 \<Rightarrow> bytes \<Rightarrow> bytes" where
  "put_be16 i w b = take i b @ be16 w @ drop (i + 2) b"

definition fix_icmp_checksum :: "bytes \<Rightarrow> nat \<Rightarrow> bytes" where
  "fix_icmp_checksum packet ihl =
     (let payload = drop ihl packet in
      if length payload < 4 then packet
      else let cleared = payload[2 := 0, 3 := 0] in
        take ihl packet @ put_be16 2 (checksum16 cleared) cleared)"

definition fix_ipv4_checksum :: "bytes \<Rightarrow> bytes" where
  "fix_ipv4_checksum packet =
     (if length packet < 20 then packet
      else if drop_bit 4 (packet ! 0) \<noteq> 4 then packet
      else let ihl = unat (packet ! 0 AND 0x0f) * 4 in
        if ihl < 20 \<or> length packet < ihl then packet
        else let packet1 = (if packet ! 9 = 1 \<and> length packet \<ge> ihl + 8 then fix_icmp_checksum packet ihl else packet);
                 packet2 = packet1[10 := 0, 11 := 0] in
          put_be16 10 (checksum16 (take ihl packet2)) packet2)"

section \<open>Checksums verify\<close>

text \<open>The sum as a number: sixteen-bit words, an odd last byte being the high one.\<close>

fun word_total :: "bytes \<Rightarrow> nat" where
  "word_total (a # b # rest) = 256 * unat a + unat b + word_total rest"
| "word_total [b] = 256 * unat b"
| "word_total [] = 0"

lemma unat_byte: "unat (b :: u8) < 256"
  using unsigned_less [of b, where 'a = nat] by simp

lemma word_total_bound: "word_total b \<le> 32768 * (length b + 1)"
proof (induction b rule: word_total.induct)
  case (1 a b rest)
  with unat_byte [of a] unat_byte [of b] show ?case
    by simp
next
  case (2 b)
  with unat_byte [of b] show ?case
    by simp
qed simp

lemma unat_word_pair: "unat (ucast (word_of_nat (256 * unat (a :: u8) + unat (b :: u8)) :: u16) :: u32) = 256 * unat a + unat b"
proof -
  have "unat (ucast (word_of_nat n :: u16) :: u32) = n" if "n < 65536" for n
    using that by (simp add: unsigned_ucast_eq take_bit_eq_mod unat_of_nat)
  then show ?thesis
    using unat_byte [of a] unat_byte [of b] by (simp del: of_nat_add of_nat_mult)
qed

lemma unat_push8: "unat (push_bit 8 (ucast (b :: u8) :: u32)) = 256 * unat b"
  using unat_byte [of b] by (simp add: push_bit_eq_mult unat_word_ariths unsigned_ucast_eq take_bit_eq_mod)

lemma unat_words_sum: "length b \<le> 65535 \<Longrightarrow> unat (words_sum b) = word_total b"
proof (induction b rule: words_sum.induct)
  case (1 a b rest)
  then have "unat (words_sum rest) = word_total rest" "word_total rest \<le> 32768 * 65534"
    using word_total_bound [of rest] by simp_all
  then show ?case
    using unat_byte [of a] unat_byte [of b] unfolding words_sum.simps unat_word_ariths unat_word_pair by simp
qed (simp_all add: unat_push8)

lemma word_total_append: "even (length xs) \<Longrightarrow> word_total (xs @ ys) = word_total xs + word_total ys"
  by (induction xs rule: word_total.induct) simp_all

text \<open>Folding the carries keeps the residue modulo \<open>65535\<close> and only sends zero to zero.\<close>

lemma fold_carries_spec:
  "unat (fold_carries s) \<le> 65535 \<and> unat (fold_carries s) mod 65535 = unat s mod 65535 \<and> (unat (fold_carries s) = 0 \<longleftrightarrow> unat s = 0)"
proof (induction s rule: fold_carries.induct)
  case (1 s)
  show ?case
  proof (cases "s > 0xffff")
    case True
    then have big: "65535 < unat s"
      by (simp add: word_less_nat_alt)
    let ?t = "unat s mod 65536 + unat s div 65536"
    have "unat s = 65535 * (unat s div 65536) + ?t"
      using div_mult_mod_eq [of "unat s" 65536] by linarith
    then have "?t mod 65535 = unat s mod 65535"
      by (metis mod_mult_self4)
    moreover have "0 < unat s div 65536"
      using big by (simp add: div_greater_zero_iff)
    moreover have "fold_carries s = fold_carries ((s AND 0xffff) + drop_bit 16 s)"
      using True by (subst fold_carries.simps) simp
    ultimately show ?thesis
      using 1 [OF True] big unfolding unat_carry by simp
  next
    case False
    then show ?thesis
      by (subst (1 2 3) fold_carries.simps) (simp add: word_less_nat_alt)
  qed
qed

lemma unat_checksum16: "unat (checksum16 b) = 65535 - unat (fold_carries (words_sum b))"
proof -
  let ?f = "fold_carries (words_sum b)"
  have f: "unat ?f \<le> 65535"
    using fold_carries_spec by blast
  have "NOT ?f = 0xffffffff - ?f"
    by (simp add: not_eq_complement)
  moreover have "?f \<le> 0xffffffff"
    using f by (simp add: word_le_nat_alt)
  ultimately have "unat (NOT ?f) = 4294967295 - unat ?f"
    by (simp only: unat_sub) simp
  then have "unat (checksum16 b) = (4294967295 - unat ?f) mod 65536"
    by (simp add: checksum16_def unsigned_ucast_eq take_bit_eq_mod)
  also have "4294967295 - unat ?f = (65535 - unat ?f) + 65535 * 65536"
    using f by simp
  also have "\<dots> mod 65536 = 65535 - unat ?f"
    by (simp only: mod_mult_self1) simp
  finally show ?thesis .
qed

text \<open>
  The Internet checksum as RFC 1071 defines it, independently of the code: the ones'-complement
  sum of the big-endian sixteen-bit words, an odd last byte padded with a zero on the right, and
  data verify when their sum, the checksum field included, is all ones.
\<close>

definition ones_add :: "nat \<Rightarrow> nat \<Rightarrow> nat" where
  "ones_add x y = (if x + y < 65536 then x + y else x + y - 65535)"

fun ones_sum :: "bytes \<Rightarrow> nat" where
  "ones_sum (a # b # rest) = ones_add (256 * unat a + unat b) (ones_sum rest)"
| "ones_sum [b] = 256 * unat b"
| "ones_sum [] = 0"

definition rfc1071_verifies :: "bytes \<Rightarrow> bool" where
  "rfc1071_verifies b \<longleftrightarrow> ones_sum b = 65535"

lemma ones_add_spec:
  assumes "x \<le> 65535" "y \<le> 65535"
  shows "ones_add x y \<le> 65535 \<and> ones_add x y mod 65535 = (x + y) mod 65535 \<and> (ones_add x y = 0 \<longleftrightarrow> x + y = 0)"
  using assms le_mod_geq [of 65535 "x + y"] by (auto simp: ones_add_def)

lemma ones_sum_spec:
  "ones_sum b \<le> 65535 \<and> ones_sum b mod 65535 = word_total b mod 65535 \<and> (ones_sum b = 0 \<longleftrightarrow> word_total b = 0)"
proof (induction b rule: ones_sum.induct)
  case (1 a b rest)
  let ?w = "256 * unat a + unat b"
  have w: "?w \<le> 65535"
    using unat_byte [of a] unat_byte [of b] by simp
  note add = ones_add_spec [OF w, of "ones_sum rest"]
  have "(?w + ones_sum rest) mod 65535 = (?w + word_total rest) mod 65535"
    using 1 by (metis mod_add_right_eq)
  with add 1 show ?case
    by auto
next
  case (2 b)
  with unat_byte [of b] show ?case
    by simp
qed simp

lemma residue_unique:
  assumes "x \<le> 65535" "y \<le> 65535" "x mod 65535 = y mod 65535" "x = 0 \<longleftrightarrow> y = 0"
  shows "x = (y :: nat)"
  using assms by (cases "x = 65535"; cases "y = 65535") auto

text \<open>The code's sum is that of the reference.\<close>

lemma checksum16_reference:
  assumes "length b \<le> 65535"
  shows "unat (checksum16 b) = 65535 - ones_sum b"
proof -
  have "unat (fold_carries (words_sum b)) = ones_sum b"
    using fold_carries_spec [of "words_sum b"] ones_sum_spec [of b] unfolding unat_words_sum [OF assms]
    by (elim conjE) (rule residue_unique; simp only:)
  then show ?thesis
    by (simp add: unat_checksum16)
qed

lemma checksum_zero_verifies:
  assumes "length b \<le> 65535"
  shows "checksum16 b = 0 \<longleftrightarrow> rfc1071_verifies b"
proof -
  have "ones_sum b \<le> 65535"
    using ones_sum_spec by blast
  moreover have "checksum16 b = 0 \<longleftrightarrow> 65535 - ones_sum b = 0"
    using checksum16_reference [OF assms] by (simp add: unat_eq_zero [symmetric])
  ultimately show ?thesis
    unfolding rfc1071_verifies_def by linarith
qed

text \<open>Writing the checksum of data whose checksum field is zero makes the whole sum to zero.\<close>

lemma checksum_verifies:
  assumes "even i" "i + 2 \<le> length b" "length b \<le> 65535" "b ! i = 0" "b ! (i + 1) = 0"
  shows "checksum16 (put_be16 i (checksum16 b) b) = 0"
proof -
  let ?c = "checksum16 b" and ?f = "fold_carries (words_sum b)"
  let ?b = "put_be16 i ?c b"
  have split: "b = take i b @ [0, 0] @ drop (i + 2) b"
    using assms id_take_nth_drop [of i b] Cons_nth_drop_Suc [of "Suc i" b] by simp
  have even: "even (length (take i b))"
    using assms(1,2) by simp
  have two: "word_total xs = be_val xs" if "length xs = 2" for xs
    using that by (auto simp: be_val_def numeral_2_eq_2 length_Suc_conv)
  have sum: "word_total ?b = word_total b + unat ?c"
    unfolding put_be16_def by (subst (4) split) (simp add: word_total_append [OF even] word_total_append two)
  have len: "length ?b \<le> 65535"
    using assms(2,3) by (simp add: put_be16_def)
  note spec = fold_carries_spec [of "words_sum b"]
  have c: "unat ?c = 65535 - unat ?f"
    by (rule unat_checksum16)
  have "unat (words_sum ?b) = unat (words_sum b) + 65535 - unat ?f"
    using sum c spec unat_words_sum [OF len] unat_words_sum [OF assms(3)] by simp
  then have "unat (words_sum ?b) + unat ?f = unat (words_sum b) + 65535"
    using spec by simp
  then have "(unat (words_sum ?b) + unat ?f) mod 65535 = unat ?f mod 65535"
    using spec by simp
  then have "unat (words_sum ?b) mod 65535 = 0"
    by (metis add_diff_cancel_right' diff_self_eq_0 mod_0 mod_diff_right_eq mod_eq_dvd_iff_nat dvd_imp_mod_0 le_add2)
  moreover have "unat (words_sum ?b) \<noteq> 0"
    using \<open>unat (words_sum ?b) + unat ?f = unat (words_sum b) + 65535\<close> spec by auto
  ultimately have "unat (words_sum ?b) mod 65535 = 0" "unat (words_sum ?b) \<noteq> 0"
    by simp_all
  then have "unat (fold_carries (words_sum ?b)) = 65535"
    using fold_carries_spec [of "words_sum ?b"] by (auto simp: mod_eq_0_iff_dvd dest!: dvd_imp_le)
  then show ?thesis
    by (simp add: unat_eq_zero [symmetric] unat_checksum16)
qed

lemma length_put_be16 [simp]: "i + 2 \<le> length b \<Longrightarrow> length (put_be16 i w b) = length b"
  by (simp add: put_be16_def)

lemma nth_put_be16: "i + 2 \<le> length b \<Longrightarrow> j \<noteq> i \<Longrightarrow> j \<noteq> i + 1 \<Longrightarrow> put_be16 i w b ! j = b ! j"
  unfolding put_be16_def
  by (cases "j < i") (auto simp: nth_append intro: arg_cong [where f = "nth b"])

lemma take_drop_put_be16:
  assumes "i + 2 \<le> n" "n \<le> length b"
  shows "take n (put_be16 i w b) = put_be16 i w (take n b)" "drop n (put_be16 i w b) = drop n b"
proof -
  have "Suc (Suc (n - 2)) = n"
    using assms(1) by simp
  with assms show "take n (put_be16 i w b) = put_be16 i w (take n b)" "drop n (put_be16 i w b) = drop n b"
    by (simp_all add: put_be16_def min_def take_drop)
qed

definition ipv4_header :: "bytes \<Rightarrow> bool" where
  "ipv4_header packet \<longleftrightarrow> 20 \<le> length packet \<and> length packet \<le> 65535 \<and> drop_bit 4 (packet ! 0) = 4
     \<and> 20 \<le> unat (packet ! 0 AND 0x0f) * 4 \<and> unat (packet ! 0 AND 0x0f) * 4 \<le> length packet"

lemma fix_icmp_verifies:
  assumes "ihl + 8 \<le> length packet" "length packet \<le> 65535"
  shows "checksum16 (drop ihl (fix_icmp_checksum packet ihl)) = 0" "take ihl (fix_icmp_checksum packet ihl) = take ihl packet"
    "length (fix_icmp_checksum packet ihl) = length packet"
    "j \<noteq> ihl + 2 \<Longrightarrow> j \<noteq> ihl + 3 \<Longrightarrow> j < length packet \<Longrightarrow> fix_icmp_checksum packet ihl ! j = packet ! j"
proof -
  let ?c = "(drop ihl packet)[2 := 0, 3 := 0]"
  have eq: "fix_icmp_checksum packet ihl = take ihl packet @ put_be16 2 (checksum16 ?c) ?c"
    using assms by (auto simp: fix_icmp_checksum_def Let_def)
  show "checksum16 (drop ihl (fix_icmp_checksum packet ihl)) = 0"
    using assms by (simp add: eq checksum_verifies)
  show "take ihl (fix_icmp_checksum packet ihl) = take ihl packet"
    using assms by (simp add: eq)
  show "length (fix_icmp_checksum packet ihl) = length packet"
    using assms by (simp add: eq)
  assume "j \<noteq> ihl + 2" "j \<noteq> ihl + 3" "j < length packet"
  with assms show "fix_icmp_checksum packet ihl ! j = packet ! j"
    by (auto simp: eq nth_append nth_put_be16)
qed

lemma fix_ipv4_verifies:
  assumes "ipv4_header packet"
  defines "ihl \<equiv> unat (packet ! 0 AND 0x0f) * 4"
  defines "icmp \<equiv> packet ! 9 = 1 \<and> ihl + 8 \<le> length packet"
  shows "length (fix_ipv4_checksum packet) = length packet
    \<and> checksum16 (take ihl (fix_ipv4_checksum packet)) = 0
    \<and> (icmp \<longrightarrow> checksum16 (drop ihl (fix_ipv4_checksum packet)) = 0)
    \<and> (\<forall>j < length packet. j \<noteq> 10 \<longrightarrow> j \<noteq> 11 \<longrightarrow> \<not> (icmp \<and> (j = ihl + 2 \<or> j = ihl + 3))
         \<longrightarrow> fix_ipv4_checksum packet ! j = packet ! j)"
proof -
  define packet1 where "packet1 = (if icmp then fix_icmp_checksum packet ihl else packet)"
  let ?p = "packet1[10 := 0, 11 := 0]"
  have h: "20 \<le> ihl" "ihl \<le> length packet" "length packet \<le> 65535"
    using assms(1) by (simp_all add: ipv4_header_def ihl_def)
  have eq: "fix_ipv4_checksum packet = put_be16 10 (checksum16 (take ihl ?p)) ?p"
    using assms(1) unfolding fix_ipv4_checksum_def Let_def ihl_def [symmetric]
    by (simp add: ipv4_header_def packet1_def icmp_def ihl_def)
  have len: "length packet1 = length packet"
    using h by (simp add: packet1_def icmp_def fix_icmp_verifies)
  have "checksum16 (take ihl (fix_ipv4_checksum packet)) = 0"
    using h len by (simp add: eq take_drop_put_be16 checksum_verifies)
  moreover have "checksum16 (drop ihl (fix_ipv4_checksum packet)) = 0" if icmp
    using h len that fix_icmp_verifies(1) [of ihl packet]
    by (simp add: eq take_drop_put_be16 drop_update_cancel packet1_def icmp_def)
  moreover have "fix_ipv4_checksum packet ! j = packet ! j"
    if "j < length packet" "j \<noteq> 10" "j \<noteq> 11" "\<not> (icmp \<and> (j = ihl + 2 \<or> j = ihl + 3))" for j
    using h len that fix_icmp_verifies(4) [of ihl packet j]
    by (auto simp: eq nth_put_be16 packet1_def icmp_def)
  ultimately show ?thesis
    using h len by (simp add: eq)
qed

end
