(* ===== verification/Mux_Delivery.thy ===== *)
theory Mux_Delivery
  imports Tunnel_Profile "HOL-Library.Multiset"
begin

text \<open>
  What a sequence of fed payloads delivers. Whatever is fed, a delivered packet is the
  concatenation of fragments that were fed for one packet; and the frames of packets that fit the
  reassembler's bounds deliver each packet once, however the frames are interleaved and reordered.
\<close>

section \<open>Sequences of payloads\<close>

fun feed_all :: "reassembler \<Rightarrow> bytes list \<Rightarrow> reassembler \<times> (mux_error + bytes option) list" where
  "feed_all r [] = (r, [])"
| "feed_all r (p # ps) = (let (r1, res) = feed r p; (r2, outs) = feed_all r1 ps in (r2, res # outs))"

fun delivered_packets :: "(mux_error + bytes option) list \<Rightarrow> bytes list" where
  "delivered_packets [] = []"
| "delivered_packets (Inr (Some packet) # outs) = packet # delivered_packets outs"
| "delivered_packets (_ # outs) = delivered_packets outs"

lemma delivered_append [simp]: "delivered_packets (xs @ ys) = delivered_packets xs @ delivered_packets ys"
  by (induction xs rule: delivered_packets.induct) simp_all

section \<open>Nothing is made up\<close>

definition fed_by :: "bytes set \<Rightarrow> reassembler \<Rightarrow> bool" where
  "fed_by H r \<longleftrightarrow> (\<forall>k e. map_of (ra_pending r) k = Some e
     \<longrightarrow> (\<forall>i d. map_of (pp_frags e) i = Some d \<longrightarrow> fragment_payload k i (pp_frag_total e) d \<in> H))"

definition assembled_from :: "bytes set \<Rightarrow> bytes \<Rightarrow> bool" where
  "assembled_from H packet \<longleftrightarrow> (\<exists>k t parts. 0 < t \<and> t \<le> MAX_FRAG_TOTAL \<and> length parts = unat t
     \<and> packet = concat parts \<and> (\<forall>i < unat t. fragment_payload k (word_of_nat i) t (parts ! i) \<in> H))"

lemma fed_by_mono: "fed_by H r \<Longrightarrow> H \<subseteq> H' \<Longrightarrow> fed_by H' r"
  by (auto simp: fed_by_def)

lemma assembled_from_mono: "assembled_from H p \<Longrightarrow> H \<subseteq> H' \<Longrightarrow> assembled_from H' p"
  unfolding assembled_from_def by blast

lemma feed_fragment_fed_by:
  assumes r: "ra_ok r" "fed_by H r" and n: "length data \<le> MAX_PENDING_BYTES" and t: "i < t" "t \<le> MAX_FRAG_TOTAL"
    and feed: "feed_fragment r k i t data = (r', res)" and H: "fragment_payload k i t data \<in> H"
  shows "fed_by H r'" "res = Inr (Some packet) \<Longrightarrow> assembled_from H packet"
proof -
  let ?r = "make_room (length data) r"
  let ?e = "feed_entry ?r k t"
  let ?frags = "AList.update i data (pp_frags ?e)"
  have room: "ra_ok ?r" "map_of (ra_pending ?r) \<subseteq>\<^sub>m map_of (ra_pending r)"
    using make_room_ok [OF r(1) n] by simp_all
  then have from_H: "fed_by H ?r"
    using r(2) unfolding fed_by_def map_le_def by (metis domI)
  have frags: "fragment_payload k j t d \<in> H"
    if "pp_frag_total ?e = t" "map_of ?frags j = Some d" for j d
  proof (cases "j = i")
    case True
    with that(2) H show ?thesis
      by (simp add: AList.update_conv')
  next
    case False
    with that(2) have "map_of (pp_frags ?e) j = Some d"
      by (simp add: AList.update_conv')
    with from_H that(1) show ?thesis
      by (auto simp: fed_by_def feed_entry_def split: option.splits)
  qed
  have "fed_by H r' \<and> (res = Inr (Some packet) \<longrightarrow> assembled_from H packet)"
    using feed_fragment_cases [OF r(1) n t(1) feed]
  proof (elim disjE conjE, goal_cases)
    case 1
    with from_H show ?case
      by simp
  next
    case 2
    with from_H frags show ?case
      by (auto simp: fed_by_def AList.update_conv')
  next
    case 3
    let ?part = "\<lambda>j. the (map_of ?frags (word_of_nat j))"
    have pos: "0 < t"
      using t(1) by (simp add: word_less_nat_alt)
    note e = feed_entry_ok [OF room(1) 3(1) pos]
    have "distinct (map fst ?frags)" "\<forall>j \<in> fst ` set ?frags. j < t"
      using e(1,2) t(1) by (auto simp: AList.distinct_update AList.dom_update)
    note all = complete_indices [OF this 3(2)]
    have "fragment_payload k (word_of_nat j) t (?part j) \<in> H" if "j < unat t" for j
    proof -
      have "(word_of_nat j :: u16) \<in> fst ` set ?frags"
        unfolding all using that by simp
      then obtain d where "map_of ?frags (word_of_nat j) = Some d"
        by (metis map_of_eq_None_iff not_None_eq)
      with frags [OF 3(1)] show ?thesis
        by simp
    qed
    then have "assembled_from H (concat (map ?part [0..<unat t]))"
      unfolding assembled_from_def using pos t(2) by (intro exI [of _ k] exI [of _ t] exI [of _ "map ?part [0..<unat t]"]) simp
    moreover have "fed_by H r'"
      using from_H 3(4) by (auto simp: fed_by_def AList.delete_conv')
    ultimately show ?case
      using 3(3) by auto
  qed
  then show "fed_by H r'" "res = Inr (Some packet) \<Longrightarrow> assembled_from H packet"
    by simp_all
qed

lemma feed_all_sound:
  assumes "ra_ok r" "fed_by H r" "\<forall>p \<in> set ps. length p \<le> MAX_PENDING_BYTES" "feed_all r ps = (r', outs)"
  shows "ra_ok r' \<and> (\<forall>i. Inl (MissingFragment i) \<notin> set outs) \<and> (\<forall>packet \<in> set (delivered_packets outs). assembled_from (H \<union> set ps) packet)"
  using assms
proof (induction ps arbitrary: r H outs)
  case Nil
  then show ?case
    by simp
next
  case (Cons p ps)
  obtain r1 res outs' where step: "feed r p = (r1, res)" "feed_all r1 ps = (r', outs')" "outs = res # outs'"
    using Cons.prems(4) by (auto simp: split_beta Let_def prod_eq_iff)
  have p: "length p \<le> MAX_PENDING_BYTES"
    using Cons.prems(3) by simp
  have fed: "fed_by (insert p H) r1 \<and> (\<forall>packet. res = Inr (Some packet) \<longrightarrow> assembled_from (insert p H) packet)"
    using step(1)
  proof (cases rule: feed_cases)
    case 1
    with Cons.prems(2) show ?thesis
      by (auto intro: fed_by_mono)
  next
    case (2 k i t data)
    have "length data \<le> MAX_PENDING_BYTES"
      using p 2(1) by (simp add: fragment_payload_def)
    moreover have "fed_by (insert p H) r"
      using Cons.prems(2) by (rule fed_by_mono) auto
    ultimately show ?thesis
      using feed_fragment_fed_by [OF Cons.prems(1) _ _ 2(2,3,4)] 2(1) by blast
  qed
  have ok: "ra_ok r1" "\<forall>i. res \<noteq> Inl (MissingFragment i)"
    using feed_ok [OF Cons.prems(1) p step(1)] by simp_all
  have "ra_ok r' \<and> (\<forall>i. Inl (MissingFragment i) \<notin> set outs')
      \<and> (\<forall>packet \<in> set (delivered_packets outs'). assembled_from (insert p H \<union> set ps) packet)"
    using Cons.prems(3) fed by (intro Cons.IH [OF ok(1) _ _ step(2)]) simp_all
  moreover have "assembled_from (insert p H \<union> set ps) packet" if "res = Inr (Some packet)" for packet
    using fed that assembled_from_mono by blast
  ultimately show ?case
    using ok(2) step(3) by (cases "(res # outs')" rule: delivered_packets.cases) (auto simp: eq_commute)
qed

section \<open>Everything that fits is delivered\<close>

text \<open>
  Packets are given by their chunks, \<open>parts k\<close> for the packet with id \<open>k\<close>, and a frame by its
  packet and its index. After the frames \<open>p\<close> the reassembler holds exactly the fragments of the
  packets of which some but not all have arrived.
\<close>

definition frame_payload :: "(u32 \<Rightarrow> bytes list) \<Rightarrow> u32 \<times> nat \<Rightarrow> bytes" where
  "frame_payload parts f = fragment_payload (fst f) (word_of_nat (snd f)) (word_of_nat (length (parts (fst f))))
     (parts (fst f) ! snd f)"

definition frame_bytes :: "(u32 \<Rightarrow> bytes list) \<Rightarrow> (u32 \<times> nat) list \<Rightarrow> nat" where
  "frame_bytes parts p = sum_list (map (\<lambda>f. length (parts (fst f) ! snd f)) p)"

definition complete :: "(u32 \<Rightarrow> bytes list) \<Rightarrow> (u32 \<times> nat) list \<Rightarrow> u32 \<Rightarrow> bool" where
  "complete parts p k \<longleftrightarrow> (\<forall>i < length (parts k). (k, i) \<in> set p)"

definition holds_of :: "(u32 \<Rightarrow> bytes list) \<Rightarrow> (u32 \<times> nat) list \<Rightarrow> u32 \<Rightarrow> pending_packet option \<Rightarrow> bool" where
  "holds_of parts p k entry = (case entry of
       None \<Rightarrow> complete parts p k \<or> (\<forall>i. (k, i) \<notin> set p)
     | Some e \<Rightarrow> pp_frag_total e = word_of_nat (length (parts k))
         \<and> (\<forall>j. map_of (pp_frags e) j = (if (k, unat j) \<in> set p then Some (parts k ! unat j) else None)))"

definition holds :: "(u32 \<Rightarrow> bytes list) \<Rightarrow> (u32 \<times> nat) list \<Rightarrow> reassembler \<Rightarrow> bool" where
  "holds parts p r \<longleftrightarrow> ra_ok r \<and> ra_total_bytes r \<le> frame_bytes parts p
     \<and> (\<forall>k. holds_of parts p k (map_of (ra_pending r) k))"

definition frames_ok :: "(u32 \<Rightarrow> bytes list) \<Rightarrow> (u32 \<times> nat) list \<Rightarrow> bool" where
  "frames_ok parts fs \<longleftrightarrow> distinct fs \<and> (\<forall>(k, i) \<in> set fs. i < length (parts k) \<and> length (parts k) \<le> 512)
     \<and> card (fst ` set fs) < MAX_PENDING_PACKETS \<and> frame_bytes parts fs \<le> MAX_PENDING_BYTES"

lemma frames_ok_prefix: "frames_ok parts (p @ fs) \<Longrightarrow> frames_ok parts p"
proof -
  assume ok: "frames_ok parts (p @ fs)"
  have "card (fst ` set p) \<le> card (fst ` set (p @ fs))"
    by (intro card_mono) auto
  with ok show ?thesis
    by (auto simp: frames_ok_def frame_bytes_def)
qed

lemma holds_entry:
  assumes "holds parts p r" "map_of (ra_pending r) k = Some e"
  shows "entry_ok e" "k \<in> fst ` set p"
proof -
  have "e \<in> snd ` set (ra_pending r)"
    using map_of_SomeD [OF assms(2)] by force
  then show ok: "entry_ok e"
    using assms(1) unfolding holds_def ra_ok_def by blast
  define j where "j = fst (hd (pp_frags e))"
  have "j \<in> fst ` set (pp_frags e)"
    using ok unfolding entry_ok_def j_def by simp
  then have "map_of (pp_frags e) j \<noteq> None"
    by (simp add: map_of_eq_None_iff)
  moreover have "map_of (pp_frags e) j = (if (k, unat j) \<in> set p then Some (parts k ! unat j) else None)"
    using assms unfolding holds_def holds_of_def by (auto dest: spec [of _ k])
  ultimately have "(k, unat j) \<in> set p"
    by (simp split: if_splits)
  then show "k \<in> fst ` set p"
    by force
qed

lemma holds_few:
  assumes "holds parts p r"
  shows "length (ra_pending r) \<le> card (fst ` set p)"
proof -
  have "fst ` set (ra_pending r) \<subseteq> fst ` set p"
  proof
    fix k
    assume "k \<in> fst ` set (ra_pending r)"
    then have "map_of (ra_pending r) k \<noteq> None"
      by (simp add: map_of_eq_None_iff)
    then show "k \<in> fst ` set p"
      using holds_entry(2) [OF assms] by blast
  qed
  then have "card (fst ` set (ra_pending r)) \<le> card (fst ` set p)"
    by (intro card_mono) auto
  moreover have "card (fst ` set (ra_pending r)) = length (ra_pending r)"
    using assms distinct_card [of "map fst (ra_pending r)"] by (simp add: holds_def ra_ok_def)
  ultimately show ?thesis
    by simp
qed

text \<open>One more frame.\<close>

lemma holds_step:
  assumes h: "holds parts p r" and ok: "frames_ok parts (p @ [(k, i)])"
    and feed: "feed r (frame_payload parts (k, i)) = (r', res)"
  shows "holds parts (p @ [(k, i)]) r'"
    "res = Inr (if complete parts (p @ [(k, i)]) k then Some (concat (parts k)) else None)"
proof -
  let ?n = "length (parts k)" and ?d = "parts k ! i" and ?p = "p @ [(k, i)]"
  let ?t = "word_of_nat (length (parts k)) :: u16" and ?i = "word_of_nat i :: u16"
  let ?e = "feed_entry r k ?t"
  let ?frags = "AList.update ?i ?d (pp_frags ?e)"
  have i: "i < ?n" "?n \<le> 512" and new: "(k, i) \<notin> set p" and valid: "\<forall>j. (k, j) \<in> set p \<longrightarrow> j < ?n"
    using ok by (auto simp: frames_ok_def)
  have u: "unat ?t = ?n" "unat ?i = i"
    using i by (simp_all add: unat_of_nat)
  then have t: "0 < ?t" "?i < ?t" "?t \<le> MAX_FRAG_TOTAL"
    using i by (auto simp: word_less_nat_alt word_le_nat_alt MAX_FRAG_TOTAL_def simp del: of_nat_eq_0_iff)
  have room: "make_room (length ?d) r = r"
  proof (rule make_room_id)
    show "length (ra_pending r) < MAX_PENDING_PACKETS"
      using holds_few [OF h] frames_ok_prefix [OF ok] by (simp add: frames_ok_def)
    show "ra_total_bytes r + length ?d \<le> MAX_PENDING_BYTES"
      using h ok by (simp add: holds_def frames_ok_def frame_bytes_def)
  qed
  have r: "ra_ok r"
    using h by (simp add: holds_def)
  have size: "length ?d \<le> MAX_PENDING_BYTES"
    using ok by (simp add: frames_ok_def frame_bytes_def)
  have feed': "feed_fragment r k ?i ?t ?d = (r', res)"
    using feed feed_payload [OF t] by (simp add: frame_payload_def)
  note cases = feed_fragment_cases [OF r size t(2) feed', unfolded room]
  have total: "pp_frag_total ?e = ?t"
    using h unfolding holds_def holds_of_def feed_entry_def by (auto split: option.splits dest: spec [of _ k])
  have frags: "map_of ?frags j = (if (k, unat j) \<in> set ?p then Some (parts k ! unat j) else None)" for j
  proof -
    have j: "j = ?i \<longleftrightarrow> unat j = i"
      using u(2) by (metis word_unat_eq_iff)
    have "map_of (pp_frags ?e) j = (if (k, unat j) \<in> set p then Some (parts k ! unat j) else None)"
      using h new i unfolding holds_def holds_of_def feed_entry_def complete_def by (auto split: option.splits dest: spec [of _ k])
    then show ?thesis
      using j u(2) by (auto simp: AList.update_conv')
  qed
  have distinct: "distinct (map fst ?frags)" and below: "\<forall>j \<in> fst ` set ?frags. j < ?t"
    using feed_entry_ok [OF r total t(1)] t(2) by (auto simp: AList.distinct_update AList.dom_update)
  have full: "length ?frags = unat ?t \<longleftrightarrow> complete parts ?p k"
    using complete_iff [OF distinct below] i(2) unfolding frags u(1) complete_def by (auto simp: unat_of_nat split: if_splits)
  have other: "holds_of parts ?p k' (map_of (ra_pending r) k')" if "k' \<noteq> k" for k'
    using h that unfolding holds_def holds_of_def complete_def by (auto split: option.splits dest: spec [of _ k'])
  have inv: "ra_ok r'" "ra_total_bytes r' \<le> frame_bytes parts ?p"
    using feed_fragment_ok [OF r size t(2) feed', unfolded room] h
    by (simp_all add: holds_def frame_bytes_def)
  show "holds parts ?p r'"
    using cases
  proof (elim disjE conjE, goal_cases)
    case 1
    with total show ?case
      by simp
  next
    case 2
    have "holds_of parts ?p k (Some (?e \<lparr> pp_frags := ?frags \<rparr>))"
      using total frags by (simp add: holds_of_def)
    with 2(4) inv other show ?case
      by (simp add: holds_def AList.update_conv')
  next
    case 3
    have "holds_of parts ?p k None"
      using 3(2) full by (simp add: holds_of_def)
    with 3(4) inv other show ?case
      by (simp add: holds_def AList.delete_conv')
  qed
  have "map (\<lambda>j. the (map_of ?frags (word_of_nat j))) [0..<?n] = parts k" if "complete parts ?p k"
  proof (rule nth_equalityI)
    fix j
    assume "j < length (map (\<lambda>j. the (map_of ?frags (word_of_nat j))) [0..<?n])"
    with that i(2) show "map (\<lambda>j. the (map_of ?frags (word_of_nat j))) [0..<?n] ! j = parts k ! j"
      unfolding frags by (simp add: complete_def unat_of_nat)
  qed simp
  then show "res = Inr (if complete parts ?p k then Some (concat (parts k)) else None)"
    using cases total full u(1) by auto
qed

lemma holds_run:
  assumes "holds parts p r" "frames_ok parts (p @ fs)"
  shows "\<exists>r' outs ids. feed_all r (map (frame_payload parts) fs) = (r', outs) \<and> holds parts (p @ fs) r'
    \<and> (\<forall>res \<in> set outs. \<not> isl res) \<and> delivered_packets outs = map (concat \<circ> parts) ids \<and> distinct ids
    \<and> set ids = {k \<in> fst ` set fs. complete parts (p @ fs) k}"
  using assms
proof (induction fs arbitrary: p r)
  case (Cons f fs)
  obtain k i where f: "f = (k, i)"
    by force
  obtain r1 res where feed: "feed r (frame_payload parts (k, i)) = (r1, res)"
    by force
  have ok: "frames_ok parts ((p @ [(k, i)]) @ fs)"
    using Cons.prems(2) f by simp
  note step = holds_step [OF Cons.prems(1) frames_ok_prefix [OF ok] feed]
  obtain r' outs ids where run: "feed_all r1 (map (frame_payload parts) fs) = (r', outs)"
    "holds parts ((p @ [(k, i)]) @ fs) r'" "\<forall>res \<in> set outs. \<not> isl res" "delivered_packets outs = map (concat \<circ> parts) ids"
    "distinct ids" "set ids = {x \<in> fst ` set fs. complete parts ((p @ [(k, i)]) @ fs) x}"
    using Cons.IH [OF step(1) ok] by blast
  have last: "(k, j) \<notin> set fs" if "complete parts (p @ [(k, i)]) k" for j
  proof
    assume j: "(k, j) \<in> set fs"
    then have "j < length (parts k)"
      using ok by (auto simp: frames_ok_def)
    then have "(k, j) \<in> set (p @ [(k, i)])"
      using that by (simp add: complete_def)
    then show False
      using j ok unfolding frames_ok_def distinct_append by blast
  qed
  have more: "k \<in> fst ` set fs" if "complete parts ((p @ [(k, i)]) @ fs) k" "\<not> complete parts (p @ [(k, i)]) k"
    using that by (force simp: complete_def)
  show ?case
  proof (cases "complete parts (p @ [(k, i)]) k")
    case True
    have "complete parts ((p @ [(k, i)]) @ fs) k"
      using True by (auto simp: complete_def)
    moreover have "k \<notin> set ids"
      using last [OF True] run(6) by auto
    ultimately show ?thesis
      using True run feed step(2) f by (intro exI [of _ r'] exI [of _ "res # outs"] exI [of _ "k # ids"]) auto
  next
    case False
    with more run feed step(2) f show ?thesis
      by (intro exI [of _ r'] exI [of _ "res # outs"] exI [of _ ids]) auto
  qed
qed simp

lemma holds_new: "holds parts [] reassembler_new"
  using reassembler_new_ok by (simp add: holds_def holds_of_def reassembler_new_def frame_bytes_def)

lemma holds_all:
  assumes "holds parts p r" "frames_ok parts p" "\<forall>k \<in> fst ` set p. complete parts p k"
  shows "r = reassembler_new"
proof -
  have "map_of (ra_pending r) k = None" for k
  proof (rule ccontr)
    assume "map_of (ra_pending r) k \<noteq> None"
    then obtain e where e: "map_of (ra_pending r) k = Some e"
      by blast
    have k: "complete parts p k"
      using holds_entry(2) [OF assms(1) e] assms(3) by blast
    have ok: "entry_ok e"
      by (rule holds_entry(1) [OF assms(1) e])
    have h: "holds_of parts p k (Some e)"
      using assms(1) e by (metis holds_def)
    have n: "length (parts k) \<le> 512"
      using holds_entry(2) [OF assms(1) e] assms(2) by (auto simp: frames_ok_def)
    have "length (pp_frags e) = unat (pp_frag_total e)"
      using ok h k n complete_iff [of "pp_frags e" "pp_frag_total e"]
      by (simp add: entry_ok_def holds_of_def complete_def unat_of_nat)
    with ok show False
      by (simp add: entry_ok_def)
  qed
  then have "ra_pending r = []"
    by (metis list.set_intros(1) map_of_eq_None_iff option.distinct(1) ex_in_conv image_is_empty set_empty)
  moreover have "ra_total_bytes r = asum entry_bytes (ra_pending r)"
    using assms(1) by (simp add: holds_def ra_ok_def)
  ultimately show ?thesis
    by (simp add: reassembler_new_def)
qed

lemma mset_map_inverse: "mset ys = mset (map f xs) \<Longrightarrow> \<exists>zs. mset zs = mset xs \<and> ys = map f zs"
proof (induction ys arbitrary: xs)
  case (Cons y ys)
  have "y \<in> set (map f xs)"
    using Cons.prems by (metis list.set_intros(1) mset_eq_setD)
  then obtain x where x: "x \<in> set xs" "y = f x"
    by auto
  then have "mset xs = add_mset x (mset (remove1 x xs))"
    by simp
  moreover from this have "mset ys = mset (map f (remove1 x xs))"
    using Cons.prems x by (metis (no_types, lifting) add_mset_add_mset_same_iff image_mset_add_mset mset.simps(2) mset_map)
  ultimately show ?case
    using Cons.IH x(2) by (metis list.simps(9) mset.simps(2))
qed simp

section \<open>Encoded packets\<close>

definition mux_payloads :: "mux_config \<Rightarrow> (u32 \<times> bytes) list \<Rightarrow> bytes list" where
  "mux_payloads cfg packets = concat (map (\<lambda>(packet_id, packet).
     case encode_packet packet packet_id cfg of Inl _ \<Rightarrow> [] | Inr frames \<Rightarrow> map snd frames) packets)"

definition packets_fit :: "mux_config \<Rightarrow> (u32 \<times> bytes) list \<Rightarrow> bool" where
  "packets_fit cfg packets \<longleftrightarrow> mx_stream_count cfg \<noteq> 0 \<and> mx_max_chunk_size cfg \<noteq> 0
     \<and> distinct (map fst packets) \<and> length packets < MAX_PENDING_PACKETS
     \<and> sum_list (map (length \<circ> snd) packets) \<le> MAX_PENDING_BYTES
     \<and> (\<forall>(_, packet) \<in> set packets. packet \<noteq> [] \<and> length packet \<le> 512 * mx_max_chunk_size cfg)"

definition packet_parts :: "mux_config \<Rightarrow> (u32 \<times> bytes) list \<Rightarrow> u32 \<Rightarrow> bytes list" where
  "packet_parts cfg packets k = (case map_of packets k of None \<Rightarrow> [] | Some packet \<Rightarrow> chunks (mx_max_chunk_size cfg) packet)"

definition packet_frames :: "mux_config \<Rightarrow> (u32 \<times> bytes) list \<Rightarrow> (u32 \<times> nat) list" where
  "packet_frames cfg packets = concat (map (\<lambda>k. map (Pair k) [0..<length (packet_parts cfg packets k)]) (map fst packets))"

lemma packet_parts_of:
  assumes "packets_fit cfg packets" "(k, packet) \<in> set packets"
  shows "packet_parts cfg packets k = chunks (mx_max_chunk_size cfg) packet" "concat (packet_parts cfg packets k) = packet"
    "length (packet_parts cfg packets k) \<le> 512" "packet_parts cfg packets k \<noteq> []"
proof -
  show parts: "packet_parts cfg packets k = chunks (mx_max_chunk_size cfg) packet"
    using assms by (simp add: packet_parts_def packets_fit_def)
  show c: "concat (packet_parts cfg packets k) = packet"
    using assms by (simp add: parts packets_fit_def concat_chunks)
  show "length (packet_parts cfg packets k) \<le> 512"
    using assms by (auto simp: parts packets_fit_def intro: length_chunks)
  show "packet_parts cfg packets k \<noteq> []"
    using assms c by (auto simp: packets_fit_def)
qed

lemma encode_packet_payloads:
  assumes "packet \<noteq> []" "mx_stream_count cfg \<noteq> 0" "mx_max_chunk_size cfg \<noteq> 0"
    and "length (chunks (mx_max_chunk_size cfg) packet) \<le> 512" "parts k = chunks (mx_max_chunk_size cfg) packet"
  shows "\<exists>frames. encode_packet packet k cfg = Inr frames
    \<and> map snd frames = map (frame_payload parts) (map (Pair k) [0..<length (parts k)])"
proof -
  have "map snd (map (\<lambda>(frag_idx, chunk). ((k + word_of_nat frag_idx) mod mx_stream_count cfg,
      fragment_payload k (word_of_nat frag_idx) t chunk)) (enumerate 0 cs))
    = map (\<lambda>i. fragment_payload k (word_of_nat i) t (cs ! i)) [0..<length cs]" for t and cs :: "bytes list"
    by (rule nth_equalityI) (simp_all add: nth_enumerate_eq)
  with assms show ?thesis
    by (simp add: encode_packet_def Let_def frame_payload_def min_def comp_def)
qed

lemma mux_payloads_frames:
  assumes "packets_fit cfg packets"
  shows "mux_payloads cfg packets = map (frame_payload (packet_parts cfg packets)) (packet_frames cfg packets)"
proof -
  let ?parts = "packet_parts cfg packets"
  have "(case encode_packet packet k cfg of Inl _ \<Rightarrow> [] | Inr frames \<Rightarrow> map snd frames)
      = map (frame_payload ?parts) (map (Pair k) [0..<length (?parts k)])" if "(k, packet) \<in> set packets" for k packet
  proof -
    note p = packet_parts_of [OF assms that]
    have "\<exists>frames. encode_packet packet k cfg = Inr frames
        \<and> map snd frames = map (frame_payload ?parts) (map (Pair k) [0..<length (?parts k)])"
      using assms that p by (intro encode_packet_payloads) (auto simp: packets_fit_def)
    then show ?thesis
      by auto
  qed
  then have "map (\<lambda>(k, packet). case encode_packet packet k cfg of Inl _ \<Rightarrow> [] | Inr frames \<Rightarrow> map snd frames) packets
      = map (\<lambda>x. map (frame_payload ?parts) (map (Pair (fst x)) [0..<length (?parts (fst x))])) packets"
    by (intro map_cong refl) auto
  then show ?thesis
    unfolding mux_payloads_def by (simp only: packet_frames_def map_concat map_map comp_def)
qed

lemma packet_frames_set: "(k, i) \<in> set (packet_frames cfg packets) \<longleftrightarrow> k \<in> fst ` set packets \<and> i < length (packet_parts cfg packets k)"
  by (force simp: packet_frames_def)

lemma sum_list_concat: "sum_list (concat xss) = sum_list (map sum_list (xss :: nat list list))"
  by (induction xss) simp_all

lemma packet_frames_bytes:
  assumes "packets_fit cfg packets"
  shows "frame_bytes (packet_parts cfg packets) (packet_frames cfg packets) = sum_list (map (length \<circ> snd) packets)"
proof -
  let ?parts = "packet_parts cfg packets"
  have one: "sum_list (map (\<lambda>i. length (?parts k ! i)) [0..<length (?parts k)]) = length packet"
    if "(k, packet) \<in> set packets" for k packet
  proof -
    have "map (\<lambda>i. length (?parts k ! i)) [0..<length (?parts k)] = map length (?parts k)"
      by (rule nth_equalityI) simp_all
    then show ?thesis
      using packet_parts_of(2) [OF assms that] by (metis length_concat)
  qed
  have "frame_bytes ?parts (packet_frames cfg packets)
      = sum_list (map (\<lambda>x. sum_list (map (\<lambda>i. length (?parts (fst x) ! i)) [0..<length (?parts (fst x))])) packets)"
    unfolding frame_bytes_def packet_frames_def by (simp only: map_concat sum_list_concat map_map comp_def fst_conv snd_conv)
  also have "\<dots> = sum_list (map (length \<circ> snd) packets)"
    using one by (intro arg_cong [where f = sum_list] map_cong refl) auto
  finally show ?thesis .
qed

lemma distinct_pairs: "distinct ks \<Longrightarrow> distinct (concat (map (\<lambda>k. map (Pair k) [0..<n k]) ks))"
  by (induction ks) (auto simp: distinct_map inj_on_def)

lemma frame_bytes_mset: "mset fs = mset gs \<Longrightarrow> frame_bytes parts fs = frame_bytes parts gs"
  unfolding frame_bytes_def sum_mset_sum_list [symmetric] mset_map by simp

lemma packet_frames_ok:
  assumes fit: "packets_fit cfg packets" and fs: "mset fs = mset (packet_frames cfg packets)"
  shows "frames_ok (packet_parts cfg packets) fs" "fst ` set fs = fst ` set packets"
    "\<forall>k \<in> fst ` set packets. complete (packet_parts cfg packets) fs k"
proof -
  have set: "set fs = set (packet_frames cfg packets)"
    using fs by (metis set_mset_mset)
  have "(k, 0) \<in> set fs" if "k \<in> fst ` set packets" for k
    using that packet_parts_of(4) [OF fit] by (auto simp: set packet_frames_set)
  then have "fst ` set packets \<subseteq> fst ` set fs"
    by (metis fst_conv image_eqI subsetI)
  moreover have "fst ` set fs \<subseteq> fst ` set packets"
    using packet_frames_set unfolding set by fastforce
  ultimately show dom: "fst ` set fs = fst ` set packets"
    by blast
  show "\<forall>k \<in> fst ` set packets. complete (packet_parts cfg packets) fs k"
    by (auto simp: set complete_def packet_frames_set)
  have "distinct (packet_frames cfg packets)"
    using fit unfolding packet_frames_def packets_fit_def by (intro distinct_pairs) simp
  then have "distinct fs"
    using fs by (metis mset_eq_imp_distinct_iff)
  moreover have "card (fst ` set fs) < MAX_PENDING_PACKETS"
    using fit card_length [of "map fst packets"] by (simp add: dom packets_fit_def)
  moreover have "frame_bytes (packet_parts cfg packets) fs \<le> MAX_PENDING_BYTES"
    using fit packet_frames_bytes [OF fit] frame_bytes_mset [OF fs] by (simp add: packets_fit_def)
  ultimately show "frames_ok (packet_parts cfg packets) fs"
    using packet_parts_of(3) [OF fit] by (auto simp: frames_ok_def set packet_frames_set)
qed

lemma packets_delivered:
  assumes fit: "packets_fit cfg packets" and payloads: "mset payloads = mset (mux_payloads cfg packets)"
  shows "\<exists>outs. feed_all reassembler_new payloads = (reassembler_new, outs) \<and> (\<forall>res \<in> set outs. \<not> isl res)
    \<and> mset (delivered_packets outs) = mset (map snd packets)"
proof -
  let ?parts = "packet_parts cfg packets"
  obtain fs where fs: "mset fs = mset (packet_frames cfg packets)" "payloads = map (frame_payload ?parts) fs"
    using mset_map_inverse [OF payloads [unfolded mux_payloads_frames [OF fit]]] by blast
  note ok = packet_frames_ok [OF fit fs(1)]
  obtain r outs ids where run: "feed_all reassembler_new payloads = (r, outs)" "holds ?parts fs r"
    "\<forall>res \<in> set outs. \<not> isl res" "delivered_packets outs = map (concat \<circ> ?parts) ids" "distinct ids"
    "set ids = {k \<in> fst ` set fs. complete ?parts fs k}"
    using holds_run [OF holds_new, of ?parts fs] ok(1) fs(2) by auto
  have "r = reassembler_new"
    using ok by (intro holds_all [OF run(2)]) simp_all
  have "mset ids = mset (map fst packets)"
    using fit ok(2,3) run(5,6) by (intro set_eq_iff_mset_eq_distinct [THEN iffD1]) (auto simp: packets_fit_def)
  then have "mset (delivered_packets outs) = mset (map (concat \<circ> ?parts) (map fst packets))"
    unfolding run(4) mset_map by (simp only:)
  also have "map (concat \<circ> ?parts) (map fst packets) = map snd packets"
    using packet_parts_of(2) [OF fit] by auto
  finally show ?thesis
    using \<open>r = reassembler_new\<close> run(1,3) by blast
qed

section \<open>Derived profiles\<close>

lemma stream_count_bounds: "16 \<le> 16 + w mod 17" "16 + w mod 17 \<le> (32 :: u32)"
proof -
  have "unat (16 + w mod 17) = 16 + unat w mod 17"
    using mod_less_divisor [of 17 "unat w"] by (simp add: unat_word_ariths unat_mod)
  then show "16 \<le> 16 + w mod 17" "16 + w mod 17 \<le> (32 :: u32)"
    using mod_less_divisor [of 17 "unat w"] by (simp_all add: word_le_nat_alt)
qed

text \<open>Whatever the seed, the derived parameters stay inside their ranges and the guard is on.\<close>

lemma derive_profile_bounds:
  "16 \<le> mx_stream_count (tp_mux (derive_profile C pacer seed)) \<and> mx_stream_count (tp_mux (derive_profile C pacer seed)) \<le> 32
   \<and> 512 \<le> mx_max_chunk_size (tp_mux (derive_profile C pacer seed)) \<and> mx_max_chunk_size (tp_mux (derive_profile C pacer seed)) \<le> 2048
   \<and> 6000 \<le> vg_threshold (tp_volume_guard (derive_profile C pacer seed))
   \<and> vg_threshold (tp_volume_guard (derive_profile C pacer seed)) \<le> 10000
   \<and> vg_enabled (tp_volume_guard (derive_profile C pacer seed)) \<and> tp_pacer (derive_profile C pacer seed) = pacer"
proof (cases "seed = [] \<or> hkdf C (replicate 32 0) seed PROFILE_INFO 32 = None")
  case True
  then have "derive_profile C pacer seed = tunnel_profile_default pacer"
    by (auto simp: derive_profile_def)
  then show ?thesis
    by (simp add: tunnel_profile_default_def DEFAULT_THRESHOLD_def)
next
  case False
  then show ?thesis
    by (auto simp: derive_profile_def Let_def stream_count_bounds clamp_bounds)
qed

end
