(* ===== verification/Tunnel_Properties.thy ===== *)
theory Tunnel_Properties
  imports Mux_Delivery Session_Sample
begin

text \<open>
  What the tunnel guarantees for packets: delivery under any interleaving and reordering, bounds
  and integrity under arbitrary payloads, and checksums that verify.
\<close>

text \<open>C33. Packets in flight together are delivered. Take up to 255 non-empty packets of at most
  65535 bytes with distinct ids, at most 8 MiB in total, encoded with the parameters derived from
  any profile seed. In whatever order their frames arrive, interleaved or reversed, the
  reassembler reports no error, delivers every packet exactly once and unchanged, and ends empty.\<close>

theorem tunnel_packets_delivered:
  assumes "cfg = tp_mux (derive_profile C pacer seed)"
    and "distinct (map fst packets)" "length packets < MAX_PENDING_PACKETS"
    and "sum_list (map (length \<circ> snd) packets) \<le> MAX_PENDING_BYTES"
    and "\<forall>(_, packet) \<in> set packets. packet \<noteq> [] \<and> length packet \<le> 65535"
    and "mset payloads = mset (mux_payloads cfg packets)"
  shows "\<exists>outs. feed_all reassembler_new payloads = (reassembler_new, outs) \<and> (\<forall>res \<in> set outs. \<not> isl res)
    \<and> mset (delivered_packets outs) = mset (map snd packets)"
proof (rule packets_delivered)
  have "65535 \<le> 512 * mx_max_chunk_size cfg" "mx_stream_count cfg \<noteq> 0" "mx_max_chunk_size cfg \<noteq> 0"
    using derive_profile_bounds [of C pacer seed] by (auto simp: assms(1) word_le_nat_alt)
  with assms show "packets_fit cfg packets"
    by (fastforce simp: packets_fit_def)
qed (fact assms(6))

theorem tunnel_packets_delivered_witness:
  "let cfg = tp_mux (derive_profile sample_crypto () []); packets = [(7, [1, 2, 3]), (9, replicate 2000 5)] in
   \<exists>outs. feed_all reassembler_new (rev (mux_payloads cfg packets)) = (reassembler_new, outs)
     \<and> (\<forall>res \<in> set outs. \<not> isl res) \<and> mset (delivered_packets outs) = mset [[1, 2, 3], replicate 2000 5]"
  using tunnel_packets_delivered [OF refl, of "[(7, [1, 2, 3]), (9, replicate 2000 5)]"
      "rev (mux_payloads (tp_mux (derive_profile sample_crypto () [])) [(7, [1, 2, 3]), (9, replicate 2000 5)])"
      sample_crypto "()" "[]"]
  by (simp add: MAX_PENDING_PACKETS_def MAX_PENDING_BYTES_def Let_def)

text \<open>C34. Whatever payloads are fed, up to 8 MiB each, the reassembler never holds more than 256
  packets or 8 MiB, its byte counter is exactly what it stores, the missing-fragment error cannot
  occur, and every packet it delivers is the concatenation, in index order, of fragments that were
  fed for one packet id and one fragment count.\<close>

theorem reassembly_bounded_and_sound:
  assumes "\<forall>p \<in> set ps. length p \<le> MAX_PENDING_BYTES" "feed_all reassembler_new ps = (r, outs)"
  shows "length (ra_pending r) \<le> MAX_PENDING_PACKETS \<and> ra_total_bytes r \<le> MAX_PENDING_BYTES
    \<and> ra_total_bytes r = sum_list (map (\<lambda>(_, e). frags_bytes (pp_frags e)) (ra_pending r))
    \<and> (\<forall>i. Inl (MissingFragment i) \<notin> set outs)
    \<and> (\<forall>packet \<in> set (delivered_packets outs). \<exists>k t parts. 0 < t \<and> t \<le> MAX_FRAG_TOTAL
         \<and> length parts = unat t \<and> packet = concat parts
         \<and> (\<forall>i < unat t. fragment_payload k (word_of_nat i) t (parts ! i) \<in> set ps))"
proof -
  have "fed_by {} reassembler_new"
    by (simp add: fed_by_def reassembler_new_def)
  then have "ra_ok r \<and> (\<forall>i. Inl (MissingFragment i) \<notin> set outs)
      \<and> (\<forall>packet \<in> set (delivered_packets outs). assembled_from ({} \<union> set ps) packet)"
    using assms by (rule feed_all_sound [OF reassembler_new_ok])
  moreover have "asum entry_bytes (ra_pending r) = sum_list (map (\<lambda>(_, e). frags_bytes (pp_frags e)) (ra_pending r))"
    unfolding asum_def by (intro arg_cong [where f = sum_list] map_cong refl) (auto simp: entry_bytes_def)
  ultimately show ?thesis
    by (simp add: ra_ok_def assembled_from_def)
qed

theorem reassembly_bounded_and_sound_witness:
  "let ps = [fragment_payload 3 0 2 [7], fragment_payload 3 1 2 [8], [9], []]; (r, outs) = feed_all reassembler_new ps in
   length (ra_pending r) \<le> MAX_PENDING_PACKETS \<and> ra_total_bytes r \<le> MAX_PENDING_BYTES"
  using reassembly_bounded_and_sound [of "[fragment_payload 3 0 2 [7], fragment_payload 3 1 2 [8], [9], []]",
      OF _ surjective_pairing]
  by (simp add: Let_def split_beta fragment_payload_def MAX_PENDING_BYTES_def MAX_PENDING_PACKETS_def del: feed_all.simps)

text \<open>C35. After the checksum fix-up of a packet with a well-formed IPv4 header the header verifies
  under the Internet checksum of RFC 1071 (the ones'-complement sum of its sixteen-bit words is
  all ones), so does the ICMP message, of even or odd length, when there is one of at least eight
  bytes; the length is kept, and no byte other than those checksum fields changes.\<close>

theorem fixed_checksums_verify:
  assumes "ipv4_header packet" "ihl = unat (packet ! 0 AND 0x0f) * 4"
    and "icmp = (packet ! 9 = 1 \<and> ihl + 8 \<le> length packet)"
  shows "length (fix_ipv4_checksum packet) = length packet
    \<and> rfc1071_verifies (take ihl (fix_ipv4_checksum packet))
    \<and> (icmp \<longrightarrow> rfc1071_verifies (drop ihl (fix_ipv4_checksum packet)))
    \<and> (\<forall>j < length packet. j \<noteq> 10 \<longrightarrow> j \<noteq> 11 \<longrightarrow> \<not> (icmp \<and> (j = ihl + 2 \<or> j = ihl + 3))
         \<longrightarrow> fix_ipv4_checksum packet ! j = packet ! j)"
proof -
  have "length packet \<le> 65535"
    using assms(1) by (simp add: ipv4_header_def)
  with fix_ipv4_verifies [OF assms(1)] show ?thesis
    unfolding assms(2,3) by (auto simp: checksum_zero_verifies [symmetric])
qed

theorem fixed_checksums_verify_witness:
  "let packet = [0x45, 0, 0, 29, 1, 2, 0, 0, 64, 1, 9, 9, 10, 0, 0, 1, 10, 0, 0, 2, 8, 0, 7, 7, 0, 1, 0, 1, 5] in
   rfc1071_verifies (take 20 (fix_ipv4_checksum packet)) \<and> rfc1071_verifies (drop 20 (fix_ipv4_checksum packet))"
  using fixed_checksums_verify [of "[0x45, 0, 0, 29, 1, 2, 0, 0, 64, 1, 9, 9, 10, 0, 0, 1, 10, 0, 0, 2, 8, 0, 7, 7, 0, 1, 0, 1, 5]", OF _ refl refl]
  by (simp add: ipv4_header_def Let_def drop_bit_eq_div)

end
