(* ===== verification/Endpoint_Coordinator.thy ===== *)
theory Endpoint_Coordinator
  imports Std_Collections
begin

text \<open>
  The endpoint coordinator (\<open>endpoint.rs\<close>): DNS answers select among the addresses of a signed
  authority, every change is prepared as an ordered plan of firewall and route operations, and
  commits only if nothing else changed meanwhile. An \<open>expect\<close> whose message says that the code
  relies on an invariant is the error \<open>CoordPanic\<close>; the invariant shows it cannot occur.
\<close>

section \<open>Data\<close>

type_synonym ipv4 = bytes
type_synonym candidate_key = "u64 \<times> ipv4"

definition MIN_TTL_SECS :: u32 where "MIN_TTL_SECS = 5"
definition MAX_TTL_SECS :: u32 where "MAX_TTL_SECS = 3600"
definition DEFAULT_NEGATIVE_TTL_SECS :: u32 where "DEFAULT_NEGATIVE_TTL_SECS = 30"
definition MAX_NEGATIVE_TTL_SECS :: u32 where "MAX_NEGATIVE_TTL_SECS = 300"
definition RETRY_BASE_MS :: u64 where "RETRY_BASE_MS = 1000"
definition RETRY_CAP_MS :: u64 where "RETRY_CAP_MS = 30000"

datatype carrier_protocol = Tcp | Udp

instantiation carrier_protocol :: linorder
begin

definition less_eq_carrier_protocol :: "carrier_protocol \<Rightarrow> carrier_protocol \<Rightarrow> bool" where
  "less_eq_carrier_protocol a b \<longleftrightarrow> a = Tcp \<or> b = Udp"

definition less_carrier_protocol :: "carrier_protocol \<Rightarrow> carrier_protocol \<Rightarrow> bool" where
  "less_carrier_protocol a b \<longleftrightarrow> a = Tcp \<and> b = Udp"

instance
proof
  fix x y z :: carrier_protocol
  show "x < y \<longleftrightarrow> x \<le> y \<and> \<not> y \<le> x" "x \<le> x" "x \<le> y \<or> y \<le> x"
    by (cases x; cases y; simp add: less_carrier_protocol_def less_eq_carrier_protocol_def)+
  show "x \<le> y \<Longrightarrow> y \<le> z \<Longrightarrow> x \<le> z" "x \<le> y \<Longrightarrow> y \<le> x \<Longrightarrow> x = y"
    by (cases x; cases y; cases z; simp add: less_eq_carrier_protocol_def)+
qed

end

type_synonym carrier_tuple = "(ipv4 \<times> u16) \<times> carrier_protocol"

record ipv4_authority =
  au_manifest_generation :: u64
  au_allowed :: "ipv4 list"

record address_policy =
  ap_allow_private :: bool

record logical_endpoint =
  le_id :: u64
  le_hostname :: string
  le_port :: u16
  le_protocol :: carrier_protocol
  le_auth :: u32
  le_authority :: ipv4_authority
  le_address_policy :: address_policy

datatype resolution_observation =
    Positive "(ipv4 \<times> u32) list"
  | NxDomain "u32 option"
  | NoData "u32 option"
  | TransientFailure

record dial_candidate =
  dc_key :: candidate_key
  dc_address :: "ipv4 \<times> u16"
  dc_protocol :: carrier_protocol
  dc_auth :: u32
  dc_authority_generation :: u64

record dial_snapshot =
  ds_generation :: u64
  ds_candidates :: "dial_candidate list"

datatype firewall_operation = Allow carrier_tuple | Deny carrier_tuple

datatype route_operation = AddBypass ipv4 | RemoveBypass ipv4

datatype transition_operation =
    Firewall firewall_operation
  | Route route_operation
  | PublishSnapshot u64 u64

record transition_plan =
  tr_operations :: "transition_operation list"
  tr_snapshot :: dial_snapshot

datatype observation_disposition =
    ObservationApplied
  | RetainedNegative
  | RetainedEmptyPositive
  | RejectedOutsideAuthority "ipv4 list"
  | RejectedAddressPolicy "ipv4 list"
  | IgnoredOutOfOrder

record observation_result =
  ob_disposition :: observation_disposition
  ob_plan :: transition_plan
  ob_next_refresh_at_ms :: u64

record candidate_state =
  cs_valid_until_ms :: "u64 option"
  cs_dialable :: bool
  cs_leases :: u32

record logical_state =
  ls_spec :: logical_endpoint
  ls_latest_query_sequence :: u64
  ls_last_applied_sequence :: u64
  ls_failure_streak :: u32
  ls_next_refresh_at_ms :: u64

record coordinator =
  co_revision :: u64
  co_logical :: "(u64 \<times> logical_state) list"
  co_candidates :: "(candidate_key \<times> candidate_state) list"
  co_leases :: "(u64 \<times> candidate_key) list"
  co_next_lease_id :: u64
  co_snapshot :: dial_snapshot

datatype coord_error =
    EmptyAuthority | EmptyHostname | HostnameTooLong | EmptyLabel | LabelTooLong
  | ZeroPort | AuthorityRejected ipv4 | DuplicateLogicalId u64 | NoLogicalEndpoints
  | UnknownEndpoint u64 | SeedOutsideAuthority ipv4 | SeedRejected ipv4 | EmptySeeds
  | RevisionExhausted | SequenceExhausted | GenerationExhausted | LeaseIdExhausted
  | StaleTransition | DuplicateLeaseId | CandidateAbsent candidate_key | CandidateRetiring candidate_key
  | LeaseOverflow | UnknownLease u64 | LeaseKeyMismatch | LeasedCandidateMissing | LeaseUnderflow
  | UnsafeOrder | RevivedWithoutChange | NonMonotonicRehydration | CoordPanic

type_synonym 'a coord_result = "coord_error + 'a"

section \<open>Authorities and addresses\<close>

definition from_preverified_manifest :: "u64 \<Rightarrow> ipv4 list \<Rightarrow> ipv4_authority coord_result" where
  "from_preverified_manifest generation allowed =
     (let allowed = bts_of_list allowed in
      if allowed = [] then Inl EmptyAuthority
      else Inr \<lparr> au_manifest_generation = generation, au_allowed = allowed \<rparr>)"

definition is_private :: "ipv4 \<Rightarrow> bool" where
  "is_private ip \<longleftrightarrow> ip ! 0 = 10 \<or> (ip ! 0 = 172 \<and> 16 \<le> ip ! 1 \<and> ip ! 1 \<le> 31) \<or> (ip ! 0 = 192 \<and> ip ! 1 = 168)"

definition permits :: "address_policy \<Rightarrow> ipv4 \<Rightarrow> bool" where
  "permits policy ip =
     (if ip = [0, 0, 0, 0] \<or> ip ! 0 = 127 \<or> (ip ! 0 = 169 \<and> ip ! 1 = 254)
         \<or> (224 \<le> ip ! 0 \<and> ip ! 0 \<le> 239) \<or> ip = [255, 255, 255, 255] then False
      else ap_allow_private policy \<or> \<not> is_private ip)"

definition endpoint_tuple :: "logical_endpoint \<Rightarrow> ipv4 \<Rightarrow> carrier_tuple" where
  "endpoint_tuple spec ip = ((ip, le_port spec), le_protocol spec)"

text \<open>\<open>str::trim_end_matches\<close> with one character.\<close>

definition trim_end :: "char \<Rightarrow> string \<Rightarrow> string" where
  "trim_end c s = rev (dropWhile (\<lambda>x. x = c) (rev s))"

definition validate_hostname :: "string \<Rightarrow> unit coord_result" where
  "validate_hostname hostname =
     (let hostname = trim_end (CHR ''.'') hostname in
      bindR (ensure (hostname \<noteq> []) EmptyHostname) (\<lambda>_.
      bindR (ensure (length hostname \<le> 253) HostnameTooLong) (\<lambda>_.
      foldE (\<lambda>_ label. bindR (ensure (label \<noteq> []) EmptyLabel) (\<lambda>_. ensure (length label \<le> 63) LabelTooLong))
        () (split_on (CHR ''.'') hostname))))"

section \<open>Plans\<close>

fun host_inverse :: "transition_operation \<Rightarrow> transition_operation option" where
  "host_inverse (Firewall (Allow t)) = Some (Firewall (Deny t))"
| "host_inverse (Firewall (Deny t)) = Some (Firewall (Allow t))"
| "host_inverse (Route (AddBypass ip)) = Some (Route (RemoveBypass ip))"
| "host_inverse (Route (RemoveBypass ip)) = Some (Route (AddBypass ip))"
| "host_inverse (PublishSnapshot from to) = None"

definition plan_unchanged :: "dial_snapshot \<Rightarrow> transition_plan" where
  "plan_unchanged snapshot = \<lparr> tr_operations = [], tr_snapshot = snapshot \<rparr>"

fun is_publish :: "transition_operation \<Rightarrow> bool" where
  "is_publish (PublishSnapshot _ _) = True"
| "is_publish _ = False"

text \<open>\<open>Iterator::position\<close>.\<close>

fun position :: "('a \<Rightarrow> bool) \<Rightarrow> 'a list \<Rightarrow> nat option" where
  "position P [] = None"
| "position P (x # xs) = (if P x then Some 0 else map_option Suc (position P xs))"

fun check_publish_order :: "nat option \<Rightarrow> unit \<Rightarrow> nat \<times> transition_operation \<Rightarrow> unit coord_result" where
  "check_publish_order publish _ (index, Firewall (Allow _)) =
     ensure (case publish of Some p \<Rightarrow> index < p | None \<Rightarrow> False) UnsafeOrder"
| "check_publish_order publish _ (index, Route (AddBypass _)) =
     ensure (case publish of Some p \<Rightarrow> index < p | None \<Rightarrow> False) UnsafeOrder"
| "check_publish_order publish _ (index, Firewall (Deny _)) =
     (case publish of Some p \<Rightarrow> ensure (p < index) UnsafeOrder | None \<Rightarrow> Inr ())"
| "check_publish_order publish _ (index, Route (RemoveBypass _)) =
     (case publish of Some p \<Rightarrow> ensure (p < index) UnsafeOrder | None \<Rightarrow> Inr ())"
| "check_publish_order publish _ (index, PublishSnapshot _ _) = Inr ()"

fun check_route_order :: "bool \<times> bool \<Rightarrow> transition_operation \<Rightarrow> (bool \<times> bool) coord_result" where
  "check_route_order (added, removed) (Route (AddBypass _)) = Inr (True, removed)"
| "check_route_order (added, removed) (Firewall (Allow _)) =
     bindR (ensure (\<not> added) UnsafeOrder) (\<lambda>_. Inr (added, removed))"
| "check_route_order (added, removed) (Route (RemoveBypass _)) = Inr (added, True)"
| "check_route_order (added, removed) (Firewall (Deny _)) =
     bindR (ensure (\<not> removed) UnsafeOrder) (\<lambda>_. Inr (added, removed))"
| "check_route_order (added, removed) (PublishSnapshot _ _) = Inr (added, removed)"

definition validate_order :: "transition_plan \<Rightarrow> unit coord_result" where
  "validate_order plan =
     (let operations = tr_operations plan; publish = position is_publish operations in
      bindR (foldE (check_publish_order publish) () (enumerate 0 operations)) (\<lambda>_.
      bindR (foldE check_route_order (False, False) operations) (\<lambda>_. Inr ())))"

section \<open>Snapshots and transition plans\<close>

text \<open>\<open>map\<close> with a body that may fail.\<close>

fun mapE :: "('a \<Rightarrow> 'e + 'b) \<Rightarrow> 'a list \<Rightarrow> 'e + 'b list" where
  "mapE f [] = Inr []"
| "mapE f (x # xs) = bindR (f x) (\<lambda>y. bindR (mapE f xs) (\<lambda>ys. Inr (y # ys)))"

definition dial_candidate_of :: "(u64 \<times> logical_state) list \<Rightarrow> candidate_key \<Rightarrow> dial_candidate coord_result" where
  "dial_candidate_of logical key = bindR (ok_or (map_of logical (fst key)) CoordPanic) (\<lambda>state.
     let spec = ls_spec state in
     Inr \<lparr> dc_key = key, dc_address = (snd key, le_port spec), dc_protocol = le_protocol spec,
       dc_auth = le_auth spec, dc_authority_generation = au_manifest_generation (le_authority spec) \<rparr>)"

definition build_snapshot ::
  "u64 \<Rightarrow> (u64 \<times> logical_state) list \<Rightarrow> (candidate_key \<times> candidate_state) list \<Rightarrow> dial_snapshot coord_result" where
  "build_snapshot generation logical candidates =
     bindR (mapE (dial_candidate_of logical) (bt_keys (bt_retain cs_dialable candidates))) (\<lambda>cs.
     Inr \<lparr> ds_generation = generation, ds_candidates = cs \<rparr>)"

text \<open>The reference counts of \<open>access_refs\<close> are only tested for presence: the ordered sets of keys.\<close>

definition access_refs ::
  "(u64 \<times> logical_state) list \<Rightarrow> (candidate_key \<times> candidate_state) list \<Rightarrow> (carrier_tuple list \<times> ipv4 list) coord_result" where
  "access_refs logical candidates =
     bindR (mapE (\<lambda>key. bindR (ok_or (map_of logical (fst key)) CoordPanic) (\<lambda>state.
       Inr (endpoint_tuple (ls_spec state) (snd key)))) (bt_keys candidates)) (\<lambda>tuples.
     Inr (bts_of_list tuples, bts_of_list (map snd (bt_keys candidates))))"

definition transition_plan_of ::
  "(u64 \<times> logical_state) list \<Rightarrow> (candidate_key \<times> candidate_state) list \<Rightarrow> (candidate_key \<times> candidate_state) list
     \<Rightarrow> u64 \<Rightarrow> dial_snapshot \<Rightarrow> bool \<Rightarrow> transition_plan coord_result" where
  "transition_plan_of logical old new old_generation snapshot publish =
     bindR (access_refs logical old) (\<lambda>(old_tuples, old_ips).
     bindR (access_refs logical new) (\<lambda>(new_tuples, new_ips).
     Inr \<lparr> tr_operations =
         map (\<lambda>t. Firewall (Allow t)) (filter (\<lambda>t. t \<notin> set old_tuples) new_tuples)
         @ map (\<lambda>ip. Route (AddBypass ip)) (filter (\<lambda>ip. ip \<notin> set old_ips) new_ips)
         @ (if publish then [PublishSnapshot old_generation (ds_generation snapshot)] else [])
         @ map (\<lambda>t. Firewall (Deny t)) (filter (\<lambda>t. t \<notin> set new_tuples) old_tuples)
         @ map (\<lambda>ip. Route (RemoveBypass ip)) (filter (\<lambda>ip. ip \<notin> set new_ips) old_ips),
       tr_snapshot = snapshot \<rparr>))"

section \<open>Refresh times\<close>

definition jittered_ttl_ms :: "u32 \<Rightarrow> u64 \<Rightarrow> u64" where
  "jittered_ttl_ms ttl_secs entropy =
     (let ttl = ucast (clamp ttl_secs MIN_TTL_SECS MAX_TTL_SECS); basis_points = 7000 + entropy mod 2001 in
      sat_mul (sat_mul ttl 1000) basis_points div 10000)"

definition retry_delay_ms :: "u32 \<Rightarrow> u64 \<Rightarrow> u64" where
  "retry_delay_ms streak entropy =
     (let shift = min (sat_sub streak 1) 31;
          ceiling = min (sat_mul RETRY_BASE_MS (push_bit (unat shift) 1)) RETRY_CAP_MS in
      250 + entropy mod max (sat_sub ceiling 249) 1)"

section \<open>The coordinator\<close>

definition insert_logical ::
  "u64 \<Rightarrow> (u64 \<times> logical_state) list \<Rightarrow> logical_endpoint \<Rightarrow> (u64 \<times> logical_state) list coord_result" where
  "insert_logical now_ms logical spec =
     bindR (validate_hostname (le_hostname spec)) (\<lambda>_.
     bindR (ensure (le_port spec \<noteq> 0) ZeroPort) (\<lambda>_.
     bindR (foldE (\<lambda>_ ip. ensure (permits (le_address_policy spec) ip) (AuthorityRejected ip)) ()
       (au_allowed (le_authority spec))) (\<lambda>_.
     bindR (ensure (map_of logical (le_id spec) = None) (DuplicateLogicalId (le_id spec))) (\<lambda>_.
     Inr (bt_insert (le_id spec) \<lparr> ls_spec = spec, ls_latest_query_sequence = 0, ls_last_applied_sequence = 0,
       ls_failure_streak = 0, ls_next_refresh_at_ms = sat_add now_ms 5000 \<rparr> logical)))))"

definition new_candidate :: candidate_state where
  "new_candidate = \<lparr> cs_valid_until_ms = None, cs_dialable = True, cs_leases = 0 \<rparr>"

definition insert_seed ::
  "(u64 \<times> logical_state) list \<Rightarrow> (candidate_key \<times> candidate_state) list \<Rightarrow> candidate_key
     \<Rightarrow> (candidate_key \<times> candidate_state) list coord_result" where
  "insert_seed logical candidates seed =
     bindR (ok_or (map_of logical (fst seed)) (UnknownEndpoint (fst seed))) (\<lambda>state.
     bindR (ensure (snd seed \<in> set (au_allowed (le_authority (ls_spec state)))) (SeedOutsideAuthority (snd seed))) (\<lambda>_.
     bindR (ensure (permits (le_address_policy (ls_spec state)) (snd seed)) (SeedRejected (snd seed))) (\<lambda>_.
     Inr (bt_insert seed new_candidate candidates))))"

definition coordinator_new :: "logical_endpoint list \<Rightarrow> candidate_key list \<Rightarrow> u64 \<Rightarrow> coordinator coord_result" where
  "coordinator_new endpoints seeds now_ms =
     bindR (foldE (insert_logical now_ms) [] endpoints) (\<lambda>logical.
     bindR (ensure (logical \<noteq> []) NoLogicalEndpoints) (\<lambda>_.
     bindR (foldE (insert_seed logical) [] seeds) (\<lambda>candidates.
     bindR (ensure (candidates \<noteq> []) EmptySeeds) (\<lambda>_.
     bindR (build_snapshot 1 logical candidates) (\<lambda>snapshot.
     Inr \<lparr> co_revision = 1, co_logical = logical, co_candidates = candidates, co_leases = [],
       co_next_lease_id = 1, co_snapshot = snapshot \<rparr>)))))"

definition next_refresh_at_ms :: "coordinator \<Rightarrow> u64 \<Rightarrow> u64 coord_result" where
  "next_refresh_at_ms c logical =
     bindR (ok_or (map_of (co_logical c) logical) (UnknownEndpoint logical)) (\<lambda>state. Inr (ls_next_refresh_at_ms state))"

definition next_revision :: "coordinator \<Rightarrow> u64 coord_result" where
  "next_revision c = ok_or (u64_checked_add (co_revision c) 1) RevisionExhausted"

definition begin_query :: "coordinator \<Rightarrow> u64 \<Rightarrow> (coordinator \<times> u64 \<times> u64) coord_result" where
  "begin_query c logical =
     bindR (next_revision c) (\<lambda>revision.
     bindR (ok_or (map_of (co_logical c) logical) (UnknownEndpoint logical)) (\<lambda>state.
     bindR (ok_or (u64_checked_add (ls_latest_query_sequence state) 1) SequenceExhausted) (\<lambda>sequence.
     Inr (c \<lparr> co_logical := bt_update logical (\<lambda>s. s \<lparr> ls_latest_query_sequence := sequence \<rparr>) (co_logical c),
              co_revision := revision \<rparr>, logical, sequence))))"

section \<open>Observations\<close>

definition unchanged_result :: "coordinator \<Rightarrow> observation_disposition \<Rightarrow> u64 \<Rightarrow> observation_result" where
  "unchanged_result c disposition next_refresh =
     \<lparr> ob_disposition = disposition, ob_plan = plan_unchanged (co_snapshot c), ob_next_refresh_at_ms = next_refresh \<rparr>"

definition retain_with_negative_schedule ::
  "coordinator \<Rightarrow> u64 \<Rightarrow> u64 \<Rightarrow> u64 \<Rightarrow> u32 option \<Rightarrow> observation_disposition
     \<Rightarrow> (coordinator \<times> observation_result) coord_result" where
  "retain_with_negative_schedule c logical now_ms entropy ttl disposition =
     (let ttl = clamp (case ttl of None \<Rightarrow> DEFAULT_NEGATIVE_TTL_SECS | Some t \<Rightarrow> t) MIN_TTL_SECS MAX_NEGATIVE_TTL_SECS;
          next = sat_add now_ms (jittered_ttl_ms ttl entropy) in
      bindR (ok_or (map_of (co_logical c) logical) CoordPanic) (\<lambda>state.
      Inr (c \<lparr> co_logical := bt_update logical (\<lambda>s. s \<lparr> ls_failure_streak := 0, ls_next_refresh_at_ms := next \<rparr>) (co_logical c) \<rparr>,
           unchanged_result c disposition next)))"

definition back_off ::
  "coordinator \<Rightarrow> u64 \<Rightarrow> u64 \<Rightarrow> u64 \<Rightarrow> observation_disposition \<Rightarrow> (coordinator \<times> observation_result) coord_result" where
  "back_off c logical now_ms entropy disposition =
     bindR (ok_or (map_of (co_logical c) logical) CoordPanic) (\<lambda>state.
     let streak = sat_add (ls_failure_streak state) 1; next = sat_add now_ms (retry_delay_ms streak entropy) in
     Inr (c \<lparr> co_logical := bt_update logical (\<lambda>s. s \<lparr> ls_failure_streak := streak, ls_next_refresh_at_ms := next \<rparr>) (co_logical c) \<rparr>,
          unchanged_result c disposition next))"

definition reject_observation ::
  "coordinator \<Rightarrow> u64 \<Rightarrow> u64 \<Rightarrow> u64 \<Rightarrow> observation_disposition \<Rightarrow> (coordinator \<times> observation_result) coord_result" where
  "reject_observation = back_off"

definition dedup_records :: "(ipv4 \<times> u32) list \<Rightarrow> (ipv4 \<times> u32) list" where
  "dedup_records records = fold (\<lambda>(ip, ttl) dedup.
     bt_insert ip (case map_of dedup ip of None \<Rightarrow> ttl | Some t \<Rightarrow> min t ttl) dedup) records []"

definition publish_record ::
  "u64 \<Rightarrow> u64 \<Rightarrow> ipv4 \<times> u32 \<Rightarrow> (candidate_key \<times> candidate_state) list \<Rightarrow> (candidate_key \<times> candidate_state) list" where
  "publish_record logical_id now_ms = (\<lambda>(ip, ttl) candidates.
     let ttl = clamp ttl MIN_TTL_SECS MAX_TTL_SECS; key = (logical_id, ip);
         candidate = (case map_of candidates key of None \<Rightarrow> new_candidate | Some c \<Rightarrow> c) in
     bt_insert key (candidate \<lparr> cs_dialable := True,
       cs_valid_until_ms := Some (sat_add now_ms (sat_mul (ucast ttl) 1000)) \<rparr>) candidates)"

definition depublish_missing ::
  "u64 \<Rightarrow> ipv4 list \<Rightarrow> (candidate_key \<times> candidate_state) list \<Rightarrow> (candidate_key \<times> candidate_state) list" where
  "depublish_missing logical_id observed candidates =
     fold (\<lambda>key. bt_update key (\<lambda>c. c \<lparr> cs_dialable := False \<rparr>))
       (filter (\<lambda>key. fst key = logical_id \<and> snd key \<notin> set observed) (bt_keys candidates)) candidates"

definition min_ttl :: "(ipv4 \<times> u32) list \<Rightarrow> u32" where
  "min_ttl dedup = (case map snd dedup of [] \<Rightarrow> MIN_TTL_SECS | t # ts \<Rightarrow> fold min ts t)"

definition apply_positive ::
  "coordinator \<Rightarrow> u64 \<Rightarrow> (ipv4 \<times> u32) list \<Rightarrow> u64 \<Rightarrow> u64 \<Rightarrow> (coordinator \<times> observation_result) coord_result" where
  "apply_positive c logical_id records now_ms entropy =
     bindR (ok_or (map_of (co_logical c) logical_id) CoordPanic) (\<lambda>state.
     let spec = ls_spec state;
         dedup = dedup_records records;
         outside = filter (\<lambda>ip. ip \<notin> set (au_allowed (le_authority spec))) (bt_keys dedup);
         rejected = filter (\<lambda>ip. \<not> permits (le_address_policy spec) ip) (bt_keys dedup) in
     if outside \<noteq> [] then reject_observation c logical_id now_ms entropy (RejectedOutsideAuthority outside)
     else if rejected \<noteq> [] then reject_observation c logical_id now_ms entropy (RejectedAddressPolicy rejected)
     else
       let candidates = depublish_missing logical_id (bt_keys dedup)
             (fold (publish_record logical_id now_ms) dedup (co_candidates c)) in
       if \<not> list_ex (\<lambda>(_, candidate). cs_dialable candidate) candidates
       then retain_with_negative_schedule c logical_id now_ms entropy None RetainedEmptyPositive
       else
         let next = sat_add now_ms (jittered_ttl_ms (min_ttl dedup) entropy);
             logical = bt_update logical_id (\<lambda>s. s \<lparr> ls_failure_streak := 0, ls_next_refresh_at_ms := next \<rparr>) (co_logical c);
             old = co_snapshot c in
         bindR (build_snapshot (ds_generation old) logical candidates) (\<lambda>view.
         let changed = ds_candidates old \<noteq> ds_candidates view;
             snapshot = (if changed then \<lparr> ds_generation = sat_add (ds_generation old) 1, ds_candidates = ds_candidates view \<rparr>
                         else old) in
         bindR (transition_plan_of logical (co_candidates c) candidates (ds_generation old) snapshot changed) (\<lambda>plan.
         bindR (validate_order plan) (\<lambda>_.
         Inr (c \<lparr> co_logical := logical, co_candidates := candidates, co_snapshot := snapshot \<rparr>,
              \<lparr> ob_disposition = ObservationApplied, ob_plan = plan, ob_next_refresh_at_ms = next \<rparr>)))))"

definition apply_observation ::
  "coordinator \<Rightarrow> u64 \<times> u64 \<Rightarrow> resolution_observation \<Rightarrow> u64 \<Rightarrow> u64 \<Rightarrow> (coordinator \<times> observation_result) coord_result" where
  "apply_observation c stamp observation now_ms entropy = (case stamp of (logical, sequence) \<Rightarrow>
     bindR (ok_or (map_of (co_logical c) logical) (UnknownEndpoint logical)) (\<lambda>state.
     if sequence \<noteq> ls_latest_query_sequence state \<or> sequence \<le> ls_last_applied_sequence state
     then bindR (next_refresh_at_ms c logical) (\<lambda>next. Inr (c, unchanged_result c IgnoredOutOfOrder next))
     else
       let c1 = c \<lparr> co_logical := bt_update logical (\<lambda>s. s \<lparr> ls_last_applied_sequence := sequence \<rparr>) (co_logical c) \<rparr> in
       case observation of
         Positive records \<Rightarrow>
           if records = [] then retain_with_negative_schedule c1 logical now_ms entropy None RetainedEmptyPositive
           else apply_positive c1 logical records now_ms entropy
       | NxDomain ttl \<Rightarrow> retain_with_negative_schedule c1 logical now_ms entropy ttl RetainedNegative
       | NoData ttl \<Rightarrow> retain_with_negative_schedule c1 logical now_ms entropy ttl RetainedNegative
       | TransientFailure \<Rightarrow> back_off c1 logical now_ms entropy RetainedNegative))"

section \<open>Two-phase transitions\<close>

record 'r prepared =
  pr_base_revision :: u64
  pr_projected :: coordinator
  pr_result :: 'r

definition commit_prepared :: "coordinator \<Rightarrow> 'r prepared \<Rightarrow> (coordinator \<times> 'r) coord_result" where
  "commit_prepared c prepared =
     bindR (ensure (co_revision c = pr_base_revision prepared) StaleTransition) (\<lambda>_.
     Inr (pr_projected prepared, pr_result prepared))"

definition abort_prepared :: "coordinator \<Rightarrow> 'r prepared \<Rightarrow> unit coord_result" where
  "abort_prepared c prepared = ensure (co_revision c = pr_base_revision prepared) StaleTransition"

definition prepare_observation ::
  "coordinator \<Rightarrow> u64 \<times> u64 \<Rightarrow> resolution_observation \<Rightarrow> u64 \<Rightarrow> u64 \<Rightarrow> observation_result prepared coord_result" where
  "prepare_observation c stamp observation now_ms entropy =
     bindR (apply_observation c stamp observation now_ms entropy) (\<lambda>(projected, result).
     bindR (next_revision c) (\<lambda>revision.
     Inr \<lparr> pr_base_revision = co_revision c, pr_projected = projected \<lparr> co_revision := revision \<rparr>, pr_result = result \<rparr>))"

definition commit_observation :: "coordinator \<Rightarrow> observation_result prepared \<Rightarrow> (coordinator \<times> observation_result) coord_result" where
  "commit_observation = commit_prepared"

definition abort_observation :: "coordinator \<Rightarrow> observation_result prepared \<Rightarrow> unit coord_result" where
  "abort_observation = abort_prepared"

section \<open>Rehydration of the signed authority\<close>

definition authority_keys :: "(u64 \<times> logical_state) list \<Rightarrow> candidate_key list" where
  "authority_keys logical = concat (map (\<lambda>(id, state). map (Pair id) (au_allowed (le_authority (ls_spec state)))) logical)"

definition revive ::
  "candidate_key \<Rightarrow> (candidate_key \<times> candidate_state) list \<times> candidate_key list
     \<Rightarrow> (candidate_key \<times> candidate_state) list \<times> candidate_key list" where
  "revive key = (\<lambda>(candidates, revived). case map_of candidates key of
       Some candidate \<Rightarrow>
         if \<not> cs_dialable candidate
         then (bt_update key (\<lambda>c. c \<lparr> cs_dialable := True, cs_valid_until_ms := None \<rparr>) candidates, revived @ [key])
         else (candidates, revived)
     | None \<Rightarrow> (bt_insert key new_candidate candidates, revived @ [key]))"

fun is_removal :: "transition_operation \<Rightarrow> bool" where
  "is_removal (Firewall (Deny _)) = True"
| "is_removal (Route (RemoveBypass _)) = True"
| "is_removal _ = False"

definition prepare_authority_rehydration :: "coordinator \<Rightarrow> (candidate_key list \<times> transition_plan) prepared coord_result" where
  "prepare_authority_rehydration c =
     (let (candidates, revived) = fold revive (authority_keys (co_logical c)) (co_candidates c, []);
          revived = sort revived; old = co_snapshot c in
      if revived = [] then
        Inr \<lparr> pr_base_revision = co_revision c, pr_projected = c, pr_result = (revived, plan_unchanged old) \<rparr>
      else
        bindR (build_snapshot (ds_generation old) (co_logical c) candidates) (\<lambda>view.
        bindR (ensure (ds_candidates view \<noteq> ds_candidates old) RevivedWithoutChange) (\<lambda>_.
        bindR (ok_or (u64_checked_add (ds_generation old) 1) GenerationExhausted) (\<lambda>generation.
        let snapshot = \<lparr> ds_generation = generation, ds_candidates = ds_candidates view \<rparr> in
        bindR (transition_plan_of (co_logical c) (co_candidates c) candidates (ds_generation old) snapshot True) (\<lambda>plan.
        bindR (ensure (\<not> list_ex is_removal (tr_operations plan)) NonMonotonicRehydration) (\<lambda>_.
        bindR (validate_order plan) (\<lambda>_.
        bindR (next_revision c) (\<lambda>revision.
        Inr \<lparr> pr_base_revision = co_revision c,
          pr_projected = c \<lparr> co_candidates := candidates, co_snapshot := snapshot, co_revision := revision \<rparr>,
          pr_result = (revived, plan) \<rparr>))))))))"

definition commit_authority_rehydration ::
  "coordinator \<Rightarrow> (candidate_key list \<times> transition_plan) prepared \<Rightarrow> (coordinator \<times> candidate_key list \<times> transition_plan) coord_result" where
  "commit_authority_rehydration = commit_prepared"

definition abort_authority_rehydration :: "coordinator \<Rightarrow> (candidate_key list \<times> transition_plan) prepared \<Rightarrow> unit coord_result" where
  "abort_authority_rehydration = abort_prepared"

section \<open>Leases\<close>

definition acquire :: "coordinator \<Rightarrow> candidate_key \<Rightarrow> (coordinator \<times> u64 \<times> candidate_key) coord_result" where
  "acquire c key =
     bindR (next_revision c) (\<lambda>revision.
     bindR (ok_or (u64_checked_add (co_next_lease_id c) 1) LeaseIdExhausted) (\<lambda>next_lease_id.
     bindR (ensure (map_of (co_leases c) (co_next_lease_id c) = None) DuplicateLeaseId) (\<lambda>_.
     bindR (ok_or (map_of (co_candidates c) key) (CandidateAbsent key)) (\<lambda>candidate.
     bindR (ensure (cs_dialable candidate) (CandidateRetiring key)) (\<lambda>_.
     bindR (ok_or (u32_checked_add (cs_leases candidate) 1) LeaseOverflow) (\<lambda>leases.
     let id = co_next_lease_id c in
     Inr (c \<lparr> co_candidates := bt_update key (\<lambda>s. s \<lparr> cs_leases := leases \<rparr>) (co_candidates c),
              co_next_lease_id := next_lease_id, co_leases := bt_insert id key (co_leases c),
              co_revision := revision \<rparr>, id, key)))))))"

definition apply_release :: "coordinator \<Rightarrow> u64 \<times> candidate_key \<Rightarrow> (coordinator \<times> transition_plan) coord_result" where
  "apply_release c lease =
     bindR (ok_or (map_of (co_leases c) (fst lease)) (UnknownLease (fst lease))) (\<lambda>key.
     bindR (ensure (key = snd lease) LeaseKeyMismatch) (\<lambda>_.
     bindR (ok_or (map_of (co_candidates c) key) LeasedCandidateMissing) (\<lambda>candidate.
     bindR (ok_or (u32_checked_sub (cs_leases candidate) 1) LeaseUnderflow) (\<lambda>leases.
     let candidates = (if leases = 0 \<and> \<not> cs_dialable candidate then bt_remove key (co_candidates c)
           else bt_update key (\<lambda>s. s \<lparr> cs_leases := leases \<rparr>) (co_candidates c)) in
     bindR (transition_plan_of (co_logical c) (co_candidates c) candidates (ds_generation (co_snapshot c)) (co_snapshot c) False) (\<lambda>plan.
     bindR (validate_order plan) (\<lambda>_.
     Inr (c \<lparr> co_leases := bt_remove (fst lease) (co_leases c), co_candidates := candidates \<rparr>, plan)))))))"

definition prepare_release :: "coordinator \<Rightarrow> u64 \<times> candidate_key \<Rightarrow> transition_plan prepared coord_result" where
  "prepare_release c lease =
     bindR (apply_release c lease) (\<lambda>(projected, plan).
     bindR (next_revision c) (\<lambda>revision.
     Inr \<lparr> pr_base_revision = co_revision c, pr_projected = projected \<lparr> co_revision := revision \<rparr>, pr_result = plan \<rparr>))"

definition commit_release :: "coordinator \<Rightarrow> transition_plan prepared \<Rightarrow> (coordinator \<times> transition_plan) coord_result" where
  "commit_release = commit_prepared"

definition abort_release :: "coordinator \<Rightarrow> transition_plan prepared \<Rightarrow> unit coord_result" where
  "abort_release = abort_prepared"

definition prepare_retirement :: "coordinator \<Rightarrow> transition_plan prepared option coord_result" where
  "prepare_retirement c =
     (let candidates = bt_retain (\<lambda>s. cs_dialable s \<or> cs_leases s \<noteq> 0) (co_candidates c) in
      if length candidates = length (co_candidates c) then Inr None
      else
        bindR (transition_plan_of (co_logical c) (co_candidates c) candidates (ds_generation (co_snapshot c)) (co_snapshot c) False) (\<lambda>plan.
        bindR (validate_order plan) (\<lambda>_.
        bindR (next_revision c) (\<lambda>revision.
        Inr (Some \<lparr> pr_base_revision = co_revision c,
          pr_projected = c \<lparr> co_candidates := candidates, co_revision := revision \<rparr>, pr_result = plan \<rparr>)))))"

definition commit_retirement :: "coordinator \<Rightarrow> transition_plan prepared \<Rightarrow> (coordinator \<times> transition_plan) coord_result" where
  "commit_retirement = commit_prepared"

definition abort_retirement :: "coordinator \<Rightarrow> transition_plan prepared \<Rightarrow> unit coord_result" where
  "abort_retirement = abort_prepared"

end
