(* ===== verification/Endpoint_Invariant.thy ===== *)
theory Endpoint_Invariant
  imports Endpoint_Coordinator
begin

text \<open>
  The coordinator's invariant and its preservation by every operation: candidates stay inside the
  signed authority, the snapshot is exactly the dialable candidates and never empty, and lease
  counters agree with the lease table. Executing a plan is modelled on the sets of allowed tuples
  and bypass routes of the host.
\<close>

section \<open>What depends on the configuration only\<close>

definition specs_of :: "(u64 \<times> logical_state) list \<Rightarrow> u64 \<Rightarrow> logical_endpoint option" where
  "specs_of logical l = map_option ls_spec (map_of logical l)"

definition dial_of :: "(u64 \<Rightarrow> logical_endpoint option) \<Rightarrow> candidate_key \<Rightarrow> dial_candidate" where
  "dial_of specs key = (let spec = the (specs (fst key)) in
     \<lparr> dc_key = key, dc_address = (snd key, le_port spec), dc_protocol = le_protocol spec,
       dc_auth = le_auth spec, dc_authority_generation = au_manifest_generation (le_authority spec) \<rparr>)"

definition tuple_of :: "(u64 \<Rightarrow> logical_endpoint option) \<Rightarrow> candidate_key \<Rightarrow> carrier_tuple" where
  "tuple_of specs key = endpoint_tuple (the (specs (fst key))) (snd key)"

definition dialable_view :: "(u64 \<Rightarrow> logical_endpoint option) \<Rightarrow> (candidate_key \<times> candidate_state) list \<Rightarrow> dial_candidate list" where
  "dialable_view specs candidates = map (dial_of specs) (bt_keys (bt_retain cs_dialable candidates))"

definition known :: "(u64 \<Rightarrow> logical_endpoint option) \<Rightarrow> (candidate_key \<times> candidate_state) list \<Rightarrow> bool" where
  "known specs candidates \<longleftrightarrow> (\<forall>key \<in> set (bt_keys candidates). specs (fst key) \<noteq> None)"

lemma mapE_total: "(\<forall>x \<in> set xs. f x = Inr (g x)) \<Longrightarrow> mapE f xs = Inr (map g xs)"
  by (induction xs) simp_all

lemma set_keys_retain: "set (bt_keys (bt_retain P m)) \<subseteq> set (bt_keys m)"
  by (auto simp: bt_keys_def bt_retain_def)

lemma build_snapshot_total:
  assumes "known (specs_of logical) candidates"
  shows "build_snapshot g logical candidates
    = Inr \<lparr> ds_generation = g, ds_candidates = dialable_view (specs_of logical) candidates \<rparr>"
proof -
  have "mapE (dial_candidate_of logical) (bt_keys (bt_retain cs_dialable candidates))
      = Inr (map (dial_of (specs_of logical)) (bt_keys (bt_retain cs_dialable candidates)))"
    using assms set_keys_retain [of cs_dialable candidates]
    by (intro mapE_total) (force simp: known_def specs_of_def dial_candidate_of_def dial_of_def Let_def)
  then show ?thesis
    by (simp add: build_snapshot_def dialable_view_def)
qed

lemma access_refs_total:
  assumes "known (specs_of logical) candidates"
  shows "access_refs logical candidates
    = Inr (bts_of_list (map (tuple_of (specs_of logical)) (bt_keys candidates)), bts_of_list (map snd (bt_keys candidates)))"
proof -
  have "mapE (\<lambda>key. bindR (ok_or (map_of logical (fst key)) CoordPanic) (\<lambda>state. Inr (endpoint_tuple (ls_spec state) (snd key))))
      (bt_keys candidates) = Inr (map (tuple_of (specs_of logical)) (bt_keys candidates))"
    using assms by (intro mapE_total) (force simp: known_def specs_of_def tuple_of_def)
  then show ?thesis
    by (simp add: access_refs_def)
qed

section \<open>Plans on a host\<close>

record host =
  ho_allowed :: "carrier_tuple set"
  ho_routes :: "ipv4 set"

fun exec_op :: "transition_operation \<Rightarrow> host \<Rightarrow> host" where
  "exec_op (Firewall (Allow t)) h = h \<lparr> ho_allowed := insert t (ho_allowed h) \<rparr>"
| "exec_op (Firewall (Deny t)) h = h \<lparr> ho_allowed := ho_allowed h - {t} \<rparr>"
| "exec_op (Route (AddBypass ip)) h = h \<lparr> ho_routes := insert ip (ho_routes h) \<rparr>"
| "exec_op (Route (RemoveBypass ip)) h = h \<lparr> ho_routes := ho_routes h - {ip} \<rparr>"
| "exec_op (PublishSnapshot from to) h = h"

definition host_of :: "(u64 \<Rightarrow> logical_endpoint option) \<Rightarrow> (candidate_key \<times> candidate_state) list \<Rightarrow> host" where
  "host_of specs candidates =
     \<lparr> ho_allowed = tuple_of specs ` set (bt_keys candidates), ho_routes = snd ` set (bt_keys candidates) \<rparr>"

definition plan_additions :: "host \<Rightarrow> host \<Rightarrow> transition_operation list \<Rightarrow> bool" where
  "plan_additions old new ops \<longleftrightarrow> (\<exists>ts ips. ops = map (\<lambda>t. Firewall (Allow t)) ts @ map (\<lambda>ip. Route (AddBypass ip)) ips
     \<and> distinct ts \<and> distinct ips \<and> set ts = ho_allowed new - ho_allowed old \<and> set ips = ho_routes new - ho_routes old)"

definition plan_removals :: "host \<Rightarrow> host \<Rightarrow> transition_operation list \<Rightarrow> bool" where
  "plan_removals old new ops \<longleftrightarrow> (\<exists>ts ips. ops = map (\<lambda>t. Firewall (Deny t)) ts @ map (\<lambda>ip. Route (RemoveBypass ip)) ips
     \<and> distinct ts \<and> distinct ips \<and> set ts = ho_allowed old - ho_allowed new \<and> set ips = ho_routes old - ho_routes new)"

definition plan_between :: "host \<Rightarrow> host \<Rightarrow> bool \<Rightarrow> transition_operation list \<Rightarrow> bool" where
  "plan_between old new publish ops \<longleftrightarrow> (\<exists>adds pub rems. ops = adds @ pub @ rems \<and> plan_additions old new adds
     \<and> plan_removals old new rems \<and> (if publish then \<exists>from to. pub = [PublishSnapshot from to] else pub = []))"

lemma distinct_bts [simp]: "distinct (bts_of_list xs)"
  by (simp add: bts_of_list_def)

lemma transition_plan_total:
  assumes "known (specs_of logical) old" "known (specs_of logical) new"
  obtains ops where "transition_plan_of logical old new g snapshot publish = Inr \<lparr> tr_operations = ops, tr_snapshot = snapshot \<rparr>"
    "plan_between (host_of (specs_of logical) old) (host_of (specs_of logical) new) publish ops"
proof -
  let ?T = "\<lambda>c. bts_of_list (map (tuple_of (specs_of logical)) (bt_keys c))" and ?I = "\<lambda>c. bts_of_list (map snd (bt_keys c))"
  let ?adds = "map (\<lambda>t. Firewall (Allow t)) (filter (\<lambda>t. t \<notin> set (?T old)) (?T new))
      @ map (\<lambda>ip. Route (AddBypass ip)) (filter (\<lambda>ip. ip \<notin> set (?I old)) (?I new))"
  let ?rems = "map (\<lambda>t. Firewall (Deny t)) (filter (\<lambda>t. t \<notin> set (?T new)) (?T old))
      @ map (\<lambda>ip. Route (RemoveBypass ip)) (filter (\<lambda>ip. ip \<notin> set (?I new)) (?I old))"
  let ?pub = "if publish then [PublishSnapshot g (ds_generation snapshot)] else []"
  have eq: "transition_plan_of logical old new g snapshot publish
      = Inr \<lparr> tr_operations = ?adds @ ?pub @ ?rems, tr_snapshot = snapshot \<rparr>"
    by (simp add: transition_plan_of_def access_refs_total assms)
  have "plan_additions (host_of (specs_of logical) old) (host_of (specs_of logical) new) ?adds"
    unfolding plan_additions_def
    by (intro exI conjI, rule refl) (auto simp: host_of_def)
  moreover have "plan_removals (host_of (specs_of logical) old) (host_of (specs_of logical) new) ?rems"
    unfolding plan_removals_def
    by (intro exI conjI, rule refl) (auto simp: host_of_def)
  ultimately have "plan_between (host_of (specs_of logical) old) (host_of (specs_of logical) new) publish (?adds @ ?pub @ ?rems)"
    unfolding plan_between_def by (intro exI [of _ ?adds] exI [of _ ?pub] exI [of _ ?rems]) simp
  with eq show thesis
    by (rule that)
qed

text \<open>The effect of a list of operations that does not both add and remove the same element.\<close>

definition allows :: "transition_operation list \<Rightarrow> carrier_tuple set" where
  "allows ops = {t. Firewall (Allow t) \<in> set ops}"

definition denies :: "transition_operation list \<Rightarrow> carrier_tuple set" where
  "denies ops = {t. Firewall (Deny t) \<in> set ops}"

definition adds_routes :: "transition_operation list \<Rightarrow> ipv4 set" where
  "adds_routes ops = {ip. Route (AddBypass ip) \<in> set ops}"

definition removes_routes :: "transition_operation list \<Rightarrow> ipv4 set" where
  "removes_routes ops = {ip. Route (RemoveBypass ip) \<in> set ops}"

lemmas effect_defs = allows_def denies_def adds_routes_def removes_routes_def

lemma exec_effect:
  assumes "allows ops \<inter> denies ops = {}" "adds_routes ops \<inter> removes_routes ops = {}"
  shows "ho_allowed (fold exec_op ops h) = (ho_allowed h \<union> allows ops) - denies ops"
    "ho_routes (fold exec_op ops h) = (ho_routes h \<union> adds_routes ops) - removes_routes ops"
  using assms
proof (induction ops arbitrary: h)
  case (Cons op ops)
  {
    case 1
    then have "allows ops \<inter> denies ops = {}" "adds_routes ops \<inter> removes_routes ops = {}"
      by (auto simp: effect_defs)
    note IH = Cons.IH(1) [OF this]
    from 1 show ?case
      by (cases op rule: host_inverse.cases) (auto simp: IH effect_defs)
  next
    case 2
    then have "allows ops \<inter> denies ops = {}" "adds_routes ops \<inter> removes_routes ops = {}"
      by (auto simp: effect_defs)
    note IH = Cons.IH(2) [OF this]
    from 2 show ?case
      by (cases op rule: host_inverse.cases) (auto simp: IH effect_defs)
  }
qed (simp_all add: effect_defs)

lemma plan_between_effect:
  assumes "plan_between old new publish ops"
  shows "allows ops = ho_allowed new - ho_allowed old" "denies ops = ho_allowed old - ho_allowed new"
    "adds_routes ops = ho_routes new - ho_routes old" "removes_routes ops = ho_routes old - ho_routes new"
  using assms by (auto simp: plan_between_def plan_additions_def plan_removals_def effect_defs split: if_splits)

lemma plan_between_exec:
  assumes "plan_between old new publish ops"
  shows "fold exec_op ops old = new"
proof -
  have "allows ops \<inter> denies ops = {}" "adds_routes ops \<inter> removes_routes ops = {}"
    by (auto simp: plan_between_effect [OF assms])
  from exec_effect [OF this, of old] show ?thesis
    unfolding plan_between_effect [OF assms] by (intro host.equality) auto
qed

text \<open>
  At every point of a plan the host allows what both ends allow and nothing that neither does;
  before the snapshot is published it allows all the old end allows, afterwards all the new end
  allows; and the same for routes.
\<close>

lemma plan_between_prefix:
  fixes n :: nat
  assumes plan: "plan_between old new publish ops"
  defines "h \<equiv> fold exec_op (take n ops) old"
  shows "ho_allowed old \<inter> ho_allowed new \<subseteq> ho_allowed h" "ho_allowed h \<subseteq> ho_allowed old \<union> ho_allowed new"
    "ho_routes old \<inter> ho_routes new \<subseteq> ho_routes h" "ho_routes h \<subseteq> ho_routes old \<union> ho_routes new"
    "publish \<Longrightarrow> \<not> list_ex is_publish (take n ops) \<Longrightarrow> ho_allowed old \<subseteq> ho_allowed h \<and> ho_routes old \<subseteq> ho_routes h"
    "list_ex is_publish (take n ops) \<Longrightarrow> ho_allowed new \<subseteq> ho_allowed h \<and> ho_routes new \<subseteq> ho_routes h"
proof -
  let ?pre = "take n ops"
  have sub: "allows ?pre \<subseteq> allows ops" "denies ?pre \<subseteq> denies ops"
    "adds_routes ?pre \<subseteq> adds_routes ops" "removes_routes ?pre \<subseteq> removes_routes ops"
    using set_take_subset [of n ops] by (auto simp: effect_defs)
  note eff = plan_between_effect [OF plan]
  have "allows ?pre \<inter> denies ?pre = {}" "adds_routes ?pre \<inter> removes_routes ?pre = {}"
    using sub eff by auto
  from exec_effect [OF this]
  have h: "ho_allowed h = (ho_allowed old \<union> allows ?pre) - denies ?pre"
    "ho_routes h = (ho_routes old \<union> adds_routes ?pre) - removes_routes ?pre"
    by (simp_all add: h_def)
  show "ho_allowed old \<inter> ho_allowed new \<subseteq> ho_allowed h" "ho_allowed h \<subseteq> ho_allowed old \<union> ho_allowed new"
    "ho_routes old \<inter> ho_routes new \<subseteq> ho_routes h" "ho_routes h \<subseteq> ho_routes old \<union> ho_routes new"
    unfolding h using sub eff by auto
  obtain adds pub rems where ops: "ops = adds @ pub @ rems" "plan_additions old new adds" "plan_removals old new rems"
    "if publish then \<exists>from to. pub = [PublishSnapshot from to] else pub = []"
    using plan unfolding plan_between_def by blast
  have none: "\<not> list_ex is_publish adds" "\<not> list_ex is_publish rems"
    using ops(2,3) by (auto simp: plan_additions_def plan_removals_def list_ex_iff)
  show "ho_allowed old \<subseteq> ho_allowed h \<and> ho_routes old \<subseteq> ho_routes h" if "publish" "\<not> list_ex is_publish ?pre"
  proof -
    from that ops have "n \<le> length adds"
      by (auto simp: take_Cons' split: if_splits)
    then have "?pre = take n adds"
      using ops(1) by simp
    then have "set ?pre \<subseteq> set adds"
      by (simp add: set_take_subset)
    then have "denies ?pre = {}" "removes_routes ?pre = {}"
      using ops(2) by (auto simp: effect_defs plan_additions_def)
    with h show ?thesis
      by auto
  qed
  show "ho_allowed new \<subseteq> ho_allowed h \<and> ho_routes new \<subseteq> ho_routes h" if pub: "list_ex is_publish ?pre"
  proof -
    have "length adds \<le> n"
    proof (rule ccontr)
      assume "\<not> length adds \<le> n"
      then have "?pre = take n adds"
        using ops(1) by simp
      with pub none(1) show False
        using set_take_subset [of n adds] by (auto simp: list_ex_iff)
    qed
    then have "set adds \<subseteq> set ?pre"
      using ops(1) by simp
    then have "allows ops \<subseteq> allows ?pre" "adds_routes ops \<subseteq> adds_routes ?pre"
      using ops(1,3,4) by (auto simp: effect_defs plan_removals_def split: if_splits)
    then show ?thesis
      unfolding h using eff sub by auto
  qed
qed

text \<open>Undoing an executed part of a plan by the inverses, last first, restores the host.\<close>

definition undo :: "transition_operation list \<Rightarrow> transition_operation list" where
  "undo ops = rev (List.map_filter host_inverse ops)"

fun effective :: "transition_operation \<Rightarrow> host \<Rightarrow> bool" where
  "effective (Firewall (Allow t)) h \<longleftrightarrow> t \<notin> ho_allowed h"
| "effective (Firewall (Deny t)) h \<longleftrightarrow> t \<in> ho_allowed h"
| "effective (Route (AddBypass ip)) h \<longleftrightarrow> ip \<notin> ho_routes h"
| "effective (Route (RemoveBypass ip)) h \<longleftrightarrow> ip \<in> ho_routes h"
| "effective (PublishSnapshot from to) h \<longleftrightarrow> True"

fun all_effective :: "transition_operation list \<Rightarrow> host \<Rightarrow> bool" where
  "all_effective [] h \<longleftrightarrow> True"
| "all_effective (op # ops) h \<longleftrightarrow> effective op h \<and> all_effective ops (exec_op op h)"

lemma undo_restores: "all_effective ops h \<Longrightarrow> fold exec_op (undo ops) (fold exec_op ops h) = h"
proof (induction ops arbitrary: h)
  case (Cons op ops)
  have "fold exec_op (undo (op # ops)) (fold exec_op (op # ops) h)
      = fold exec_op (undo [op]) (exec_op op h)"
    using Cons by (auto simp: undo_def List.map_filter_def split: option.splits)
  also have "\<dots> = h"
    using Cons.prems
    by (cases op rule: host_inverse.cases) (auto simp: undo_def List.map_filter_def intro!: host.equality)
  finally show ?case .
qed (simp add: undo_def List.map_filter_def)

lemma all_effective_append: "all_effective (xs @ ys) h \<longleftrightarrow> all_effective xs h \<and> all_effective ys (fold exec_op xs h)"
  by (induction xs arbitrary: h) auto

lemma all_effective_take: "all_effective ops h \<Longrightarrow> all_effective (take n ops) h"
  by (metis all_effective_append append_take_drop_id)

lemma all_effective_maps:
  "distinct ts \<Longrightarrow> set ts \<inter> ho_allowed h = {} \<Longrightarrow> all_effective (map (\<lambda>t. Firewall (Allow t)) ts) h"
  "distinct ts \<Longrightarrow> set ts \<subseteq> ho_allowed h \<Longrightarrow> all_effective (map (\<lambda>t. Firewall (Deny t)) ts) h"
  "distinct ips \<Longrightarrow> set ips \<inter> ho_routes h = {} \<Longrightarrow> all_effective (map (\<lambda>ip. Route (AddBypass ip)) ips) h"
  "distinct ips \<Longrightarrow> set ips \<subseteq> ho_routes h \<Longrightarrow> all_effective (map (\<lambda>ip. Route (RemoveBypass ip)) ips) h"
proof -
  show "distinct ts \<Longrightarrow> set ts \<inter> ho_allowed h = {} \<Longrightarrow> all_effective (map (\<lambda>t. Firewall (Allow t)) ts) h"
    by (induction ts arbitrary: h) auto
  show "distinct ts \<Longrightarrow> set ts \<subseteq> ho_allowed h \<Longrightarrow> all_effective (map (\<lambda>t. Firewall (Deny t)) ts) h"
    by (induction ts arbitrary: h) (auto simp: subset_Diff_insert)
  show "distinct ips \<Longrightarrow> set ips \<inter> ho_routes h = {} \<Longrightarrow> all_effective (map (\<lambda>ip. Route (AddBypass ip)) ips) h"
    by (induction ips arbitrary: h) auto
  show "distinct ips \<Longrightarrow> set ips \<subseteq> ho_routes h \<Longrightarrow> all_effective (map (\<lambda>ip. Route (RemoveBypass ip)) ips) h"
    by (induction ips arbitrary: h) (auto simp: subset_Diff_insert)
qed

lemma fold_exec_allow [simp]:
  "fold exec_op (map (\<lambda>t. Firewall (Allow t)) ts) h = h \<lparr> ho_allowed := ho_allowed h \<union> set ts \<rparr>"
  by (induction ts arbitrary: h) simp_all

lemma fold_exec_deny [simp]:
  "fold exec_op (map (\<lambda>t. Firewall (Deny t)) ts) h = h \<lparr> ho_allowed := ho_allowed h - set ts \<rparr>"
  by (induction ts arbitrary: h) (simp_all add: Diff_insert2 [symmetric])

lemma fold_exec_route [simp]:
  "fold exec_op (map (\<lambda>ip. Route (AddBypass ip)) ips) h = h \<lparr> ho_routes := ho_routes h \<union> set ips \<rparr>"
  by (induction ips arbitrary: h) simp_all

lemma plan_between_effective:
  assumes "plan_between old new publish ops"
  shows "all_effective ops old"
proof -
  obtain ts ips pub ts' ips' where ops: "ops = map (\<lambda>t. Firewall (Allow t)) ts @ map (\<lambda>ip. Route (AddBypass ip)) ips @ pub
      @ map (\<lambda>t. Firewall (Deny t)) ts' @ map (\<lambda>ip. Route (RemoveBypass ip)) ips'"
    and sets: "distinct ts" "distinct ips" "distinct ts'" "distinct ips'" "set ts = ho_allowed new - ho_allowed old"
    "set ips = ho_routes new - ho_routes old" "set ts' = ho_allowed old - ho_allowed new" "set ips' = ho_routes old - ho_routes new"
    and pub: "if publish then \<exists>from to. pub = [PublishSnapshot from to] else pub = []"
    using assms unfolding plan_between_def plan_additions_def plan_removals_def by force
  have pub': "fold exec_op pub = id" "all_effective pub h" for h
    using pub by (auto split: if_splits)
  show ?thesis
    unfolding ops all_effective_append fold_append comp_def using sets
    by (intro conjI all_effective_maps) (auto simp: pub')
qed

section \<open>Plans are well ordered\<close>

lemma foldE_check_publish:
  "foldE (check_publish_order publish) () xs = Inr () \<longleftrightarrow> (\<forall>x \<in> set xs. check_publish_order publish () x = Inr ())"
  using foldE_unit_iff [of "check_publish_order publish ()" xs] by (simp add: unit_eq [abs_def])

lemma foldE_route_order [simp]:
  "foldE check_route_order (False, r) (map (\<lambda>t. Firewall (Allow t)) ts) = Inr (False, r)"
  "foldE check_route_order (a, r) (map (\<lambda>ip. Route (AddBypass ip)) ips) = Inr (a \<or> ips \<noteq> [], r)"
  "foldE check_route_order (a, False) (map (\<lambda>t. Firewall (Deny t)) ts) = Inr (a, False)"
  "foldE check_route_order (a, r) (map (\<lambda>ip. Route (RemoveBypass ip)) ips) = Inr (a, r \<or> ips \<noteq> [])"
proof -
  show "foldE check_route_order (False, r) (map (\<lambda>t. Firewall (Allow t)) ts) = Inr (False, r)"
    by (induction ts) simp_all
  show "foldE check_route_order (a, r) (map (\<lambda>ip. Route (AddBypass ip)) ips) = Inr (a \<or> ips \<noteq> [], r)"
    by (induction ips arbitrary: a) simp_all
  show "foldE check_route_order (a, False) (map (\<lambda>t. Firewall (Deny t)) ts) = Inr (a, False)"
    by (induction ts) simp_all
  show "foldE check_route_order (a, r) (map (\<lambda>ip. Route (RemoveBypass ip)) ips) = Inr (a, r \<or> ips \<noteq> [])"
    by (induction ips arbitrary: r) simp_all
qed

lemma position_append:
  "position P (xs @ ys) = (case position P xs of Some i \<Rightarrow> Some i | None \<Rightarrow> map_option (\<lambda>i. length xs + i) (position P ys))"
  by (cases "position P ys"; induction xs) (auto split: option.splits)

lemma position_None: "(\<forall>x \<in> set xs. \<not> P x) \<Longrightarrow> position P xs = None"
  by (induction xs) auto

lemma validate_order_ok:
  assumes plan: "plan_between old new publish ops"
    and pub: "publish \<or> ho_allowed new \<subseteq> ho_allowed old \<and> ho_routes new \<subseteq> ho_routes old"
  shows "validate_order \<lparr> tr_operations = ops, tr_snapshot = snap \<rparr> = Inr ()"
proof -
  obtain ts ips p ts' ips' where ops: "ops = (map (\<lambda>t. Firewall (Allow t)) ts @ map (\<lambda>ip. Route (AddBypass ip)) ips) @ p
      @ (map (\<lambda>t. Firewall (Deny t)) ts' @ map (\<lambda>ip. Route (RemoveBypass ip)) ips')"
    and sets: "set ts = ho_allowed new - ho_allowed old" "set ips = ho_routes new - ho_routes old"
    and p: "if publish then \<exists>from to. p = [PublishSnapshot from to] else p = []"
    using plan unfolding plan_between_def plan_additions_def plan_removals_def by force
  let ?adds = "map (\<lambda>t. Firewall (Allow t)) ts @ map (\<lambda>ip. Route (AddBypass ip)) ips"
  let ?rems = "map (\<lambda>t. Firewall (Deny t)) ts' @ map (\<lambda>ip. Route (RemoveBypass ip)) ips'"
  have parts: "position is_publish (map (\<lambda>t. Firewall (F t)) us) = None" "position is_publish (map (\<lambda>ip. Route (R ip)) vs) = None"
    for F :: "carrier_tuple \<Rightarrow> firewall_operation" and R :: "ipv4 \<Rightarrow> route_operation" and us vs
    by (intro position_None; auto)+
  have pos: "position is_publish ops = (if publish then Some (length ?adds) else None)"
    using p by (auto simp: ops position_append parts)
  have empty: "?adds = []" if "\<not> publish"
  proof -
    have "set ts = {}" "set ips = {}"
      using pub that by (auto simp: sets)
    then show ?thesis
      by simp
  qed
  have "check_publish_order (position is_publish ops) () x = Inr ()" if "x \<in> set (enumerate 0 ops)" for x
  proof -
    obtain i op where x: "x = (i, op)"
      by force
    have "check_publish_order (if publish then Some (length ?adds) else None) () (i, op) = Inr ()"
      using that p empty unfolding x ops enumerate_append_eq set_append
      by (auto simp: in_set_enumerate_eq nth_append split: if_splits)
    then show ?thesis
      by (simp add: pos x)
  qed
  then have "foldE (check_publish_order (position is_publish ops)) () (enumerate 0 ops) = Inr ()"
    by (simp add: foldE_check_publish)
  moreover have "\<exists>st. foldE check_route_order (False, False) ops = Inr st"
    using p by (auto simp: ops foldE_append split: if_splits)
  ultimately show ?thesis
    by (auto simp: validate_order_def Let_def)
qed

section \<open>The invariant\<close>

definition within :: "(u64 \<Rightarrow> logical_endpoint option) \<Rightarrow> candidate_key \<Rightarrow> bool" where
  "within specs key \<longleftrightarrow> (\<exists>spec. specs (fst key) = Some spec \<and> snd key \<in> set (au_allowed (le_authority spec))
     \<and> permits (le_address_policy spec) (snd key))"

abbreviation co_specs :: "coordinator \<Rightarrow> u64 \<Rightarrow> logical_endpoint option" where
  "co_specs c \<equiv> specs_of (co_logical c)"

definition lease_count :: "coordinator \<Rightarrow> candidate_key \<Rightarrow> nat" where
  "lease_count c key = card {i. map_of (co_leases c) i = Some key}"

definition candidates_ok :: "coordinator \<Rightarrow> bool" where
  "candidates_ok c \<longleftrightarrow> bt_ok (co_candidates c) \<and> (\<forall>key \<in> set (bt_keys (co_candidates c)). within (co_specs c) key)
     \<and> ds_candidates (co_snapshot c) = dialable_view (co_specs c) (co_candidates c) \<and> ds_candidates (co_snapshot c) \<noteq> []"

definition leases_ok :: "coordinator \<Rightarrow> bool" where
  "leases_ok c \<longleftrightarrow> bt_ok (co_leases c)
     \<and> (\<forall>key s. map_of (co_candidates c) key = Some s \<longrightarrow> unat (cs_leases s) = lease_count c key)
     \<and> (\<forall>i key. map_of (co_leases c) i = Some key \<longrightarrow> key \<in> set (bt_keys (co_candidates c)) \<and> i < co_next_lease_id c)"

definition coord_ok :: "coordinator \<Rightarrow> bool" where
  "coord_ok c \<longleftrightarrow> bt_ok (co_logical c) \<and> candidates_ok c \<and> leases_ok c"

definition co_host :: "coordinator \<Rightarrow> host" where
  "co_host c = host_of (co_specs c) (co_candidates c)"

text \<open>
  What a transition with a plan guarantees: the invariant, the same signed configuration and lease
  table entries it does not name, and a plan between the two host states that publishes whenever
  the snapshot changes.
\<close>

definition plan_ok :: "coordinator \<Rightarrow> coordinator \<Rightarrow> transition_plan \<Rightarrow> bool" where
  "plan_ok c c' plan \<longleftrightarrow> (\<exists>publish. plan_between (co_host c) (co_host c') publish (tr_operations plan)
     \<and> (\<not> publish \<longrightarrow> co_snapshot c' = co_snapshot c))"

lemma plan_between_same: "plan_between h h False []"
  by (simp add: plan_between_def plan_additions_def plan_removals_def)

lemma plan_ok_unchanged:
  "co_host c' = co_host c \<Longrightarrow> co_snapshot c' = co_snapshot c \<Longrightarrow> plan_ok c c' (plan_unchanged s)"
  unfolding plan_ok_def plan_unchanged_def by (intro exI [of _ False]) (simp add: plan_between_same)

lemma within_known: "\<forall>key \<in> set (bt_keys m). within specs key \<Longrightarrow> known specs m"
  by (auto simp: known_def within_def)

lemma specs_of_update [simp]:
  "(\<And>s. ls_spec (f s) = ls_spec s) \<Longrightarrow> specs_of (bt_update l f logical) = specs_of logical"
  by (auto simp: specs_of_def btree_simps fun_eq_iff option.map_comp comp_def)

lemma coord_ok_logical:
  assumes "coord_ok c" "\<And>s. ls_spec (f s) = ls_spec s"
  shows "coord_ok (c \<lparr> co_logical := bt_update l f (co_logical c) \<rparr>)"
    "co_host (c \<lparr> co_logical := bt_update l f (co_logical c) \<rparr>) = co_host c"
  using assms
  by (auto simp: coord_ok_def candidates_ok_def leases_ok_def lease_count_def co_host_def btree_simps)

lemma coord_ok_revision [simp]:
  "coord_ok (c \<lparr> co_revision := r \<rparr>) = coord_ok c" "co_host (c \<lparr> co_revision := r \<rparr>) = co_host c"
  "plan_ok c0 (c \<lparr> co_revision := r \<rparr>) plan = plan_ok c0 c plan"
  by (simp_all add: coord_ok_def candidates_ok_def leases_ok_def lease_count_def co_host_def plan_ok_def)

section \<open>Observed records\<close>

lemma dedup_records_keys:
  "bt_ok (dedup_records records) \<and> set (bt_keys (dedup_records records)) = fst ` set records"
proof -
  have "bt_ok m \<Longrightarrow> bt_ok (fold (\<lambda>(ip, ttl) dedup.
      bt_insert ip (case map_of dedup ip of None \<Rightarrow> ttl | Some t \<Rightarrow> min t ttl) dedup) records m)
    \<and> set (bt_keys (fold (\<lambda>(ip, ttl) dedup.
      bt_insert ip (case map_of dedup ip of None \<Rightarrow> ttl | Some t \<Rightarrow> min t ttl) dedup) records m))
      = fst ` set records \<union> set (bt_keys m)" for m
    by (induction records arbitrary: m) (auto simp: btree_simps split_beta)
  from this [of "[]"] show ?thesis
    by (simp add: dedup_records_def)
qed

definition republished :: "candidate_state option \<Rightarrow> candidate_state option \<Rightarrow> bool" where
  "republished before after \<longleftrightarrow> (\<exists>s. after = Some s \<and> cs_dialable s
     \<and> cs_leases s = (case before of None \<Rightarrow> 0 | Some s0 \<Rightarrow> cs_leases s0))"

lemma republished_again: "republished a b \<Longrightarrow> republished b c \<Longrightarrow> republished a c"
  by (auto simp: republished_def)

lemma publish_records:
  assumes "bt_ok m"
  shows "bt_ok (fold (publish_record l now) records m)
    \<and> (\<forall>key. if fst key = l \<and> snd key \<in> fst ` set records
        then republished (map_of m key) (map_of (fold (publish_record l now) records m) key)
        else map_of (fold (publish_record l now) records m) key = map_of m key)"
  using assms
proof (induction records arbitrary: m)
  case (Cons r records)
  obtain ip ttl where r: "r = (ip, ttl)"
    by force
  let ?m = "publish_record l now r m"
  have ok: "bt_ok ?m"
    using Cons.prems by (simp add: publish_record_def r Let_def btree_simps)
  have this_key: "republished (map_of m (l, ip)) (map_of ?m (l, ip))"
    by (auto simp: publish_record_def r Let_def btree_simps republished_def new_candidate_def split: option.split)
  have others: "map_of ?m key = map_of m key" if "key \<noteq> (l, ip)" for key
    using that by (auto simp: publish_record_def r Let_def btree_simps)
  note IH = Cons.IH [OF ok]
  have "if fst key = l \<and> snd key \<in> fst ` set (r # records)
      then republished (map_of m key) (map_of (fold (publish_record l now) records ?m) key)
      else map_of (fold (publish_record l now) records ?m) key = map_of m key" for key
  proof (cases "key = (l, ip)")
    case True
    show ?thesis
      using IH [THEN conjunct2, rule_format, of key] this_key True
      by (auto simp: r intro: republished_again split: if_splits)
  next
    case False
    with IH [THEN conjunct2, rule_format, of key] others [OF False] show ?thesis
      by (cases key) (auto simp: r split: if_splits)
  qed
  with IH show ?case
    by simp
qed simp

lemma map_of_fold_update:
  assumes "\<And>v. f (f v) = f v"
  shows "map_of (fold (\<lambda>k. bt_update k f) ks m) key = (if key \<in> set ks then map_option f (map_of m key) else map_of m key)"
    "bt_keys (fold (\<lambda>k. bt_update k f) ks m) = bt_keys m"
proof -
  show "map_of (fold (\<lambda>k. bt_update k f) ks m) key = (if key \<in> set ks then map_option f (map_of m key) else map_of m key)"
    by (induction ks arbitrary: m) (auto simp: btree_simps option.map_comp comp_def assms)
  show "bt_keys (fold (\<lambda>k. bt_update k f) ks m) = bt_keys m"
    by (induction ks arbitrary: m) (simp_all add: btree_simps)
qed

lemma depublish_missing:
  "bt_keys (depublish_missing l observed m) = bt_keys m"
  "map_of (depublish_missing l observed m) key = (if fst key = l \<and> snd key \<notin> set observed
     then map_option (\<lambda>c. c \<lparr> cs_dialable := False \<rparr>) (map_of m key) else map_of m key)"
proof -
  show "bt_keys (depublish_missing l observed m) = bt_keys m"
    by (simp add: depublish_missing_def map_of_fold_update(2))
  have "key \<notin> set (bt_keys m) \<Longrightarrow> map_of m key = None"
    by (simp add: map_of_None_keys)
  then show "map_of (depublish_missing l observed m) key = (if fst key = l \<and> snd key \<notin> set observed
     then map_option (\<lambda>c. c \<lparr> cs_dialable := False \<rparr>) (map_of m key) else map_of m key)"
    by (auto simp: depublish_missing_def map_of_fold_update(1))
qed

end
