(* ===== verification/Endpoint_Observations.thy ===== *)
theory Endpoint_Observations
  imports Endpoint_Invariant
begin

text \<open>
  Applying an observation of the resolver keeps the coordinator's invariant and cannot hit its
  internal errors; its plan leads from the old host state to the new one.
\<close>

section \<open>Changed candidates\<close>

lemma dialable_view_nonempty: "dialable_view specs m \<noteq> [] \<longleftrightarrow> list_ex (\<lambda>(_, s). cs_dialable s) m"
  by (induction m) (auto simp: dialable_view_def bt_retain_def bt_keys_def)

lemma dial_of_key [simp]: "dc_key (dial_of specs key) = key"
  by (simp add: dial_of_def Let_def)

lemma dialable_view_keys: "map dc_key (dialable_view specs m) = bt_keys (bt_retain cs_dialable m)"
  by (simp add: dialable_view_def comp_def)

lemma dialable_keys: "bt_ok m \<Longrightarrow> key \<in> set (bt_keys (bt_retain cs_dialable m)) \<longleftrightarrow> (\<exists>s. map_of m key = Some s \<and> cs_dialable s)"
  by (auto simp: bt_keys_Some map_of_bt_retain split: option.splits if_splits)

lemma host_of_mono: "set (bt_keys m) \<subseteq> set (bt_keys m') \<Longrightarrow>
  ho_allowed (host_of specs m) \<subseteq> ho_allowed (host_of specs m') \<and> ho_routes (host_of specs m) \<subseteq> ho_routes (host_of specs m')"
  by (auto simp: host_of_def)

lemma lease_count_absent: "coord_ok c \<Longrightarrow> key \<notin> set (bt_keys (co_candidates c)) \<Longrightarrow> lease_count c key = 0"
  by (cases key) (auto simp: coord_ok_def leases_ok_def lease_count_def)

lemma coord_ok_candidates:
  assumes "coord_ok c" "bt_ok m" "\<forall>key \<in> set (bt_keys m). within (co_specs c) key"
    and "\<forall>key s. map_of m key = Some s \<longrightarrow> unat (cs_leases s) = lease_count c key"
    and "\<forall>i key. map_of (co_leases c) i = Some key \<longrightarrow> key \<in> set (bt_keys m)"
    and "ds_candidates snap = dialable_view (co_specs c) m" "list_ex (\<lambda>(_, s). cs_dialable s) m"
    and "bt_ok logical" "specs_of logical = co_specs c"
  shows "coord_ok (c \<lparr> co_logical := logical, co_candidates := m, co_snapshot := snap \<rparr>)"
  using assms dialable_view_nonempty [of "co_specs c" m]
  by (auto simp: coord_ok_def candidates_ok_def leases_ok_def lease_count_def)

text \<open>A plan between the candidates of two states is well ordered when it publishes or adds nothing.\<close>

lemma plan_exists:
  assumes "\<forall>key \<in> set (bt_keys old). within (specs_of logical) key" "\<forall>key \<in> set (bt_keys new). within (specs_of logical) key"
    and "publish \<or> set (bt_keys new) \<subseteq> set (bt_keys old)"
  obtains plan where "transition_plan_of logical old new g snapshot publish = Inr plan" "validate_order plan = Inr ()"
    "plan_between (host_of (specs_of logical) old) (host_of (specs_of logical) new) publish (tr_operations plan)"
proof -
  obtain ops where ops: "transition_plan_of logical old new g snapshot publish = Inr \<lparr> tr_operations = ops, tr_snapshot = snapshot \<rparr>"
    "plan_between (host_of (specs_of logical) old) (host_of (specs_of logical) new) publish ops"
    by (rule transition_plan_total [OF within_known [OF assms(1)] within_known [OF assms(2)]])
  have "publish \<or> ho_allowed (host_of (specs_of logical) new) \<subseteq> ho_allowed (host_of (specs_of logical) old)
      \<and> ho_routes (host_of (specs_of logical) new) \<subseteq> ho_routes (host_of (specs_of logical) old)"
    using assms(3) host_of_mono by blast
  from validate_order_ok [OF ops(2) this] ops(2) show thesis
    by (intro that [OF ops(1)]) auto
qed

section \<open>Observations\<close>

definition observed_candidates :: "coordinator \<Rightarrow> u64 \<Rightarrow> u64 \<Rightarrow> (ipv4 \<times> u32) list \<Rightarrow> (candidate_key \<times> candidate_state) list" where
  "observed_candidates c l now records = depublish_missing l (bt_keys (dedup_records records))
     (fold (publish_record l now) (dedup_records records) (co_candidates c))"

lemma observed_candidates_lookup:
  assumes "bt_ok (co_candidates c)"
  shows "bt_ok (observed_candidates c l now records)"
    "fst key = l \<and> snd key \<in> fst ` set records \<Longrightarrow>
       republished (map_of (co_candidates c) key) (map_of (observed_candidates c l now records) key)"
    "\<not> (fst key = l \<and> snd key \<in> fst ` set records) \<Longrightarrow>
       map_of (observed_candidates c l now records) key = (if fst key = l
         then map_option (\<lambda>s. s \<lparr> cs_dialable := False \<rparr>) (map_of (co_candidates c) key) else map_of (co_candidates c) key)"
proof -
  let ?d = "dedup_records records"
  have d: "fst ` set ?d = fst ` set records" "set (bt_keys ?d) = fst ` set records"
    using dedup_records_keys [of records] by (simp_all add: bt_keys_def)
  note p = publish_records [OF assms, of l now ?d]
  show "bt_ok (observed_candidates c l now records)"
    using p by (simp add: observed_candidates_def bt_ok_def depublish_missing(1))
  show "republished (map_of (co_candidates c) key) (map_of (observed_candidates c l now records) key)"
    if "fst key = l \<and> snd key \<in> fst ` set records"
    using p [THEN conjunct2, rule_format, of key] that by (simp add: observed_candidates_def depublish_missing(2) d)
  show "map_of (observed_candidates c l now records) key = (if fst key = l
         then map_option (\<lambda>s. s \<lparr> cs_dialable := False \<rparr>) (map_of (co_candidates c) key) else map_of (co_candidates c) key)"
    if "\<not> (fst key = l \<and> snd key \<in> fst ` set records)"
    using p [THEN conjunct2, rule_format, of key] that by (auto simp: observed_candidates_def depublish_missing(2) d)
qed

lemma observed_candidates_ok:
  fixes now :: u64
  assumes "coord_ok c" and inside: "\<forall>ip \<in> fst ` set records. within (co_specs c) (l, ip)"
  defines "m \<equiv> observed_candidates c l now records"
  shows "bt_ok m" "\<forall>key \<in> set (bt_keys m). within (co_specs c) key"
    "\<forall>key s. map_of m key = Some s \<longrightarrow> unat (cs_leases s) = lease_count c key"
    "\<forall>i key. map_of (co_leases c) i = Some key \<longrightarrow> key \<in> set (bt_keys m)"
    "set (bt_keys m) - set (bt_keys (co_candidates c)) \<subseteq> set (bt_keys (bt_retain cs_dialable m))"
    "{ip. (l, ip) \<in> set (bt_keys (bt_retain cs_dialable m))} = fst ` set records"
proof -
  have ok: "bt_ok (co_candidates c)"
    and old: "\<And>key s. map_of (co_candidates c) key = Some s \<Longrightarrow> unat (cs_leases s) = lease_count c key"
    and leased: "\<And>i key. map_of (co_leases c) i = Some key \<Longrightarrow> key \<in> set (bt_keys (co_candidates c))"
    and in_old: "\<And>key. key \<in> set (bt_keys (co_candidates c)) \<Longrightarrow> within (co_specs c) key"
    using assms(1) by (auto simp: coord_ok_def candidates_ok_def leases_ok_def)
  note pub = observed_candidates_lookup(2) [OF ok, where l = l and records = records and now = now, folded m_def]
  note rest = observed_candidates_lookup(3) [OF ok, where l = l and records = records and now = now, folded m_def]
  show m: "bt_ok m"
    unfolding m_def by (rule observed_candidates_lookup(1) [OF ok])
  have keys: "key \<in> set (bt_keys m) \<longleftrightarrow> key \<in> set (bt_keys (co_candidates c)) \<or> fst key = l \<and> snd key \<in> fst ` set records" for key
    using pub [of key] rest [of key] by (cases "fst key = l \<and> snd key \<in> fst ` set records")
      (auto simp: bt_keys_Some republished_def)
  show "\<forall>key \<in> set (bt_keys m). within (co_specs c) key"
    using keys in_old inside by (metis prod.collapse)
  show "\<forall>i key. map_of (co_leases c) i = Some key \<longrightarrow> key \<in> set (bt_keys m)"
    using keys leased by blast
  show "\<forall>key s. map_of m key = Some s \<longrightarrow> unat (cs_leases s) = lease_count c key"
  proof (intro allI impI)
    fix key s
    assume s: "map_of m key = Some s"
    show "unat (cs_leases s) = lease_count c key"
    proof (cases "fst key = l \<and> snd key \<in> fst ` set records")
      case True
      from pub [OF this] s have "cs_leases s = (case map_of (co_candidates c) key of None \<Rightarrow> 0 | Some s0 \<Rightarrow> cs_leases s0)"
        by (simp add: republished_def)
      then show ?thesis
        using old [of key] lease_count_absent [OF assms(1), of key] by (auto simp: map_of_None_keys split: option.splits)
    next
      case False
      from rest [OF this] s old [of key] show ?thesis
        by (cases "map_of (co_candidates c) key") (auto split: if_splits)
    qed
  qed
  show "set (bt_keys m) - set (bt_keys (co_candidates c)) \<subseteq> set (bt_keys (bt_retain cs_dialable m))"
  proof
    fix key
    assume "key \<in> set (bt_keys m) - set (bt_keys (co_candidates c))"
    then have "fst key = l \<and> snd key \<in> fst ` set records"
      using keys by blast
    from pub [OF this] show "key \<in> set (bt_keys (bt_retain cs_dialable m))"
      using m by (auto simp: dialable_keys republished_def)
  qed
  have "(l, ip) \<in> set (bt_keys (bt_retain cs_dialable m)) \<longleftrightarrow> ip \<in> fst ` set records" for ip
    using pub [of "(l, ip)"] rest [of "(l, ip)"] m
    by (cases "ip \<in> fst ` set records"; cases "map_of (co_candidates c) (l, ip)")
      (simp_all add: dialable_keys republished_def, blast+)
  then show "{ip. (l, ip) \<in> set (bt_keys (bt_retain cs_dialable m))} = fst ` set records"
    by blast
qed

text \<open>
  What an observation may do: the invariant, the configuration, the leases and the revision are
  kept, and the plan leads from the old host state to the new one.
\<close>

definition observation_ok :: "coordinator \<Rightarrow> coordinator \<Rightarrow> observation_result \<Rightarrow> bool" where
  "observation_ok c c' r \<longleftrightarrow> coord_ok c' \<and> co_specs c' = co_specs c \<and> plan_ok c c' (ob_plan r)
     \<and> co_leases c' = co_leases c \<and> co_next_lease_id c' = co_next_lease_id c \<and> co_revision c' = co_revision c"

lemma observation_ok_logical:
  assumes "coord_ok c" "\<And>s. ls_spec (f s) = ls_spec s"
  shows "observation_ok c (c \<lparr> co_logical := bt_update l f (co_logical c) \<rparr>) (unchanged_result c d n)"
  using coord_ok_logical [OF assms, of l] assms(2)
  by (simp add: observation_ok_def unchanged_result_def plan_ok_unchanged)

lemma observation_ok_trans:
  assumes "coord_ok c" "\<And>s. ls_spec (f s) = ls_spec s"
    and "observation_ok (c \<lparr> co_logical := bt_update l f (co_logical c) \<rparr>) c' r"
  shows "observation_ok c c' r"
  using assms coord_ok_logical(2) [OF assms(1,2), of l] by (simp add: observation_ok_def plan_ok_def)

lemma retain_ok:
  assumes "coord_ok c" "map_of (co_logical c) l \<noteq> None"
  obtains c' r where "retain_with_negative_schedule c l now entropy ttl d = Inr (c', r)" "observation_ok c c' r"
    "ob_disposition r = d" "co_candidates c' = co_candidates c"
  using assms observation_ok_logical [OF assms(1)]
  by (fastforce simp: retain_with_negative_schedule_def Let_def unchanged_result_def)

lemma back_off_ok:
  assumes "coord_ok c" "map_of (co_logical c) l \<noteq> None"
  obtains c' r where "back_off c l now entropy d = Inr (c', r)" "observation_ok c c' r"
    "ob_disposition r = d" "co_candidates c' = co_candidates c"
  using assms observation_ok_logical [OF assms(1)]
  by (fastforce simp: back_off_def Let_def unchanged_result_def)

lemma apply_positive_ok:
  assumes ok: "coord_ok c" and st: "map_of (co_logical c) l = Some st" and records: "records \<noteq> []"
  obtains c' r where "apply_positive c l records now entropy = Inr (c', r)" "observation_ok c c' r"
    "ob_disposition r = ObservationApplied \<Longrightarrow> {ip. (l, ip) \<in> set (bt_keys (bt_retain cs_dialable (co_candidates c')))} = fst ` set records"
    "ob_disposition r \<noteq> ObservationApplied \<Longrightarrow> co_candidates c' = co_candidates c"
proof -
  let ?spec = "ls_spec st" and ?d = "dedup_records records"
  let ?outside = "filter (\<lambda>ip. ip \<notin> set (au_allowed (le_authority ?spec))) (bt_keys ?d)"
  let ?rejected = "filter (\<lambda>ip. \<not> permits (le_address_policy ?spec) ip) (bt_keys ?d)"
  have known: "map_of (co_logical c) l \<noteq> None"
    using st by simp
  consider (outside) "?outside \<noteq> []" | (rejected) "?outside = []" "?rejected \<noteq> []" | (inside) "?outside = []" "?rejected = []"
    by blast
  then show thesis
  proof cases
    case outside
    obtain c' r where "back_off c l now entropy (RejectedOutsideAuthority ?outside) = Inr (c', r)" "observation_ok c c' r"
      "ob_disposition r = RejectedOutsideAuthority ?outside" "co_candidates c' = co_candidates c"
      by (rule back_off_ok [OF ok known])
    with outside st show thesis
      by (intro that [of c' r]) (simp_all add: apply_positive_def Let_def reject_observation_def)
  next
    case rejected
    obtain c' r where "back_off c l now entropy (RejectedAddressPolicy ?rejected) = Inr (c', r)" "observation_ok c c' r"
      "ob_disposition r = RejectedAddressPolicy ?rejected" "co_candidates c' = co_candidates c"
      by (rule back_off_ok [OF ok known])
    with rejected st show thesis
      by (intro that [of c' r]) (simp_all add: apply_positive_def Let_def reject_observation_def)
  next
    case inside
    let ?m = "observed_candidates c l now records"
    let ?logical = "\<lambda>n. bt_update l (\<lambda>s. s \<lparr> ls_failure_streak := 0, ls_next_refresh_at_ms := n \<rparr>) (co_logical c)"
    let ?n = "sat_add now (jittered_ttl_ms (min_ttl ?d) entropy)"
    let ?old = "co_snapshot c"
    have "set (bt_keys ?d) = fst ` set records"
      using dedup_records_keys [of records] by simp
    with inside st have "\<forall>ip \<in> fst ` set records. within (co_specs c) (l, ip)"
      by (auto simp: within_def specs_of_def filter_empty_conv)
    note m = observed_candidates_ok [OF ok this, of now]
    have specs: "specs_of (?logical ?n) = co_specs c"
      by (rule specs_of_update) simp
    have "fst (hd records) \<in> fst ` set records"
      using records by simp
    then have "(l, fst (hd records)) \<in> set (bt_keys (bt_retain cs_dialable ?m))"
      unfolding m(6) [symmetric] by simp
    then have "bt_keys (bt_retain cs_dialable ?m) \<noteq> []"
      by force
    then have some: "list_ex (\<lambda>(_, s). cs_dialable s) ?m"
      using dialable_view_nonempty [of "co_specs c" ?m] by (simp add: dialable_view_def)
    let ?view = "dialable_view (co_specs c) ?m"
    define changed where "changed \<longleftrightarrow> ds_candidates ?old \<noteq> ?view"
    define snap where "snap = (if changed then \<lparr> ds_generation = sat_add (ds_generation ?old) 1, ds_candidates = ?view \<rparr> else ?old)"
    have old: "\<forall>key \<in> set (bt_keys (co_candidates c)). within (co_specs c) key"
      "ds_candidates ?old = dialable_view (co_specs c) (co_candidates c)"
      using ok by (simp_all add: coord_ok_def candidates_ok_def)
    have "set (bt_keys ?m) \<subseteq> set (bt_keys (co_candidates c))" if "\<not> changed"
    proof -
      have "bt_keys (bt_retain cs_dialable ?m) = bt_keys (bt_retain cs_dialable (co_candidates c))"
        using that old(2) dialable_view_keys unfolding changed_def by metis
      with m(5) set_keys_retain [of cs_dialable "co_candidates c"] show ?thesis
        by auto
    qed
    then obtain plan where plan: "transition_plan_of (?logical ?n) (co_candidates c) ?m (ds_generation ?old) snap changed = Inr plan"
      "validate_order plan = Inr ()" "plan_between (host_of (co_specs c) (co_candidates c)) (host_of (co_specs c) ?m) changed (tr_operations plan)"
      using plan_exists [of "co_candidates c" "?logical ?n" ?m changed] old(1) m(2) unfolding specs by blast
    let ?c = "c \<lparr> co_logical := ?logical ?n, co_candidates := ?m, co_snapshot := snap \<rparr>"
    let ?r = "\<lparr> ob_disposition = ObservationApplied, ob_plan = plan, ob_next_refresh_at_ms = ?n \<rparr>"
    have run: "apply_positive c l records now entropy = Inr (?c, ?r)"
      using st inside some plan(1,2) build_snapshot_total [of "?logical ?n" ?m] within_known [OF m(2)]
      by (cases changed) (simp_all add: apply_positive_def Let_def observed_candidates_def [symmetric] specs changed_def snap_def)
    have ok': "coord_ok ?c"
      using ok m(1-4) some specs by (intro coord_ok_candidates) (auto simp: coord_ok_def btree_simps snap_def changed_def)
    have "plan_ok c ?c plan"
      unfolding plan_ok_def using plan(3) specs by (intro exI [of _ changed]) (simp add: co_host_def snap_def)
    with ok' specs have "observation_ok c ?c ?r"
      by (simp add: observation_ok_def)
    with run m(6) show thesis
      by (intro that [of ?c ?r]) simp_all
  qed
qed

lemma apply_observation_ok:
  assumes ok: "coord_ok c" and l: "map_of (co_logical c) l \<noteq> None"
  obtains c' r where "apply_observation c (l, q) obs now entropy = Inr (c', r)" "observation_ok c c' r"
    "ob_disposition r = ObservationApplied \<Longrightarrow> \<exists>records. obs = Positive records
       \<and> {ip. (l, ip) \<in> set (bt_keys (bt_retain cs_dialable (co_candidates c')))} = fst ` set records"
    "ob_disposition r \<noteq> ObservationApplied \<Longrightarrow> co_candidates c' = co_candidates c"
proof -
  obtain st where st: "map_of (co_logical c) l = Some st"
    using l by blast
  let ?f = "\<lambda>s. s \<lparr> ls_last_applied_sequence := q \<rparr>"
  let ?c1 = "c \<lparr> co_logical := bt_update l ?f (co_logical c) \<rparr>"
  show thesis
  proof (cases "q \<noteq> ls_latest_query_sequence st \<or> q \<le> ls_last_applied_sequence st")
    case True
    then have "apply_observation c (l, q) obs now entropy
        = Inr (c, unchanged_result c IgnoredOutOfOrder (ls_next_refresh_at_ms st))"
      using st by (auto simp: apply_observation_def next_refresh_at_ms_def)
    moreover have "observation_ok c c (unchanged_result c IgnoredOutOfOrder (ls_next_refresh_at_ms st))"
      using ok by (simp add: observation_ok_def unchanged_result_def plan_ok_unchanged)
    ultimately show thesis
      by (rule that) (auto simp: unchanged_result_def)
  next
    case False
    have c1: "coord_ok ?c1" "map_of (co_logical ?c1) l = Some (?f st)"
      using coord_ok_logical(1) [OF ok, of ?f l] st by (simp_all add: btree_simps)
    have known: "map_of (co_logical ?c1) l \<noteq> None"
      using c1(2) by simp
    have trans: "observation_ok ?c1 c' r \<Longrightarrow> observation_ok c c' r" for c' r
      by (rule observation_ok_trans [OF ok, of ?f l]) simp_all
    have run: "apply_observation c (l, q) obs now entropy = (case obs of
         Positive records \<Rightarrow>
           if records = [] then retain_with_negative_schedule ?c1 l now entropy None RetainedEmptyPositive
           else apply_positive ?c1 l records now entropy
       | NxDomain ttl \<Rightarrow> retain_with_negative_schedule ?c1 l now entropy ttl RetainedNegative
       | NoData ttl \<Rightarrow> retain_with_negative_schedule ?c1 l now entropy ttl RetainedNegative
       | TransientFailure \<Rightarrow> back_off ?c1 l now entropy RetainedNegative)"
      using False st by (cases obs) (simp_all add: apply_observation_def Let_def)
    have retain: "\<exists>c' r. retain_with_negative_schedule ?c1 l now entropy ttl d = Inr (c', r) \<and> observation_ok ?c1 c' r
        \<and> ob_disposition r = d \<and> co_candidates c' = co_candidates c" for ttl d
      by (rule retain_ok [OF c1(1) known, of now entropy ttl d]) simp
    have backed: "\<exists>c' r. back_off ?c1 l now entropy d = Inr (c', r) \<and> observation_ok ?c1 c' r
        \<and> ob_disposition r = d \<and> co_candidates c' = co_candidates c" for d
      by (rule back_off_ok [OF c1(1) known, of now entropy d]) simp
    have ex: "\<exists>c' r. apply_observation c (l, q) obs now entropy = Inr (c', r) \<and> observation_ok ?c1 c' r
        \<and> (ob_disposition r = ObservationApplied \<longrightarrow> (\<exists>records. obs = Positive records
            \<and> {ip. (l, ip) \<in> set (bt_keys (bt_retain cs_dialable (co_candidates c')))} = fst ` set records))
        \<and> (ob_disposition r \<noteq> ObservationApplied \<longrightarrow> co_candidates c' = co_candidates c)"
    proof (cases obs)
      case (Positive records)
      show ?thesis
      proof (cases "records = []")
        case True
        with run Positive retain [of None RetainedEmptyPositive] show ?thesis
          by auto
      next
        case False
        obtain c' r where "apply_positive ?c1 l records now entropy = Inr (c', r)" "observation_ok ?c1 c' r"
          "ob_disposition r = ObservationApplied \<longrightarrow> {ip. (l, ip) \<in> set (bt_keys (bt_retain cs_dialable (co_candidates c')))} = fst ` set records"
          "ob_disposition r \<noteq> ObservationApplied \<longrightarrow> co_candidates c' = co_candidates ?c1"
          by (rule apply_positive_ok [OF c1 False]) blast
        with run Positive False show ?thesis
          by auto
      qed
    next
      case (NxDomain ttl)
      with run retain [of ttl RetainedNegative] show ?thesis
        by auto
    next
      case (NoData ttl)
      with run retain [of ttl RetainedNegative] show ?thesis
        by auto
    next
      case TransientFailure
      with run backed [of RetainedNegative] show ?thesis
        by auto
    qed
    from ex obtain c' r where "apply_observation c (l, q) obs now entropy = Inr (c', r)" "observation_ok ?c1 c' r"
      and res: "ob_disposition r = ObservationApplied \<longrightarrow> (\<exists>records. obs = Positive records
            \<and> {ip. (l, ip) \<in> set (bt_keys (bt_retain cs_dialable (co_candidates c')))} = fst ` set records)"
        "ob_disposition r \<noteq> ObservationApplied \<longrightarrow> co_candidates c' = co_candidates c"
      by (elim exE conjE)
    then show thesis
      using res by (intro that [of c' r] trans) simp_all
  qed
qed

end
