(* ===== verification/Endpoint_Leases.thy ===== *)
theory Endpoint_Leases
  imports Endpoint_Observations
begin

text \<open>
  A new coordinator satisfies the invariant, and queries, leases and retirement keep it: a leased
  candidate is never dropped, and the internal errors of the lease table cannot occur.
\<close>

section \<open>Creating a coordinator\<close>

lemma foldE_invariant:
  assumes "\<And>s x s'. f s x = Inr s' \<Longrightarrow> P s \<Longrightarrow> P s'" and "foldE f s xs = Inr s'" "P s"
  shows "P s'"
  using assms(2,3) by (induction xs arbitrary: s) (auto simp: result_simps dest: assms(1))

definition specs_permitted :: "(u64 \<Rightarrow> logical_endpoint option) \<Rightarrow> bool" where
  "specs_permitted specs \<longleftrightarrow> (\<forall>l spec. specs l = Some spec \<longrightarrow>
     (\<forall>ip \<in> set (au_allowed (le_authority spec)). permits (le_address_policy spec) ip))"

lemma specs_of_insert: "specs_of (bt_insert l st logical) = (specs_of logical)(l \<mapsto> ls_spec st)"
  by (auto simp: specs_of_def btree_simps)

lemma insert_logical_ok:
  assumes "insert_logical now logical spec = Inr logical'" "bt_ok logical \<and> specs_permitted (specs_of logical)"
  shows "bt_ok logical' \<and> specs_permitted (specs_of logical')"
proof -
  from assms(1) have "\<forall>ip \<in> set (au_allowed (le_authority spec)). permits (le_address_policy spec) ip"
    by (auto simp: insert_logical_def result_simps foldE_unit_iff)
  moreover from assms(1) obtain st where "logical' = bt_insert (le_id spec) st logical" "ls_spec st = spec"
    by (auto simp: insert_logical_def result_simps)
  ultimately show ?thesis
    using assms(2) by (simp add: specs_of_insert btree_simps specs_permitted_def)
qed

lemma insert_seed_ok:
  assumes "insert_seed logical m seed = Inr m'" "bt_ok m \<and> (\<forall>key s. map_of m key = Some s \<longrightarrow> within (specs_of logical) key \<and> s = new_candidate)"
  shows "bt_ok m' \<and> (\<forall>key s. map_of m' key = Some s \<longrightarrow> within (specs_of logical) key \<and> s = new_candidate)"
proof -
  from assms(1) obtain st where "map_of logical (fst seed) = Some st" "snd seed \<in> set (au_allowed (le_authority (ls_spec st)))"
    "permits (le_address_policy (ls_spec st)) (snd seed)" and m': "m' = bt_insert seed new_candidate m"
    by (auto simp: insert_seed_def result_simps)
  then have "within (specs_of logical) seed"
    by (simp add: within_def specs_of_def)
  with assms(2) show ?thesis
    by (simp add: m' btree_simps)
qed

lemma coordinator_new_ok:
  assumes "coordinator_new endpoints seeds now = Inr c"
  shows "coord_ok c" "specs_permitted (co_specs c)" "co_revision c = 1" "co_leases c = []"
proof -
  from assms obtain logical m snap where logical: "foldE (insert_logical now) [] endpoints = Inr logical"
    and m: "foldE (insert_seed logical) [] seeds = Inr m" "m \<noteq> []" and snap: "build_snapshot 1 logical m = Inr snap"
    and c: "c = \<lparr> co_revision = 1, co_logical = logical, co_candidates = m, co_leases = [], co_next_lease_id = 1, co_snapshot = snap \<rparr>"
    unfolding coordinator_new_def bindR_eq_Inr ensure_eq_Inr by blast
  have l: "bt_ok logical \<and> specs_permitted (specs_of logical)"
    by (rule foldE_invariant [where P = "\<lambda>logical. bt_ok logical \<and> specs_permitted (specs_of logical)", OF _ logical])
      (use insert_logical_ok in blast, simp add: specs_permitted_def specs_of_def)
  then have "bt_ok logical"
    by simp
  moreover have seeds: "bt_ok m \<and> (\<forall>key s. map_of m key = Some s \<longrightarrow> within (specs_of logical) key \<and> s = new_candidate)"
    by (rule foldE_invariant [where P = "\<lambda>m. bt_ok m \<and> (\<forall>key s. map_of m key = Some s \<longrightarrow> within (specs_of logical) key \<and> s = new_candidate)", OF _ m(1)])
      (use insert_seed_ok in blast, simp)
  moreover have keys: "\<forall>key \<in> set (bt_keys m). within (specs_of logical) key"
    using seeds by (auto simp: bt_keys_Some)
  moreover have "snap = \<lparr> ds_generation = 1, ds_candidates = dialable_view (specs_of logical) m \<rparr>"
    using snap build_snapshot_total [OF within_known [OF keys]] by simp
  moreover have "list_ex (\<lambda>(_, s). cs_dialable s) m"
  proof -
    obtain key s rest where "m = (key, s) # rest"
      using m(2) by (cases m) auto
    then have "map_of m key = Some s"
      by simp
    with seeds have "s = new_candidate"
      by blast
    with \<open>m = (key, s) # rest\<close> show ?thesis
      by (simp add: new_candidate_def)
  qed
  then have "dialable_view (specs_of logical) m \<noteq> []"
    by (simp add: dialable_view_nonempty)
  moreover have "unat (cs_leases s) = 0" if "map_of m key = Some s" for key s
  proof -
    have "s = new_candidate"
      using seeds that by blast
    then show ?thesis
      by (simp add: new_candidate_def)
  qed
  ultimately show "coord_ok c"
    using c by (simp add: coord_ok_def candidates_ok_def leases_ok_def lease_count_def)
  show "specs_permitted (co_specs c)" "co_revision c = 1" "co_leases c = []"
    using c l by simp_all
qed

section \<open>Revisions\<close>

lemma next_revision_Inr: "next_revision c = Inr r \<longleftrightarrow> u64_checked_add (co_revision c) 1 = Some r"
  by (auto simp: next_revision_def ok_or_def split: option.splits)

lemma begin_query_ok:
  assumes "begin_query c l = Inr (c', stamp)" "coord_ok c"
  shows "coord_ok c'" "co_specs c' = co_specs c" "co_revision c < co_revision c'" "co_leases c' = co_leases c"
    "co_candidates c' = co_candidates c" "co_snapshot c' = co_snapshot c"
proof -
  from assms(1) obtain revision q where "u64_checked_add (co_revision c) 1 = Some revision"
    and c': "c' = c \<lparr> co_logical := bt_update l (\<lambda>s. s \<lparr> ls_latest_query_sequence := q \<rparr>) (co_logical c) \<rparr> \<lparr> co_revision := revision \<rparr>"
    by (auto simp: begin_query_def next_revision_Inr result_simps)
  then show "co_revision c < co_revision c'"
    using u64_checked_add_1_Some(2) by simp
  show "coord_ok c'"
    unfolding c' coord_ok_revision by (rule coord_ok_logical [OF assms(2)]) simp
  show "co_specs c' = co_specs c" "co_leases c' = co_leases c" "co_candidates c' = co_candidates c" "co_snapshot c' = co_snapshot c"
    by (simp_all add: c')
qed

section \<open>Leases\<close>

lemma dialable_view_update:
  assumes "\<And>s. cs_dialable (f s) = cs_dialable s"
  shows "dialable_view specs (bt_update key f m) = dialable_view specs m"
proof -
  have "bt_keys (bt_retain cs_dialable (bt_update key f m)) = bt_keys (bt_retain cs_dialable m)"
    by (induction m) (auto simp: bt_update_def bt_retain_def assms split: if_splits)
  then show ?thesis
    by (simp add: dialable_view_def)
qed

lemma finite_leases [simp]: "finite {i. map_of leases i = Some key}"
  by (rule finite_subset [OF _ finite_dom_map_of [of leases]]) auto

lemma leases_insert:
  assumes "map_of leases i = None"
  shows "card {j. map_of (bt_insert i key leases) j = Some k} = card {j. map_of leases j = Some k} + (if k = key then 1 else 0)"
proof (cases "k = key")
  case True
  have "{j. map_of (bt_insert i key leases) j = Some k} = insert i {j. map_of leases j = Some k}"
    using True assms by (auto simp: btree_simps)
  with True assms show ?thesis
    by simp
next
  case False
  have "{j. map_of (bt_insert i key leases) j = Some k} = {j. map_of leases j = Some k}"
    using False assms by (auto simp: btree_simps)
  with False show ?thesis
    by simp
qed

lemma leases_remove:
  assumes "map_of leases i = Some key"
  shows "card {j. map_of leases j = Some k} = card {j. map_of (bt_remove i leases) j = Some k} + (if k = key then 1 else 0)"
proof (cases "k = key")
  case True
  have "{j. map_of leases j = Some k} = insert i {j. map_of (bt_remove i leases) j = Some k}"
    using True assms by (auto simp: btree_simps)
  moreover have "i \<notin> {j. map_of (bt_remove i leases) j = Some k}"
    by (simp add: btree_simps)
  ultimately show ?thesis
    using True by simp
next
  case False
  have "{j. map_of (bt_remove i leases) j = Some k} = {j. map_of leases j = Some k}"
    using False assms by (auto simp: btree_simps)
  with False show ?thesis
    by simp
qed

lemma coord_okD:
  assumes "coord_ok c"
  shows "bt_ok (co_candidates c)" "\<forall>key \<in> set (bt_keys (co_candidates c)). within (co_specs c) key"
    "\<And>key s. map_of (co_candidates c) key = Some s \<Longrightarrow> unat (cs_leases s) = lease_count c key"
    "\<And>i key. map_of (co_leases c) i = Some key \<Longrightarrow> key \<in> set (bt_keys (co_candidates c)) \<and> i < co_next_lease_id c"
  using assms unfolding coord_ok_def candidates_ok_def leases_ok_def by blast+

lemma acquire_ok:
  assumes run: "acquire c key = Inr (c', i, key')" and ok: "coord_ok c"
  shows "coord_ok c'" "co_specs c' = co_specs c" "co_revision c < co_revision c'" "co_snapshot c' = co_snapshot c"
    "co_host c' = co_host c" "map_of (co_leases c) i = None" "map_of (co_leases c') = (map_of (co_leases c))(i \<mapsto> key)"
proof -
  from run obtain revision next_id s n where
    r: "u64_checked_add (co_revision c) 1 = Some revision" and nid: "u64_checked_add i 1 = Some next_id" and i: "i = co_next_lease_id c"
    and fresh: "map_of (co_leases c) i = None" and s: "map_of (co_candidates c) key = Some s" "cs_dialable s"
    and n: "u32_checked_add (cs_leases s) 1 = Some n"
    and c': "c' = c \<lparr> co_candidates := bt_update key (\<lambda>s. s \<lparr> cs_leases := n \<rparr>) (co_candidates c), co_next_lease_id := next_id,
        co_leases := bt_insert i key (co_leases c), co_revision := revision \<rparr>"
    by (auto simp: acquire_def next_revision_Inr Let_def result_simps)
  show "co_revision c < co_revision c'"
    using u64_checked_add_1_Some(2) [OF r] by (simp add: c')
  show "co_specs c' = co_specs c" "co_snapshot c' = co_snapshot c" "map_of (co_leases c) i = None"
    "map_of (co_leases c') = (map_of (co_leases c))(i \<mapsto> key)" "co_host c' = co_host c"
    using fresh by (simp_all add: c' btree_simps co_host_def host_of_def)
  have count: "lease_count c' k = lease_count c k + (if k = key then 1 else 0)" for k
    using leases_insert [OF fresh] by (simp add: lease_count_def c')
  have "candidates_ok c'"
    using ok by (auto simp: coord_ok_def candidates_ok_def c' btree_simps dialable_view_update)
  moreover have "leases_ok c'"
  proof -
    have "unat (cs_leases s') = lease_count c' k" if "map_of (co_candidates c') k = Some s'" for k s'
      using that s coord_okD(3) [OF ok, of k] u32_checked_add_Some [OF n] unfolding count
      by (cases "k = key") (auto simp: c' btree_simps)
    moreover have "k \<in> set (bt_keys (co_candidates c')) \<and> j < co_next_lease_id c'" if "map_of (co_leases c') j = Some k" for j k
    proof (cases "j = i")
      case True
      with that s u64_checked_add_1_Some(2) [OF nid] show ?thesis
        by (auto simp: c' btree_simps bt_keys_Some)
    next
      case False
      with that coord_okD(4) [OF ok, of j k] have "k \<in> set (bt_keys (co_candidates c))" "j < i"
        by (auto simp: c' btree_simps i)
      with u64_checked_add_1_Some(2) [OF nid] show ?thesis
        by (auto simp: c' btree_simps)
    qed
    ultimately show ?thesis
      using ok by (auto simp: leases_ok_def coord_ok_def c' btree_simps)
  qed
  ultimately show "coord_ok c'"
    using ok by (simp add: coord_ok_def c')
qed

lemma acquire_no_duplicate: "coord_ok c \<Longrightarrow> acquire c key \<noteq> Inl DuplicateLeaseId"
proof
  assume "coord_ok c" and "acquire c key = Inl DuplicateLeaseId"
  then obtain k where "map_of (co_leases c) (co_next_lease_id c) = Some k"
    by (auto simp: acquire_def next_revision_def Let_def result_simps)
  with coord_okD(4) [OF \<open>coord_ok c\<close>] show False
    by blast
qed

text \<open>Dropping candidates that are not dialable leaves the snapshot alone.\<close>

lemma dialable_view_filter:
  assumes "\<And>key s. (key, s) \<in> set m \<Longrightarrow> cs_dialable s \<Longrightarrow> P (key, s)"
  shows "dialable_view specs (filter P m) = dialable_view specs m"
proof -
  have "filter (\<lambda>(_, s). cs_dialable s) (filter P m) = filter (\<lambda>(_, s). cs_dialable s) m"
    using assms by (induction m) auto
  then show ?thesis
    by (simp add: dialable_view_def bt_retain_def)
qed

lemma apply_release_ok:
  assumes ok: "coord_ok c" and lease: "map_of (co_leases c) i = Some key"
  obtains c' plan where "apply_release c (i, key) = Inr (c', plan)" "coord_ok c'" "co_specs c' = co_specs c"
    "co_snapshot c' = co_snapshot c" "plan_ok c c' plan" "co_leases c' = bt_remove i (co_leases c)"
    "set (bt_keys (co_candidates c')) \<subseteq> set (bt_keys (co_candidates c))"
proof -
  have key: "key \<in> set (bt_keys (co_candidates c))" and counts: "\<And>k s. map_of (co_candidates c) k = Some s \<Longrightarrow> unat (cs_leases s) = lease_count c k"
    and bt: "bt_ok (co_candidates c)" and within: "\<forall>k \<in> set (bt_keys (co_candidates c)). within (co_specs c) k"
    and leased: "\<And>j k. map_of (co_leases c) j = Some k \<Longrightarrow> k \<in> set (bt_keys (co_candidates c)) \<and> j < co_next_lease_id c"
    using coord_okD [OF ok] lease by blast+
  obtain s where s: "map_of (co_candidates c) key = Some s"
    using key by (auto simp: bt_keys_Some)
  have count: "card {j. map_of (co_leases c) j = Some k} = card {j. map_of (bt_remove i (co_leases c)) j = Some k} + (if k = key then 1 else 0)" for k
    by (rule leases_remove [OF lease])
  have "0 < unat (cs_leases s)"
    using counts [OF s] count [of key] by (simp add: lease_count_def)
  then obtain n where n: "u32_checked_sub (cs_leases s) 1 = Some n"
    by (cases "u32_checked_sub (cs_leases s) 1") (auto simp: u32_checked_sub_def word_le_nat_alt split: if_splits)
  define m where "m = (if n = 0 \<and> \<not> cs_dialable s then bt_remove key (co_candidates c)
      else bt_update key (\<lambda>s. s \<lparr> cs_leases := n \<rparr>) (co_candidates c))"
  have m: "bt_ok m" "set (bt_keys m) \<subseteq> set (bt_keys (co_candidates c))"
    using bt by (auto simp: m_def btree_simps)
  have lookup: "map_of m = (map_of (co_candidates c))(key := if n = 0 \<and> \<not> cs_dialable s then None else Some (s \<lparr> cs_leases := n \<rparr>))"
    using s by (simp add: m_def btree_simps)
  have view: "dialable_view specs m = dialable_view specs (co_candidates c)" for specs
    unfolding m_def bt_remove_def using s bt
    by (auto simp: dialable_view_update set_bt intro!: dialable_view_filter)
  obtain plan where plan: "transition_plan_of (co_logical c) (co_candidates c) m (ds_generation (co_snapshot c)) (co_snapshot c) False = Inr plan"
    "validate_order plan = Inr ()" "plan_between (host_of (co_specs c) (co_candidates c)) (host_of (co_specs c) m) False (tr_operations plan)"
    by (rule plan_exists [of "co_candidates c" "co_logical c" m False]) (use within m(2) in blast)+
  let ?c = "c \<lparr> co_leases := bt_remove i (co_leases c), co_candidates := m \<rparr>"
  have run: "apply_release c (i, key) = Inr (?c, plan)"
    using lease s n plan(1,2) by (simp add: apply_release_def m_def [symmetric])
  have sub: "unat n + 1 = unat (cs_leases s)"
    using u32_checked_sub_Some [OF n] by simp
  have "unat (cs_leases s') = lease_count ?c k" if "map_of m k = Some s'" for k s'
    using that counts [OF s] counts [of k s'] count [of k] sub
    by (cases "k = key") (auto simp: lookup lease_count_def split: if_splits)
  moreover have "k \<in> set (bt_keys m) \<and> j < co_next_lease_id c" if "map_of (bt_remove i (co_leases c)) j = Some k" for j k
  proof -
    have old: "map_of (co_leases c) j = Some k" "j \<noteq> i"
      using that by (auto simp: btree_simps split: if_splits)
    have "k \<in> set (bt_keys m)"
    proof (cases "k = key")
      case True
      have "j \<in> {j. map_of (bt_remove i (co_leases c)) j = Some k}"
        using that by simp
      then have "card {j. map_of (bt_remove i (co_leases c)) j = Some k} \<noteq> 0"
        by (metis card_0_eq empty_iff finite_leases)
      with True counts [OF s] count [of key] sub have "n \<noteq> 0"
        by (auto simp: lease_count_def)
      with True show ?thesis
        by (simp add: bt_keys_Some lookup)
    next
      case False
      with leased [OF old(1)] show ?thesis
        by (auto simp: bt_keys_Some lookup)
    qed
    with leased [OF old(1)] show ?thesis
      by simp
  qed
  ultimately have "leases_ok ?c"
    using ok by (simp add: leases_ok_def coord_ok_def btree_simps)
  then have "coord_ok ?c"
    using ok m within view by (auto simp: coord_ok_def candidates_ok_def)
  moreover have "plan_ok c ?c plan"
    unfolding plan_ok_def using plan(3) by (intro exI [of _ False]) (simp add: co_host_def)
  ultimately show thesis
    using m(2) by (intro that [OF run]) simp_all
qed

lemma apply_release_errors:
  assumes "coord_ok c" "apply_release c lease = Inl e"
  shows "e = UnknownLease (fst lease) \<or> e = LeaseKeyMismatch"
proof (cases "map_of (co_leases c) (fst lease)")
  case (Some key)
  obtain c' plan where "apply_release c (fst lease, key) = Inr (c', plan)"
    by (rule apply_release_ok [OF assms(1) Some])
  with assms(2) Some show ?thesis
    by (cases lease) (auto simp: apply_release_def result_simps)
qed (use assms(2) in \<open>simp add: apply_release_def\<close>)

section \<open>Retirement\<close>

lemma filter_length_eq: "length (filter P xs) = length xs \<Longrightarrow> filter P xs = xs"
  using length_filter_less [of _ xs P] by (force simp: filter_id_conv)

lemma prepare_retirement_ok:
  assumes ok: "coord_ok c"
  shows "case prepare_retirement c of
      Inl e \<Rightarrow> e = RevisionExhausted
    | Inr None \<Rightarrow> \<forall>key s. map_of (co_candidates c) key = Some s \<longrightarrow> cs_dialable s \<or> cs_leases s \<noteq> 0
    | Inr (Some p) \<Rightarrow> pr_base_revision p = co_revision c \<and> co_revision c < co_revision (pr_projected p)
        \<and> coord_ok (pr_projected p) \<and> co_specs (pr_projected p) = co_specs c \<and> co_snapshot (pr_projected p) = co_snapshot c
        \<and> co_leases (pr_projected p) = co_leases c \<and> plan_ok c (pr_projected p) (pr_result p)
        \<and> (\<forall>key s. map_of (co_candidates (pr_projected p)) key = Some s
            \<longleftrightarrow> map_of (co_candidates c) key = Some s \<and> (cs_dialable s \<or> cs_leases s \<noteq> 0))"
proof -
  let ?P = "\<lambda>s. cs_dialable s \<or> cs_leases s \<noteq> 0"
  define m where "m = bt_retain ?P (co_candidates c)"
  note inv = coord_okD [OF ok]
  have lookup: "map_of m key = Some s \<longleftrightarrow> map_of (co_candidates c) key = Some s \<and> ?P s" for key s
    using map_of_bt_retain [OF inv(1), of ?P key] by (auto simp: m_def split: option.splits if_splits)
  show ?thesis
  proof (cases "length m = length (co_candidates c)")
    case True
    then have same: "m = co_candidates c"
      unfolding m_def bt_retain_def by (rule filter_length_eq)
    have "\<forall>key s. map_of (co_candidates c) key = Some s \<longrightarrow> ?P s"
      using lookup unfolding same by blast
    moreover from True have "prepare_retirement c = Inr None"
      by (simp add: prepare_retirement_def m_def)
    ultimately show ?thesis
      by simp
  next
    case False
    have m: "bt_ok m" "set (bt_keys m) \<subseteq> set (bt_keys (co_candidates c))"
      using inv(1) unfolding m_def by (simp_all add: btree_simps set_keys_retain)
    obtain plan where plan: "transition_plan_of (co_logical c) (co_candidates c) m (ds_generation (co_snapshot c)) (co_snapshot c) False = Inr plan"
      "validate_order plan = Inr ()" "plan_between (host_of (co_specs c) (co_candidates c)) (host_of (co_specs c) m) False (tr_operations plan)"
      by (rule plan_exists [of "co_candidates c" "co_logical c" m False]) (use inv(2) m(2) in blast)+
    let ?c = "c \<lparr> co_candidates := m \<rparr>"
    have run: "prepare_retirement c = bindR (next_revision c) (\<lambda>revision. Inr (Some
        \<lparr> pr_base_revision = co_revision c, pr_projected = ?c \<lparr> co_revision := revision \<rparr>, pr_result = plan \<rparr>))"
      using False plan(1,2) by (simp add: prepare_retirement_def m_def [symmetric])
    have view: "dialable_view specs m = dialable_view specs (co_candidates c)" for specs
      unfolding m_def bt_retain_def by (rule dialable_view_filter) auto
    have "k \<in> set (bt_keys m)" if leased: "map_of (co_leases c) i = Some k" for i k
    proof -
      obtain s where s: "map_of (co_candidates c) k = Some s"
        using inv(4) [OF leased] by (auto simp: bt_keys_Some)
      have "i \<in> {i. map_of (co_leases c) i = Some k}"
        using that by simp
      then have "lease_count c k \<noteq> 0"
        unfolding lease_count_def by (metis card_0_eq empty_iff finite_leases)
      with inv(3) [OF s] have "cs_leases s \<noteq> 0"
        by auto
      with s show ?thesis
        unfolding bt_keys_Some lookup by blast
    qed
    moreover have "unat (cs_leases s) = lease_count c k" if "map_of m k = Some s" for k s
      using that inv(3) unfolding lookup by blast
    ultimately have "leases_ok ?c"
      using ok inv(4) unfolding leases_ok_def coord_ok_def lease_count_def by simp
    then have "coord_ok ?c"
      using ok m inv(2) view by (auto simp: coord_ok_def candidates_ok_def)
    moreover have "plan_ok c ?c plan"
      unfolding plan_ok_def using plan(3) by (intro exI [of _ False]) (simp add: co_host_def)
    ultimately have ok': "coord_ok ?c" "plan_ok c ?c plan" .
    show ?thesis
    proof (cases "u64_checked_add (co_revision c) 1")
      case (Some revision)
      from u64_checked_add_1_Some(2) [OF this] ok' lookup show ?thesis
        by (simp add: run next_revision_def Some del: split_paired_All)
    qed (simp add: run next_revision_def)
  qed
qed

end
