(* ===== verification/Endpoint_History.thy ===== *)
theory Endpoint_History
  imports Endpoint_Leases
begin

text \<open>
  Rehydration of the signed authority, and histories in which transitions are prepared and
  committed at different times: a commit that succeeds was prepared from the state it replaces.
\<close>

section \<open>Rehydration\<close>

lemma revive_one:
  assumes "bt_ok m"
  shows "bt_ok (fst (revive key (m, r)))" "republished (map_of m key) (map_of (fst (revive key (m, r))) key)"
    "k \<noteq> key \<Longrightarrow> map_of (fst (revive key (m, r))) k = map_of m k"
    "snd (revive key (m, r)) = r @ (if \<exists>s. map_of m key = Some s \<and> cs_dialable s then [] else [key])"
  using assms
  by (auto simp: revive_def btree_simps republished_def new_candidate_def split: option.splits)

definition live :: "(candidate_key \<times> candidate_state) list \<Rightarrow> candidate_key \<Rightarrow> bool" where
  "live m key \<longleftrightarrow> (\<exists>s. map_of m key = Some s \<and> cs_dialable s)"

lemma revive_all:
  assumes "bt_ok m"
  shows "bt_ok (fst (fold revive keys (m, r)))
    \<and> (\<forall>key. if key \<in> set keys then republished (map_of m key) (map_of (fst (fold revive keys (m, r))) key)
        else map_of (fst (fold revive keys (m, r))) key = map_of m key)
    \<and> set (snd (fold revive keys (m, r))) = set r \<union> {key \<in> set keys. \<not> live m key}"
  using assms
proof (induction keys arbitrary: m r)
  case (Cons k keys)
  define m1 where "m1 = fst (revive k (m, r))"
  define r1 where "r1 = snd (revive k (m, r))"
  have step: "revive k (m, r) = (m1, r1)"
    by (simp add: m1_def r1_def)
  have m1: "bt_ok m1" "republished (map_of m k) (map_of m1 k)" "set r1 = set r \<union> (if live m k then {} else {k})"
    using revive_one [OF Cons.prems(1), where key = k and r = r] by (auto simp: m1_def r1_def live_def)
  have m1_other: "map_of m1 key = map_of m key" if "key \<noteq> k" for key
    using revive_one(3) [OF Cons.prems(1) that] by (simp add: m1_def)
  note IH = Cons.IH [OF m1(1), of r1]
  have "if key \<in> set (k # keys) then republished (map_of m key) (map_of (fst (fold revive keys (m1, r1))) key)
      else map_of (fst (fold revive keys (m1, r1))) key = map_of m key" for key
    using IH [THEN conjunct2, THEN conjunct1, rule_format, of key] m1(2) m1_other [of key]
    by (cases "key = k") (auto split: if_splits intro: republished_again)
  moreover have "live m1 key \<longleftrightarrow> key = k \<or> live m key" for key
    using m1(2) m1_other [of key] by (cases "key = k") (auto simp: live_def republished_def)
  then have "set r1 \<union> {key \<in> set keys. \<not> live m1 key} = set r \<union> {key \<in> set (k # keys). \<not> live m key}"
    unfolding m1(3) by auto
  ultimately show ?case
    using IH by (simp add: step del: split_paired_All)
qed simp

lemma authority_keys_within:
  assumes "bt_ok logical" "specs_permitted (specs_of logical)"
  shows "key \<in> set (authority_keys logical) \<longleftrightarrow> within (specs_of logical) key"
proof -
  have "key \<in> set (authority_keys logical) \<longleftrightarrow>
      (\<exists>st. (fst key, st) \<in> set logical \<and> snd key \<in> set (au_allowed (le_authority (ls_spec st))))"
    by (cases key) (force simp: authority_keys_def)
  also have "\<dots> \<longleftrightarrow> (\<exists>spec. specs_of logical (fst key) = Some spec \<and> snd key \<in> set (au_allowed (le_authority spec)))"
    unfolding set_bt [OF assms(1)] by (auto simp: specs_of_def)
  also have "\<dots> \<longleftrightarrow> within (specs_of logical) key"
    using assms(2) by (auto simp: within_def specs_permitted_def)
  finally show ?thesis .
qed

lemma no_removals:
  assumes "plan_between old new publish ops" "ho_allowed old \<subseteq> ho_allowed new" "ho_routes old \<subseteq> ho_routes new"
  shows "\<not> list_ex is_removal ops"
proof -
  have "denies ops = {}" "removes_routes ops = {}"
    using plan_between_effect(2,4) [OF assms(1)] assms(2,3) by auto
  then have "\<not> is_removal op" if "op \<in> set ops" for op
    using that by (cases op rule: is_removal.cases) (auto simp: effect_defs)
  then show ?thesis
    by (auto simp: list_ex_iff)
qed

definition rehydrated :: "coordinator \<Rightarrow> (candidate_key \<times> candidate_state) list \<times> candidate_key list" where
  "rehydrated c = fold revive (authority_keys (co_logical c)) (co_candidates c, [])"

lemma rehydrated_ok:
  assumes ok: "coord_ok c" and permitted: "specs_permitted (co_specs c)" and m: "rehydrated c = (m, revived)"
  shows "bt_ok m" "\<forall>key \<in> set (bt_keys m). within (co_specs c) key" "\<And>key. live m key \<longleftrightarrow> within (co_specs c) key"
    "set revived = {key. within (co_specs c) key \<and> \<not> live (co_candidates c) key}"
    "set (bt_keys (co_candidates c)) \<subseteq> set (bt_keys m)"
    "\<And>key s. map_of m key = Some s \<Longrightarrow> unat (cs_leases s) = lease_count c key"
proof -
  note inv = coord_okD [OF ok]
  have keys: "key \<in> set (authority_keys (co_logical c)) \<longleftrightarrow> within (co_specs c) key" for key
    using ok permitted by (intro authority_keys_within) (simp_all add: coord_ok_def)
  note all = revive_all [OF inv(1), of "authority_keys (co_logical c)" "[]", folded rehydrated_def, unfolded m fst_conv snd_conv keys]
  show "bt_ok m" "set revived = {key. within (co_specs c) key \<and> \<not> live (co_candidates c) key}"
    using all by simp_all
  have lookup: "if within (co_specs c) key then republished (map_of (co_candidates c) key) (map_of m key)
      else map_of m key = map_of (co_candidates c) key" for key
    using all [THEN conjunct2, THEN conjunct1, rule_format, of key] .
  have old_within: "within (co_specs c) key" if "map_of (co_candidates c) key = Some s" for key s
    using inv(2) map_of_Some_keys [OF that] by blast
  show "live m key \<longleftrightarrow> within (co_specs c) key" for key
    using lookup [of key] old_within [of key] by (cases "within (co_specs c) key") (auto simp: live_def republished_def)
  show "\<forall>key \<in> set (bt_keys m). within (co_specs c) key"
    using lookup old_within by (metis bt_keys_Some)
  show "set (bt_keys (co_candidates c)) \<subseteq> set (bt_keys m)"
    using lookup inv(2) by (metis bt_keys_Some republished_def subsetI)
  show "unat (cs_leases s) = lease_count c k" if "map_of m k = Some s" for k s
    using lookup [of k] that inv(3) [of k] lease_count_absent [OF ok, of k]
    by (auto simp: republished_def map_of_None_keys split: if_splits option.splits)
qed

lemma prepare_authority_rehydration_run:
  "rehydrated c = (m, revived) \<Longrightarrow> prepare_authority_rehydration c =
     (let old = co_snapshot c in
      if revived = [] then Inr \<lparr> pr_base_revision = co_revision c, pr_projected = c, pr_result = ([], plan_unchanged old) \<rparr>
      else
        bindR (build_snapshot (ds_generation old) (co_logical c) m) (\<lambda>view.
        bindR (ensure (ds_candidates view \<noteq> ds_candidates old) RevivedWithoutChange) (\<lambda>_.
        bindR (ok_or (u64_checked_add (ds_generation old) 1) GenerationExhausted) (\<lambda>generation.
        let snapshot = \<lparr> ds_generation = generation, ds_candidates = ds_candidates view \<rparr> in
        bindR (transition_plan_of (co_logical c) (co_candidates c) m (ds_generation old) snapshot True) (\<lambda>plan.
        bindR (ensure (\<not> list_ex is_removal (tr_operations plan)) NonMonotonicRehydration) (\<lambda>_.
        bindR (validate_order plan) (\<lambda>_.
        bindR (next_revision c) (\<lambda>revision.
        Inr \<lparr> pr_base_revision = co_revision c,
          pr_projected = c \<lparr> co_candidates := m, co_snapshot := snapshot, co_revision := revision \<rparr>,
          pr_result = (sort revived, plan) \<rparr>))))))))"
proof -
  have "sort revived = [] \<longleftrightarrow> revived = []"
    by (metis set_empty set_sort)
  then show "rehydrated c = (m, revived) \<Longrightarrow> ?thesis"
    by (simp add: prepare_authority_rehydration_def rehydrated_def Let_def)
qed

lemma prepare_authority_rehydration_ok:
  assumes ok: "coord_ok c" and permitted: "specs_permitted (co_specs c)"
  shows "case prepare_authority_rehydration c of
      Inl e \<Rightarrow> e = GenerationExhausted \<or> e = RevisionExhausted
    | Inr p \<Rightarrow> pr_base_revision p = co_revision c \<and> (pr_projected p = c \<or> co_revision c < co_revision (pr_projected p))
        \<and> coord_ok (pr_projected p) \<and> co_specs (pr_projected p) = co_specs c
        \<and> co_leases (pr_projected p) = co_leases c \<and> plan_ok c (pr_projected p) (snd (pr_result p))
        \<and> (\<forall>key. live (co_candidates (pr_projected p)) key \<longleftrightarrow> within (co_specs c) key)"
proof -
  note inv = coord_okD [OF ok]
  obtain m revived where m: "rehydrated c = (m, revived)"
    by force
  note re = rehydrated_ok [OF ok permitted m]
  note run = prepare_authority_rehydration_run [OF m]
  show ?thesis
  proof (cases "revived = []")
    case True
    with re(4) have "within (co_specs c) key \<Longrightarrow> live (co_candidates c) key" for key
      by (cases key) auto
    then have "live (co_candidates c) key \<longleftrightarrow> within (co_specs c) key" for key
      using inv(2) map_of_Some_keys [of "co_candidates c" key] unfolding live_def by blast
    with True ok show ?thesis
      by (simp add: run plan_ok_unchanged del: split_paired_All)
  next
    case False
    let ?old = "co_snapshot c" and ?view = "dialable_view (co_specs c) m"
    have build: "build_snapshot (ds_generation ?old) (co_logical c) m = Inr \<lparr> ds_generation = ds_generation ?old, ds_candidates = ?view \<rparr>"
      by (rule build_snapshot_total [OF within_known [OF re(2)]])
    obtain key where key: "within (co_specs c) key" "\<not> live (co_candidates c) key"
      using False re(4) by (cases revived) auto
    have dialable: "key \<in> set (bt_keys (bt_retain cs_dialable m))" "key \<notin> set (bt_keys (bt_retain cs_dialable (co_candidates c)))"
      using key re(3) [of key] dialable_keys [OF re(1)] dialable_keys [OF inv(1)] unfolding live_def by blast+
    have old_view: "ds_candidates ?old = dialable_view (co_specs c) (co_candidates c)"
      using ok by (simp add: coord_ok_def candidates_ok_def)
    have changed: "?view \<noteq> ds_candidates ?old"
      using dialable unfolding old_view by (metis dialable_view_keys)
    have some: "list_ex (\<lambda>(_, s). cs_dialable s) m"
    proof -
      have "bt_keys (bt_retain cs_dialable m) \<noteq> []"
        using dialable(1) by force
      then show ?thesis
        using dialable_view_nonempty [of "co_specs c" m] by (simp add: dialable_view_def)
    qed
    show ?thesis
    proof (cases "u64_checked_add (ds_generation ?old) 1")
      case None
      with False build changed show ?thesis
        by (simp add: run Let_def)
    next
      case (Some generation)
      let ?snap = "\<lparr> ds_generation = generation, ds_candidates = ?view \<rparr>"
      let ?c = "c \<lparr> co_candidates := m, co_snapshot := ?snap \<rparr>"
      obtain plan where plan: "transition_plan_of (co_logical c) (co_candidates c) m (ds_generation ?old) ?snap True = Inr plan"
        "validate_order plan = Inr ()" "plan_between (host_of (co_specs c) (co_candidates c)) (host_of (co_specs c) m) True (tr_operations plan)"
        by (rule plan_exists [of "co_candidates c" "co_logical c" m True]) (use inv(2) re(2) in blast)+
      have "\<not> list_ex is_removal (tr_operations plan)"
        using host_of_mono [OF re(5)] by (intro no_removals [OF plan(3)]) simp_all
      with False build changed Some plan(1,2) have run': "prepare_authority_rehydration c = bindR (next_revision c) (\<lambda>revision.
          Inr \<lparr> pr_base_revision = co_revision c, pr_projected = ?c \<lparr> co_revision := revision \<rparr>, pr_result = (sort revived, plan) \<rparr>)"
        by (simp add: run Let_def)
      have "k \<in> set (bt_keys m)" if "map_of (co_leases c) i = Some k" for i k
        using inv(4) [OF that] re(5) by blast
      then have "coord_ok (c \<lparr> co_logical := co_logical c, co_candidates := m, co_snapshot := ?snap \<rparr>)"
        using ok re(1,2,6) some by (intro coord_ok_candidates) (simp_all add: coord_ok_def)
      then have ok': "coord_ok ?c"
        by simp
      have plan': "plan_ok c ?c plan"
        unfolding plan_ok_def using plan(3) by (intro exI [of _ True]) (simp add: co_host_def)
      show ?thesis
      proof (cases "u64_checked_add (co_revision c) 1")
        case (Some revision)
        from u64_checked_add_1_Some(2) [OF this] ok' plan' re(3) show ?thesis
          by (simp add: run' next_revision_def Some del: split_paired_All)
      qed (simp add: run' next_revision_def)
    qed
  qed
qed

section \<open>Prepared transitions\<close>

text \<open>
  \<open>proposes c c' plan\<close>: one of the four kinds of transition can be prepared in \<open>c\<close>; it would lead
  to \<open>c'\<close> by the operations of \<open>plan\<close>.
\<close>

inductive proposes :: "coordinator \<Rightarrow> coordinator \<Rightarrow> transition_plan \<Rightarrow> bool" where
  observation: "prepare_observation c stamp obs now entropy = Inr p \<Longrightarrow> proposes c (pr_projected p) (ob_plan (pr_result p))"
| rehydration: "prepare_authority_rehydration c = Inr p \<Longrightarrow> proposes c (pr_projected p) (snd (pr_result p))"
| release: "prepare_release c lease = Inr p \<Longrightarrow> proposes c (pr_projected p) (pr_result p)"
| retirement: "prepare_retirement c = Inr (Some p) \<Longrightarrow> proposes c (pr_projected p) (pr_result p)"

lemma prepare_observation_Inr:
  assumes "prepare_observation c stamp obs now entropy = Inr p" "coord_ok c"
  shows "pr_base_revision p = co_revision c" "co_revision c < co_revision (pr_projected p)" "coord_ok (pr_projected p)"
    "co_specs (pr_projected p) = co_specs c" "plan_ok c (pr_projected p) (ob_plan (pr_result p))"
proof -
  obtain l q where stamp: "stamp = (l, q)"
    by force
  from assms(1) have "map_of (co_logical c) l \<noteq> None"
    by (auto simp: prepare_observation_def apply_observation_def stamp result_simps)
  then obtain c' r where run: "apply_observation c (l, q) obs now entropy = Inr (c', r)" and ok: "observation_ok c c' r"
    by (rule apply_observation_ok [OF assms(2)])
  from assms(1) run obtain revision where "u64_checked_add (co_revision c) 1 = Some revision"
    "p = \<lparr> pr_base_revision = co_revision c, pr_projected = c' \<lparr> co_revision := revision \<rparr>, pr_result = r \<rparr>"
    by (auto simp: prepare_observation_def stamp result_simps next_revision_Inr)
  with ok u64_checked_add_1_Some(2) show "pr_base_revision p = co_revision c" "co_revision c < co_revision (pr_projected p)"
    "coord_ok (pr_projected p)" "co_specs (pr_projected p) = co_specs c" "plan_ok c (pr_projected p) (ob_plan (pr_result p))"
    by (simp_all add: observation_ok_def)
qed

lemma prepare_release_Inr:
  assumes "prepare_release c lease = Inr p" "coord_ok c"
  shows "pr_base_revision p = co_revision c" "co_revision c < co_revision (pr_projected p)" "coord_ok (pr_projected p)"
    "co_specs (pr_projected p) = co_specs c" "plan_ok c (pr_projected p) (pr_result p)"
proof -
  obtain i key where lease: "lease = (i, key)"
    by (cases lease)
  from assms(1) have "map_of (co_leases c) i = Some key"
    by (auto simp: prepare_release_def apply_release_def lease result_simps)
  then obtain c' plan where run: "apply_release c (i, key) = Inr (c', plan)" and ok: "coord_ok c'" "co_specs c' = co_specs c" "plan_ok c c' plan"
    by (rule apply_release_ok [OF assms(2)])
  from assms(1) run obtain revision where "u64_checked_add (co_revision c) 1 = Some revision"
    "p = \<lparr> pr_base_revision = co_revision c, pr_projected = c' \<lparr> co_revision := revision \<rparr>, pr_result = plan \<rparr>"
    by (auto simp: prepare_release_def lease result_simps next_revision_Inr)
  with ok u64_checked_add_1_Some(2) show "pr_base_revision p = co_revision c" "co_revision c < co_revision (pr_projected p)"
    "coord_ok (pr_projected p)" "co_specs (pr_projected p) = co_specs c" "plan_ok c (pr_projected p) (pr_result p)"
    by simp_all
qed

lemma prepare_retirement_Inr:
  assumes "prepare_retirement c = Inr (Some p)" "coord_ok c"
  shows "pr_base_revision p = co_revision c" "co_revision c < co_revision (pr_projected p)" "coord_ok (pr_projected p)"
    "co_specs (pr_projected p) = co_specs c" "plan_ok c (pr_projected p) (pr_result p)"
  using prepare_retirement_ok [OF assms(2)] assms(1) by simp_all

lemma prepare_authority_rehydration_Inr:
  assumes "prepare_authority_rehydration c = Inr p" "coord_ok c" "specs_permitted (co_specs c)"
  shows "pr_base_revision p = co_revision c" "pr_projected p = c \<or> co_revision c < co_revision (pr_projected p)"
    "coord_ok (pr_projected p)" "co_specs (pr_projected p) = co_specs c" "plan_ok c (pr_projected p) (snd (pr_result p))"
  using prepare_authority_rehydration_ok [OF assms(2,3)] assms(1) by simp_all

lemma proposes_ok:
  assumes "proposes c c' plan" "coord_ok c" "specs_permitted (co_specs c)"
  shows "coord_ok c' \<and> co_specs c' = co_specs c \<and> plan_ok c c' plan"
  using assms
proof cases
  case (observation stamp obs now entropy p)
  with prepare_observation_Inr(3-5) [OF observation(3) assms(2)] show ?thesis
    by simp
next
  case (rehydration p)
  with prepare_authority_rehydration_Inr(3-5) [OF rehydration(3) assms(2,3)] show ?thesis
    by simp
next
  case (release lease p)
  with prepare_release_Inr(3-5) [OF release(3) assms(2)] show ?thesis
    by simp
next
  case (retirement p)
  with prepare_retirement_Inr(3-5) [OF retirement(3) assms(2)] show ?thesis
    by simp
qed

section \<open>Histories\<close>

text \<open>
  The states a coordinator goes through, newest first. A transition may have been prepared in any
  earlier state of the history.
\<close>

inductive history :: "coordinator list \<Rightarrow> bool" where
  start: "coordinator_new endpoints seeds now = Inr c \<Longrightarrow> history [c]"
| query: "history (c # h) \<Longrightarrow> begin_query c l = Inr (c', stamp) \<Longrightarrow> history (c' # c # h)"
| lease: "history (c # h) \<Longrightarrow> acquire c key = Inr (c', lease) \<Longrightarrow> history (c' # c # h)"
| observe: "history (c # h) \<Longrightarrow> c0 \<in> set (c # h) \<Longrightarrow> prepare_observation c0 stamp obs now entropy = Inr p
    \<Longrightarrow> commit_observation c p = Inr (c', r) \<Longrightarrow> history (c' # c # h)"
| rehydrate: "history (c # h) \<Longrightarrow> c0 \<in> set (c # h) \<Longrightarrow> prepare_authority_rehydration c0 = Inr q
    \<Longrightarrow> commit_authority_rehydration c q = Inr (c', s) \<Longrightarrow> history (c' # c # h)"
| release: "history (c # h) \<Longrightarrow> c0 \<in> set (c # h) \<Longrightarrow> prepare_release c0 lease0 = Inr t
    \<Longrightarrow> commit_release c t = Inr (c', plan) \<Longrightarrow> history (c' # c # h)"
| retire: "history (c # h) \<Longrightarrow> c0 \<in> set (c # h) \<Longrightarrow> prepare_retirement c0 = Inr (Some t)
    \<Longrightarrow> commit_retirement c t = Inr (c', plan) \<Longrightarrow> history (c' # c # h)"

definition history_ok :: "coordinator list \<Rightarrow> bool" where
  "history_ok hs \<longleftrightarrow> (\<forall>c \<in> set hs. coord_ok c \<and> specs_permitted (co_specs c) \<and> co_specs c = co_specs (hd hs))
     \<and> sorted_wrt (\<lambda>new old. old = new \<or> co_revision old < co_revision new) hs"

lemma history_okD:
  assumes "history_ok (c # h)" "old \<in> set (c # h)"
  shows "coord_ok old" "specs_permitted (co_specs old)" "co_specs old = co_specs c" "old = c \<or> co_revision old < co_revision c"
  using assms unfolding history_ok_def by (simp_all only: list.sel sorted_wrt.simps set_simps) blast+

lemma history_ok_Cons:
  assumes ok: "history_ok (c # h)" and c': "coord_ok c'" "co_specs c' = co_specs c" "c' = c \<or> co_revision c < co_revision c'"
  shows "history_ok (c' # c # h)"
proof -
  have "old = c' \<or> co_revision old < co_revision c'" if "old \<in> set (c # h)" for old
    using history_okD(4) [OF ok that] c'(3) by auto
  moreover have "coord_ok d \<and> specs_permitted (co_specs d) \<and> co_specs d = co_specs c'" if "d \<in> set (c' # c # h)" for d
    using history_okD(1-3) [OF ok, of d] history_okD(2) [OF ok, of c] c'(1,2) that by (cases "d = c'") simp_all
  ultimately show ?thesis
    using ok unfolding history_ok_def by (simp only: list.sel sorted_wrt.simps) blast
qed

text \<open>A revision identifies a state of the history, so a commit that succeeds was prepared from the newest.\<close>

lemma commit_current:
  assumes "history_ok (c # h)" "c0 \<in> set (c # h)" "pr_base_revision p = co_revision c0"
  shows "commit_prepared c p = (if c0 = c then Inr (pr_projected p, pr_result p) else Inl StaleTransition)"
  using history_okD(4) [OF assms(1,2)] assms(3) by (auto simp: commit_prepared_def ensure_def)

lemma history_is_ok: "history hs \<Longrightarrow> history_ok hs"
proof (induction rule: history.induct)
  case (start endpoints seeds now c)
  then show ?case
    using coordinator_new_ok [OF start] by (simp add: history_ok_def)
next
  case (query c h l c' stamp)
  then have "coord_ok c"
    by (simp add: history_ok_def)
  then show ?case
    using begin_query_ok [OF query(2)] query.IH by (intro history_ok_Cons) auto
next
  case (lease c h key c' l)
  obtain i k where l: "l = (i, k)"
    by (cases l)
  from lease have "coord_ok c"
    by (simp add: history_ok_def)
  then show ?case
    using acquire_ok [OF lease(2) [unfolded l]] lease.IH by (intro history_ok_Cons) auto
next
  case (observe c h c0 stamp obs now entropy p c' r)
  then have ok: "coord_ok c0"
    using history_okD(1) by blast
  note p = prepare_observation_Inr [OF observe(3) ok]
  from observe(4) commit_current [OF observe.IH observe(2) p(1)] p show ?case
    by (intro history_ok_Cons [OF observe.IH]) (auto simp: commit_observation_def split: if_splits)
next
  case (rehydrate c h c0 p c' s)
  then have ok: "coord_ok c0" "specs_permitted (co_specs c0)"
    using history_okD(1,2) by blast+
  note p = prepare_authority_rehydration_Inr [OF rehydrate(3) ok]
  from rehydrate(4) commit_current [OF rehydrate.IH rehydrate(2) p(1)] p show ?case
    by (intro history_ok_Cons [OF rehydrate.IH]) (auto simp: commit_authority_rehydration_def split: if_splits)
next
  case (release c h c0 lease0 t c' plan)
  then have ok: "coord_ok c0"
    using history_okD(1) by blast
  note p = prepare_release_Inr [OF release(3) ok]
  from release(4) commit_current [OF release.IH release(2) p(1)] p show ?case
    by (intro history_ok_Cons [OF release.IH]) (auto simp: commit_release_def split: if_splits)
next
  case (retire c h c0 t c' plan)
  then have ok: "coord_ok c0"
    using history_okD(1) by blast
  note p = prepare_retirement_Inr [OF retire(3) ok]
  from retire(4) commit_current [OF retire.IH retire(2) p(1)] p show ?case
    by (intro history_ok_Cons [OF retire.IH]) (auto simp: commit_retirement_def split: if_splits)
qed

end
