(* ===== verification/Endpoint_Policy.thy ===== *)
theory Endpoint_Policy
  imports Endpoint_History Session_Handshake
begin

text \<open>
  The adapter from a verified plan to live endpoint coordination (\<open>endpoint_policy.rs\<close>):
  endpoints of the plan with the same authentication material
  form one logical endpoint, whose signed addresses are the authority of the coordinator and whose
  material is kept in a registry that a dial candidate must match field by field. SHA-256 is that of
  the parameter \<open>C\<close>.
\<close>

section \<open>Data\<close>

record policy_generation =
  pg_policy_epoch :: u64
  pg_sequence :: u64

datatype auth_group_key = AuthGroupKey
  (ag_locator_name: string) (ag_sni: string) (ag_port: u16)
  (ag_reality_x25519_public_key: bytes) (ag_reality_short_id: bytes) (ag_server_pins: "bytes list")

instantiation auth_group_key :: linorder
begin

definition ag_fields :: "auth_group_key \<Rightarrow> string \<times> string \<times> u16 \<times> bytes \<times> bytes \<times> bytes list" where
  "ag_fields g = (ag_locator_name g, ag_sni g, ag_port g, ag_reality_x25519_public_key g, ag_reality_short_id g, ag_server_pins g)"

definition less_eq_auth_group_key :: "auth_group_key \<Rightarrow> auth_group_key \<Rightarrow> bool" where
  "less_eq_auth_group_key a b \<longleftrightarrow> ag_fields a \<le> ag_fields b"

definition less_auth_group_key :: "auth_group_key \<Rightarrow> auth_group_key \<Rightarrow> bool" where
  "less_auth_group_key a b \<longleftrightarrow> ag_fields a < ag_fields b"

instance
proof
  fix x y z :: auth_group_key
  show "x < y \<longleftrightarrow> x \<le> y \<and> \<not> y \<le> x" "x \<le> x" "x \<le> y \<or> y \<le> x"
    unfolding less_auth_group_key_def less_eq_auth_group_key_def by (rule less_le_not_le order_refl linear)+
  show "x \<le> y \<Longrightarrow> y \<le> z \<Longrightarrow> x \<le> z"
    unfolding less_eq_auth_group_key_def by (rule order_trans)
  show "x \<le> y \<Longrightarrow> y \<le> x \<Longrightarrow> x = y"
  proof -
    assume "x \<le> y" "y \<le> x"
    then have "ag_fields x = ag_fields y"
      unfolding less_eq_auth_group_key_def by (rule antisym)
    then show "x = y"
      by (cases x; cases y) (simp add: ag_fields_def)
  qed
qed

end

record registry_entry =
  re_logical :: u64
  re_auth :: u32
  re_authority_generation :: u64
  re_authority_digest :: bytes
  re_authorized_addresses :: "ipv4 list"
  re_sni :: string
  re_port :: u16
  re_reality_x25519_public_key :: bytes
  re_reality_short_id :: bytes
  re_server_pins :: pin_slots

record auth_registry =
  ar_policy_generation :: policy_generation
  ar_entries :: "(u32 \<times> registry_entry) list"
  ar_logical_to_auth :: "(u64 \<times> u32) list"

record dial_target =
  dt_policy_generation :: policy_generation
  dt_logical :: u64
  dt_auth :: u32
  dt_authority_digest :: bytes
  dt_address :: "ipv4 \<times> u16"
  dt_sni :: string
  dt_reality_x25519_public_key :: bytes
  dt_reality_short_id :: bytes
  dt_server_pins :: pin_slots

record verified_endpoint_policy =
  ve_policy_generation :: policy_generation
  ve_coordinator :: coordinator
  ve_auth_registry :: auth_registry
  ve_scheduler_endpoints :: "(u64 \<times> string) list"

datatype adapter_error =
    EmptyPlan | DuplicateEndpointId bytes | DuplicateMapping | GroupedToEmpty
  | EmptyLocatorName | EmptySni | EndpointZeroPort | ShortIdWidth | EmptyPinSet
  | AuthRefCollision | LogicalIdCollision | AuthorityTokenCollision
  | InvalidRuntimePins | AmbiguousAuth | AmbiguousLogical
  | CoordinatorFailed coord_error
  | UnknownAuthConfig u32 | LogicalNotBound | GroupBoundary | RequiresTcp | KeyAddressMismatch
  | PortDiffers | OutsideSignedAuthority | ForeignGeneration

type_synonym 'a adapter_result = "adapter_error + 'a"

section \<open>Digests\<close>

definition update_length_prefixed :: "bytes \<Rightarrow> bytes" where
  "update_length_prefixed bs = be_bytes 8 (length bs) @ bs"

definition update_auth_group :: "auth_group_key \<Rightarrow> bytes" where
  "update_auth_group g =
     update_length_prefixed (ascii_bytes (ag_locator_name g)) @ update_length_prefixed (ascii_bytes (ag_sni g))
     @ be_bytes 2 (unat (ag_port g)) @ ag_reality_x25519_public_key g @ update_length_prefixed (ag_reality_short_id g)
     @ be_bytes 8 (length (ag_server_pins g)) @ concat (ag_server_pins g)"

definition AUTH_REF_DOMAIN :: bytes where
  "AUTH_REF_DOMAIN = ascii_bytes ''shadowpipe-endpoint-auth-ref-v2'' @ [0]"

definition LOGICAL_ID_DOMAIN :: bytes where
  "LOGICAL_ID_DOMAIN = ascii_bytes ''shadowpipe-logical-endpoint-id-v2'' @ [0]"

definition AUTHORITY_DOMAIN :: bytes where
  "AUTHORITY_DOMAIN = ascii_bytes ''shadowpipe-endpoint-authority-v2'' @ [0]"

definition auth_group_digest :: "crypto \<Rightarrow> bytes \<Rightarrow> auth_group_key \<Rightarrow> bytes" where
  "auth_group_digest C domain g = sha256 C (domain @ update_auth_group g)"

definition authority_digest :: "crypto \<Rightarrow> policy_generation \<Rightarrow> auth_group_key \<Rightarrow> ipv4 list \<Rightarrow> bytes" where
  "authority_digest C generation g addresses =
     sha256 C (AUTHORITY_DOMAIN @ be_bytes 8 (unat (pg_policy_epoch generation)) @ be_bytes 8 (unat (pg_sequence generation))
       @ update_auth_group g @ be_bytes 8 (length addresses) @ concat addresses)"

definition first_u32 :: "bytes \<Rightarrow> u32" where
  "first_u32 digest = word_of_nat (be_val (take 4 digest))"

definition first_u64 :: "bytes \<Rightarrow> u64" where
  "first_u64 digest = word_of_nat (be_val (take 8 digest))"

definition reject_identifier_collision ::
  "adapter_error \<Rightarrow> ('k::linorder \<times> bytes) list \<Rightarrow> 'k \<Rightarrow> bytes \<Rightarrow> ('k \<times> bytes) list adapter_result" where
  "reject_identifier_collision e occupied compact full_digest =
     (case map_of occupied compact of Some previous \<Rightarrow> Inl e | None \<Rightarrow> Inr (bt_insert compact full_digest occupied))"

section \<open>From a verified plan\<close>

definition generation_from_plan :: "reality_plan \<Rightarrow> policy_generation" where
  "generation_from_plan plan = \<lparr> pg_policy_epoch = plan_policy_epoch plan, pg_sequence = plan_sequence plan \<rparr>"

definition server_pins_is_empty :: "server_pins \<Rightarrow> bool" where
  "server_pins_is_empty p = False"

definition from_verified_endpoint :: "plan_endpoint \<Rightarrow> auth_group_key adapter_result" where
  "from_verified_endpoint e =
     bindR (ensure (pe_locator_name e \<noteq> []) EmptyLocatorName) (\<lambda>_.
     bindR (ensure (pe_sni e \<noteq> []) EmptySni) (\<lambda>_.
     bindR (ensure (snd (pe_socket_addr e) \<noteq> 0) EndpointZeroPort) (\<lambda>_.
     bindR (ensure (length (pe_reality_short_id e) = MAX_SHORT_ID_BYTES) ShortIdWidth) (\<lambda>_.
     bindR (ensure (\<not> server_pins_is_empty (pe_server_pins e)) EmptyPinSet) (\<lambda>_.
     Inr (AuthGroupKey (pe_locator_name e) (pe_sni e) (snd (pe_socket_addr e)) (pe_reality_x25519_public_key e)
       (pe_reality_short_id e) (server_pins_as_slice (pe_server_pins e))))))))"

type_synonym auth_groups = "(auth_group_key \<times> ipv4 list) list"

definition group_endpoint :: "bytes list \<times> auth_groups \<Rightarrow> plan_endpoint \<Rightarrow> (bytes list \<times> auth_groups) adapter_result" where
  "group_endpoint = (\<lambda>(seen, groups) e.
     bindR (ensure (pe_endpoint_id e \<notin> set seen) (DuplicateEndpointId (pe_endpoint_id e))) (\<lambda>_.
     bindR (from_verified_endpoint e) (\<lambda>group.
     let addresses = (case map_of groups group of None \<Rightarrow> [] | Some addresses \<Rightarrow> addresses); ip = fst (pe_socket_addr e) in
     bindR (ensure (ip \<notin> set addresses) DuplicateMapping) (\<lambda>_.
     Inr (pe_endpoint_id e # seen, bt_insert group (insort ip addresses) groups)))))"

record policy_build =
  pb_auth_ref_digests :: "(u32 \<times> bytes) list"
  pb_logical_id_digests :: "(u64 \<times> bytes) list"
  pb_authority_token_digests :: "(u64 \<times> bytes) list"
  pb_entries :: "(u32 \<times> registry_entry) list"
  pb_logical_to_auth :: "(u64 \<times> u32) list"
  pb_endpoints :: "logical_endpoint list"
  pb_seeds :: "candidate_key list"
  pb_scheduler_endpoints :: "(u64 \<times> string) list"

definition empty_build :: policy_build where
  "empty_build = \<lparr> pb_auth_ref_digests = [], pb_logical_id_digests = [], pb_authority_token_digests = [], pb_entries = [],
     pb_logical_to_auth = [], pb_endpoints = [], pb_seeds = [], pb_scheduler_endpoints = [] \<rparr>"

text \<open>\<open>map_err\<close>: an error of the coordinator becomes one of the adapter.\<close>

definition coord_result :: "'a coord_result \<Rightarrow> 'a adapter_result" where
  "coord_result r = (case r of Inl e \<Rightarrow> Inl (CoordinatorFailed e) | Inr x \<Rightarrow> Inr x)"

definition add_group ::
  "crypto \<Rightarrow> policy_generation \<Rightarrow> policy_build \<Rightarrow> auth_group_key \<times> ipv4 list \<Rightarrow> policy_build adapter_result" where
  "add_group C generation b = (\<lambda>(group, addresses).
     let auth_digest = auth_group_digest C AUTH_REF_DOMAIN group; auth = first_u32 auth_digest in
     bindR (reject_identifier_collision AuthRefCollision (pb_auth_ref_digests b) auth auth_digest) (\<lambda>auth_ref_digests.
     let logical_digest = auth_group_digest C LOGICAL_ID_DOMAIN group; logical = first_u64 logical_digest in
     bindR (reject_identifier_collision LogicalIdCollision (pb_logical_id_digests b) logical logical_digest) (\<lambda>logical_id_digests.
     let digest = authority_digest C generation group addresses; authority_generation = first_u64 digest in
     bindR (reject_identifier_collision AuthorityTokenCollision (pb_authority_token_digests b) authority_generation digest) (\<lambda>token_digests.
     bindR (coord_result (from_preverified_manifest authority_generation addresses)) (\<lambda>authority.
     bindR (case pins_new (ag_server_pins group) of Inl _ \<Rightarrow> Inl InvalidRuntimePins | Inr p \<Rightarrow> Inr p) (\<lambda>server_pins.
     let endpoint = \<lparr> le_id = logical, le_hostname = ag_locator_name group, le_port = ag_port group, le_protocol = Tcp,
           le_auth = auth, le_authority = authority, le_address_policy = \<lparr> ap_allow_private = False \<rparr> \<rparr>;
         entry = \<lparr> re_logical = logical, re_auth = auth, re_authority_generation = authority_generation,
           re_authority_digest = digest, re_authorized_addresses = addresses, re_sni = ag_sni group, re_port = ag_port group,
           re_reality_x25519_public_key = ag_reality_x25519_public_key group, re_reality_short_id = ag_reality_short_id group,
           re_server_pins = server_pins \<rparr> in
     bindR (ensure (map_of (pb_entries b) auth = None) AmbiguousAuth) (\<lambda>_.
     bindR (ensure (map_of (pb_logical_to_auth b) logical = None) AmbiguousLogical) (\<lambda>_.
     Inr \<lparr> pb_auth_ref_digests = auth_ref_digests, pb_logical_id_digests = logical_id_digests,
       pb_authority_token_digests = token_digests, pb_entries = bt_insert auth entry (pb_entries b),
       pb_logical_to_auth = bt_insert logical auth (pb_logical_to_auth b), pb_endpoints = pb_endpoints b @ [endpoint],
       pb_seeds = pb_seeds b @ map (Pair logical) addresses,
       pb_scheduler_endpoints = pb_scheduler_endpoints b @ [(logical, ag_locator_name group)] \<rparr>))))))))"

definition from_verified_plan :: "crypto \<Rightarrow> reality_plan \<Rightarrow> u64 \<Rightarrow> verified_endpoint_policy adapter_result" where
  "from_verified_plan C plan now_ms =
     bindR (ensure (plan_endpoints plan \<noteq> []) EmptyPlan) (\<lambda>_.
     let generation = generation_from_plan plan in
     bindR (foldE group_endpoint ([], []) (plan_endpoints plan)) (\<lambda>(seen, groups).
     bindR (ensure (groups \<noteq> []) GroupedToEmpty) (\<lambda>_.
     bindR (foldE (add_group C generation) empty_build groups) (\<lambda>b.
     bindR (coord_result (coordinator_new (pb_endpoints b) (pb_seeds b) now_ms)) (\<lambda>coordinator.
     Inr \<lparr> ve_policy_generation = generation, ve_coordinator = coordinator,
       ve_auth_registry = \<lparr> ar_policy_generation = generation, ar_entries = pb_entries b, ar_logical_to_auth = pb_logical_to_auth b \<rparr>,
       ve_scheduler_endpoints = sort (pb_scheduler_endpoints b) \<rparr>)))))"

definition registry_lookup :: "auth_registry \<Rightarrow> dial_candidate \<Rightarrow> dial_target adapter_result" where
  "registry_lookup r d =
     bindR (ok_or (map_of (ar_entries r) (dc_auth d)) (UnknownAuthConfig (dc_auth d))) (\<lambda>entry.
     bindR (ensure (map_of (ar_logical_to_auth r) (fst (dc_key d)) = Some (dc_auth d)) LogicalNotBound) (\<lambda>_.
     bindR (ensure (re_logical entry = fst (dc_key d) \<and> re_auth entry = dc_auth d) GroupBoundary) (\<lambda>_.
     bindR (ensure (dc_protocol d = Tcp) RequiresTcp) (\<lambda>_.
     bindR (ensure (snd (dc_key d) = fst (dc_address d)) KeyAddressMismatch) (\<lambda>_.
     bindR (ensure (snd (dc_address d) = re_port entry) PortDiffers) (\<lambda>_.
     bindR (ensure (snd (dc_key d) \<in> set (re_authorized_addresses entry)) OutsideSignedAuthority) (\<lambda>_.
     bindR (ensure (dc_authority_generation d = re_authority_generation entry) ForeignGeneration) (\<lambda>_.
     Inr \<lparr> dt_policy_generation = ar_policy_generation r, dt_logical = re_logical entry, dt_auth = re_auth entry,
       dt_authority_digest = re_authority_digest entry, dt_address = dc_address d, dt_sni = re_sni entry,
       dt_reality_x25519_public_key = re_reality_x25519_public_key entry, dt_reality_short_id = re_reality_short_id entry,
       dt_server_pins = re_server_pins entry \<rparr>))))))))"

end
