(* ===== verification/Endpoint_Registry.thy ===== *)
theory Endpoint_Registry
  imports Endpoint_Policy
begin

text \<open>
  What the registry releases: the dial target of a candidate carries the material of one plan
  endpoint with the candidate's address, and every candidate the coordinator publishes has one.
\<close>

section \<open>Loops that process a list\<close>

lemma foldE_processed:
  assumes "foldE f s xs = Inr s'" "P [] s"
    and "\<And>ys y t t'. P ys t \<Longrightarrow> f t y = Inr t' \<Longrightarrow> P (ys @ [y]) t'"
  shows "P xs s'"
proof -
  have "P ys s \<Longrightarrow> foldE f s xs = Inr s' \<Longrightarrow> P (ys @ xs) s'" for ys
  proof (induction xs arbitrary: s ys)
    case (Cons x xs)
    from Cons.prems(2) obtain t where "f s x = Inr t" "foldE f t xs = Inr s'"
      by (auto simp: result_simps)
    with Cons.IH [of "ys @ [x]" t] assms(3) [OF Cons.prems(1)] show ?case
      by simp
  qed simp
  from this [of "[]"] assms(1,2) show ?thesis
    by simp
qed

section \<open>Groups\<close>

definition in_group :: "plan_endpoint list \<Rightarrow> auth_group_key \<Rightarrow> ipv4 \<Rightarrow> bool" where
  "in_group es g ip \<longleftrightarrow> (\<exists>e \<in> set es. from_verified_endpoint e = Inr g \<and> fst (pe_socket_addr e) = ip)"

lemma groups_sound:
  assumes "foldE group_endpoint ([], []) es = Inr (seen, groups)"
  shows "\<forall>g addresses. map_of groups g = Some addresses \<longrightarrow> distinct addresses \<and> sorted addresses
    \<and> (\<forall>ip \<in> set addresses. in_group es g ip)" "bt_ok groups"
proof -
  let ?P = "\<lambda>es (seen, groups :: auth_groups). bt_ok groups \<and> (\<forall>g addresses. map_of groups g = Some addresses \<longrightarrow>
      distinct addresses \<and> sorted addresses \<and> (\<forall>ip \<in> set addresses. in_group es g ip))"
  have "?P es (seen, groups)"
  proof (rule foldE_processed [OF assms, of ?P])
    fix ys y and t t' :: "bytes list \<times> auth_groups"
    assume P: "?P ys t" and step: "group_endpoint t y = Inr t'"
    obtain seen groups where t: "t = (seen, groups)"
      by force
    from step obtain g where g: "from_verified_endpoint y = Inr g"
      and fresh: "fst (pe_socket_addr y) \<notin> set (case map_of groups g of None \<Rightarrow> [] | Some a \<Rightarrow> a)"
      and t': "t' = (pe_endpoint_id y # seen, bt_insert g (insort (fst (pe_socket_addr y))
        (case map_of groups g of None \<Rightarrow> [] | Some a \<Rightarrow> a)) groups)"
      by (auto simp: group_endpoint_def t Let_def result_simps)
    have mono: "in_group ys g' ip \<Longrightarrow> in_group (ys @ [y]) g' ip" for g' ip
      by (auto simp: in_group_def)
    have new: "in_group (ys @ [y]) g (fst (pe_socket_addr y))"
      using g by (auto simp: in_group_def)
    have "distinct a \<and> sorted a \<and> (\<forall>ip \<in> set a. in_group (ys @ [y]) h ip)" if "map_of (snd t') h = Some a" for h a
    proof (cases "h = g")
      case True
      with that P fresh mono new show ?thesis
        by (cases "map_of groups g") (auto simp: t t' btree_simps set_insort_key distinct_insort sorted_insort)
    next
      case False
      with that P mono show ?thesis
        by (simp add: t t' btree_simps)
    qed
    with P show "?P (ys @ [y]) t'"
      by (simp add: t t' btree_simps)
  qed simp
  then show "\<forall>g addresses. map_of groups g = Some addresses \<longrightarrow> distinct addresses \<and> sorted addresses
    \<and> (\<forall>ip \<in> set addresses. in_group es g ip)" "bt_ok groups"
    by simp_all
qed

section \<open>Registry entries\<close>

text \<open>What one group contributes, given its runtime pins.\<close>

definition auth_of :: "crypto \<Rightarrow> auth_group_key \<Rightarrow> u32" where
  "auth_of C g = first_u32 (auth_group_digest C AUTH_REF_DOMAIN g)"

definition logical_of :: "crypto \<Rightarrow> auth_group_key \<Rightarrow> u64" where
  "logical_of C g = first_u64 (auth_group_digest C LOGICAL_ID_DOMAIN g)"

definition spec_for :: "crypto \<Rightarrow> policy_generation \<Rightarrow> auth_group_key \<Rightarrow> ipv4 list \<Rightarrow> logical_endpoint \<Rightarrow> bool" where
  "spec_for C gen g addresses spec \<longleftrightarrow> le_id spec = logical_of C g \<and> le_port spec = ag_port g \<and> le_protocol spec = Tcp
     \<and> le_auth spec = auth_of C g \<and> set (au_allowed (le_authority spec)) = set addresses
     \<and> au_manifest_generation (le_authority spec) = first_u64 (authority_digest C gen g addresses)"

definition entry_for :: "crypto \<Rightarrow> policy_generation \<Rightarrow> auth_group_key \<Rightarrow> ipv4 list \<Rightarrow> registry_entry \<Rightarrow> bool" where
  "entry_for C gen g addresses entry \<longleftrightarrow> re_logical entry = logical_of C g \<and> re_auth entry = auth_of C g
     \<and> re_authority_generation entry = first_u64 (authority_digest C gen g addresses)
     \<and> re_authority_digest entry = authority_digest C gen g addresses
     \<and> re_authorized_addresses entry = addresses \<and> re_sni entry = ag_sni g \<and> re_port entry = ag_port g
     \<and> re_reality_x25519_public_key entry = ag_reality_x25519_public_key g \<and> re_reality_short_id entry = ag_reality_short_id g
     \<and> pins_new (ag_server_pins g) = Inr (re_server_pins entry)"

definition registered :: "crypto \<Rightarrow> policy_generation \<Rightarrow> auth_groups \<Rightarrow> policy_build \<Rightarrow> bool" where
  "registered C gen gs b \<longleftrightarrow>
     (\<forall>auth entry. map_of (pb_entries b) auth = Some entry \<longrightarrow> (\<exists>(g, a) \<in> set gs. auth = auth_of C g \<and> entry_for C gen g a entry))
     \<and> (\<forall>spec \<in> set (pb_endpoints b). \<exists>(g, a) \<in> set gs. spec_for C gen g a spec)
     \<and> (\<forall>(g, a) \<in> set gs. map_of (pb_logical_to_auth b) (logical_of C g) = Some (auth_of C g)
          \<and> (\<exists>entry. map_of (pb_entries b) (auth_of C g) = Some entry \<and> entry_for C gen g a entry))"

lemma registeredD:
  assumes "registered C gen gs b"
  shows "map_of (pb_entries b) auth = Some entry \<Longrightarrow> \<exists>g a. (g, a) \<in> set gs \<and> auth = auth_of C g \<and> entry_for C gen g a entry"
    "spec \<in> set (pb_endpoints b) \<Longrightarrow> \<exists>g a. (g, a) \<in> set gs \<and> spec_for C gen g a spec"
    "(g, a) \<in> set gs \<Longrightarrow> map_of (pb_logical_to_auth b) (logical_of C g) = Some (auth_of C g)
       \<and> (\<exists>entry. map_of (pb_entries b) (auth_of C g) = Some entry \<and> entry_for C gen g a entry)"
  using assms unfolding registered_def by fast+

lemma add_group_step:
  assumes "add_group C gen b (g, a) = Inr b'"
  obtains spec entry where "spec_for C gen g a spec" "entry_for C gen g a entry"
    "map_of (pb_entries b) (auth_of C g) = None" "map_of (pb_logical_to_auth b) (logical_of C g) = None"
    "pb_entries b' = bt_insert (auth_of C g) entry (pb_entries b)"
    "pb_logical_to_auth b' = bt_insert (logical_of C g) (auth_of C g) (pb_logical_to_auth b)"
    "pb_endpoints b' = pb_endpoints b @ [spec]"
proof -
  let ?token = "first_u64 (authority_digest C gen g a)"
  let ?spec = "\<lparr> le_id = logical_of C g, le_hostname = ag_locator_name g, le_port = ag_port g, le_protocol = Tcp,
    le_auth = auth_of C g, le_authority = \<lparr> au_manifest_generation = ?token, au_allowed = bts_of_list a \<rparr>,
    le_address_policy = \<lparr> ap_allow_private = False \<rparr> \<rparr>"
  let ?entry = "\<lambda>pins. \<lparr> re_logical = logical_of C g, re_auth = auth_of C g, re_authority_generation = ?token,
    re_authority_digest = authority_digest C gen g a, re_authorized_addresses = a, re_sni = ag_sni g, re_port = ag_port g,
    re_reality_x25519_public_key = ag_reality_x25519_public_key g, re_reality_short_id = ag_reality_short_id g,
    re_server_pins = pins \<rparr>"
  from assms obtain pins where "pins_new (ag_server_pins g) = Inr pins"
    "map_of (pb_entries b) (auth_of C g) = None" "map_of (pb_logical_to_auth b) (logical_of C g) = None"
    "pb_entries b' = bt_insert (auth_of C g) (?entry pins) (pb_entries b)"
    "pb_logical_to_auth b' = bt_insert (logical_of C g) (auth_of C g) (pb_logical_to_auth b)"
    "pb_endpoints b' = pb_endpoints b @ [?spec]"
    by (auto simp: add_group_def Let_def result_simps coord_result_def from_preverified_manifest_def
        auth_of_def logical_of_def split: sum.splits if_splits)
  then show thesis
    by (intro that [of ?spec "?entry pins"]) (simp_all add: spec_for_def entry_for_def)
qed

lemma groups_registered:
  assumes "foldE (add_group C gen) empty_build gs = Inr b"
  shows "registered C gen gs b"
proof (rule foldE_processed [OF assms, where P = "registered C gen"])
  show "registered C gen [] empty_build"
    by (simp add: registered_def empty_build_def)
  fix ys y t t'
  assume P: "registered C gen ys t" and step: "add_group C gen t y = Inr t'"
  obtain g a where y: "y = (g, a)"
    by force
  obtain spec entry where add: "spec_for C gen g a spec" "entry_for C gen g a entry"
    "map_of (pb_entries t) (auth_of C g) = None" "map_of (pb_logical_to_auth t) (logical_of C g) = None"
    "pb_entries t' = bt_insert (auth_of C g) entry (pb_entries t)"
    "pb_logical_to_auth t' = bt_insert (logical_of C g) (auth_of C g) (pb_logical_to_auth t)"
    "pb_endpoints t' = pb_endpoints t @ [spec]"
    by (rule add_group_step [OF step [unfolded y]])
  have old: "auth_of C h \<noteq> auth_of C g \<and> logical_of C h \<noteq> logical_of C g" if "(h, x) \<in> set ys" for h x
    using P that add(3,4) by (force simp: registered_def)
  show "registered C gen (ys @ [y]) t'"
    unfolding registered_def
  proof (intro conjI)
    show "\<forall>auth entry. map_of (pb_entries t') auth = Some entry \<longrightarrow>
        (\<exists>(g, a) \<in> set (ys @ [y]). auth = auth_of C g \<and> entry_for C gen g a entry)"
      using P add(2) by (auto simp: registered_def add(5) btree_simps y split: if_splits)
    show "\<forall>spec \<in> set (pb_endpoints t'). \<exists>(g, a) \<in> set (ys @ [y]). spec_for C gen g a spec"
      using P add(1) by (auto simp: registered_def add(7) y)
    show "\<forall>(g, a) \<in> set (ys @ [y]). map_of (pb_logical_to_auth t') (logical_of C g) = Some (auth_of C g)
          \<and> (\<exists>entry. map_of (pb_entries t') (auth_of C g) = Some entry \<and> entry_for C gen g a entry)"
      using P add(2) old by (fastforce simp: registered_def add(5,6) btree_simps y)
  qed
qed

section \<open>Pins\<close>

lemma plan_pins_matches: "server_pins_matches vp fp \<longleftrightarrow> fp \<in> set (server_pins_as_slice vp)"
  using matched_fold [of fp "server_pins_as_slice vp" 0] by (simp add: server_pins_matches_def)

section \<open>The signed source of a target\<close>

lemma plan_service_success: "plan_service acc s = Inr acc' \<Longrightarrow> plan_ready s"
proof -
  assume "plan_service acc s = Inr acc'"
  then obtain pins where pins: "server_pins_new (map pin_fingerprint (svc_pins s)) = Inr pins"
    and loop: "foldE (\<lambda>acc e. bindR (plan_endpoint_of s pins e) (\<lambda>pe. Inr (acc @ [pe]))) acc (svc_endpoints s) = Inr acc'"
    by (auto simp: plan_service_def result_simps)
  have "\<forall>e \<in> set es. length (ep_reality_short_id e) \<le> MAX_SHORT_ID_BYTES"
    if "foldE (\<lambda>acc e. bindR (plan_endpoint_of s pins e) (\<lambda>pe. Inr (acc @ [pe]))) acc es = Inr acc'" for es acc
    using that by (induction es arbitrary: acc) (auto simp: result_simps plan_endpoint_of_def Let_def split: if_splits)
  from this [OF loop] pins show "plan_ready s"
    by (auto simp: plan_ready_def server_pins_new_def split: if_splits)
qed

lemma plan_services_success: "foldE plan_service acc ss = Inr acc' \<Longrightarrow> \<forall>s \<in> set ss. plan_ready s"
  by (induction ss arbitrary: acc) (auto simp: result_simps dest: plan_service_success)

lemma plan_endpoint_source:
  assumes "build_verified_plan p = Inr plan" "pe \<in> set (plan_endpoints plan)"
  obtains s e where "s \<in> set (pol_services p)" "e \<in> set (svc_endpoints s)" "plan_entry s e pe"
proof -
  from assms(1) have "\<forall>s \<in> set (pol_services p). plan_ready s"
    by (auto simp: build_verified_plan_def result_simps dest: plan_services_success)
  from build_verified_plan_ready [OF this] assms(1)
  have "list_all2 (\<lambda>(s, e). plan_entry s e) (plan_source (pol_services p)) (plan_endpoints plan)"
    by auto
  with assms(2) obtain s e where "(s, e) \<in> set (plan_source (pol_services p))" "plan_entry s e pe"
    by (auto simp: list_all2_conv_all_nth in_set_conv_nth) (metis nth_mem prod.collapse split_beta)
  then show thesis
    by (intro that) (auto simp: plan_source_def)
qed

definition signed_target :: "endpoint_policy \<Rightarrow> dial_target \<Rightarrow> bool" where
  "signed_target p t \<longleftrightarrow> dt_policy_generation t = \<lparr> pg_policy_epoch = pol_policy_epoch p, pg_sequence = pol_sequence p \<rparr>
     \<and> (\<exists>s \<in> set (pol_services p). \<exists>e \<in> set (svc_endpoints s). dt_address t = (ep_ipv4 e, ep_port e) \<and> dt_sni t = ep_sni e
          \<and> dt_reality_x25519_public_key t = ep_reality_x25519_public_key e \<and> dt_reality_short_id t = ep_reality_short_id e
          \<and> (\<forall>fp. pins_matches (dt_server_pins t) fp \<longleftrightarrow> fp \<in> pin_fingerprint ` set (svc_pins s)))"

lemma coord_result_Inr [simp]: "coord_result r = Inr x \<longleftrightarrow> r = Inr x"
  by (cases r) (simp_all add: coord_result_def)

lemma from_verified_plan_parts:
  assumes "from_verified_plan C plan now = Inr ve"
  obtains seen groups b where "foldE group_endpoint ([], []) (plan_endpoints plan) = Inr (seen, groups)"
    "foldE (add_group C (generation_from_plan plan)) empty_build groups = Inr b"
    "coordinator_new (pb_endpoints b) (pb_seeds b) now = Inr (ve_coordinator ve)"
    "ve_auth_registry ve = \<lparr> ar_policy_generation = generation_from_plan plan, ar_entries = pb_entries b, ar_logical_to_auth = pb_logical_to_auth b \<rparr>"
  using assms
  by (auto simp: from_verified_plan_def Let_def result_simps)

lemma registry_lookup_sound:
  assumes plan: "build_verified_plan p = Inr plan" and ve: "from_verified_plan C plan now = Inr ve"
    and t: "registry_lookup (ve_auth_registry ve) d = Inr t"
  shows "dt_address t = dc_address d" "signed_target p t"
proof -
  obtain seen groups b where parts: "foldE group_endpoint ([], []) (plan_endpoints plan) = Inr (seen, groups)"
    "foldE (add_group C (generation_from_plan plan)) empty_build groups = Inr b"
    and reg: "ve_auth_registry ve = \<lparr> ar_policy_generation = generation_from_plan plan, ar_entries = pb_entries b, ar_logical_to_auth = pb_logical_to_auth b \<rparr>"
    by (rule from_verified_plan_parts [OF ve])
  from t obtain entry where entry: "map_of (pb_entries b) (dc_auth d) = Some entry"
    and checks: "snd (dc_key d) = fst (dc_address d)" "snd (dc_address d) = re_port entry" "snd (dc_key d) \<in> set (re_authorized_addresses entry)"
    and t': "t = \<lparr> dt_policy_generation = generation_from_plan plan, dt_logical = re_logical entry, dt_auth = re_auth entry,
       dt_authority_digest = re_authority_digest entry, dt_address = dc_address d, dt_sni = re_sni entry,
       dt_reality_x25519_public_key = re_reality_x25519_public_key entry, dt_reality_short_id = re_reality_short_id entry,
       dt_server_pins = re_server_pins entry \<rparr>"
    by (auto simp: registry_lookup_def reg result_simps)
  show "dt_address t = dc_address d"
    by (simp add: t')
  obtain g a where g: "(g, a) \<in> set groups" "entry_for C (generation_from_plan plan) g a entry"
    using registeredD(1) [OF groups_registered [OF parts(2)] entry] by blast
  have "map_of groups g = Some a"
    using g(1) set_bt [OF groups_sound(2) [OF parts(1)]] by simp
  then have "in_group (plan_endpoints plan) g (fst (dc_address d))"
    using groups_sound(1) [OF parts(1)] checks g(2) by (auto simp: entry_for_def)
  then obtain pe where pe: "pe \<in> set (plan_endpoints plan)" "from_verified_endpoint pe = Inr g" "fst (pe_socket_addr pe) = fst (dc_address d)"
    by (auto simp: in_group_def)
  obtain s e where s: "s \<in> set (pol_services p)" "e \<in> set (svc_endpoints s)" and pe_entry: "plan_entry s e pe"
    by (rule plan_endpoint_source [OF plan pe(1)])
  have g_def: "g = AuthGroupKey (pe_locator_name pe) (pe_sni pe) (snd (pe_socket_addr pe)) (pe_reality_x25519_public_key pe)
      (pe_reality_short_id pe) (server_pins_as_slice (pe_server_pins pe))"
    using pe(2) by (auto simp: from_verified_endpoint_def result_simps)
  have "dc_address d = pe_socket_addr pe"
    using pe(3) checks(2) g(2) by (simp add: entry_for_def g_def prod_eq_iff)
  moreover have "pins_matches (re_server_pins entry) fp \<longleftrightarrow> fp \<in> pin_fingerprint ` set (svc_pins s)" for fp
    using pins_new_slice [of "server_pins_as_slice (pe_server_pins pe)" "re_server_pins entry"] g(2) pe_entry
    by (simp add: entry_for_def g_def plan_entry_def plan_pins_matches pins_matches_iff)
  moreover have "generation_from_plan plan = \<lparr> pg_policy_epoch = pol_policy_epoch p, pg_sequence = pol_sequence p \<rparr>"
    using plan by (auto simp: generation_from_plan_def build_verified_plan_def result_simps)
  ultimately show "signed_target p t"
    unfolding signed_target_def using s pe_entry g(2)
    by (intro conjI bexI [of _ s] bexI [of _ e]) (simp_all add: t' plan_entry_def entry_for_def g_def)
qed

section \<open>Every published candidate has a target\<close>

lemma coordinator_new_specs:
  assumes "coordinator_new endpoints seeds now = Inr c" "co_specs c l = Some spec"
  shows "spec \<in> set endpoints" "le_id spec = l"
proof -
  from assms(1) have "foldE (insert_logical now) [] endpoints = Inr (co_logical c)"
    by (auto simp: coordinator_new_def result_simps)
  then have "\<forall>l spec. co_specs c l = Some spec \<longrightarrow> spec \<in> set endpoints \<and> le_id spec = l"
  proof (rule foldE_processed [where P = "\<lambda>ys logical. \<forall>l spec. specs_of logical l = Some spec \<longrightarrow> spec \<in> set ys \<and> le_id spec = l"])
    fix ys y t t'
    assume P: "\<forall>l spec. specs_of t l = Some spec \<longrightarrow> spec \<in> set ys \<and> le_id spec = l" and "insert_logical now t y = Inr t'"
    then obtain st where "t' = bt_insert (le_id y) st t" "ls_spec st = y"
      by (auto simp: insert_logical_def result_simps)
    with P show "\<forall>l spec. specs_of t' l = Some spec \<longrightarrow> spec \<in> set (ys @ [y]) \<and> le_id spec = l"
      by (auto simp: specs_of_insert split: if_splits)
  qed (simp add: specs_of_def)
  with assms(2) show "spec \<in> set endpoints" "le_id spec = l"
    by blast+
qed

lemma registry_lookup_complete:
  assumes ve: "from_verified_plan C plan now = Inr ve"
    and hs: "history (c # h)" "last (c # h) = ve_coordinator ve" and d: "d \<in> set (ds_candidates (co_snapshot c))"
  shows "\<exists>t. registry_lookup (ve_auth_registry ve) d = Inr t"
proof -
  obtain seen groups b where parts: "foldE (add_group C (generation_from_plan plan)) empty_build groups = Inr b"
    "coordinator_new (pb_endpoints b) (pb_seeds b) now = Inr (ve_coordinator ve)"
    and reg: "ve_auth_registry ve = \<lparr> ar_policy_generation = generation_from_plan plan, ar_entries = pb_entries b, ar_logical_to_auth = pb_logical_to_auth b \<rparr>"
    by (rule from_verified_plan_parts [OF ve])
  have ok: "history_ok (c # h)"
    by (rule history_is_ok [OF hs(1)])
  have specs: "co_specs c = co_specs (ve_coordinator ve)"
    using history_okD(3) [OF ok last_in_set] hs(2) by simp
  have "coord_ok c"
    using history_okD(1) [OF ok] by simp
  then have view: "ds_candidates (co_snapshot c) = dialable_view (co_specs c) (co_candidates c)"
    and within: "\<forall>key \<in> set (bt_keys (co_candidates c)). within (co_specs c) key"
    by (simp_all add: coord_ok_def candidates_ok_def)
  obtain key where key: "d = dial_of (co_specs c) key" "within (co_specs c) key"
    using d within set_keys_retain [of cs_dialable "co_candidates c"] unfolding view dialable_view_def by auto
  then obtain spec where spec: "co_specs c (fst key) = Some spec" "snd key \<in> set (au_allowed (le_authority spec))"
    by (auto simp: within_def)
  note new = coordinator_new_specs [OF parts(2) spec(1) [unfolded specs]]
  obtain g a where g: "(g, a) \<in> set groups" "spec_for C (generation_from_plan plan) g a spec"
    using registeredD(2) [OF groups_registered [OF parts(1)] new(1)] by blast
  obtain entry where
    "map_of (pb_logical_to_auth b) (logical_of C g) = Some (auth_of C g)"
    "map_of (pb_entries b) (auth_of C g) = Some entry" "entry_for C (generation_from_plan plan) g a entry"
    using registeredD(3) [OF groups_registered [OF parts(1)] g(1)] by blast
  with g(2) spec new(2) key(1) show ?thesis
    by (simp add: registry_lookup_def reg dial_of_def spec_for_def entry_for_def)
qed

end
