(* ===== verification/Endpoint_Refresh.thy ===== *)
theory Endpoint_Refresh
  imports Endpoint_Observations
begin

text \<open>
  When the resolver is asked again: the refresh time an observation schedules, against a window
  of milliseconds written from the documented limits. The window does not use the code's
  functions.
\<close>

section \<open>The window\<close>

definition clip :: "nat \<Rightarrow> nat \<Rightarrow> nat \<Rightarrow> nat" where
  "clip lo hi t = max lo (min t hi)"

definition jitter_window :: "nat \<Rightarrow> nat \<times> nat" where
  "jitter_window secs = (700 * secs, 900 * secs)"

definition retry_window :: "nat \<Rightarrow> nat \<times> nat" where
  "retry_window failures = (250, min (1000 * 2 ^ failures) 30000)"

text \<open>
  An applied answer is refreshed after 70 to 90 percent of its smallest lifetime, kept within 5
  seconds and one hour; a negative or empty one after 70 to 90 percent of its lifetime, 30 seconds
  when there is none, kept within 5 seconds and 5 minutes; a failure or a rejected answer after a
  delay that doubles with each failure before it, up to 30 seconds.
\<close>

definition refresh_window :: "nat \<Rightarrow> resolution_observation \<Rightarrow> observation_disposition \<Rightarrow> nat \<times> nat" where
  "refresh_window failures obs disposition = (case disposition of
     ObservationApplied \<Rightarrow>
       (case obs of Positive records \<Rightarrow> jitter_window (clip 5 3600 (unat (Min (snd ` set records)))) | _ \<Rightarrow> (0, 0))
   | RetainedEmptyPositive \<Rightarrow> jitter_window 30
   | RetainedNegative \<Rightarrow>
       (case obs of
          NxDomain ttl \<Rightarrow> jitter_window (clip 5 300 (case ttl of None \<Rightarrow> 30 | Some t \<Rightarrow> unat t))
        | NoData ttl \<Rightarrow> jitter_window (clip 5 300 (case ttl of None \<Rightarrow> 30 | Some t \<Rightarrow> unat t))
        | _ \<Rightarrow> retry_window failures)
   | RejectedOutsideAuthority _ \<Rightarrow> retry_window failures
   | RejectedAddressPolicy _ \<Rightarrow> retry_window failures
   | IgnoredOutOfOrder \<Rightarrow> (0, 0))"

definition in_window :: "nat \<times> nat \<Rightarrow> nat \<Rightarrow> bool" where
  "in_window w n \<longleftrightarrow> fst w \<le> n \<and> n \<le> snd w"

section \<open>Delays\<close>

lemma unat_clamp: "unat (clamp t lo hi) = clip (unat lo) (unat hi) (unat t)" if "lo \<le> hi" for t lo hi :: "'a::len word"
  using that by (auto simp: clamp_def clip_def max_def min_def word_le_nat_alt word_less_nat_alt)

lemma jittered_in_window:
  "in_window (jitter_window (clip 5 3600 (unat ttl))) (unat (jittered_ttl_ms ttl entropy))"
proof -
  let ?t = "clip 5 3600 (unat ttl)" and ?e = "unat entropy mod 2001"
  have t: "unat (clamp ttl MIN_TTL_SECS MAX_TTL_SECS) = ?t" "?t \<le> 3600"
    by (simp_all add: unat_clamp MIN_TTL_SECS_def MAX_TTL_SECS_def) (simp add: clip_def)
  then have ut: "unat (ucast (clamp ttl MIN_TTL_SECS MAX_TTL_SECS) :: u64) = ?t"
    by (simp add: unsigned_ucast_eq take_bit_eq_mod)
  have e: "?e \<le> 2000"
    by (simp add: less_Suc_eq_le [symmetric])
  have bp: "unat (7000 + entropy mod 2001) = 7000 + ?e"
    using e by (simp add: unat_word_ariths unat_mod)
  have "?t * 1000 * (7000 + ?e) \<le> 3600 * 1000 * (7000 + 2000)"
    using t(2) e by (intro mult_mono) auto
  then have j: "unat (jittered_ttl_ms ttl entropy) = ?t * 1000 * (7000 + ?e) div 10000"
    using t(2) by (simp add: jittered_ttl_ms_def Let_def unat_div unat_sat_mul bp ut)
  have "?t * 1000 * 7000 \<le> ?t * 1000 * (7000 + ?e)" "?t * 1000 * (7000 + ?e) \<le> ?t * 1000 * 9000"
    using e by (intro mult_le_mono2; simp)+
  then show ?thesis
    using div_le_mono [of "?t * 1000 * 7000" "?t * 1000 * (7000 + ?e)" 10000]
      div_le_mono [of "?t * 1000 * (7000 + ?e)" "?t * 1000 * 9000" 10000]
    by (simp add: j in_window_def jitter_window_def)
qed

lemma jittered_negative:
  "in_window (jitter_window (clip 5 300 (unat ttl)))
     (unat (jittered_ttl_ms (clamp ttl MIN_TTL_SECS MAX_NEGATIVE_TTL_SECS) entropy))"
proof -
  have "clip 5 3600 (unat (clamp ttl MIN_TTL_SECS MAX_NEGATIVE_TTL_SECS)) = clip 5 300 (unat ttl)"
    by (simp add: unat_clamp MIN_TTL_SECS_def MAX_NEGATIVE_TTL_SECS_def) (simp add: clip_def)
  then show ?thesis
    using jittered_in_window [of "clamp ttl MIN_TTL_SECS MAX_NEGATIVE_TTL_SECS" entropy] by simp
qed

lemma retry_ceiling:
  "unat (min (sat_mul RETRY_BASE_MS (push_bit (unat (min (sat_sub (sat_add streak 1) 1) 31)) 1)) RETRY_CAP_MS)
     = min (1000 * 2 ^ unat streak) 30000" for streak :: u32
proof -
  have shift: "unat (min (sat_sub (sat_add streak 1) 1) 31) = min (unat streak) 31"
    using unsigned_less [of streak] by (simp add: min_def word_le_nat_alt unat_sat_sub unat_sat_add)
  define k where "k = min (unat streak) 31"
  have "(2 :: nat) ^ k < 2 ^ 64"
    by (rule power_strict_increasing) (simp_all add: k_def)
  then have "unat (word_of_nat (2 ^ k) :: u64) = 2 ^ k"
    by (subst unat_of_nat) simp
  then have "unat (push_bit k 1 :: u64) = 2 ^ k"
    by (simp add: push_bit_eq_mult)
  moreover have "(2 :: nat) ^ k \<le> 2 ^ 31"
    by (rule power_increasing) (simp_all add: k_def)
  ultimately have "unat (sat_mul RETRY_BASE_MS (push_bit k 1)) = 1000 * 2 ^ k"
    by (simp add: unat_sat_mul RETRY_BASE_MS_def)
  then have "unat (min (sat_mul RETRY_BASE_MS (push_bit k 1)) RETRY_CAP_MS) = min (1000 * 2 ^ k) 30000"
    by (auto simp: min_def word_le_nat_alt RETRY_CAP_MS_def)
  moreover have "min (1000 * 2 ^ k) 30000 = min (1000 * 2 ^ unat streak) (30000 :: nat)"
  proof (cases "unat streak \<le> 31")
    case False
    then have "(2 :: nat) ^ 31 \<le> 2 ^ unat streak"
      by (intro power_increasing) simp_all
    with False show ?thesis
      by (simp add: k_def)
  qed (simp add: k_def)
  ultimately show ?thesis
    by (simp add: shift k_def)
qed

lemma retry_in_window: "in_window (retry_window (unat streak)) (unat (retry_delay_ms (sat_add streak 1) entropy))"
proof -
  define ceiling where
    "ceiling = min (sat_mul RETRY_BASE_MS (push_bit (unat (min (sat_sub (sat_add streak 1) 1) 31)) 1)) RETRY_CAP_MS"
  define width where "width = max (sat_sub ceiling 249) 1"
  have c: "unat ceiling = min (1000 * 2 ^ unat streak) 30000"
    unfolding ceiling_def by (rule retry_ceiling)
  have "(1 :: nat) \<le> 2 ^ unat streak"
    by simp
  then have big: "1000 \<le> unat ceiling" "unat ceiling \<le> 30000"
    unfolding c by auto
  then have w: "unat width = unat ceiling - 249"
    by (auto simp: width_def max_def word_le_nat_alt unat_sat_sub)
  then have m: "unat entropy mod unat width < unat ceiling - 249"
    using big(1) mod_less_divisor [of "unat width" "unat entropy"] by simp
  have "retry_delay_ms (sat_add streak 1) entropy = 250 + entropy mod width"
    by (simp add: retry_delay_ms_def Let_def ceiling_def width_def)
  then have "unat (retry_delay_ms (sat_add streak 1) entropy) = 250 + unat entropy mod unat width"
    using m big(2) by (simp add: unat_word_ariths unat_mod)
  with m big(1) have "250 \<le> unat (retry_delay_ms (sat_add streak 1) entropy)
      \<and> unat (retry_delay_ms (sat_add streak 1) entropy) \<le> unat ceiling"
    by linarith
  then show ?thesis
    unfolding in_window_def retry_window_def c by simp
qed

section \<open>The smallest answered lifetime\<close>

lemma dedup_records_bound:
  "(\<forall>ip t. map_of (dedup_records records) ip = Some t \<longrightarrow> x \<le> t) \<longleftrightarrow> (\<forall>r \<in> set records. x \<le> snd r)"
proof -
  let ?f = "\<lambda>(ip, ttl) dedup. bt_insert ip (case map_of dedup ip of None \<Rightarrow> ttl | Some t \<Rightarrow> min t ttl) dedup"
  have "bt_ok m \<Longrightarrow> (\<forall>ip t. map_of (fold ?f records m) ip = Some t \<longrightarrow> x \<le> t)
    \<longleftrightarrow> (\<forall>r \<in> set records. x \<le> snd r) \<and> (\<forall>ip t. map_of m ip = Some t \<longrightarrow> x \<le> t)" for m
  proof (induction records arbitrary: m)
    case (Cons r records)
    obtain ip ttl where r: "r = (ip, ttl)"
      by (cases r)
    have "bt_ok (?f r m)"
      using Cons.prems by (simp add: r btree_simps)
    moreover have "(\<forall>i t. map_of (?f r m) i = Some t \<longrightarrow> x \<le> t) \<longleftrightarrow> x \<le> ttl \<and> (\<forall>i t. map_of m i = Some t \<longrightarrow> x \<le> t)"
      using Cons.prems by (cases "map_of m ip") (auto simp: r btree_simps split: if_splits)
    ultimately show ?case
      using Cons.IH [of "?f r m"] by (auto simp: r)
  qed simp
  from this [of "[]"] show ?thesis
    by (simp add: dedup_records_def)
qed

lemma min_ttl_dedup:
  assumes "records \<noteq> []"
  shows "min_ttl (dedup_records records) = Min (snd ` set records)"
proof -
  let ?d = "dedup_records records"
  have ok: "bt_ok ?d" and keys: "set (bt_keys ?d) = fst ` set records"
    using dedup_records_keys [of records] by simp_all
  then have ne: "?d \<noteq> []"
    using assms by (auto simp: bt_keys_def)
  then have "min_ttl ?d = Min (snd ` set ?d)"
    by (cases ?d) (simp_all add: min_ttl_def Min.set_eq_fold [symmetric])
  moreover have "x \<le> Min (snd ` set ?d) \<longleftrightarrow> x \<le> Min (snd ` set records)" for x
  proof -
    have "(\<forall>r \<in> set ?d. x \<le> snd r) \<longleftrightarrow> (\<forall>ip t. map_of ?d ip = Some t \<longrightarrow> x \<le> t)"
      using bt_ok_distinct [OF ok] unfolding bt_keys_def by (fastforce simp: map_of_eq_Some_iff)
    then show ?thesis
      using ne assms dedup_records_bound [of records x] by simp
  qed
  ultimately show ?thesis
    by (metis order_refl order_antisym)
qed

section \<open>Scheduling\<close>

text \<open>The refresh time reported is the one recorded, and lies in a window after \<open>now\<close>.\<close>

definition schedules :: "coordinator \<Rightarrow> u64 \<Rightarrow> observation_result \<Rightarrow> u64 \<Rightarrow> nat \<times> nat \<Rightarrow> bool" where
  "schedules c l r now w \<longleftrightarrow> next_refresh_at_ms c l = Inr (ob_next_refresh_at_ms r)
     \<and> (\<exists>delay. ob_next_refresh_at_ms r = sat_add now delay \<and> in_window w (unat delay))"

lemma schedules_update:
  assumes "map_of (co_logical c) l \<noteq> None" "\<And>s. ls_next_refresh_at_ms (f s) = ob_next_refresh_at_ms r"
    and "co_logical c' = bt_update l f (co_logical c)"
    and "ob_next_refresh_at_ms r = sat_add now delay" "in_window w (unat delay)"
  shows "schedules c' l r now w"
  using assms by (auto simp: schedules_def next_refresh_at_ms_def btree_simps)

lemma retain_schedules:
  assumes "retain_with_negative_schedule c l now entropy ttl d = Inr (c', r)"
  shows "ob_disposition r = d
    \<and> schedules c' l r now (jitter_window (clip 5 300 (case ttl of None \<Rightarrow> 30 | Some t \<Rightarrow> unat t)))"
proof -
  let ?t = "case ttl of None \<Rightarrow> DEFAULT_NEGATIVE_TTL_SECS | Some t \<Rightarrow> t"
  have "unat ?t = (case ttl of None \<Rightarrow> 30 | Some t \<Rightarrow> unat t)"
    by (simp add: DEFAULT_NEGATIVE_TTL_SECS_def split: option.splits)
  with jittered_negative [of ?t entropy] have "in_window (jitter_window (clip 5 300 (case ttl of None \<Rightarrow> 30 | Some t \<Rightarrow> unat t)))
      (unat (jittered_ttl_ms (clamp ?t MIN_TTL_SECS MAX_NEGATIVE_TTL_SECS) entropy))"
    by simp
  then show ?thesis
    using assms by (auto simp: retain_with_negative_schedule_def Let_def result_simps ok_or_eq_Inr unchanged_result_def
        intro!: schedules_update [where c = c])
qed

lemma back_off_schedules:
  assumes "back_off c l now entropy d = Inr (c', r)" "map_of (co_logical c) l = Some st"
  shows "ob_disposition r = d \<and> schedules c' l r now (retry_window (unat (ls_failure_streak st)))"
  using assms retry_in_window [of "ls_failure_streak st" entropy]
  by (auto simp: back_off_def Let_def result_simps unchanged_result_def intro!: schedules_update [where c = c])

lemma apply_positive_schedules:
  assumes run: "apply_positive c l records now entropy = Inr (c', r)" and st: "map_of (co_logical c) l = Some st"
    and records: "records \<noteq> []"
  shows "schedules c' l r now (refresh_window (unat (ls_failure_streak st)) (Positive records) (ob_disposition r))
    \<and> ob_disposition r \<noteq> IgnoredOutOfOrder"
proof -
  let ?d = "dedup_records records"
  let ?outside = "filter (\<lambda>ip. ip \<notin> set (au_allowed (le_authority (ls_spec st)))) (bt_keys ?d)"
  let ?rejected = "filter (\<lambda>ip. \<not> permits (le_address_policy (ls_spec st)) ip) (bt_keys ?d)"
  let ?m = "depublish_missing l (bt_keys ?d) (fold (publish_record l now) ?d (co_candidates c))"
  consider (outside) "?outside \<noteq> []" | (rejected) "?outside = []" "?rejected \<noteq> []"
    | (empty) "?outside = []" "?rejected = []" "\<not> list_ex (\<lambda>(_, s). cs_dialable s) ?m"
    | (applied) "?outside = []" "?rejected = []" "list_ex (\<lambda>(_, s). cs_dialable s) ?m"
    by blast
  then show ?thesis
  proof cases
    case outside
    then have "back_off c l now entropy (RejectedOutsideAuthority ?outside) = Inr (c', r)"
      using run st by (simp add: apply_positive_def Let_def reject_observation_def)
    from back_off_schedules [OF this st] show ?thesis
      by (simp add: refresh_window_def)
  next
    case rejected
    then have "back_off c l now entropy (RejectedAddressPolicy ?rejected) = Inr (c', r)"
      using run st by (simp add: apply_positive_def Let_def reject_observation_def)
    from back_off_schedules [OF this st] show ?thesis
      by (simp add: refresh_window_def)
  next
    case empty
    then have "retain_with_negative_schedule c l now entropy None RetainedEmptyPositive = Inr (c', r)"
      using run st by (simp add: apply_positive_def Let_def)
    from retain_schedules [OF this] show ?thesis
      by (simp add: refresh_window_def clip_def)
  next
    case applied
    let ?n = "sat_add now (jittered_ttl_ms (min_ttl ?d) entropy)"
    have r: "ob_disposition r = ObservationApplied" "ob_next_refresh_at_ms r = ?n"
      "co_logical c' = bt_update l (\<lambda>s. s \<lparr> ls_failure_streak := 0, ls_next_refresh_at_ms := ?n \<rparr>) (co_logical c)"
      using run applied st by (auto simp: apply_positive_def Let_def result_simps)
    have "in_window (jitter_window (clip 5 3600 (unat (Min (snd ` set records)))))
        (unat (jittered_ttl_ms (min_ttl ?d) entropy))"
      using jittered_in_window min_ttl_dedup [OF records] by simp
    then have "schedules c' l r now (jitter_window (clip 5 3600 (unat (Min (snd ` set records)))))"
      using st r by (intro schedules_update [where c = c, OF _ _ r(3,2)]) simp_all
    with r(1) show ?thesis
      by (simp add: refresh_window_def)
  qed
qed

lemma apply_observation_schedules:
  assumes run: "apply_observation c (l, q) obs now entropy = Inr (c', r)" and st: "map_of (co_logical c) l = Some st"
  shows "if q \<noteq> ls_latest_query_sequence st \<or> q \<le> ls_last_applied_sequence st
    then ob_disposition r = IgnoredOutOfOrder \<and> c' = c \<and> next_refresh_at_ms c l = Inr (ob_next_refresh_at_ms r)
    else ob_disposition r \<noteq> IgnoredOutOfOrder
      \<and> schedules c' l r now (refresh_window (unat (ls_failure_streak st)) obs (ob_disposition r))"
proof (cases "q \<noteq> ls_latest_query_sequence st \<or> q \<le> ls_last_applied_sequence st")
  case True
  with run st show ?thesis
    by (auto simp: apply_observation_def next_refresh_at_ms_def unchanged_result_def)
next
  case False
  let ?f = "\<lambda>s. s \<lparr> ls_last_applied_sequence := q \<rparr>"
  let ?c1 = "c \<lparr> co_logical := bt_update l ?f (co_logical c) \<rparr>"
  have c1: "map_of (co_logical ?c1) l = Some (?f st)"
    using st by (simp add: btree_simps)
  have run': "(case obs of
         Positive records \<Rightarrow>
           if records = [] then retain_with_negative_schedule ?c1 l now entropy None RetainedEmptyPositive
           else apply_positive ?c1 l records now entropy
       | NxDomain ttl \<Rightarrow> retain_with_negative_schedule ?c1 l now entropy ttl RetainedNegative
       | NoData ttl \<Rightarrow> retain_with_negative_schedule ?c1 l now entropy ttl RetainedNegative
       | TransientFailure \<Rightarrow> back_off ?c1 l now entropy RetainedNegative) = Inr (c', r)"
    using False st run by (cases obs) (simp_all add: apply_observation_def Let_def split: if_splits)
  show ?thesis
  proof (cases obs)
    case (Positive records)
    show ?thesis
    proof (cases "records = []")
      case True
      then have "retain_with_negative_schedule ?c1 l now entropy None RetainedEmptyPositive = Inr (c', r)"
        using run' Positive by simp
      from retain_schedules [OF this] False show ?thesis
        by (auto simp: refresh_window_def clip_def)
    next
      case nonempty: False
      then have "apply_positive ?c1 l records now entropy = Inr (c', r)"
        using run' Positive by simp
      from apply_positive_schedules [OF this c1 nonempty] False Positive show ?thesis
        by simp
    qed
  next
    case (NxDomain ttl)
    then have "retain_with_negative_schedule ?c1 l now entropy ttl RetainedNegative = Inr (c', r)"
      using run' by simp
    from retain_schedules [OF this] False NxDomain show ?thesis
      by (auto simp: refresh_window_def)
  next
    case (NoData ttl)
    then have "retain_with_negative_schedule ?c1 l now entropy ttl RetainedNegative = Inr (c', r)"
      using run' by simp
    from retain_schedules [OF this] False NoData show ?thesis
      by (auto simp: refresh_window_def)
  next
    case TransientFailure
    then have "back_off ?c1 l now entropy RetainedNegative = Inr (c', r)"
      using run' by simp
    from back_off_schedules [OF this c1] False TransientFailure show ?thesis
      by (auto simp: refresh_window_def)
  qed
qed

end
