(* ===== verification/Endpoint_Properties.thy ===== *)
theory Endpoint_Properties
  imports Endpoint_Registry Endpoint_Refresh Policy_Sample
begin

text \<open>
  What endpoint selection guarantees: along every history of the coordinator, for every plan it
  proposes, for what an observation changes, and for what the registry releases to the dialer.
\<close>

section \<open>A sample coordinator\<close>

definition sample_logical :: logical_endpoint where
  "sample_logical = \<lparr> le_id = 7, le_hostname = ''a.b'', le_port = 443, le_protocol = Tcp, le_auth = 1,
     le_authority = \<lparr> au_manifest_generation = 3, au_allowed = [[8, 8, 4, 4], [9, 9, 9, 9]] \<rparr>,
     le_address_policy = \<lparr> ap_allow_private = False \<rparr> \<rparr>"

definition sample_start :: coordinator where
  "sample_start = \<lparr> co_revision = 1,
     co_logical = [(7, \<lparr> ls_spec = sample_logical, ls_latest_query_sequence = 0, ls_last_applied_sequence = 0,
       ls_failure_streak = 0, ls_next_refresh_at_ms = 5000 \<rparr>)],
     co_candidates = [((7, [8, 8, 4, 4]), new_candidate)], co_leases = [], co_next_lease_id = 1,
     co_snapshot = \<lparr> ds_generation = 1, ds_candidates = [\<lparr> dc_key = (7, [8, 8, 4, 4]), dc_address = ([8, 8, 4, 4], 443),
       dc_protocol = Tcp, dc_auth = 1, dc_authority_generation = 3 \<rparr>] \<rparr> \<rparr>"

definition sample_asked :: coordinator where
  "sample_asked = sample_start \<lparr> co_revision := 2,
     co_logical := [(7, \<lparr> ls_spec = sample_logical, ls_latest_query_sequence = 1, ls_last_applied_sequence = 0,
       ls_failure_streak = 0, ls_next_refresh_at_ms = 5000 \<rparr>)] \<rparr>"

definition sample_leased :: coordinator where
  "sample_leased = sample_asked \<lparr> co_revision := 3, co_candidates := [((7, [8, 8, 4, 4]), new_candidate \<lparr> cs_leases := 1 \<rparr>)],
     co_leases := [(1, 7, [8, 8, 4, 4])], co_next_lease_id := 2 \<rparr>"

text \<open>The answer 9.9.9.9 replaces the seed, which is leased and stays allowed.\<close>

definition sample_observed_state :: coordinator where
  "sample_observed_state = sample_leased \<lparr> co_revision := 4,
     co_logical := [(7, \<lparr> ls_spec = sample_logical, ls_latest_query_sequence = 1, ls_last_applied_sequence = 1,
       ls_failure_streak = 0, ls_next_refresh_at_ms = 42100 \<rparr>)],
     co_candidates := [((7, [8, 8, 4, 4]), \<lparr> cs_valid_until_ms = None, cs_dialable = False, cs_leases = 1 \<rparr>),
       ((7, [9, 9, 9, 9]), \<lparr> cs_valid_until_ms = Some 60100, cs_dialable = True, cs_leases = 0 \<rparr>)],
     co_snapshot := \<lparr> ds_generation = 2, ds_candidates = [\<lparr> dc_key = (7, [9, 9, 9, 9]), dc_address = ([9, 9, 9, 9], 443),
       dc_protocol = Tcp, dc_auth = 1, dc_authority_generation = 3 \<rparr>] \<rparr> \<rparr>"

definition sample_prepared :: "observation_result prepared" where
  "sample_prepared = \<lparr> pr_base_revision = 3, pr_projected = sample_observed_state,
     pr_result = \<lparr> ob_disposition = ObservationApplied,
       ob_plan = \<lparr> tr_operations = [Firewall (Allow (([9, 9, 9, 9], 443), Tcp)), Route (AddBypass [9, 9, 9, 9]), PublishSnapshot 1 2],
         tr_snapshot = co_snapshot sample_observed_state \<rparr>, ob_next_refresh_at_ms = 42100 \<rparr> \<rparr>"

lemmas sample_coordinator_defs = sample_logical_def sample_start_def sample_asked_def sample_leased_def

lemma sample_created: "coordinator_new [sample_logical] [(7, [8, 8, 4, 4])] 0 = Inr sample_start"
  by (simp add: coordinator_new_def insert_logical_def validate_hostname_def trim_end_def  insert_seed_def permits_def
      is_private_def build_snapshot_def dial_candidate_of_def new_candidate_def bt_retain_def sat_add_def sample_coordinator_defs)

lemma sample_query: "begin_query sample_start 7 = Inr (sample_asked, 7, 1)"
  by (simp add: begin_query_def next_revision_def u64_checked_add_def bt_update_def sample_coordinator_defs)

lemma coordinator_leases: "acquire sample_asked (7, [8, 8, 4, 4]) = Inr (sample_leased, 1, 7, [8, 8, 4, 4])"
  by (simp add: acquire_def next_revision_def u64_checked_add_def u32_checked_add_def bt_update_def new_candidate_def sample_coordinator_defs)

lemma coordinator_run: "history [sample_leased, sample_asked, sample_start]"
  using history.lease [OF history.query [OF history.start [OF sample_created] sample_query] coordinator_leases] .

lemma sample_observed:
  "prepare_observation sample_leased (7, 1) (Positive [([9, 9, 9, 9], 60)]) 100 0 = Inr sample_prepared"
  by (simp add: prepare_observation_def apply_observation_def apply_positive_def dedup_records_def publish_record_def
      depublish_missing_def permits_def is_private_def build_snapshot_def dial_candidate_of_def new_candidate_def bt_retain_def
      transition_plan_of_def access_refs_def endpoint_tuple_def bts_of_list_def validate_order_def next_revision_def
      u64_checked_add_def sat_add_def sat_mul_def jittered_ttl_ms_def min_ttl_def clamp_def MIN_TTL_SECS_def MAX_TTL_SECS_def
      bt_update_def Let_def sample_prepared_def sample_observed_state_def sample_coordinator_defs)

lemma commits_current:
  assumes ok: "history_ok (c # h)" and old: "old \<in> set (c # h)"
  shows "prepare_observation old stamp obs now entropy = Inr p \<Longrightarrow>
        commit_observation c p = (if old = c then Inr (pr_projected p, pr_result p) else Inl StaleTransition)"
      "prepare_release old lease = Inr q \<Longrightarrow>
        commit_release c q = (if old = c then Inr (pr_projected q, pr_result q) else Inl StaleTransition)"
      "prepare_retirement old = Inr (Some q) \<Longrightarrow>
        commit_retirement c q = (if old = c then Inr (pr_projected q, pr_result q) else Inl StaleTransition)"
      "prepare_authority_rehydration old = Inr s \<Longrightarrow>
        commit_authority_rehydration c s = (if old = c then Inr (pr_projected s, pr_result s) else Inl StaleTransition)"
  unfolding commit_observation_def commit_release_def commit_retirement_def commit_authority_rehydration_def
  by (rule commit_current [OF ok old], erule prepare_observation_Inr(1) prepare_release_Inr(1) prepare_retirement_Inr(1)
        prepare_authority_rehydration_Inr(1), (rule history_okD(1,2) [OF ok old])+)+

lemma sample_adapter: "\<exists>plan ve. build_verified_plan sample_genesis = Inr plan \<and> from_verified_plan sample_crypto plan 0 = Inr ve"
  by (simp add: build_verified_plan_def plan_service_def server_pins_new_def plan_endpoint_of_def from_verified_plan_def
      group_endpoint_def from_verified_endpoint_def server_pins_is_empty_def pe_reality_short_id_def server_pins_as_slice_def
      server_pins_len_def add_group_def reject_identifier_collision_def coord_result_def from_preverified_manifest_def bts_of_list_def
      pins_new_def MAX_SERVER_PINS_def empty_build_def coordinator_new_def insert_logical_def validate_hostname_def trim_end_def
      insert_seed_def permits_def is_private_def build_snapshot_def dial_candidate_of_def bt_retain_def new_candidate_def
      limit_defs Let_def sample_genesis_def sample_endpoint_def sample_pin_def)

section \<open>Hosts\<close>

definition reaches :: "host \<Rightarrow> dial_candidate \<Rightarrow> bool" where
  "reaches h d \<longleftrightarrow> (dc_address d, dc_protocol d) \<in> ho_allowed h \<and> fst (dc_address d) \<in> ho_routes h"

definition signed_tuples :: "(u64 \<Rightarrow> logical_endpoint option) \<Rightarrow> carrier_tuple set" where
  "signed_tuples specs = {endpoint_tuple spec ip | l spec ip. specs l = Some spec \<and> ip \<in> set (au_allowed (le_authority spec))}"

lemma snapshot_reaches:
  assumes "coord_ok c" "d \<in> set (ds_candidates (co_snapshot c))"
  shows "reaches (co_host c) d"
proof -
  from assms obtain key where "d = dial_of (co_specs c) key" "key \<in> set (bt_keys (co_candidates c))"
    using set_keys_retain [of cs_dialable "co_candidates c"]
    by (auto simp: coord_ok_def candidates_ok_def dialable_view_def)
  then show ?thesis
    by (auto simp: reaches_def co_host_def host_of_def dial_of_def Let_def tuple_of_def endpoint_tuple_def image_iff)
qed

lemma host_signed: "coord_ok c \<Longrightarrow> ho_allowed (co_host c) \<subseteq> signed_tuples (co_specs c)"
  using coord_okD(2) [of c]
  by (fastforce simp: co_host_def host_of_def tuple_of_def signed_tuples_def within_def)

section \<open>Properties\<close>

text \<open>C36. Whatever queries, leases and commits a coordinator has gone through, with transitions
  prepared in any earlier state: every candidate is an address its signed authority lists and its
  address policy permits, the published snapshot lists exactly the dialable candidates and is
  never empty, every lease counter is the number of leases held and a leased candidate is still
  there, the signed configuration is the original one, and a prepared observation, release,
  retirement or rehydration commits exactly when it was prepared in the current state.\<close>

theorem coordinator_history_safe:
  assumes "history (c # h)"
  shows "(\<forall>key \<in> set (bt_keys (co_candidates c)). within (co_specs c) key)
    \<and> map dc_key (ds_candidates (co_snapshot c)) = bt_keys (bt_retain cs_dialable (co_candidates c))
    \<and> ds_candidates (co_snapshot c) \<noteq> []
    \<and> (\<forall>key s. map_of (co_candidates c) key = Some s \<longrightarrow> unat (cs_leases s) = card {i. map_of (co_leases c) i = Some key})
    \<and> (\<forall>i key. map_of (co_leases c) i = Some key \<longrightarrow> key \<in> set (bt_keys (co_candidates c)))
    \<and> (\<forall>old \<in> set (c # h). co_specs old = co_specs c
         \<and> (\<forall>stamp obs now entropy p. prepare_observation old stamp obs now entropy = Inr p \<longrightarrow>
              commit_observation c p = (if old = c then Inr (pr_projected p, pr_result p) else Inl StaleTransition))
         \<and> (\<forall>lease p. prepare_release old lease = Inr p \<longrightarrow>
              commit_release c p = (if old = c then Inr (pr_projected p, pr_result p) else Inl StaleTransition))
         \<and> (\<forall>p. prepare_retirement old = Inr (Some p) \<longrightarrow>
              commit_retirement c p = (if old = c then Inr (pr_projected p, pr_result p) else Inl StaleTransition))
         \<and> (\<forall>p. prepare_authority_rehydration old = Inr p \<longrightarrow>
              commit_authority_rehydration c p = (if old = c then Inr (pr_projected p, pr_result p) else Inl StaleTransition)))"
proof -
  have ok: "history_ok (c # h)"
    by (rule history_is_ok [OF assms])
  then have c: "coord_ok c"
    using history_okD(1) by simp
  have view: "ds_candidates (co_snapshot c) = dialable_view (co_specs c) (co_candidates c)" "ds_candidates (co_snapshot c) \<noteq> []"
    using c unfolding coord_ok_def candidates_ok_def by blast+
  show ?thesis
  proof (intro conjI)
    show "map dc_key (ds_candidates (co_snapshot c)) = bt_keys (bt_retain cs_dialable (co_candidates c))"
      unfolding view(1) by (rule dialable_view_keys)
    show "\<forall>old \<in> set (c # h). co_specs old = co_specs c
         \<and> (\<forall>stamp obs now entropy p. prepare_observation old stamp obs now entropy = Inr p \<longrightarrow>
              commit_observation c p = (if old = c then Inr (pr_projected p, pr_result p) else Inl StaleTransition))
         \<and> (\<forall>lease p. prepare_release old lease = Inr p \<longrightarrow>
              commit_release c p = (if old = c then Inr (pr_projected p, pr_result p) else Inl StaleTransition))
         \<and> (\<forall>p. prepare_retirement old = Inr (Some p) \<longrightarrow>
              commit_retirement c p = (if old = c then Inr (pr_projected p, pr_result p) else Inl StaleTransition))
         \<and> (\<forall>p. prepare_authority_rehydration old = Inr p \<longrightarrow>
              commit_authority_rehydration c p = (if old = c then Inr (pr_projected p, pr_result p) else Inl StaleTransition))"
      using history_okD(3) [OF ok] commits_current [OF ok] by blast
  qed (use coord_okD [OF c] view(2) in \<open>unfold lease_count_def, blast+\<close>)
qed

theorem coordinator_history_safe_witness:
  "history [sample_leased, sample_asked, sample_start] \<and> within (co_specs sample_leased) (7, [8, 8, 4, 4])
   \<and> card {i. map_of (co_leases sample_leased) i = Some (7, [8, 8, 4, 4])} = 1
   \<and> co_specs sample_start = co_specs sample_leased"
proof -
  let ?key = "(7, [8, 8, 4, 4])"
  have "?key \<in> set (bt_keys (co_candidates sample_leased))"
    and state: "map_of (co_candidates sample_leased) ?key = Some (new_candidate \<lparr> cs_leases := 1 \<rparr>)"
    by (simp_all add: sample_coordinator_defs)
  then have "within (co_specs sample_leased) ?key"
    using coordinator_history_safe [OF coordinator_run] by blast
  moreover have "unat (cs_leases (new_candidate \<lparr> cs_leases := 1 \<rparr>)) = card {i. map_of (co_leases sample_leased) i = Some ?key}"
    using coordinator_history_safe [OF coordinator_run] state by blast
  moreover have "co_specs sample_start = co_specs sample_leased"
    using coordinator_history_safe [OF coordinator_run] by simp
  ultimately show ?thesis
    using coordinator_run by simp
qed

text \<open>C37. Every plan the coordinator proposes (for an observation, a rehydration, a release or a
  retirement) is safe at each point of its execution. After any number of its operations the host
  still lets through and routes every candidate of the snapshot that is published at that point
  and every leased candidate that keeps its lease, and allows nothing outside the signed
  authorities; all operations together lead to the host state of the proposed coordinator; and
  undoing what was executed, last operation first, restores the host.\<close>

theorem transition_plans_safe:
  assumes "history (c # h)" "proposes c c' plan"
    and "host = fold exec_op (take n (tr_operations plan)) (co_host c)"
    and "published = list_ex is_publish (take n (tr_operations plan))"
  shows "(\<forall>d \<in> set (ds_candidates (co_snapshot (if published then c' else c))). reaches host d)
    \<and> (\<forall>i key. map_of (co_leases c) i = Some key \<and> map_of (co_leases c') i = Some key \<longrightarrow>
         tuple_of (co_specs c) key \<in> ho_allowed host \<and> snd key \<in> ho_routes host)
    \<and> ho_allowed host \<subseteq> signed_tuples (co_specs c)
    \<and> (length (tr_operations plan) \<le> n \<longrightarrow> host = co_host c')
    \<and> fold exec_op (undo (take n (tr_operations plan))) host = co_host c"
proof -
  have ok: "history_ok (c # h)"
    by (rule history_is_ok [OF assms(1)])
  have c: "coord_ok c" "specs_permitted (co_specs c)"
    using history_okD(1,2) [OF ok] by simp_all
  have c': "coord_ok c'" "co_specs c' = co_specs c"
    using proposes_ok [OF assms(2) c] by simp_all
  obtain publish where plan: "plan_between (co_host c) (co_host c') publish (tr_operations plan)"
    and same: "\<not> publish \<longrightarrow> co_snapshot c' = co_snapshot c"
    using proposes_ok [OF assms(2) c] unfolding plan_ok_def by blast
  note pre = plan_between_prefix [OF plan, of n, folded assms(3,4)]
  have "reaches host d" if d: "d \<in> set (ds_candidates (co_snapshot (if published then c' else c)))" for d
  proof (cases published)
    case True
    with pre(6) snapshot_reaches [OF c'(1)] d show ?thesis
      by (auto simp: reaches_def)
  next
    case False
    then have old: "reaches (co_host c) d"
      using snapshot_reaches [OF c(1)] d by simp
    show ?thesis
    proof (cases publish)
      case True
      with False pre(5) old show ?thesis
        by (auto simp: reaches_def)
    next
      case no_publish: False
      with same d False have "reaches (co_host c') d"
        using snapshot_reaches [OF c'(1)] by simp
      with old pre(1,3) show ?thesis
        by (auto simp: reaches_def)
    qed
  qed
  moreover have "tuple_of (co_specs c) key \<in> ho_allowed host \<and> snd key \<in> ho_routes host"
    if "map_of (co_leases c) i = Some key" "map_of (co_leases c') i = Some key" for i key
  proof -
    have "key \<in> set (bt_keys (co_candidates c))" "key \<in> set (bt_keys (co_candidates c'))"
      using coord_okD(4) [OF c(1) that(1)] coord_okD(4) [OF c'(1) that(2)] by simp_all
    then show ?thesis
      using pre(1,3) c'(2) by (auto simp: co_host_def host_of_def)
  qed
  moreover have "ho_allowed host \<subseteq> signed_tuples (co_specs c)"
    using pre(2) host_signed [OF c(1)] host_signed [OF c'(1)] c'(2) by auto
  moreover have "host = co_host c'" if "length (tr_operations plan) \<le> n"
    using plan_between_exec [OF plan] that by (simp add: assms(3))
  moreover have "fold exec_op (undo (take n (tr_operations plan))) host = co_host c"
    unfolding assms(3) by (rule undo_restores [OF all_effective_take [OF plan_between_effective [OF plan]]])
  ultimately show ?thesis
    by blast
qed

theorem transition_plans_safe_witness:
  "let host = fold exec_op (take 2 (tr_operations (ob_plan (pr_result sample_prepared)))) (co_host sample_leased) in
   tuple_of (co_specs sample_leased) (7, [8, 8, 4, 4]) \<in> ho_allowed host
   \<and> fold exec_op (undo (take 2 (tr_operations (ob_plan (pr_result sample_prepared))))) host = co_host sample_leased"
  using transition_plans_safe [OF coordinator_run proposes.observation [OF sample_observed] refl refl, of 2]
  by (auto simp: Let_def sample_prepared_def sample_observed_state_def sample_coordinator_defs)

text \<open>C38. An observation for a known endpoint is always prepared while the revision counter
  lasts. If it is applied, it is a positive answer and the addresses published for the endpoint
  are exactly the answered ones; otherwise the candidates, and so what is dialed, stay as they
  were. An observation that is not of the newest query, or comes a second time, changes nothing
  but the revision. Every other one records the refresh time it reports, and that time lies after
  \<open>now\<close> by a delay within the window of its outcome, for every entropy: 70 to 90 percent of the
  smallest answered lifetime, of the negative lifetime, or a retry delay that doubles with the
  failures before it and stays between 0.25 and 30 seconds (\<open>refresh_window\<close>).\<close>

theorem observations_total:
  assumes "history (c # h)" "map_of (co_logical c) l = Some st" "co_revision c \<noteq> - 1"
  shows "\<exists>p. prepare_observation c (l, q) obs now entropy = Inr p
      \<and> co_leases (pr_projected p) = co_leases c
      \<and> (if ob_disposition (pr_result p) = ObservationApplied
         then \<exists>records. obs = Positive records
           \<and> {ip. (l, ip) \<in> dc_key ` set (ds_candidates (co_snapshot (pr_projected p)))} = fst ` set records
         else co_candidates (pr_projected p) = co_candidates c
           \<and> ds_candidates (co_snapshot (pr_projected p)) = ds_candidates (co_snapshot c))
      \<and> next_refresh_at_ms (pr_projected p) l = Inr (ob_next_refresh_at_ms (pr_result p))
      \<and> (if q \<noteq> ls_latest_query_sequence st \<or> q \<le> ls_last_applied_sequence st
         then ob_disposition (pr_result p) = IgnoredOutOfOrder
           \<and> pr_projected p = c \<lparr> co_revision := co_revision c + 1 \<rparr>
         else ob_disposition (pr_result p) \<noteq> IgnoredOutOfOrder
           \<and> (\<exists>delay. ob_next_refresh_at_ms (pr_result p) = sat_add now delay
                \<and> in_window (refresh_window (unat (ls_failure_streak st)) obs (ob_disposition (pr_result p))) (unat delay)))"
proof -
  have c: "coord_ok c"
    using history_okD(1) [OF history_is_ok [OF assms(1)]] by simp
  have known: "map_of (co_logical c) l \<noteq> None"
    using assms(2) by simp
  obtain c' r where run: "apply_observation c (l, q) obs now entropy = Inr (c', r)" and ok: "observation_ok c c' r"
    and effect: "ob_disposition r = ObservationApplied \<Longrightarrow> \<exists>records. obs = Positive records
       \<and> {ip. (l, ip) \<in> set (bt_keys (bt_retain cs_dialable (co_candidates c')))} = fst ` set records"
      "ob_disposition r \<noteq> ObservationApplied \<Longrightarrow> co_candidates c' = co_candidates c"
    by (rule apply_observation_ok [OF c known, of q obs now entropy]) blast
  have view: "ds_candidates (co_snapshot c) = dialable_view (co_specs c) (co_candidates c)"
    "ds_candidates (co_snapshot c') = dialable_view (co_specs c') (co_candidates c')"
    using c ok unfolding observation_ok_def coord_ok_def candidates_ok_def by blast+
  have keys: "dc_key ` set (ds_candidates (co_snapshot c')) = set (bt_keys (bt_retain cs_dialable (co_candidates c')))"
    unfolding view(2) dialable_view_keys [of "co_specs c'", symmetric] by simp
  have "unat (co_revision c) \<noteq> unat (- 1 :: u64)"
    using assms(3) by (metis unsigned_word_eqI)
  moreover have "unat (co_revision c) < 2 ^ 64"
    using unsigned_less [of "co_revision c"] by simp
  ultimately have "u64_checked_add (co_revision c) 1 = Some (co_revision c + 1)"
    by (simp add: u64_checked_add_def unat_max_word)
  then have "prepare_observation c (l, q) obs now entropy = Inr
      \<lparr> pr_base_revision = co_revision c, pr_projected = c' \<lparr> co_revision := co_revision c + 1 \<rparr>, pr_result = r \<rparr>"
    using run by (simp add: prepare_observation_def next_revision_def)
  moreover have "ds_candidates (co_snapshot c') = ds_candidates (co_snapshot c)" if "ob_disposition r \<noteq> ObservationApplied"
    using effect(2) [OF that] ok unfolding view by (simp add: observation_ok_def)
  moreover note apply_observation_schedules [OF run assms(2)]
  ultimately show ?thesis
    using effect ok
    by (cases "q \<noteq> ls_latest_query_sequence st \<or> q \<le> ls_last_applied_sequence st")
      (simp_all add: keys observation_ok_def schedules_def next_refresh_at_ms_def)
qed

theorem observations_total_witness:
  "prepare_observation sample_leased (7, 1) (Positive [([9, 9, 9, 9], 60)]) 100 0 = Inr sample_prepared
   \<and> (\<exists>delay. next_refresh_at_ms (pr_projected sample_prepared) 7 = Inr (sat_add 100 delay)
        \<and> 42000 \<le> unat delay \<and> unat delay \<le> 54000)"
proof -
  let ?st = "\<lparr> ls_spec = sample_logical, ls_latest_query_sequence = 1,
      ls_last_applied_sequence = 0, ls_failure_streak = 0, ls_next_refresh_at_ms = 5000 \<rparr>"
  have st: "map_of (co_logical sample_leased) 7 = Some ?st" "co_revision sample_leased \<noteq> - 1"
    by (simp_all add: sample_coordinator_defs)
  have newest: "\<not> ((1 :: u64) \<noteq> ls_latest_query_sequence ?st \<or> 1 \<le> ls_last_applied_sequence ?st)"
    by simp
  have applied: "ob_disposition (pr_result sample_prepared) = ObservationApplied"
    by (simp add: sample_prepared_def)
  obtain delay where "next_refresh_at_ms (pr_projected sample_prepared) 7 = Inr (sat_add 100 delay)"
    "in_window (refresh_window (unat (ls_failure_streak ?st)) (Positive [([9, 9, 9, 9], 60)])
       (ob_disposition (pr_result sample_prepared))) (unat delay)"
    using observations_total [OF coordinator_run st, of 1 "Positive [([9, 9, 9, 9], 60)]" 100 0]
    unfolding sample_observed sum.inject if_not_P [OF newest] by auto
  with sample_observed show ?thesis
    unfolding applied by (auto simp: in_window_def refresh_window_def jitter_window_def clip_def)
qed

text \<open>C39. Only signed material is dialed, and everything published can be dialed. Build the
  coordinator and the registry from the plan of a policy, and let the coordinator run through any
  history. Every candidate of its snapshot gets a dial target from the registry. Whatever
  candidate is presented, a target the registry releases has the candidate's address, and that
  address, the SNI, the public key, the short id and the pins are those of one endpoint of one
  service of the policy, under the policy's epoch and sequence.\<close>

theorem dial_targets_signed:
  assumes "build_verified_plan p = Inr plan" "from_verified_plan C plan now = Inr ve"
    and "history (c # h)" "last (c # h) = ve_coordinator ve"
  shows "(\<forall>d \<in> set (ds_candidates (co_snapshot c)). \<exists>t. registry_lookup (ve_auth_registry ve) d = Inr t)
    \<and> (\<forall>d t. registry_lookup (ve_auth_registry ve) d = Inr t \<longrightarrow> dt_address t = dc_address d \<and> signed_target p t)"
  using registry_lookup_complete [OF assms(2-4)] registry_lookup_sound [OF assms(1,2)] by blast

theorem dial_targets_signed_witness:
  "\<exists>plan ve t. build_verified_plan sample_genesis = Inr plan \<and> from_verified_plan sample_crypto plan 0 = Inr ve
     \<and> history [ve_coordinator ve]
     \<and> registry_lookup (ve_auth_registry ve) (hd (ds_candidates (co_snapshot (ve_coordinator ve)))) = Inr t
     \<and> signed_target sample_genesis t"
proof -
  obtain plan ve where run: "build_verified_plan sample_genesis = Inr plan" "from_verified_plan sample_crypto plan 0 = Inr ve"
    using sample_adapter by blast
  have hist: "history [ve_coordinator ve]"
    by (rule from_verified_plan_parts [OF run(2)]) (rule history.start)
  then have "coord_ok (ve_coordinator ve)"
    using history_okD(1) [OF history_is_ok] by simp
  then have "hd (ds_candidates (co_snapshot (ve_coordinator ve))) \<in> set (ds_candidates (co_snapshot (ve_coordinator ve)))"
    unfolding coord_ok_def candidates_ok_def by (intro hd_in_set) blast
  with dial_targets_signed [OF run hist] run hist show ?thesis
    by (metis last.simps)
qed

end
