(* ===== verification/Spec2Isabelle.thy ===== *)
theory Spec2Isabelle
  imports Policy_Properties Store_Properties Session_Properties Allowlist_Properties Tunnel_Properties Endpoint_Properties
begin

text \<open>
  \<^bold>\<open>shadowpipe: a verification development\<close>

  shadowpipe is an encrypted tunnel. A client learns which servers to dial, and which keys to
  trust there, from signed policy bundles that it keeps in a durable store. It then opens a
  connection through some carrier, proves knowledge of an enrolled secret, runs a hybrid
  handshake (X25519 and ML-KEM, Ed25519 and HMAC proofs) and carries packets in padded,
  encrypted frames. The server admits the clients of an allowlist file. The sources are under
  \<open>crates/shadowpipe-core/src\<close>.

  \<^bold>\<open>Foundations\<close>

  \<^item> \<open>Prelude\<close>: machine integers as words, \<open>i64\<close> as \<open>int\<close> with its range, results as sums with
    \<open>bindR\<close> for the question-mark operator, \<open>foldE\<close> for loops with early errors, and parsers over
    the remaining bytes.
  \<^item> \<open>Minicbor\<close>: the third-party CBOR library as a record of functions, the locale
    \<open>cbor_codec\<close> with the behaviour the sources rely on, and an RFC 8949 codec on which the
    locale is interpreted.

  \<^bold>\<open>Signed policies\<close>

  \<^item> \<open>Policy_Schema\<close> (\<open>signed_policy/schema.rs\<close>, \<open>error.rs\<close>): limits, enumerations, signed objects,
    errors. Rust field types (array lengths, \<open>i64\<close> ranges, UTF-8) are the \<open>typed\<close> predicates.
  \<^item> \<open>Policy_Cbor\<close> (\<open>cbor.rs\<close>): encoders and decoders of keysets, policies and bundles.
  \<^item> \<open>Policy_Cose\<close> (\<open>cose.rs\<close>): COSE_Sign1 envelopes; Ed25519, SHA-256 and X25519 are the
    fields of the parameter \<open>crypto\<close>.
  \<^item> \<open>Policy_Plan\<close> (\<open>plan.rs\<close>): verified server pins and the dialing plan.
  \<^item> \<open>Policy_Verify\<close> (\<open>verify.rs\<close>): validity of keysets and policies, \<open>verify_bundle\<close>.
  \<^item> \<open>Policy_Update\<close> (\<open>state.rs\<close>): rotation, coordinates, \<open>apply_verified_update\<close>, histories.
  \<^item> \<open>Policy_Store\<close> (\<open>policy_state.rs\<close>): the state and tombstone files, the checks on the directory,
    and the store operations that load, enroll, update and retire a policy.
  \<^item> \<open>Policy_Sample\<close>: a concrete issuer history. \<open>Policy_Properties\<close> and \<open>Store_Properties\<close>: the
    properties, with instances on that history.

  \<^bold>\<open>The inner protocol\<close>

  \<^item> \<open>Wire_Proto\<close> (\<open>proto/mod.rs\<close>): hello messages, frames and variable-length integers. A reader is
    a function on the remaining bytes; a writer returns the bytes written before an error.
  \<^item> \<open>Session_Crypto\<close> (\<open>crypto/mod.rs\<close>): the key schedule, AEAD sessions with nonce counters and
    poisoned directions, ML-KEM storage forms. The primitives are the fields of the parameter
    \<open>session_crypto\<close>; \<open>primitives_ok\<close> states what their documentation promises.
  \<^item> \<open>Private_Files\<close> (\<open>session.rs\<close>, \<open>client_auth.rs\<close>): reading, staging and publishing private files,
    trusted directories and the mutation lock. A file system is a map from paths to files with
    their metadata; an environment names the system call that fails, if any.
  \<^item> \<open>Client_Auth\<close> (\<open>client_auth.rs\<close>): proof messages and records, credentials, the allowlist in
    memory, the access gate and the Finished checks.
  \<^item> \<open>Client_Allowlist\<close> (\<open>client_auth.rs\<close>): credential, enrollment and allowlist files and the enroll
    and revoke transactions. JSON and hexadecimal are the parameter \<open>auth_documents\<close> with
    \<open>documents_ok\<close>; \<open>registry\<close> is the map an allowlist stands for.
  \<^item> \<open>Session_Frames\<close> (\<open>session.rs\<close>, \<open>volume_guard.rs\<close>): sending and receiving encrypted frames.
  \<^item> \<open>Session_Handshake\<close> (\<open>session.rs\<close>): pins, transcripts and both roles of the handshake as
    programs on byte streams, which return what they wrote, their result and the input they left.
  \<^item> \<open>Session_Agreement\<close>: the two roles together.
  \<^item> \<open>Session_Sample\<close>: concrete parameters. \<open>Session_Properties\<close> and \<open>Allowlist_Properties\<close>: the
    properties, with instances on them.

  \<^bold>\<open>What the lemmas show\<close>

  Every validation loop of the signed-policy code has a declarative predicate that it decides
  (\<open>keyset_valid\<close>, \<open>policy_valid\<close>, \<open>dns_name\<close>, \<open>keys_rotate\<close>, \<open>pins_rotate\<close>); decoders accept exactly
  the canonical encodings; \<open>verify_bundle\<close> accepts exactly the authentic bundles; along every
  history of accepted updates nothing rolls back or forks, and keys and pins outlive their
  retirement by the rotation overlap. The store refines those updates on disk.

  Frames, hello messages and variable-length integers have exactly one encoding. An honest
  client and server finish the handshake with mirrored keys and deliver each other's messages
  in order; a role that accepts has verified its peer's proofs over the whole transcript; a
  server shows nothing but its access proof to a peer without an enrolled secret; whatever an
  attacker presents, a receiver accepts a prefix of what was sent. Enrolling and revoking
  refine insertion into and removal from a registry, and an interrupted transaction leaves
  the old file or the complete new one.

  \<^bold>\<open>Bounds\<close>

  No definition needs fuel: every loop of the modelled code is a structural recursion or has a
  termination proof (the halving window of the binary search, the shrinking value of
  \<open>write_uvarint\<close>). Nonce counters, sizes and estimates are words; the theorems state where they
  cannot wrap.

  \<^bold>\<open>Not modelled\<close>

  Message texts of errors are constructors. Timing, zeroization and asynchronous scheduling
  have no counterpart: a stream is the sequence of its bytes. The issuer tool, the server key
  file, stream multiplexing, camouflage and carriers, endpoint selection, rule sets, DNS and
  route handling, host guards, the REALITY server, measurement and the programs themselves
  are not yet modelled.
\<close>

end
